(* ===== verification/Prelude.thy ===== *)
theory Prelude
  imports Main "HOL-Library.Word" "HOL-Library.Sublist" "HOL-Library.Monad_Syntax"
begin

text \<open>
  Shared vocabulary of the development: the machine types of the Go program, Go strings as
  byte sequences, little-endian words, slices of byte buffers, and the lemmas on them that the
  component theories use. Go's \<open>byte\<close>, \<open>uint16\<close>, \<open>uint32\<close> and \<open>uint64\<close> are words of their
  width; a Go \<open>string\<close> is a \<open>char list\<close>, one \<open>char\<close> for each byte.
\<close>

section \<open>Machine types\<close>

type_synonym byte = "8 word"
type_synonym u8 = "8 word"
type_synonym u16 = "16 word"
type_synonym u32 = "32 word"
type_synonym u64 = "64 word"

text \<open>
  A \<open>float32\<close> is only ever stored and transmitted, through \<open>math.Float32bits\<close>; it is modelled
  by its bit pattern.
\<close>

type_synonym f32 = "32 word"

text \<open>The collections that proofs about one layer of the program share.\<close>

named_theorems wire_simps \<open>evaluation of the archive primitives\<close>
named_theorems nix_simps \<open>evaluation of the daemon-protocol readers and writers\<close>
named_theorems pool_simps \<open>evaluation of the pool operations\<close>

section \<open>Strings as bytes\<close>

definition bytes_of :: "string \<Rightarrow> byte list" where
  "bytes_of s = map of_char s"

definition string_of :: "byte list \<Rightarrow> string" where
  "string_of bs = map (\<lambda>b. char_of (unat b)) bs"

lemma length_bytes_of [simp]: "length (bytes_of s) = length s"
  by (simp add: bytes_of_def)

lemma length_string_of [simp]: "length (string_of bs) = length bs"
  by (simp add: string_of_def)

lemma bytes_of_Nil [simp]: "bytes_of [] = []"
  by (simp add: bytes_of_def)

lemma bytes_of_Cons [simp]: "bytes_of (c # s) = of_char c # bytes_of s"
  by (simp add: bytes_of_def)

lemma bytes_of_append [simp]: "bytes_of (s @ t) = bytes_of s @ bytes_of t"
  by (simp add: bytes_of_def)

lemma bytes_of_Nil_iff [simp]: "bytes_of s = [] \<longleftrightarrow> s = []"
  by (simp add: bytes_of_def)

lemma unat_of_char [simp]: "unat (of_char c :: byte) = of_char c"
proof -
  have "of_char c mod (256 :: nat) = of_char c" by simp
  then have "of_char c < (256 :: nat)" by (metis mod_less_divisor zero_less_numeral)
  moreover have "(of_char c :: byte) = of_nat (of_char c)" by (simp only: of_nat_of_char)
  ultimately show ?thesis by (simp add: unat_of_nat)
qed

lemma char_of_of_char_byte [simp]: "char_of (unat (of_char c :: byte)) = c"
  by simp

lemma of_char_char_of_byte [simp]: "(of_char (char_of (unat b)) :: byte) = b"
proof -
  have "unat b < 256" using unsigned_less [of b, where ?'a = nat] by simp
  then have "unat (of_char (char_of (unat b)) :: byte) = unat b" by simp
  then show ?thesis by (simp only: word_unat_eq_iff)
qed

lemma string_of_bytes_of [simp]: "string_of (bytes_of s) = s"
  by (induction s) (simp_all add: bytes_of_def string_of_def)

lemma bytes_of_string_of [simp]: "bytes_of (string_of bs) = bs"
  by (induction bs) (simp_all add: bytes_of_def string_of_def of_char_char_of_byte)

lemma bytes_of_inject [simp]: "bytes_of s = bytes_of t \<longleftrightarrow> s = t"
  by (metis string_of_bytes_of)

section \<open>Little-endian words\<close>

text \<open>
  \<open>binary.LittleEndian.PutUintN\<close> writes the low byte first; \<open>le_bytes n w\<close> are the \<open>n\<close> bytes it
  writes and \<open>le_word\<close> is what \<open>binary.LittleEndian.UintN\<close> reads back.
\<close>

fun le_bytes :: "nat \<Rightarrow> 'a::len word \<Rightarrow> byte list" where
  "le_bytes 0 w = []"
| "le_bytes (Suc n) w = ucast w # le_bytes n (drop_bit 8 w)"

fun le_word :: "byte list \<Rightarrow> 'a::len word" where
  "le_word [] = 0"
| "le_word (b # bs) = or (ucast b) (push_bit 8 (le_word bs))"

lemma length_le_bytes [simp]: "length (le_bytes n w) = n"
  by (induction n arbitrary: w) simp_all

lemma bit_le_word_Cons:
  "bit (le_word (b # bs) :: 'a::len word) i \<longleftrightarrow>
     i < LENGTH('a) \<and> (if i < 8 then bit b i else bit (le_word bs :: 'a word) (i - 8))"
  by (auto simp: bit_or_iff bit_push_bit_iff bit_ucast_iff dest: bit_imp_le_length)

lemma le_word_le_bytes_take:
  "(le_word (le_bytes n w) :: 'a::len word) = take_bit (8 * n) w"
proof (induction n arbitrary: w)
  case 0
  then show ?case by simp
next
  case (Suc n)
  show ?case
  proof (rule bit_word_eqI)
    fix i assume "i < LENGTH('a)"
    then show "bit (le_word (le_bytes (Suc n) w) :: 'a word) i = bit (take_bit (8 * Suc n) w) i"
      unfolding le_bytes.simps bit_le_word_Cons Suc.IH
      by (auto simp: bit_take_bit_iff bit_drop_bit_eq bit_ucast_iff)
  qed
qed

lemma le_word_le_bytes:
  "LENGTH('a) \<le> 8 * n \<Longrightarrow> le_word (le_bytes n w) = (w :: 'a::len word)"
proof -
  assume "LENGTH('a) \<le> 8 * n"
  then have "take_bit (8 * n) w = w"
    by (auto intro!: bit_word_eqI simp: bit_take_bit_iff)
  then show ?thesis by (simp add: le_word_le_bytes_take)
qed

lemma le_word_le_bytes_16 [simp]: "le_word (le_bytes 2 w) = (w :: u16)"
  by (rule le_word_le_bytes) simp

lemma le_word_le_bytes_32 [simp]: "le_word (le_bytes 4 w) = (w :: u32)"
  by (rule le_word_le_bytes) simp

lemma le_word_le_bytes_64 [simp]: "le_word (le_bytes 8 w) = (w :: u64)"
  by (rule le_word_le_bytes) simp

section \<open>Slices of a buffer\<close>

definition zeros :: "nat \<Rightarrow> byte list" where
  "zeros n = replicate n 0"

definition slice :: "nat \<Rightarrow> nat \<Rightarrow> byte list \<Rightarrow> byte list" where
  "slice p n b = take n (drop p b)"

definition splice :: "nat \<Rightarrow> byte list \<Rightarrow> byte list \<Rightarrow> byte list" where
  "splice p xs b = take p b @ xs @ drop (p + length xs) b"

lemma length_zeros [simp]: "length (zeros n) = n"
  by (simp add: zeros_def)

lemma zeros_0 [simp]: "zeros 0 = []"
  by (simp add: zeros_def)

lemma zeros_add: "zeros (m + n) = zeros m @ zeros n"
  by (simp add: zeros_def replicate_add)

lemma take_zeros [simp]: "take m (zeros n) = zeros (min m n)"
  by (simp add: zeros_def)

lemma drop_zeros [simp]: "drop m (zeros n) = zeros (n - m)"
  by (simp add: zeros_def)

lemma length_slice [simp]: "p + n \<le> length b \<Longrightarrow> length (slice p n b) = n"
  by (simp add: slice_def)

lemma slice_0 [simp]: "slice p 0 b = []"
  by (simp add: slice_def)

lemma slice_slice:
  "i + m \<le> n \<Longrightarrow> slice i m (slice p n b) = slice (p + i) m b"
  by (simp add: slice_def take_drop min_def add.commute)

lemma slice_add: "slice p (m + n) b = slice p m b @ slice (p + m) n b"
  by (simp add: slice_def take_add add.commute)

lemma length_splice [simp]: "p + length xs \<le> length b \<Longrightarrow> length (splice p xs b) = length b"
  by (simp add: splice_def)

lemma slice_splice_same [simp]:
  "p + length xs \<le> length b \<Longrightarrow> slice p (length xs) (splice p xs b) = xs"
  by (simp add: splice_def slice_def)

lemma slice_splice_before:
  "q + n \<le> p \<Longrightarrow> p + length xs \<le> length b \<Longrightarrow> slice q n (splice p xs b) = slice q n b"
  by (simp add: splice_def slice_def min_def) (simp add: take_drop min_def)

lemma slice_splice_after:
  assumes "p + length xs \<le> q" and "p + length xs \<le> length b"
  shows "slice q n (splice p xs b) = slice q n b"
proof -
  have "drop q (splice p xs b) = drop q b"
    using assms by (simp add: splice_def)
  then show ?thesis by (simp add: slice_def)
qed

lemma splice_same_slice:
  assumes "p + n \<le> length b" and "slice p n b = xs"
  shows "splice p xs b = b"
proof -
  have "length xs = n" using assms by auto
  then have "drop (p + length xs) b = drop n (drop p b)" by (simp add: add.commute)
  then have "xs @ drop (p + length xs) b = drop p b"
    using assms(2) by (simp only: slice_def flip: assms(2)) (metis append_take_drop_id)
  then show ?thesis by (simp add: splice_def)
qed

lemma splice_splice_adjacent:
  assumes "p + length xs + length ys \<le> length b"
  shows "splice (p + length xs) ys (splice p xs b) = splice p (xs @ ys) b"
proof -
  have "take (p + length xs) (splice p xs b) = take p b @ xs"
    using assms by (simp add: splice_def)
  moreover have "drop (p + length xs + length ys) (splice p xs b) = drop (p + length xs + length ys) b"
    using assms by (simp add: splice_def add.commute add.left_commute)
  ultimately show ?thesis
    by (simp only: splice_def [of "p + length xs"] splice_def [of p "xs @ ys"]) (simp add: add.assoc)
qed

lemma take_splice: "p \<le> length b \<Longrightarrow> take p (splice p xs b) = take p b"
  by (simp add: splice_def)

lemma prefix_length_le': "prefix a b \<Longrightarrow> length a \<le> length b"
  by (rule prefix_length_le)

lemma slice_prefix:
  "prefix c b \<Longrightarrow> p + n \<le> length c \<Longrightarrow> slice p n b = slice p n c"
  by (auto simp: slice_def prefix_def)

lemma prefix_splice:
  "prefix c a \<Longrightarrow> length c \<le> p \<Longrightarrow> p + length xs \<le> length a \<Longrightarrow> prefix c (splice p xs a)"
  by (auto simp: splice_def prefix_def)

section \<open>Decimal numbers\<close>

fun decimal_rev :: "nat \<Rightarrow> string" where
  "decimal_rev n = (if n < 10 then [char_of (48 + n)] else char_of (48 + n mod 10) # decimal_rev (n div 10))"

declare decimal_rev.simps [simp del]

text \<open>\<open>strconv.FormatUint(n, 10)\<close>.\<close>

definition decimal :: "nat \<Rightarrow> string" where
  "decimal n = rev (decimal_rev n)"

lemma decimal_digits: "c \<in> set (decimal n) \<Longrightarrow> of_char c \<in> {48..57 :: nat}"
proof -
  have "c \<in> set (decimal_rev n) \<Longrightarrow> of_char c \<in> {48..57 :: nat}"
  proof (induction n rule: decimal_rev.induct)
    case (1 n)
    have "n mod 10 < 10" by simp
    then show ?case
      using 1 by (subst (asm) (2) decimal_rev.simps) (auto split: if_splits)
  qed
  then show "c \<in> set (decimal n) \<Longrightarrow> of_char c \<in> {48..57 :: nat}" by (simp add: decimal_def)
qed

lemma decimal_rev_nonempty: "decimal_rev n \<noteq> []"
  by (subst decimal_rev.simps) simp

lemma decimal_rev_inject: "decimal_rev m = decimal_rev n \<Longrightarrow> m = n"
proof (induction m arbitrary: n rule: decimal_rev.induct)
  case (1 m)
  have char: "char_of (48 + i) = (char_of (48 + j) :: char) \<longleftrightarrow> i = j" if "i < 10" "j < 10" for i j :: nat
    using that by (simp add: char_of_eq_iff take_bit_nat_eq_self)
  show ?case
  proof (cases "m < 10")
    case True
    then show ?thesis
      using 1(2) decimal_rev_nonempty [of "n div 10"] char [of m "n mod 10"] char [of m n]
      by (subst (asm) (1 2) decimal_rev.simps) (auto split: if_splits)
  next
    case False
    then have "n \<ge> 10"
      using 1(2) decimal_rev_nonempty [of "m div 10"]
      by (subst (asm) (1 2) decimal_rev.simps) (auto split: if_splits)
    then have "m mod 10 = n mod 10" "decimal_rev (m div 10) = decimal_rev (n div 10)"
      using False 1(2) char [of "m mod 10" "n mod 10"]
      by (subst (asm) (1 2) decimal_rev.simps; simp)+
    moreover from this have "m div 10 = n div 10" using 1(1) [OF False] by blast
    ultimately show ?thesis by (metis mult_div_mod_eq)
  qed
qed

lemma decimal_inject: "decimal m = decimal n \<longleftrightarrow> m = n"
  using decimal_rev_inject by (auto simp: decimal_def)

end
