(* ===== verification/Wire_Codec.thy ===== *)
theory Wire_Codec
  imports Prelude
begin

text \<open>
  The rkyv archive codec of \<open>gradientproto/wire\<close>: the arena and its writers, the primitives,
  strings with the small-string optimisation, vectors, options, struct layouts and the decoder.
  \<open>Arena\<close> and \<open>Decoder\<close> have one field each, the buffer, and are modelled by it. A Go slice or
  index expression out of range panics; the model's result is then \<open>None\<close>. The decoder's buffer
  is taken to have no spare capacity beyond its length (Go bounds a reslice by the capacity).
\<close>

section \<open>Arena\<close>

type_synonym arena = "byte list"

text \<open>
  A \<open>FieldWriter\<close> closure writes a value's fixed-size slot into the arena it captured, at the
  position it is given.
\<close>

type_synonym field_writer = "nat \<Rightarrow> arena \<Rightarrow> arena option"

definition new_arena :: arena where
  "new_arena = []"

definition pad_to :: "nat \<Rightarrow> arena \<Rightarrow> arena" where
  "pad_to align a =
     (if align \<le> 1 then a
      else let rem = length a mod align in
        if rem = 0 then a else a @ zeros (align - rem))"

definition reserve :: "nat \<Rightarrow> nat \<Rightarrow> arena \<Rightarrow> nat \<times> arena" where
  "reserve align sz a = (let a' = pad_to align a in (length a', a' @ zeros sz))"

definition copy_at :: "nat \<Rightarrow> byte list \<Rightarrow> arena \<Rightarrow> arena option" where
  "copy_at pos data a =
     (if pos + length data \<le> length a then Some (splice pos data a) else None)"

definition write_byte_at :: "nat \<Rightarrow> byte \<Rightarrow> arena \<Rightarrow> arena option" where
  "write_byte_at pos b a = (if pos < length a then Some (a[pos := b]) else None)"

text \<open>\<open>PrepareStruct\<close>: each field's writer in turn, at the struct's position plus its offset.\<close>

type_synonym field = "nat \<times> field_writer"

fun prepare_struct :: "field list \<Rightarrow> field_writer" where
  "prepare_struct [] pos a = Some a"
| "prepare_struct ((off, w) # fs) pos a = do { a' \<leftarrow> w (pos + off) a; prepare_struct fs pos a' }"

section \<open>Primitives\<close>

definition put_bool :: "nat \<Rightarrow> bool \<Rightarrow> arena \<Rightarrow> arena option" where
  "put_bool pos v a = (if v then write_byte_at pos 1 a else write_byte_at pos 0 a)"

definition put_u16 :: "nat \<Rightarrow> u16 \<Rightarrow> arena \<Rightarrow> arena option" where
  "put_u16 pos v a = copy_at pos (le_bytes 2 v) a"

definition put_u32 :: "nat \<Rightarrow> u32 \<Rightarrow> arena \<Rightarrow> arena option" where
  "put_u32 pos v a = copy_at pos (le_bytes 4 v) a"

text \<open>\<open>int32\<close> and \<open>uint32\<close>, and \<open>int64\<close> and \<open>uint64\<close>, share their bits: the conversion is the identity.\<close>

definition put_i32 :: "nat \<Rightarrow> u32 \<Rightarrow> arena \<Rightarrow> arena option" where
  "put_i32 pos v a = put_u32 pos v a"

definition put_u64 :: "nat \<Rightarrow> u64 \<Rightarrow> arena \<Rightarrow> arena option" where
  "put_u64 pos v a = copy_at pos (le_bytes 8 v) a"

definition put_f32 :: "nat \<Rightarrow> f32 \<Rightarrow> arena \<Rightarrow> arena option" where
  "put_f32 pos v a = put_u32 pos v a"

definition put_i64 :: "nat \<Rightarrow> u64 \<Rightarrow> arena \<Rightarrow> arena option" where
  "put_i64 pos v a = put_u64 pos v a"

definition put_tag1 :: "nat \<Rightarrow> u8 \<Rightarrow> arena \<Rightarrow> arena option" where
  "put_tag1 pos v a = write_byte_at pos v a"

definition prepare_bool :: "bool \<Rightarrow> field_writer" where
  "prepare_bool v pos a = put_bool pos v a"

definition prepare_u16 :: "u16 \<Rightarrow> field_writer" where
  "prepare_u16 v pos a = put_u16 pos v a"

definition prepare_u32 :: "u32 \<Rightarrow> field_writer" where
  "prepare_u32 v pos a = put_u32 pos v a"

definition prepare_u64 :: "u64 \<Rightarrow> field_writer" where
  "prepare_u64 v pos a = put_u64 pos v a"

definition prepare_f32 :: "f32 \<Rightarrow> field_writer" where
  "prepare_f32 v pos a = put_f32 pos v a"

definition prepare_i64 :: "u64 \<Rightarrow> field_writer" where
  "prepare_i64 v pos a = put_i64 pos v a"

definition prepare_tag1 :: "u8 \<Rightarrow> field_writer" where
  "prepare_tag1 v pos a = put_tag1 pos v a"

text \<open>
  \<open>PrepareTaggedUnion\<close> and \<open>EncodeRoot\<close> take a \<open>uint32\<close> tag and write its low byte.
\<close>

definition prepare_tagged_union :: "u32 \<Rightarrow> field_writer \<Rightarrow> field_writer" where
  "prepare_tagged_union tag fields pos a = do { a' \<leftarrow> put_tag1 pos (ucast tag) a; fields pos a' }"

definition encode_root :: "nat \<Rightarrow> nat \<Rightarrow> u32 \<Rightarrow> field_writer \<Rightarrow> arena \<Rightarrow> byte list option" where
  "encode_root align fixed_size tag fields a =
     (let (root_pos, a1) = reserve align fixed_size a in
      do { a2 \<leftarrow> put_tag1 root_pos (ucast tag) a1; fields root_pos a2 })"

section \<open>Struct layouts\<close>

record layout =
  l_offset :: nat
  l_align :: nat

definition layout_new :: layout where
  "layout_new = \<lparr>l_offset = 0, l_align = 0\<rparr>"

text \<open>\<open>Layout.Field\<close> returns the field's offset and updates the layout in place.\<close>

definition layout_field :: "nat \<Rightarrow> nat \<Rightarrow> layout \<Rightarrow> nat \<times> layout" where
  "layout_field align sz l =
     (let al = (if align > l_align l then align else l_align l);
          rem = l_offset l mod align;
          off = (if align > 1 \<and> rem \<noteq> 0 then l_offset l + (align - rem) else l_offset l)
      in (off, \<lparr>l_offset = off + sz, l_align = al\<rparr>))"

definition layout_size :: "layout \<Rightarrow> nat" where
  "layout_size l =
     (if l_align l \<le> 1 then l_offset l
      else let rem = l_offset l mod l_align l in
        if rem \<noteq> 0 then l_offset l + (l_align l - rem) else l_offset l)"

definition layout_align :: "layout \<Rightarrow> nat" where
  "layout_align l = (if l_align l = 0 then 1 else l_align l)"

definition tag_field :: layout where
  "tag_field = snd (layout_field 1 1 layout_new)"

text \<open>The offsets of a run of \<open>Field\<close> calls, and the layout after them.\<close>

fun layout_fields :: "(nat \<times> nat) list \<Rightarrow> layout \<Rightarrow> nat list \<times> layout" where
  "layout_fields [] l = ([], l)"
| "layout_fields ((al, sz) # fs) l =
     (let (off, l') = layout_field al sz l; (offs, l'') = layout_fields fs l' in (off # offs, l''))"

section \<open>Strings\<close>

definition string_size :: nat where "string_size = 8"
definition string_align :: nat where "string_align = 4"
definition inline_capacity :: nat where "inline_capacity = 8"

definition pad_up :: "nat \<Rightarrow> nat \<Rightarrow> nat" where
  "pad_up n align = (let rem = n mod align in if rem = 0 then n else n + (align - rem))"

unbundle bit_operations_syntax

definition pack_out_of_line_len :: "u32 \<Rightarrow> u32" where
  "pack_out_of_line_len l = (l AND 0x3F) OR 0x80 OR push_bit 2 (l AND NOT 0x3F)"

definition unpack_out_of_line_len :: "u32 \<Rightarrow> u32" where
  "unpack_out_of_line_len raw = (raw AND 0x3F) OR drop_bit 2 (raw AND NOT 0xFF)"

definition inline_repr :: "string \<Rightarrow> byte list" where
  "inline_repr s = bytes_of s @ replicate (8 - length s) 0xFF"

definition prepare_string :: "string \<Rightarrow> arena \<Rightarrow> (field_writer \<times> arena) option" where
  "prepare_string s a =
     (if length s \<le> inline_capacity
      then Some (\<lambda>pos. copy_at pos (inline_repr s), a)
      else let (content_pos, a1) = reserve 4 (pad_up (length s) 4) a in
        do {
          a2 \<leftarrow> copy_at content_pos (bytes_of s) a1;
          Some (\<lambda>pos b. do {
                  b1 \<leftarrow> put_u32 pos (pack_out_of_line_len (of_nat (length s))) b;
                  put_i32 (pos + 4) (word_of_int (int content_pos - int pos)) b1 }, a2)
        })"

section \<open>Vectors\<close>

definition vec_size :: nat where "vec_size = 8"
definition vec_align :: nat where "vec_align = 4"

text \<open>The first loop of \<open>PrepareVec\<close>: prepare elements \<open>i\<close>, \<open>i + 1\<close>, ... (\<open>k\<close> of them).\<close>

fun prepare_elems ::
  "(nat \<Rightarrow> arena \<Rightarrow> (field_writer \<times> arena) option) \<Rightarrow> nat \<Rightarrow> nat \<Rightarrow> arena
     \<Rightarrow> (field_writer list \<times> arena) option" where
  "prepare_elems prep i 0 a = Some ([], a)"
| "prepare_elems prep i (Suc k) a = do {
     (w, a1) \<leftarrow> prep i a;
     (ws, a2) \<leftarrow> prepare_elems prep (Suc i) k a1;
     Some (w # ws, a2) }"

text \<open>Its second loop: each writer at \<open>arrPos + i * elemSize\<close>.\<close>

fun write_elems :: "field_writer list \<Rightarrow> nat \<Rightarrow> nat \<Rightarrow> arena \<Rightarrow> arena option" where
  "write_elems [] pos elem_size a = Some a"
| "write_elems (w # ws) pos elem_size a =
     do { a1 \<leftarrow> w pos a; write_elems ws (pos + elem_size) elem_size a1 }"

definition prepare_vec ::
  "nat \<Rightarrow> nat \<Rightarrow> nat \<Rightarrow> (nat \<Rightarrow> arena \<Rightarrow> (field_writer \<times> arena) option) \<Rightarrow> arena
     \<Rightarrow> (field_writer \<times> arena) option" where
  "prepare_vec n elem_align elem_size prepare_elem a = do {
     (ws, a1) \<leftarrow> prepare_elems prepare_elem 0 n a;
     let (arr_pos, a2) = reserve elem_align (n * elem_size) a1;
     a3 \<leftarrow> write_elems ws arr_pos elem_size a2;
     Some (\<lambda>pos b. do {
             b1 \<leftarrow> put_i32 pos (word_of_int (int arr_pos - int pos)) b;
             put_u32 (pos + 4) (of_nat n) b1 }, a3) }"

section \<open>Options\<close>

definition option_size :: "nat \<Rightarrow> nat \<Rightarrow> nat" where
  "option_size elem_align elem_size = pad_up 1 elem_align + elem_size"

definition prepare_option_none :: field_writer where
  "prepare_option_none pos a = Some a"

definition prepare_option_some :: "nat \<Rightarrow> field_writer \<Rightarrow> field_writer" where
  "prepare_option_some elem_align val pos a =
     do { a1 \<leftarrow> write_byte_at pos 1 a; val (pos + pad_up 1 elem_align) a1 }"

section \<open>Decoder\<close>

text \<open>Positions are Go \<open>int\<close>s: a relative offset is signed, so a target may be negative.\<close>

definition buf_at :: "byte list \<Rightarrow> int \<Rightarrow> byte option" where
  "buf_at b pos = (if 0 \<le> pos \<and> pos < int (length b) then Some (b ! nat pos) else None)"

definition buf_slice :: "byte list \<Rightarrow> int \<Rightarrow> int \<Rightarrow> byte list option" where
  "buf_slice b lo hi =
     (if 0 \<le> lo \<and> lo \<le> hi \<and> hi \<le> int (length b) then Some (slice (nat lo) (nat (hi - lo)) b)
      else None)"

definition dec_bool :: "byte list \<Rightarrow> int \<Rightarrow> bool option" where
  "dec_bool b pos = do { x \<leftarrow> buf_at b pos; Some (x \<noteq> 0) }"

definition dec_u16 :: "byte list \<Rightarrow> int \<Rightarrow> u16 option" where
  "dec_u16 b pos = do { xs \<leftarrow> buf_slice b pos (pos + 2); Some (le_word xs) }"

definition dec_u32 :: "byte list \<Rightarrow> int \<Rightarrow> u32 option" where
  "dec_u32 b pos = do { xs \<leftarrow> buf_slice b pos (pos + 4); Some (le_word xs) }"

text \<open>\<open>I32\<close> and \<open>I64\<close> are used as Go \<open>int\<close>s and signed counts: the result is the signed value.\<close>

definition dec_i32 :: "byte list \<Rightarrow> int \<Rightarrow> int option" where
  "dec_i32 b pos = do { w \<leftarrow> dec_u32 b pos; Some (sint w) }"

definition dec_u64 :: "byte list \<Rightarrow> int \<Rightarrow> u64 option" where
  "dec_u64 b pos = do { xs \<leftarrow> buf_slice b pos (pos + 8); Some (le_word xs) }"

definition dec_f32 :: "byte list \<Rightarrow> int \<Rightarrow> f32 option" where
  "dec_f32 b pos = dec_u32 b pos"

definition dec_i64 :: "byte list \<Rightarrow> int \<Rightarrow> int option" where
  "dec_i64 b pos = do { w \<leftarrow> dec_u64 b pos; Some (sint w) }"

definition dec_tag1 :: "byte list \<Rightarrow> int \<Rightarrow> u8 option" where
  "dec_tag1 b pos = buf_at b pos"

text \<open>
  The inline branch's scan: the offset of the first \<open>0xFF\<close> among the bytes \<open>i\<close> to \<open>7\<close>, and 8 when
  there is none (\<open>k\<close> bytes are left to look at).
\<close>

fun inline_end :: "byte list \<Rightarrow> int \<Rightarrow> nat \<Rightarrow> nat \<Rightarrow> nat option" where
  "inline_end b pos i 0 = Some inline_capacity"
| "inline_end b pos i (Suc k) = do {
     x \<leftarrow> buf_at b (pos + int i);
     if x = 0xFF then Some i else inline_end b pos (Suc i) k }"

definition dec_string :: "byte list \<Rightarrow> int \<Rightarrow> string option" where
  "dec_string b pos = do {
     b0 \<leftarrow> buf_at b pos;
     if b0 AND 0xC0 \<noteq> 0x80 then do {
       e \<leftarrow> inline_end b pos 0 inline_capacity;
       xs \<leftarrow> buf_slice b pos (pos + int e);
       Some (string_of xs) }
     else do {
       raw \<leftarrow> dec_u32 b pos;
       off \<leftarrow> dec_i32 b (pos + 4);
       let start = pos + off;
       xs \<leftarrow> buf_slice b start (start + int (unat (unpack_out_of_line_len raw)));
       Some (string_of xs) } }"

definition vec_len :: "byte list \<Rightarrow> int \<Rightarrow> nat option" where
  "vec_len b pos = do { w \<leftarrow> dec_u32 b (pos + 4); Some (unat w) }"

text \<open>
  \<open>VecEach\<close> calls \<open>decodeElem\<close> on each element; every caller appends the result to a slice, so the
  loop is modelled with the list of results (\<open>k\<close> elements are left, the next is at \<open>pos\<close>).
\<close>

fun dec_elems :: "(byte list \<Rightarrow> int \<Rightarrow> 'v option) \<Rightarrow> byte list \<Rightarrow> int \<Rightarrow> nat \<Rightarrow> nat \<Rightarrow> 'v list option" where
  "dec_elems dec b pos elem_size 0 = Some []"
| "dec_elems dec b pos elem_size (Suc k) = do {
     v \<leftarrow> dec b pos;
     vs \<leftarrow> dec_elems dec b (pos + int elem_size) elem_size k;
     Some (v # vs) }"

definition vec_each :: "nat \<Rightarrow> (byte list \<Rightarrow> int \<Rightarrow> 'v option) \<Rightarrow> byte list \<Rightarrow> int \<Rightarrow> 'v list option" where
  "vec_each elem_size dec b pos = do {
     n \<leftarrow> vec_len b pos;
     if n = 0 then Some []
     else do {
       off \<leftarrow> dec_i32 b pos;
       dec_elems dec b (pos + off) elem_size n } }"

definition option_is_some :: "byte list \<Rightarrow> int \<Rightarrow> bool option" where
  "option_is_some b pos = do { x \<leftarrow> buf_at b pos; Some (x \<noteq> 0) }"

definition option_val_pos :: "int \<Rightarrow> nat \<Rightarrow> int" where
  "option_val_pos pos elem_align = pos + int (pad_up 1 elem_align)"

text \<open>
  The shape of every optional field's decoder (\<open>decodeOptString\<close>, \<open>decodeOptU64\<close>, ...): nothing
  when the tag byte is 0, else the payload's decoder at the payload's position.
\<close>

definition dec_opt :: "nat \<Rightarrow> (byte list \<Rightarrow> int \<Rightarrow> 'v option) \<Rightarrow> byte list \<Rightarrow> int \<Rightarrow> 'v option option" where
  "dec_opt elem_align dec b pos = do {
     some \<leftarrow> option_is_some b pos;
     if \<not> some then Some None
     else do { v \<leftarrow> dec b (option_val_pos pos elem_align); Some (Some v) } }"

end
