(* ===== verification/Wire_Laws.thy ===== *)
theory Wire_Laws
  imports Wire_Codec
begin

text \<open>
  The laws of the archive codec. A prepared value owns content that is already in the arena and a
  slot that its writer fills later, at a position chosen by the enclosing value; \<open>lays_out\<close> states
  what a writer promises about that slot, and the locale \<open>archived\<close> what a \<open>Prepare\<close> function and
  its decoder promise each other. The locale's lemmas give round trips for structs, options,
  vectors and root messages; it is interpreted on every value the worker sends or receives.
\<close>

section \<open>Writers and their slots\<close>

text \<open>
  \<open>lays_out c w sz P\<close>: given the content \<open>c\<close> already in the arena, the writer \<open>w\<close> turns a zeroed
  slot of \<open>sz\<close> bytes behind \<open>c\<close> into an image that depends on the position only, touches nothing
  else, and makes \<open>P\<close> true in every buffer that starts with \<open>c\<close> and holds the image. Buffers are
  bounded by 1 GiB: string lengths are packed into 30 bits and offsets are signed 32-bit (the
  transport's own limit, \<open>MaxMessageSize\<close>, is 8 MiB).
\<close>

definition max_arena :: nat where
  "max_arena = 2 ^ 30"

definition slot_image ::
  "byte list \<Rightarrow> field_writer \<Rightarrow> nat \<Rightarrow> (byte list \<Rightarrow> int \<Rightarrow> bool) \<Rightarrow> (nat \<Rightarrow> byte list) \<Rightarrow> bool" where
  "slot_image c w sz P img \<longleftrightarrow>
     (\<forall>pos. length (img pos) = sz) \<and>
     (\<forall>a pos. length c \<le> pos \<longrightarrow> pos + sz \<le> length a \<longrightarrow> slice pos sz a = zeros sz \<longrightarrow>
        w pos a = Some (splice pos (img pos) a)) \<and>
     (\<forall>b pos. prefix c b \<longrightarrow> length c \<le> pos \<longrightarrow> pos + sz \<le> length b \<longrightarrow> length b \<le> max_arena \<longrightarrow>
        slice pos sz b = img pos \<longrightarrow> P b (int pos))"

definition lays_out :: "byte list \<Rightarrow> field_writer \<Rightarrow> nat \<Rightarrow> (byte list \<Rightarrow> int \<Rightarrow> bool) \<Rightarrow> bool" where
  "lays_out c w sz P \<longleftrightarrow> (\<exists>img. slot_image c w sz P img)"

abbreviation reads :: "(byte list \<Rightarrow> int \<Rightarrow> 'v option) \<Rightarrow> 'v \<Rightarrow> byte list \<Rightarrow> int \<Rightarrow> bool" where
  "reads dec v \<equiv> (\<lambda>b p. dec b p = Some v)"

lemma lays_outI [intro?]: "slot_image c w sz P img \<Longrightarrow> lays_out c w sz P"
  by (auto simp: lays_out_def)

lemma slot_imageI [intro?]:
  assumes "\<And>pos. length (img pos) = sz"
    and "\<And>a pos. length c \<le> pos \<Longrightarrow> pos + sz \<le> length a \<Longrightarrow> slice pos sz a = zeros sz \<Longrightarrow>
      w pos a = Some (splice pos (img pos) a)"
    and "\<And>b pos. prefix c b \<Longrightarrow> length c \<le> pos \<Longrightarrow> pos + sz \<le> length b \<Longrightarrow> length b \<le> max_arena \<Longrightarrow>
      slice pos sz b = img pos \<Longrightarrow> P b (int pos)"
  shows "slot_image c w sz P img"
  unfolding slot_image_def using assms by blast

lemma slot_image_length [simp]: "slot_image c w sz P img \<Longrightarrow> length (img pos) = sz"
  unfolding slot_image_def by blast

lemma slot_image_write:
  "slot_image c w sz P img \<Longrightarrow> length c \<le> pos \<Longrightarrow> pos + sz \<le> length a \<Longrightarrow>
     slice pos sz a = zeros sz \<Longrightarrow> w pos a = Some (splice pos (img pos) a)"
  unfolding slot_image_def by blast

lemma slot_image_read:
  "slot_image c w sz P img \<Longrightarrow> prefix c b \<Longrightarrow> length c \<le> pos \<Longrightarrow> pos + sz \<le> length b \<Longrightarrow>
     length b \<le> max_arena \<Longrightarrow> slice pos sz b = img pos \<Longrightarrow> P b (int pos)"
  unfolding slot_image_def by blast

lemma lays_out_mono:
  assumes "lays_out c w sz P" and "prefix c c'"
  shows "lays_out c' w sz P"
proof -
  from assms(1) obtain img where img: "slot_image c w sz P img"
    by (auto simp: lays_out_def)
  have len: "length c \<le> length c'" using assms(2) by (rule prefix_length_le)
  show ?thesis
  proof (rule lays_outI, rule slot_imageI [of img])
    fix b pos
    assume "prefix c' b" "length c' \<le> pos" "pos + sz \<le> length b" "length b \<le> max_arena"
      "slice pos sz b = img pos"
    then show "P b (int pos)"
      using slot_image_read [OF img] prefix_order.trans [OF assms(2)] len by simp
  qed (use slot_image_write [OF img] img len in auto)
qed

lemma lays_out_weaken:
  assumes "lays_out c w sz P" and "\<And>b p. P b p \<Longrightarrow> Q b p"
  shows "lays_out c w sz Q"
  using assms unfolding lays_out_def slot_image_def by blast

text \<open>Writers that copy constant bytes.\<close>

lemma lays_out_copy:
  assumes "length xs = sz"
    and "\<And>b pos. pos + sz \<le> length b \<Longrightarrow> slice pos sz b = xs \<Longrightarrow> P b (int pos)"
  shows "lays_out c (\<lambda>pos. copy_at pos xs) sz P"
  using assms by (intro lays_outI [of _ _ _ _ "\<lambda>_. xs"] slot_imageI) (auto simp: copy_at_def)

lemma splice_singleton: "pos < length a \<Longrightarrow> splice pos [x] a = a[pos := x]"
  by (simp add: splice_def upd_conv_take_nth_drop)

lemma write_byte_at_copy: "write_byte_at pos x = copy_at pos [x]"
  by (rule ext) (simp add: write_byte_at_def copy_at_def splice_singleton Suc_le_eq)

lemma slice_1_nth: "pos < length b \<Longrightarrow> slice pos 1 b = [b ! pos]"
  by (simp add: slice_def take_Suc hd_drop_conv_nth)

lemma lays_out_byte:
  assumes "\<And>b pos. pos < length b \<Longrightarrow> b ! pos = x \<Longrightarrow> P b (int pos)"
  shows "lays_out c (\<lambda>pos. write_byte_at pos x) 1 P"
proof (unfold write_byte_at_copy, rule lays_out_copy)
  fix b pos assume "pos + 1 \<le> length b" "slice pos 1 b = [x]"
  then show "P b (int pos)" using assms slice_1_nth [of pos b] by simp
qed simp

lemma buf_slice_nat:
  "0 \<le> n \<Longrightarrow> pos + nat n \<le> length b \<Longrightarrow> buf_slice b (int pos) (int pos + n) = Some (slice pos (nat n) b)"
  by (auto simp: buf_slice_def)

lemma buf_at_nat: "pos < length b \<Longrightarrow> buf_at b (int pos) = Some (b ! pos)"
  by (simp add: buf_at_def)

section \<open>Primitives\<close>

lemma lays_out_u16: "lays_out c (prepare_u16 v) 2 (reads dec_u16 v)"
  unfolding prepare_u16_def put_u16_def
  by (rule lays_out_copy) (simp_all add: dec_u16_def buf_slice_nat)

lemma lays_out_u32: "lays_out c (prepare_u32 v) 4 (reads dec_u32 v)"
  unfolding prepare_u32_def put_u32_def
  by (rule lays_out_copy) (simp_all add: dec_u32_def buf_slice_nat)

lemma lays_out_u64: "lays_out c (prepare_u64 v) 8 (reads dec_u64 v)"
  unfolding prepare_u64_def put_u64_def
  by (rule lays_out_copy) (simp_all add: dec_u64_def buf_slice_nat)

lemma lays_out_f32: "lays_out c (prepare_f32 v) 4 (reads dec_f32 v)"
  using lays_out_u32 by (simp add: prepare_f32_def [abs_def] put_f32_def prepare_u32_def [abs_def] dec_f32_def)

lemma lays_out_i64: "lays_out c (prepare_i64 v) 8 (reads dec_u64 v)"
  using lays_out_u64 by (simp add: prepare_i64_def [abs_def] put_i64_def prepare_u64_def [abs_def])

lemma lays_out_bool: "lays_out c (prepare_bool v) 1 (reads dec_bool v)"
proof -
  have "prepare_bool v = (\<lambda>pos. write_byte_at pos (if v then 1 else 0))"
    by (rule ext)+ (simp add: prepare_bool_def put_bool_def)
  then show ?thesis
    by (simp only:) (rule lays_out_byte, auto simp: dec_bool_def buf_at_nat)
qed

lemma lays_out_tag1: "lays_out c (prepare_tag1 v) 1 (reads dec_tag1 v)"
proof -
  have "prepare_tag1 v = (\<lambda>pos. write_byte_at pos v)"
    by (rule ext)+ (simp add: prepare_tag1_def put_tag1_def)
  then show ?thesis
    by (simp only:) (rule lays_out_byte, auto simp: dec_tag1_def buf_at_nat)
qed


lemmas lays_out_byte_sized =
  lays_out_bool lays_out_tag1 lays_out_bool [unfolded One_nat_def] lays_out_tag1 [unfolded One_nat_def]

section \<open>Structs\<close>

text \<open>
  The fields of a struct, each with its offset, size, writer and what its slot means, in ascending
  order and without overlap between the offsets \<open>lo\<close> and \<open>hi\<close>.
\<close>

type_synonym 'w slot_spec = "nat \<times> nat \<times> 'w \<times> (byte list \<Rightarrow> int \<Rightarrow> bool)"
type_synonym field_spec = "field_writer slot_spec"

fun fields_fit :: "nat \<Rightarrow> 'w slot_spec list \<Rightarrow> nat \<Rightarrow> bool" where
  "fields_fit lo [] hi \<longleftrightarrow> lo \<le> hi"
| "fields_fit lo ((off, sz, w, P) # fs) hi \<longleftrightarrow> lo \<le> off \<and> fields_fit (off + sz) fs hi"

definition fields_laid_out :: "byte list \<Rightarrow> field_spec list \<Rightarrow> bool" where
  "fields_laid_out c fs \<longleftrightarrow> (\<forall>(off, sz, w, P) \<in> set fs. lays_out c w sz P)"

definition fields_hold :: "'w slot_spec list \<Rightarrow> byte list \<Rightarrow> int \<Rightarrow> bool" where
  "fields_hold fs b p \<longleftrightarrow> (\<forall>(off, sz, w, P) \<in> set fs. P b (p + int off))"

abbreviation writers_of :: "field_spec list \<Rightarrow> field list" where
  "writers_of fs \<equiv> map (\<lambda>(off, sz, w, P). (off, w)) fs"

lemma fields_laid_out_simps [simp]:
  "fields_laid_out c []"
  "fields_laid_out c ((off, sz, w, P) # fs) \<longleftrightarrow> lays_out c w sz P \<and> fields_laid_out c fs"
  by (auto simp: fields_laid_out_def)

lemma fields_hold_simps [simp]:
  "fields_hold [] b p"
  "fields_hold ((off, sz, w, P) # fs) b p \<longleftrightarrow> P b (p + int off) \<and> fields_hold fs b p"
  by (auto simp: fields_hold_def)

lemma fields_hold_fun:
  "fields_hold [] = (\<lambda>b p. True)"
  "fields_hold ((off, sz, w, P) # fs) = (\<lambda>b p. P b (p + int off) \<and> fields_hold fs b p)"
  by (simp_all add: fun_eq_iff)

lemma prepare_struct_single [simp]: "prepare_struct [(off, w)] pos = w (pos + off)"
proof
  fix a
  show "prepare_struct [(off, w)] pos a = w (pos + off) a"
    by (cases "w (pos + off) a") simp_all
qed

lemma fields_laid_out_mono:
  "fields_laid_out c fs \<Longrightarrow> prefix c c' \<Longrightarrow> fields_laid_out c' fs"
  by (fastforce simp: fields_laid_out_def intro: lays_out_mono)

lemma fields_fit_le: "fields_fit lo fs hi \<Longrightarrow> lo \<le> hi"
  by (induction lo fs hi rule: fields_fit.induct) auto

lemma splice_extend_left:
  assumes "slice q n a = xs" and "q + n = p" and "p + length ys \<le> length a"
  shows "splice p ys a = splice q (xs @ ys) a"
proof -
  have "take p a = take q a @ xs"
    using assms(1,2) by (auto simp: slice_def take_add)
  moreover have "length xs = n" using assms by auto
  ultimately show ?thesis
    by (simp add: splice_def add.assoc flip: assms(2))
qed

definition struct_image ::
  "byte list \<Rightarrow> nat \<Rightarrow> field_spec list \<Rightarrow> nat \<Rightarrow> (nat \<Rightarrow> byte list) \<Rightarrow> bool" where
  "struct_image c lo fs hi img \<longleftrightarrow>
     (\<forall>pos. length (img pos) = hi - lo) \<and>
     (\<forall>a pos. length c \<le> pos \<longrightarrow> pos + hi \<le> length a \<longrightarrow>
        slice (pos + lo) (hi - lo) a = zeros (hi - lo) \<longrightarrow>
        prepare_struct (writers_of fs) pos a = Some (splice (pos + lo) (img pos) a)) \<and>
     (\<forall>b pos. prefix c b \<longrightarrow> length c \<le> pos \<longrightarrow> pos + hi \<le> length b \<longrightarrow> length b \<le> max_arena \<longrightarrow>
        slice (pos + lo) (hi - lo) b = img pos \<longrightarrow> fields_hold fs b (int pos))"

lemma struct_image_Nil: "lo \<le> hi \<Longrightarrow> struct_image c lo [] hi (\<lambda>_. zeros (hi - lo))"
  by (auto simp: struct_image_def intro!: splice_same_slice [where n = "hi - lo", symmetric])

lemma struct_image_Cons:
  assumes w: "slot_image c w sz P img1" and rest: "struct_image c (off + sz) fs hi img2"
    and le: "lo \<le> off" "off + sz \<le> hi"
  shows "struct_image c lo ((off, sz, w, P) # fs) hi
           (\<lambda>pos. zeros (off - lo) @ img1 (pos + off) @ img2 pos)"
proof -
  have len1: "length (img1 pos) = sz" for pos using w by simp
  have len2: "length (img2 pos) = hi - (off + sz)" for pos using rest by (simp add: struct_image_def)
  have split: "slice (pos + lo) (hi - lo) b =
      slice (pos + lo) (off - lo) b @ slice (pos + off) sz b @ slice (pos + off + sz) (hi - (off + sz)) b"
    for pos b
    using le slice_add [of "pos + lo" "off - lo" "sz + (hi - (off + sz))" b]
      slice_add [of "pos + off" sz "hi - (off + sz)" b] by simp
  have zsplit: "zeros (hi - lo) = zeros (off - lo) @ zeros sz @ zeros (hi - (off + sz))"
    using le zeros_add [of "off - lo" "sz + (hi - (off + sz))"] zeros_add [of sz "hi - (off + sz)"]
    by simp
  have wr: "prepare_struct (writers_of ((off, sz, w, P) # fs)) pos a =
      Some (splice (pos + lo) (zeros (off - lo) @ img1 (pos + off) @ img2 pos) a)"
    if a: "length c \<le> pos" "pos + hi \<le> length a" "slice (pos + lo) (hi - lo) a = zeros (hi - lo)" for a pos
  proof -
    have z: "slice (pos + lo) (off - lo) a = zeros (off - lo)" "slice (pos + off) sz a = zeros sz"
      "slice (pos + off + sz) (hi - (off + sz)) a = zeros (hi - (off + sz))"
      using a le unfolding split zsplit by (simp_all add: append_eq_append_conv)
    let ?a1 = "splice (pos + off) (img1 (pos + off)) a"
    have w1: "w (pos + off) a = Some ?a1"
      by (rule slot_image_write [OF w]) (use a le z in auto)
    have z1: "slice (pos + (off + sz)) (hi - (off + sz)) ?a1 = zeros (hi - (off + sz))"
      using a le z(3) len1 by (subst slice_splice_after) (auto simp: add.assoc)
    have "prepare_struct (writers_of fs) pos ?a1 = Some (splice (pos + (off + sz)) (img2 pos) ?a1)"
      using rest a le z1 len1 unfolding struct_image_def by simp
    also have "splice (pos + (off + sz)) (img2 pos) ?a1 = splice (pos + off) (img1 (pos + off) @ img2 pos) a"
      using splice_splice_adjacent [of "pos + off" "img1 (pos + off)" "img2 pos" a] a le len1 len2
      by (simp add: add.assoc)
    also have "\<dots> = splice (pos + lo) (zeros (off - lo) @ img1 (pos + off) @ img2 pos) a"
      by (rule splice_extend_left [OF z(1)]) (use a le len1 len2 in auto)
    finally show ?thesis using w1 by simp
  qed
  have rd: "fields_hold ((off, sz, w, P) # fs) b (int pos)"
    if b: "prefix c b" "length c \<le> pos" "pos + hi \<le> length b" "length b \<le> max_arena"
      "slice (pos + lo) (hi - lo) b = zeros (off - lo) @ img1 (pos + off) @ img2 pos" for b pos
  proof -
    have "slice (pos + off) sz b = img1 (pos + off)" "slice (pos + (off + sz)) (hi - (off + sz)) b = img2 pos"
      using b le len1 len2 unfolding split by (simp_all add: append_eq_append_conv add.assoc)
    then show ?thesis
      using slot_image_read [OF w b(1), of "pos + off"] rest b le unfolding struct_image_def by simp
  qed
  show ?thesis
    using wr rd len1 len2 le unfolding struct_image_def by simp
qed

lemma struct_image_exists:
  "fields_fit lo fs hi \<Longrightarrow> fields_laid_out c fs \<Longrightarrow> \<exists>img. struct_image c lo fs hi img"
proof (induction lo fs hi rule: fields_fit.induct)
  case (1 lo hi)
  then show ?case using struct_image_Nil by auto
next
  case (2 lo off sz w P fs hi)
  then obtain img2 where "struct_image c (off + sz) fs hi img2" by auto
  moreover from 2 obtain img1 where "slot_image c w sz P img1" by (auto simp: lays_out_def)
  ultimately show ?case
    using 2 fields_fit_le struct_image_Cons by fastforce
qed

theorem lays_out_struct:
  assumes "fields_fit 0 fs sz" and "fields_laid_out c fs"
  shows "lays_out c (prepare_struct (writers_of fs)) sz (fields_hold fs)"
proof -
  from assms obtain img where img: "struct_image c 0 fs sz img"
    using struct_image_exists by blast
  then have "slot_image c (prepare_struct (writers_of fs)) sz (fields_hold fs) img"
    unfolding struct_image_def slot_image_def by simp
  then show ?thesis ..
qed


section \<open>Tagged unions and options\<close>

lemma prepare_tagged_union_struct:
  "prepare_tagged_union tag (prepare_struct fs) = prepare_struct ((0, prepare_tag1 (ucast tag)) # fs)"
  by (rule ext)+ (simp add: prepare_tagged_union_def prepare_tag1_def)

lemma lays_out_tagged_union:
  assumes "fields_fit 1 fs sz" and "fields_laid_out c fs"
  shows "lays_out c (prepare_tagged_union tag (prepare_struct (writers_of fs))) sz
           (\<lambda>b p. dec_tag1 b p = Some (ucast tag) \<and> fields_hold fs b p)"
proof -
  let ?t = "(0, 1, prepare_tag1 (ucast tag), reads dec_tag1 (ucast tag))"
  have "lays_out c (prepare_struct (writers_of (?t # fs))) sz (fields_hold (?t # fs))"
    by (rule lays_out_struct) (use assms in \<open>auto simp: lays_out_byte_sized\<close>)
  then show ?thesis by (simp add: prepare_tagged_union_struct fields_hold_fun)
qed

lemma option_size_pos: "option_size al sz = pad_up 1 al + sz"
  by (simp add: option_size_def)

lemma pad_up_ge: "n \<le> pad_up n al"
  by (simp add: pad_up_def Let_def)

lemma lays_out_none:
  "lays_out c prepare_option_none (option_size al sz) (reads (dec_opt al dec) None)"
proof (rule lays_outI, rule slot_imageI [of "\<lambda>_. zeros (option_size al sz)"])
  fix a :: arena and pos
  assume "pos + option_size al sz \<le> length a"
    "slice pos (option_size al sz) a = zeros (option_size al sz)"
  then show "prepare_option_none pos a = Some (splice pos (zeros (option_size al sz)) a)"
    by (simp add: prepare_option_none_def splice_same_slice)
next
  fix b :: "byte list" and pos
  assume len: "pos + option_size al sz \<le> length b"
    and sl: "slice pos (option_size al sz) b = zeros (option_size al sz)"
  have ge: "1 \<le> option_size al sz" using pad_up_ge [of 1 al] by (simp add: option_size_def)
  then have "slice pos 1 b = zeros 1"
    using slice_slice [of 0 1 "option_size al sz" pos b] sl by (simp add: slice_def [of 0])
  then have "b ! pos = 0"
    using slice_1_nth [of pos b] len ge by (simp add: zeros_def)
  then show "dec_opt al dec b (int pos) = Some None"
    using len ge by (simp add: dec_opt_def option_is_some_def buf_at_nat)
qed simp

lemma lays_out_some:
  assumes "lays_out c w sz (reads dec v)"
  shows "lays_out c (prepare_option_some al w) (option_size al sz) (reads (dec_opt al dec) (Some v))"
proof -
  let ?t = "(0, 1, prepare_tag1 1, reads dec_tag1 1)"
  let ?v = "(pad_up 1 al, sz, w, reads dec v)"
  have "lays_out c (prepare_struct (writers_of [?t, ?v])) (option_size al sz) (fields_hold [?t, ?v])"
    by (rule lays_out_struct) (use assms pad_up_ge [of 1 al] in \<open>auto simp: lays_out_byte_sized option_size_def\<close>)
  moreover have "prepare_struct (writers_of [?t, ?v]) = prepare_option_some al w"
    by (rule ext)+ (simp add: prepare_option_some_def prepare_tag1_def put_tag1_def)
  ultimately show ?thesis
    by (auto elim!: lays_out_weaken simp: dec_opt_def option_is_some_def option_val_pos_def dec_tag1_def)
qed

section \<open>Roots\<close>

lemma pad_to_prefix: "prefix a (pad_to al a)"
  by (simp add: pad_to_def Let_def)

lemma pad_to_aligned: "0 < al \<Longrightarrow> length (pad_to al a) mod al = 0"
proof (cases "al \<le> 1 \<or> length a mod al = 0")
  case True
  assume "0 < al"
  with True show ?thesis by (auto simp: pad_to_def Let_def le_Suc_eq)
next
  case False
  assume "0 < al"
  then have "length a mod al < al" by simp
  moreover have "length a = al * (length a div al) + length a mod al" by simp
  ultimately have "length a + (al - length a mod al) = al * (length a div al) + al" by linarith
  then have "(length a + (al - length a mod al)) mod al = 0" by simp
  with False show ?thesis by (simp add: pad_to_def Let_def)
qed

lemma reserve_prefix: "reserve al sz a = (p, a') \<Longrightarrow> prefix a a'"
  using pad_to_prefix [of a al] by (auto simp: reserve_def Let_def)

text \<open>
  The root of a message: the slot is the last \<open>sz\<close> bytes of the buffer, aligned, with the
  tag in its first byte, and every field of the message can be read at its offset.
\<close>

lemma encode_root_fields:
  assumes fit: "fields_fit 1 fs sz" and fields: "fields_laid_out c fs" and al: "0 < al"
  obtains out where "encode_root al sz tag (prepare_struct (writers_of fs)) c = Some out"
    and "prefix c out"
    and "sz \<le> length out" and "(length out - sz) mod al = 0"
    and "length out \<le> max_arena \<Longrightarrow> dec_tag1 out (int (length out - sz)) = Some (ucast tag)"
    and "length out \<le> max_arena \<Longrightarrow> fields_hold fs out (int (length out - sz))"
proof -
  let ?a = "pad_to al c" and ?b = "pad_to al c @ zeros sz"
  from lays_out_tagged_union [OF fit fields] obtain img where
    img: "slot_image c (prepare_tagged_union tag (prepare_struct (writers_of fs))) sz
            (\<lambda>b p. dec_tag1 b p = Some (ucast tag) \<and> fields_hold fs b p) img"
    unfolding lays_out_def by blast
  have pre: "prefix c ?a" by (rule pad_to_prefix)
  then have le: "length c \<le> length ?a" by (rule prefix_length_le)
  let ?out = "splice (length ?a) (img (length ?a)) ?b"
  have len: "length ?out = length ?a + sz" using img by simp
  have "prepare_tagged_union tag (prepare_struct (writers_of fs)) (length ?a) ?b = Some ?out"
    by (rule slot_image_write [OF img le]) (simp_all add: slice_def)
  then have "encode_root al sz tag (prepare_struct (writers_of fs)) c = Some ?out"
    by (simp add: encode_root_def reserve_def Let_def prepare_tagged_union_def)
  moreover have pout: "prefix c ?out"
    by (rule prefix_splice) (use pre le img in auto)
  moreover have "(\<lambda>b p. dec_tag1 b p = Some (ucast tag) \<and> fields_hold fs b p) ?out (int (length ?a))"
    if "length ?out \<le> max_arena"
    by (rule slot_image_read [OF img pout le])
      (use that img slice_splice_same [of "length ?a" "img (length ?a)" ?b] in auto)
  ultimately show ?thesis
    using that [of ?out] len pad_to_aligned [OF al] by simp
qed

section \<open>Strings\<close>

lemma bit_masks:
  "bit (0x3F :: u32) i \<longleftrightarrow> i < 6"
  "bit (0xFF :: u32) i \<longleftrightarrow> i < 8"
  "bit (0x80 :: u32) i \<longleftrightarrow> i = 7"
  "bit (0x80 :: byte) i \<longleftrightarrow> i = 7"
  "bit (0xC0 :: byte) i \<longleftrightarrow> i = 6 \<or> i = 7"
proof -
  have "(0x3F :: u32) = mask 6" "(0xFF :: u32) = mask 8" "(0x80 :: u32) = 2 ^ 7"
    "(0x80 :: byte) = 2 ^ 7" "(0xC0 :: byte) = push_bit 6 (mask 2)"
    by (simp_all add: mask_eq_exp_minus_1 push_bit_eq_mult)
  then show "bit (0x3F :: u32) i \<longleftrightarrow> i < 6" "bit (0xFF :: u32) i \<longleftrightarrow> i < 8"
    "bit (0x80 :: u32) i \<longleftrightarrow> i = 7" "bit (0x80 :: byte) i \<longleftrightarrow> i = 7"
    "bit (0xC0 :: byte) i \<longleftrightarrow> i = 6 \<or> i = 7"
    by (auto simp only: bit_mask_iff bit_exp_iff bit_push_bit_iff) auto
qed

lemma pack_bit:
  "bit (pack_out_of_line_len l) i \<longleftrightarrow>
     i < 32 \<and> (i < 6 \<and> bit l i \<or> i = 7 \<or> 8 \<le> i \<and> bit l (i - 2))"
proof -
  have "i < 32 \<Longrightarrow> 2 \<le> i \<Longrightarrow> i - 2 < 32" by simp
  then show ?thesis
    unfolding pack_out_of_line_len_def bit_or_iff bit_and_iff bit_push_bit_iff bit_not_iff bit_masks
    by (auto simp: possible_bit_def dest: bit_imp_le_length simp del: bit_numeral_word_iff)
qed

lemma unpack_bit:
  "bit (unpack_out_of_line_len r) i \<longleftrightarrow> i < 32 \<and> (i < 6 \<and> bit r i \<or> 6 \<le> i \<and> bit r (i + 2))"
  unfolding unpack_out_of_line_len_def bit_or_iff bit_and_iff bit_drop_bit_eq comp_def bit_not_iff bit_masks
  by (auto simp: possible_bit_def add.commute dest: bit_imp_le_length simp del: bit_numeral_word_iff)

text \<open>Lengths below \<open>2 ^ 30\<close> survive the packing; the low byte carries the out-of-line flag.\<close>

theorem unpack_pack: "unat l < 2 ^ 30 \<Longrightarrow> unpack_out_of_line_len (pack_out_of_line_len l) = l"
proof (rule bit_word_eqI)
  fix i assume "unat l < 2 ^ 30" and i: "i < LENGTH(32)"
  then have "take_bit 30 (unat l) = unat l" by (simp add: take_bit_nat_eq_self)
  then have "bit (unat l) i \<Longrightarrow> i < 30" by (metis bit_take_bit_iff)
  then have "bit l i \<Longrightarrow> i < 30" by (simp add: bit_unsigned_iff)
  then show "bit (unpack_out_of_line_len (pack_out_of_line_len l)) i = bit l i"
    using i by (auto simp: unpack_bit pack_bit)
qed

lemma pack_low_byte: "(ucast (pack_out_of_line_len l) :: byte) AND 0xC0 = 0x80"
proof (rule bit_word_eqI)
  fix i assume "i < LENGTH(8)"
  then show "bit ((ucast (pack_out_of_line_len l) :: byte) AND 0xC0) i = bit (0x80 :: byte) i"
    unfolding bit_and_iff bit_ucast_iff bit_masks pack_bit by auto
qed

text \<open>
  The inline form can only be told from the out-of-line form, and its end be found, when the
  string has no byte \<open>0xFF\<close> and does not start with a UTF-8 continuation byte. Every valid UTF-8
  string is like that; strings longer than 8 bytes are not constrained.
\<close>

definition sso_safe :: "string \<Rightarrow> bool" where
  "sso_safe s \<longleftrightarrow> length s > 8 \<or>
     (0xFF \<notin> set (bytes_of s) \<and> (s \<noteq> [] \<longrightarrow> hd (bytes_of s) AND 0xC0 \<noteq> 0x80))"

lemma slice_nth: "slice p n b = xs \<Longrightarrow> i < n \<Longrightarrow> p + n \<le> length b \<Longrightarrow> b ! (p + i) = xs ! i"
  by (auto simp: slice_def)

lemma inline_end_scan:
  assumes "\<And>j. j < n \<Longrightarrow> b ! (pos + j) \<noteq> 0xFF"
    and "n < 8 \<Longrightarrow> b ! (pos + n) = 0xFF"
    and "n \<le> 8" and "pos + 8 \<le> length b" and "i + k = 8" and "i \<le> n"
  shows "inline_end b (int pos) i k = Some n"
  using assms(5,6)
proof (induction k arbitrary: i)
  case 0
  then show ?case using assms(3) by (simp add: inline_capacity_def)
next
  case (Suc k)
  have at: "buf_at b (int pos + int i) = Some (b ! (pos + i))"
    using Suc.prems assms(4) buf_at_nat [of "pos + i" b] by simp
  show ?case
  proof (cases "i = n")
    case True
    then show ?thesis using Suc.prems assms(2) at by simp
  next
    case False
    then have "i < n" using Suc.prems by simp
    then have "b ! (pos + i) \<noteq> 0xFF" using assms(1) by simp
    moreover have "inline_end b (int pos) (Suc i) k = Some n"
      using Suc.IH [of "Suc i"] Suc.prems \<open>i < n\<close> by simp
    ultimately show ?thesis using at by simp
  qed
qed

text \<open>Inline strings end at their first byte \<open>0xFF\<close>.\<close>

lemma dec_string_inline_truncates:
  assumes len: "length s \<le> 8" and b: "pos + 8 \<le> length b" and sl: "slice pos 8 b = inline_repr s"
    and first: "s \<noteq> [] \<Longrightarrow> hd (bytes_of s) AND 0xC0 \<noteq> 0x80"
  shows "dec_string b (int pos) = Some (string_of (takeWhile (\<lambda>x. x \<noteq> 0xFF) (bytes_of s)))"
proof -
  let ?t = "takeWhile (\<lambda>x. x \<noteq> 0xFF) (bytes_of s)"
  have nth: "b ! (pos + j) = inline_repr s ! j" if "j < 8" for j
    using slice_nth [OF sl that b] .
  have tl: "length ?t \<le> length s" using length_takeWhile_le [of _ "bytes_of s"] by simp
  have content: "b ! (pos + j) = bytes_of s ! j" if "j < length s" for j
    using that len nth [of j] by (simp add: inline_repr_def nth_append)
  have ne: "b ! (pos + j) \<noteq> 0xFF" if "j < length ?t" for j
  proof -
    have "?t ! j \<in> set ?t" using that by simp
    then have "?t ! j \<noteq> 0xFF" by (auto dest: set_takeWhileD [where P = "\<lambda>x. x \<noteq> 0xFF"])
    then show ?thesis using content [of j] that tl by (simp add: takeWhile_nth)
  qed
  have stop: "b ! (pos + length ?t) = 0xFF" if "length ?t < 8"
  proof (cases "length ?t < length s")
    case True
    then show ?thesis
      using content [OF True] nth_length_takeWhile [of "\<lambda>x. x \<noteq> 0xFF" "bytes_of s"] by simp
  next
    case False
    then show ?thesis
      using that tl nth [of "length ?t"] by (simp add: inline_repr_def nth_append)
  qed
  have "b ! pos AND 0xC0 \<noteq> 0x80"
  proof (cases "s = []")
    case True
    then show ?thesis using stop by simp
  next
    case False
    then have "b ! pos = hd (bytes_of s)" using content [of 0] by (simp add: hd_conv_nth)
    then show ?thesis using False first by simp
  qed
  moreover have "slice pos (length ?t) b = ?t"
  proof -
    have "slice pos (length ?t) b = take (length ?t) (slice pos 8 b)"
      using tl len by (simp add: slice_def)
    also have "\<dots> = take (length ?t) (bytes_of s)" using tl by (simp add: sl inline_repr_def)
    finally show ?thesis by (simp flip: takeWhile_eq_take)
  qed
  then have "buf_slice b (int pos) (int pos + int (length ?t)) = Some ?t"
    using buf_slice_nat [of "int (length ?t)" pos b] tl len b by simp
  moreover have "inline_end b (int pos) 0 inline_capacity = Some (length ?t)"
    using inline_end_scan [of "length ?t" b pos 0 8] ne stop tl len b by (simp add: inline_capacity_def)
  ultimately show ?thesis
    using b by (simp add: dec_string_def buf_at_nat)
qed
lemma dec_string_inline:
  assumes "length s \<le> 8" and "sso_safe s" and "pos + 8 \<le> length b" and "slice pos 8 b = inline_repr s"
  shows "dec_string b (int pos) = Some s"
proof -
  have "takeWhile (\<lambda>x. x \<noteq> 0xFF) (bytes_of s) = bytes_of s"
    using assms(1,2) by (auto simp: sso_safe_def takeWhile_eq_all_conv)
  then show ?thesis
    using dec_string_inline_truncates [OF assms(1,3,4)] assms(1,2)
    by (simp only: string_of_bytes_of) (simp add: sso_safe_def)
qed

text \<open>The descriptors of out-of-line strings and of vectors are two 32-bit words.\<close>

lemma two_words:
  assumes "pos + 8 \<le> length a"
  shows "do { b1 \<leftarrow> put_u32 pos x a; put_u32 (pos + 4) y b1 } =
           Some (splice pos (le_bytes 4 x @ le_bytes 4 y) a)"
  using assms splice_splice_adjacent [of pos "le_bytes 4 x" "le_bytes 4 y" a]
  by (simp add: put_u32_def copy_at_def)

lemma read_two_words:
  assumes "pos + 8 \<le> length b" and "slice pos 8 b = le_bytes 4 x @ le_bytes 4 y"
  shows "dec_u32 b (int pos) = Some x" and "dec_u32 b (int pos + 4) = Some y"
proof -
  have *: "slice pos 4 b = le_bytes 4 x" "slice (pos + 4) 4 b = le_bytes 4 y"
    using assms slice_add [of pos 4 4 b] by (simp_all add: append_eq_append_conv)
  show "dec_u32 b (int pos) = Some x"
    using buf_slice_nat [of 4 pos b] assms(1) * by (simp add: dec_u32_def)
  show "dec_u32 b (int pos + 4) = Some y"
    using buf_slice_nat [of 4 "pos + 4" b] assms(1) * by (simp add: dec_u32_def add.commute)
qed

lemma sint_word_of_int_small:
  "\<bar>k\<bar> \<le> 2 ^ 30 \<Longrightarrow> sint (word_of_int k :: u32) = k"
  by (simp add: signed_of_int signed_take_bit_int_eq_self)

lemma sint_offset:
  "p \<le> max_arena \<Longrightarrow> q \<le> max_arena \<Longrightarrow> sint (word_of_int (int p - int q) :: u32) = int p - int q"
  by (rule sint_word_of_int_small) (simp add: max_arena_def)

lemma dec_string_out_of_line:
  assumes len: "8 < length s" and c: "slice cp (length s) b = bytes_of s" "cp + length s \<le> pos"
    and b: "pos + 8 \<le> length b" "length b \<le> max_arena"
    and sl: "slice pos 8 b = le_bytes 4 (pack_out_of_line_len (of_nat (length s)))
               @ le_bytes 4 (word_of_int (int cp - int pos) :: u32)"
  shows "dec_string b (int pos) = Some s"
proof -
  note words = read_two_words [OF b(1) sl]
  let ?l = "of_nat (length s) :: u32"
  have short: "length s < 2 ^ 30" "cp \<le> max_arena" "pos \<le> max_arena"
    using b c(2) len by (auto simp: max_arena_def)
  then have ul: "unat ?l = length s" by (simp add: unat_of_nat)
  have "b ! pos = le_bytes 4 (pack_out_of_line_len ?l) ! 0"
    using slice_nth [OF sl, of 0] b(1) by (simp add: nth_append)
  also have "\<dots> = ucast (pack_out_of_line_len ?l)" by (simp add: numeral_eq_Suc)
  finally have flag: "b ! pos AND 0xC0 = 0x80" by (simp add: pack_low_byte)
  have unp: "unat (unpack_out_of_line_len (pack_out_of_line_len ?l)) = length s"
    using unpack_pack [of ?l] ul short by simp
  have b0: "pos < length b" using b(1) by simp
  have "buf_slice b (int cp) (int cp + int (length s)) = Some (bytes_of s)"
    using buf_slice_nat [of "int (length s)" cp b] b c by simp
  then have "buf_slice b (int cp) (int cp + int (unat (unpack_out_of_line_len (pack_out_of_line_len ?l))))
      = Some (bytes_of s)"
    by (simp only: unp)
  moreover have "dec_i32 b (int pos + 4) = Some (int cp - int pos)"
    unfolding dec_i32_def words(2) using sint_offset short by simp
  ultimately show ?thesis
    unfolding dec_string_def buf_at_nat [OF b0] words(1) Let_def by (simp add: flag)
qed

lemma prepare_string_law:
  assumes ok: "sso_safe s"
  shows "\<exists>w a'. prepare_string s a = Some (w, a') \<and> prefix a a' \<and>
           lays_out a' w string_size (reads dec_string s)"
proof (cases "length s \<le> inline_capacity")
  case True
  then have "lays_out a (\<lambda>pos. copy_at pos (inline_repr s)) 8 (reads dec_string s)"
    using ok dec_string_inline
    by (intro lays_out_copy) (auto simp: inline_repr_def inline_capacity_def)
  then show ?thesis using True by (simp add: prepare_string_def string_size_def)
next
  case False
  then have len: "8 < length s" by (simp add: inline_capacity_def)
  let ?p = "pad_to 4 a" and ?n = "pad_up (length s) 4"
  let ?a2 = "splice (length ?p) (bytes_of s) (?p @ zeros ?n)"
  let ?x = "pack_out_of_line_len (of_nat (length s))"
  let ?img = "\<lambda>pos. le_bytes 4 ?x @ le_bytes 4 (word_of_int (int (length ?p) - int pos) :: u32)"
  let ?w = "\<lambda>pos b. do { b1 \<leftarrow> put_u32 pos ?x b;
                         put_i32 (pos + 4) (word_of_int (int (length ?p) - int pos)) b1 }"
  have n: "length s \<le> ?n" by (rule pad_up_ge)
  have prep: "prepare_string s a = Some (?w, ?a2)"
    using False n by (simp add: prepare_string_def reserve_def Let_def copy_at_def)
  have pre: "prefix a ?a2"
    using pad_to_prefix [of a 4] prefix_length_le [OF pad_to_prefix [of a 4]] n
    by (intro prefix_splice) auto
  have cont: "slice (length ?p) (length s) ?a2 = bytes_of s"
    using slice_splice_same [of "length ?p" "bytes_of s" "?p @ zeros ?n"] n by simp
  have la: "length ?a2 = length ?p + ?n" using n by simp
  have "lays_out ?a2 ?w 8 (reads dec_string s)"
  proof (rule lays_outI, rule slot_imageI [of ?img])
    fix b :: arena and pos
    assume "length ?a2 \<le> pos" "pos + 8 \<le> length b" "slice pos 8 b = zeros 8"
    then show "?w pos b = Some (splice pos (?img pos) b)"
      using two_words [of pos b] by (simp add: put_i32_def)
  next
    fix b :: arena and pos
    assume b: "prefix ?a2 b" "length ?a2 \<le> pos" "pos + 8 \<le> length b" "length b \<le> max_arena"
      and sl: "slice pos 8 b = ?img pos"
    have "slice (length ?p) (length s) b = bytes_of s"
      using slice_prefix [OF b(1), of "length ?p" "length s"] cont la n by simp
    then show "dec_string b (int pos) = Some s"
      using dec_string_out_of_line [OF len _ _ b(3,4) sl] la n b(2) by simp
  qed simp
  then show ?thesis using prep pre by (auto simp: string_size_def)
qed

section \<open>The contract of archived values\<close>

text \<open>
  \<open>prepares m sz P\<close>: run on any arena, \<open>m\<close> only appends content and returns a writer that lays
  out a slot of \<open>sz\<close> bytes meaning \<open>P\<close>. The locale \<open>archived\<close> is the contract between a value's
  \<open>Prepare\<close> function and its decoder: for every value that is \<open>ok\<close>, the decoder reads back what
  was prepared.
\<close>

type_synonym preparation = "arena \<Rightarrow> (field_writer \<times> arena) option"

definition prepares :: "preparation \<Rightarrow> nat \<Rightarrow> (byte list \<Rightarrow> int \<Rightarrow> bool) \<Rightarrow> bool" where
  "prepares m sz P \<longleftrightarrow> (\<forall>a. \<exists>w a'. m a = Some (w, a') \<and> prefix a a' \<and> lays_out a' w sz P)"

lemma preparesE:
  assumes "prepares m sz P"
  obtains w a' where "m a = Some (w, a')" and "prefix a a'" and "lays_out a' w sz P"
  using assms unfolding prepares_def by blast

lemma prepares_weaken:
  "prepares m sz P \<Longrightarrow> (\<And>b p. P b p \<Longrightarrow> Q b p) \<Longrightarrow> prepares m sz Q"
  unfolding prepares_def using lays_out_weaken by meson

lemma prepares_string: "sso_safe s \<Longrightarrow> prepares (prepare_string s) string_size (reads dec_string s)"
  unfolding prepares_def using prepare_string_law by blast

lemma prepares_pure: "(\<And>c. lays_out c w sz P) \<Longrightarrow> prepares (\<lambda>a. Some (w, a)) sz P"
  unfolding prepares_def by simp

locale archived =
  fixes prep :: "'v \<Rightarrow> preparation"
    and dec :: "byte list \<Rightarrow> int \<Rightarrow> 'v option"
    and sz :: nat
    and ok :: "'v \<Rightarrow> bool"
  assumes sz_pos: "0 < sz"
    and law: "ok v \<Longrightarrow> prepares (prep v) sz (reads dec v)"
begin

lemma prepE:
  assumes "ok v"
  obtains w a' where "prep v a = Some (w, a')" and "prefix a a'" and "lays_out a' w sz (reads dec v)"
  using preparesE [OF law [OF assms], of a] by blast

fun elem_fields :: "nat \<Rightarrow> field_writer list \<Rightarrow> 'v list \<Rightarrow> field_spec list" where
  "elem_fields off (w # ws) (v # vs) = (off, sz, w, reads dec v) # elem_fields (off + sz) ws vs"
| "elem_fields off _ _ = []"

lemma elem_fields_fit:
  "length ws = length vs \<Longrightarrow> fields_fit off (elem_fields off ws vs) (off + length vs * sz)"
  by (induction ws vs arbitrary: off rule: list_induct2)
    (simp_all, metis add.assoc)

lemma elem_fields_write:
  "length ws = length vs \<Longrightarrow>
     prepare_struct (writers_of (elem_fields off ws vs)) pos a = write_elems ws (pos + off) sz a"
proof (induction ws vs arbitrary: off a rule: list_induct2)
  case Nil
  then show ?case by simp
next
  case (Cons w ws v vs)
  then show ?case
    by (cases "w (pos + off) a") (simp_all add: add.assoc)
qed

lemma elem_fields_read:
  "length ws = length vs \<Longrightarrow> fields_hold (elem_fields off ws vs) b p \<Longrightarrow>
     dec_elems dec b (p + int off) sz (length vs) = Some vs"
proof (induction ws vs arbitrary: off rule: list_induct2)
  case Nil
  then show ?case by simp
next
  case (Cons w ws v vs)
  then show ?case using Cons.IH [of "off + sz"] by (simp add: add.assoc)
qed

lemma prepare_elems_law:
  "(\<And>v. v \<in> set vs \<Longrightarrow> ok v) \<Longrightarrow> (\<And>j. j < length vs \<Longrightarrow> f (i + j) = prep (vs ! j)) \<Longrightarrow>
     \<exists>ws a'. prepare_elems f i (length vs) a = Some (ws, a') \<and> prefix a a' \<and>
       length ws = length vs \<and> fields_laid_out a' (elem_fields off ws vs)"
proof (induction vs arbitrary: i a off)
  case Nil
  then show ?case by simp
next
  case (Cons v vs)
  obtain w a1 where w: "prep v a = Some (w, a1)" "prefix a a1" "lays_out a1 w sz (reads dec v)"
    using prepE [of v a] Cons.prems by auto
  have "f (Suc i + j) = prep (vs ! j)" if "j < length vs" for j
    using Cons.prems(2) [of "Suc j"] that by simp
  then obtain ws a2 where ws: "prepare_elems f (Suc i) (length vs) a1 = Some (ws, a2)"
    "prefix a1 a2" "length ws = length vs" "fields_laid_out a2 (elem_fields (off + sz) ws vs)"
    using Cons.IH [of "Suc i" a1 "off + sz"] Cons.prems(1) by auto
  have "f i = prep v" using Cons.prems(2) [of 0] by simp
  then show ?case
    using w ws lays_out_mono [OF w(3) ws(2)] prefix_order.trans [OF w(2) ws(2)]
    by auto
qed

theorem vec_law:
  assumes "\<And>v. v \<in> set vs \<Longrightarrow> ok v"
  shows "prepares (prepare_vec (length vs) al sz (\<lambda>i. prep (vs ! i))) vec_size (reads (vec_each sz dec) vs)"
  unfolding prepares_def
proof
  fix a
  let ?n = "length vs"
  obtain ws a1 where ws: "prepare_elems (\<lambda>i. prep (vs ! i)) 0 ?n a = Some (ws, a1)" "prefix a a1"
    "length ws = ?n" "fields_laid_out a1 (elem_fields 0 ws vs)"
    using prepare_elems_law [of vs "\<lambda>i. prep (vs ! i)" 0 a 0] assms by auto
  let ?p = "pad_to al a1" and ?fs = "elem_fields 0 ws vs"
  have prep1: "prefix a1 ?p" by (rule pad_to_prefix)
  then have le1: "length a1 \<le> length ?p" by (rule prefix_length_le)
  have "lays_out a1 (prepare_struct (writers_of ?fs)) (?n * sz) (fields_hold ?fs)"
    using lays_out_struct elem_fields_fit [of ws vs 0] ws by simp
  then obtain img where img: "slot_image a1 (prepare_struct (writers_of ?fs)) (?n * sz) (fields_hold ?fs) img"
    by (auto simp: lays_out_def)
  let ?a2 = "?p @ zeros (?n * sz)"
  let ?a3 = "splice (length ?p) (img (length ?p)) ?a2"
  have len3: "length ?a3 = length ?p + ?n * sz" using img by simp
  have "prepare_struct (writers_of ?fs) (length ?p) ?a2 = Some ?a3"
    by (rule slot_image_write [OF img le1]) (simp_all add: slice_def)
  then have we: "write_elems ws (length ?p) sz ?a2 = Some ?a3"
    using elem_fields_write [of ws vs 0 "length ?p" ?a2] ws(3) by simp
  let ?w = "\<lambda>pos b. do { b1 \<leftarrow> put_i32 pos (word_of_int (int (length ?p) - int pos)) b;
                         put_u32 (pos + 4) (of_nat ?n) b1 }"
  let ?img = "\<lambda>pos. le_bytes 4 (word_of_int (int (length ?p) - int pos) :: u32) @ le_bytes 4 (of_nat ?n :: u32)"
  have prep: "prepare_vec ?n al sz (\<lambda>i. prep (vs ! i)) a = Some (?w, ?a3)"
    using ws we by (simp add: prepare_vec_def reserve_def Let_def)
  have pre3: "prefix a1 ?a3"
    by (rule prefix_splice) (use prep1 le1 img in auto)
  have "lays_out ?a3 ?w 8 (reads (vec_each sz dec) vs)"
  proof (rule lays_outI, rule slot_imageI [of ?img])
    fix b :: arena and pos
    assume "length ?a3 \<le> pos" "pos + 8 \<le> length b" "slice pos 8 b = zeros 8"
    then show "?w pos b = Some (splice pos (?img pos) b)"
      using two_words [of pos b] by (simp add: put_i32_def)
  next
    fix b :: arena and pos
    assume b: "prefix ?a3 b" "length ?a3 \<le> pos" "pos + 8 \<le> length b" "length b \<le> max_arena"
      and sl: "slice pos 8 b = ?img pos"
    note words = read_two_words [OF b(3) sl]
    have bound: "length ?p + ?n * sz \<le> max_arena" using b(2-4) len3 by simp
    have "?n \<le> ?n * sz" using sz_pos by simp
    then have "?n \<le> 2 ^ 30" using bound unfolding max_arena_def by linarith
    then have n: "unat (of_nat ?n :: u32) = ?n" by (simp add: unat_of_nat)
    have off: "int pos + sint (word_of_int (int (length ?p) - int pos) :: u32) = int (length ?p)"
      using sint_offset [of "length ?p" pos] bound b(3,4) by simp
    have "slice (length ?p) (?n * sz) ?a3 = img (length ?p)"
      using slice_splice_same [of "length ?p" "img (length ?p)" ?a2] img by simp
    then have "slice (length ?p) (?n * sz) b = img (length ?p)"
      using slice_prefix [OF b(1), of "length ?p" "?n * sz"] len3 by simp
    then have "fields_hold ?fs b (int (length ?p))"
      using slot_image_read [OF img _ le1] prefix_order.trans [OF pre3 b(1)] b(2-4) len3 by simp
    then have "dec_elems dec b (int (length ?p)) sz ?n = Some vs"
      using elem_fields_read [of ws vs 0 b "int (length ?p)"] ws(3) by simp
    then show "vec_each sz dec b (int pos) = Some vs"
      using words n off by (simp add: vec_each_def vec_len_def dec_i32_def)
  qed simp
  then show "\<exists>w a'. prepare_vec ?n al sz (\<lambda>i. prep (vs ! i)) a = Some (w, a') \<and> prefix a a' \<and>
      lays_out a' w vec_size (reads (vec_each sz dec) vs)"
    using prep prefix_order.trans [OF ws(2) pre3] by (auto simp: vec_size_def)
qed

text \<open>What the contract means for one value: written at any free slot behind its content, it reads back.\<close>

theorem roundtrip:
  assumes "ok v"
  shows "\<exists>w a'. prep v a = Some (w, a') \<and> prefix a a' \<and>
    (\<forall>b pos. prefix a' b \<and> length a' \<le> pos \<and> pos + sz \<le> length b \<and> length b \<le> max_arena \<and>
       slice pos sz b = zeros sz \<longrightarrow>
     (\<exists>b'. w pos b = Some b' \<and> length b' = length b \<and> take pos b' = take pos b \<and>
        drop (pos + sz) b' = drop (pos + sz) b \<and> dec b' (int pos) = Some v))"
proof -
  obtain w a' where w: "prep v a = Some (w, a')" "prefix a a'" "lays_out a' w sz (reads dec v)"
    using prepE [OF assms] .
  then obtain img where img: "slot_image a' w sz (reads dec v) img" by (auto simp: lays_out_def)
  have "\<exists>b'. w pos b = Some b' \<and> length b' = length b \<and> take pos b' = take pos b \<and>
        drop (pos + sz) b' = drop (pos + sz) b \<and> dec b' (int pos) = Some v"
    if b: "prefix a' b" "length a' \<le> pos" "pos + sz \<le> length b" "length b \<le> max_arena"
      "slice pos sz b = zeros sz" for b pos
  proof (intro exI [of _ "splice pos (img pos) b"] conjI)
    have len: "length (img pos) = sz" using img by simp
    show "w pos b = Some (splice pos (img pos) b)" by (rule slot_image_write [OF img]) (use b in auto)
    show "length (splice pos (img pos) b) = length b" using b len by simp
    show "take pos (splice pos (img pos) b) = take pos b" using b by (simp add: take_splice)
    show "drop (pos + sz) (splice pos (img pos) b) = drop (pos + sz) b"
      using b len by (simp add: splice_def)
    have "slice pos (length (img pos)) (splice pos (img pos) b) = img pos"
      by (rule slice_splice_same) (use b len in simp)
    then show "dec (splice pos (img pos) b) (int pos) = Some v"
      by (intro slot_image_read [OF img]) (use b len in \<open>auto intro: prefix_splice\<close>)
  qed
  then show ?thesis using w by blast
qed

end

section \<open>The primitives and strings keep the contract\<close>

interpretation arch_u32: archived "\<lambda>v a. Some (prepare_u32 v, a)" dec_u32 4 "\<lambda>_. True"
  by unfold_locales (auto intro: prepares_pure lays_out_u32)

interpretation arch_u64: archived "\<lambda>v a. Some (prepare_u64 v, a)" dec_u64 8 "\<lambda>_. True"
  by unfold_locales (auto intro: prepares_pure lays_out_u64)

interpretation arch_f32: archived "\<lambda>v a. Some (prepare_f32 v, a)" dec_f32 4 "\<lambda>_. True"
  by unfold_locales (auto intro: prepares_pure lays_out_f32)

interpretation arch_byte: archived "\<lambda>v a. Some (prepare_tag1 v, a)" dec_tag1 1 "\<lambda>_. True"
  by unfold_locales (auto intro: prepares_pure lays_out_byte_sized)

interpretation arch_string: archived prepare_string dec_string string_size sso_safe
  by unfold_locales (auto simp: string_size_def intro: prepares_string [unfolded string_size_def])

section \<open>Strings and their lengths\<close>

text \<open>
  the packed length of an out-of-line string. For every length below \<open>2 ^ 30\<close> the
  decoder's \<open>unpackOutOfLineLen\<close> inverts \<open>packOutOfLineLen\<close>, and the two high bits of the low byte
  are \<open>10\<close>, the mark by which the decoder tells the out-of-line from the inline form.
\<close>

theorem packed_length_roundtrip:
  "unat l < 2 ^ 30 \<Longrightarrow>
     unpack_out_of_line_len (pack_out_of_line_len l) = l \<and>
     (ucast (pack_out_of_line_len l) :: byte) AND 0xC0 = 0x80"
  by (simp add: unpack_pack pack_low_byte)

lemma packed_length_roundtrip_witness:
  "unpack_out_of_line_len (pack_out_of_line_len 1000000) = 1000000 \<and>
     (ucast (pack_out_of_line_len 1000000) :: byte) AND 0xC0 = 0x80"
  using packed_length_roundtrip [of 1000000] by simp

text \<open>
  \<open>PrepareString\<close> appends the content (nothing, for a string that fits the slot) and returns a
  writer that fills any free 8-byte slot behind it, changes no other byte, and makes the decoder's
  \<open>String\<close> read the string at the slot: for every string that is longer than 8 bytes, or has no byte
  \<open>0xFF\<close> and does not begin with a UTF-8 continuation byte.
\<close>

theorem string_slot_roundtrip:
  assumes "sso_safe s"
  shows "\<exists>w a'. prepare_string s a = Some (w, a') \<and> prefix a a' \<and>
    (\<forall>b pos. prefix a' b \<and> length a' \<le> pos \<and> pos + string_size \<le> length b \<and> length b \<le> max_arena \<and>
       slice pos string_size b = zeros string_size \<longrightarrow>
     (\<exists>b'. w pos b = Some b' \<and> length b' = length b \<and> take pos b' = take pos b \<and>
        drop (pos + string_size) b' = drop (pos + string_size) b \<and> dec_string b' (int pos) = Some s))"
  by (rule arch_string.roundtrip [OF assms])

lemma string_slot_roundtrip_witness:
  "\<exists>w a'. prepare_string ''job 1 of 2'' [] = Some (w, a') \<and> prefix [] a' \<and>
    (\<forall>b pos. prefix a' b \<and> length a' \<le> pos \<and> pos + string_size \<le> length b \<and> length b \<le> max_arena \<and>
       slice pos string_size b = zeros string_size \<longrightarrow>
     (\<exists>b'. w pos b = Some b' \<and> length b' = length b \<and> take pos b' = take pos b \<and>
        drop (pos + string_size) b' = drop (pos + string_size) b \<and>
        dec_string b' (int pos) = Some ''job 1 of 2''))"
  by (rule string_slot_roundtrip) (simp add: sso_safe_def)

text \<open>
  what becomes of a short string outside that condition. A string of at most 8 bytes that
  does not begin with a continuation byte is read back cut at its first byte \<open>0xFF\<close>: the codec
  loses the rest of a short string that is not UTF-8, without an error.
\<close>

theorem inline_string_truncated:
  assumes "length s \<le> 8" and "pos + 8 \<le> length b" and "slice pos 8 b = inline_repr s"
    and "s \<noteq> [] \<Longrightarrow> hd (bytes_of s) AND 0xC0 \<noteq> 0x80"
  shows "dec_string b (int pos) = Some (string_of (takeWhile (\<lambda>x. x \<noteq> 0xFF) (bytes_of s)))"
  using assms by (rule dec_string_inline_truncates)

lemma inline_string_truncated_witness:
  "dec_string (inline_repr [CHR ''a'', CHR 0xFF, CHR ''b'']) 0 = Some ''a''"
proof -
  let ?s = "[CHR ''a'', CHR 0xFF, CHR ''b'']"
  have "dec_string (inline_repr ?s) (int 0)
      = Some (string_of (takeWhile (\<lambda>x. x \<noteq> 0xFF) (bytes_of ?s)))"
    by (rule inline_string_truncated) (simp_all add: inline_repr_def slice_def)
  moreover have "takeWhile (\<lambda>x. x \<noteq> 0xFF) (bytes_of ?s) = bytes_of ''a''" by simp
  ultimately show ?thesis by (simp only: string_of_bytes_of) simp
qed

end
