(* ===== verification/Wire_Records.thy ===== *)
theory Wire_Records
  imports Wire_Laws
begin

text \<open>
  The pattern every \<open>prepare...\<close> function and every message encoder of \<open>gradientproto\<close> follows:
  prepare the fields one after the other in declaration order, then build a struct, a tagged union
  or a root message from the writers, each at the offset the type's \<open>Layout\<close> computed. The order
  matters (the out-of-line content of a field must precede that of the fields after it), so it is
  part of the model: \<open>prepare_fields\<close> threads the arena through the preparations from left to right.
\<close>

section \<open>Sequenced preparation\<close>

fun prepare_fields :: "(nat \<times> preparation) list \<Rightarrow> arena \<Rightarrow> (field list \<times> arena) option" where
  "prepare_fields [] a = Some ([], a)"
| "prepare_fields ((off, m) # ms) a = do {
     (w, a1) \<leftarrow> m a;
     (ws, a2) \<leftarrow> prepare_fields ms a1;
     Some ((off, w) # ws, a2) }"

definition ready :: "field_writer \<Rightarrow> preparation" where
  "ready w a = Some (w, a)"

definition prepare_record :: "(nat \<times> preparation) list \<Rightarrow> preparation" where
  "prepare_record ms a = do { (ws, a1) \<leftarrow> prepare_fields ms a; Some (prepare_struct ws, a1) }"

definition prepare_variant :: "u32 \<Rightarrow> (nat \<times> preparation) list \<Rightarrow> preparation" where
  "prepare_variant tag ms a =
     do { (ws, a1) \<leftarrow> prepare_fields ms a; Some (prepare_tagged_union tag (prepare_struct ws), a1) }"

text \<open>The optional field idiom: \<open>PrepareOptionNone\<close>, or \<open>PrepareOptionSome\<close> of the prepared value.\<close>

definition prepare_opt :: "nat \<Rightarrow> ('v \<Rightarrow> preparation) \<Rightarrow> 'v option \<Rightarrow> preparation" where
  "prepare_opt al prep v a = (case v of
     None \<Rightarrow> Some (prepare_option_none, a)
   | Some x \<Rightarrow> do { (w, a1) \<leftarrow> prep x a; Some (prepare_option_some al w, a1) })"

definition encode_message :: "nat \<Rightarrow> nat \<Rightarrow> u32 \<Rightarrow> (nat \<times> preparation) list \<Rightarrow> byte list option" where
  "encode_message al sz tag ms =
     do { (ws, a) \<leftarrow> prepare_fields ms new_arena; encode_root al sz tag (prepare_struct ws) a }"

text \<open>The offsets and the size of a layout.\<close>

definition offset_of :: "nat list \<times> layout \<Rightarrow> nat \<Rightarrow> nat" where
  "offset_of l i = fst l ! i"

definition size_of :: "nat list \<times> layout \<Rightarrow> nat" where
  "size_of l = layout_size (snd l)"

definition align_of :: "nat list \<times> layout \<Rightarrow> nat" where
  "align_of l = layout_align (snd l)"

section \<open>What a sequence of preparations lays out\<close>

abbreviation preparations :: "preparation slot_spec list \<Rightarrow> (nat \<times> preparation) list" where
  "preparations ss \<equiv> map (\<lambda>(off, sz, m, P). (off, m)) ss"

lemma prepare_fields_law:
  assumes "\<forall>(off, sz, m, P) \<in> set ss. prepares m sz P"
  obtains fs a' where "prepare_fields (preparations ss) a = Some (writers_of fs, a')"
    and "prefix a a'" and "fields_laid_out a' fs"
    and "\<And>lo hi. fields_fit lo fs hi = fields_fit lo ss hi" and "fields_hold fs = fields_hold ss"
proof -
  have "\<exists>fs a'. prepare_fields (preparations ss) a = Some (writers_of fs, a') \<and> prefix a a' \<and>
      fields_laid_out a' fs \<and> (\<forall>lo hi. fields_fit lo fs hi = fields_fit lo ss hi) \<and>
      fields_hold fs = fields_hold ss"
    using assms
  proof (induction ss arbitrary: a)
    case Nil
    then show ?case by (intro exI [of _ "[]"] exI [of _ a]) (simp add: fields_hold_fun)
  next
    case (Cons s ss)
    obtain off sz m P where s: "s = (off, sz, m, P)" by (cases s) auto
    then obtain w a1 where w: "m a = Some (w, a1)" "prefix a a1" "lays_out a1 w sz P"
      using Cons.prems preparesE [of m sz P] by auto
    obtain fs a2 where fs: "prepare_fields (preparations ss) a1 = Some (writers_of fs, a2)"
      "prefix a1 a2" "fields_laid_out a2 fs" "\<forall>lo hi. fields_fit lo fs hi = fields_fit lo ss hi"
      "fields_hold fs = fields_hold ss"
      using Cons.IH [of a1] Cons.prems by auto
    show ?case
      using s w fs lays_out_mono [OF w(3) fs(2)] prefix_order.trans [OF w(2) fs(2)]
      by (intro exI [of _ "(off, sz, w, P) # fs"] exI [of _ a2]) (simp add: fields_hold_fun)
  qed
  then show ?thesis using that by blast
qed

text \<open>
  \<open>parts lo ms hi P\<close>: the fields \<open>ms\<close> keep their promises, do not overlap between the offsets
  \<open>lo\<close> and \<open>hi\<close>, and together mean \<open>P\<close>. It is derived field by field, so the proofs about a type
  are one application of each rule to each of its fields.
\<close>

definition parts :: "nat \<Rightarrow> (nat \<times> preparation) list \<Rightarrow> nat \<Rightarrow> (byte list \<Rightarrow> int \<Rightarrow> bool) \<Rightarrow> bool" where
  "parts lo ms hi P \<longleftrightarrow> (\<exists>ss. ms = preparations ss \<and> fields_fit lo ss hi \<and>
     (\<forall>(off, sz, m, P) \<in> set ss. prepares m sz P) \<and> fields_hold ss = P)"

lemma parts_Nil: "lo \<le> hi \<Longrightarrow> parts lo [] hi (\<lambda>b p. True)"
  unfolding parts_def by (intro exI [of _ "[]"]) (simp add: fields_hold_fun)

lemma parts_Cons:
  assumes "prepares m sz P" and "lo \<le> off" and "parts (off + sz) ms hi Q"
  shows "parts lo ((off, m) # ms) hi (\<lambda>b p. P b (p + int off) \<and> Q b p)"
proof -
  from assms(3) obtain ss where "ms = preparations ss" "fields_fit (off + sz) ss hi"
    "\<forall>(off, sz, m, P) \<in> set ss. prepares m sz P" "fields_hold ss = Q"
    unfolding parts_def by auto
  then show ?thesis
    unfolding parts_def using assms(1,2)
    by (intro exI [of _ "(off, sz, m, P) # ss"]) (simp add: fields_hold_fun)
qed

lemma partsE:
  assumes "parts lo ms hi P"
  obtains fs a' where "prepare_fields ms a = Some (writers_of fs, a')" and "prefix a a'"
    and "fields_laid_out a' fs" and "fields_fit lo fs hi" and "fields_hold fs = P"
proof -
  from assms obtain ss where ss: "ms = preparations ss" "fields_fit lo ss hi"
    "\<forall>(off, sz, m, P) \<in> set ss. prepares m sz P" "fields_hold ss = P"
    unfolding parts_def by auto
  show ?thesis by (rule prepare_fields_law [OF ss(3), of a]) (use that ss in auto)
qed

lemma prepares_record: "parts 0 ms sz P \<Longrightarrow> prepares (prepare_record ms) sz P"
  unfolding prepares_def
proof
  fix a assume "parts 0 ms sz P"
  then obtain fs a' where fs: "prepare_fields ms a = Some (writers_of fs, a')" "prefix a a'"
    "fields_laid_out a' fs" "fields_fit 0 fs sz" "fields_hold fs = P"
    by (rule partsE)
  then show "\<exists>w a'. prepare_record ms a = Some (w, a') \<and> prefix a a' \<and> lays_out a' w sz P"
    using lays_out_struct [OF fs(4,3)] by (simp add: prepare_record_def)
qed

lemma prepares_variant:
  "parts 1 ms sz P \<Longrightarrow>
     prepares (prepare_variant tag ms) sz (\<lambda>b p. dec_tag1 b p = Some (ucast tag) \<and> P b p)"
  unfolding prepares_def
proof
  fix a assume "parts 1 ms sz P"
  then obtain fs a' where fs: "prepare_fields ms a = Some (writers_of fs, a')" "prefix a a'"
    "fields_laid_out a' fs" "fields_fit 1 fs sz" "fields_hold fs = P"
    by (rule partsE)
  then show "\<exists>w a'. prepare_variant tag ms a = Some (w, a') \<and> prefix a a' \<and>
      lays_out a' w sz (\<lambda>b p. dec_tag1 b p = Some (ucast tag) \<and> P b p)"
    using lays_out_tagged_union [OF fs(4,3), of tag] by (simp add: prepare_variant_def)
qed

lemma prepares_ready: "(\<And>c. lays_out c w sz P) \<Longrightarrow> prepares (ready w) sz P"
  unfolding prepares_def ready_def by simp

lemma prepares_opt:
  assumes "\<And>x. v = Some x \<Longrightarrow> prepares (prep x) sz (reads dec x)"
  shows "prepares (prepare_opt al prep v) (option_size al sz) (reads (dec_opt al dec) v)"
  unfolding prepares_def
proof
  fix a
  show "\<exists>w a'. prepare_opt al prep v a = Some (w, a') \<and> prefix a a' \<and>
      lays_out a' w (option_size al sz) (reads (dec_opt al dec) v)"
  proof (cases v)
    case None
    then show ?thesis using lays_out_none by (simp add: prepare_opt_def)
  next
    case (Some x)
    then obtain w a' where "prep x a = Some (w, a')" "prefix a a'" "lays_out a' w sz (reads dec x)"
      using preparesE [OF assms] by blast
    then show ?thesis using Some lays_out_some by (simp add: prepare_opt_def)
  qed
qed

text \<open>The root of a message, and the promise of a whole encoder.\<close>

definition root_pos :: "nat \<Rightarrow> byte list \<Rightarrow> int" where
  "root_pos sz out = int (length out) - int sz"

lemma encode_message_law:
  assumes "parts 1 ms sz P" and "0 < al"
  obtains out where "encode_message al sz tag ms = Some out"
    and "sz \<le> length out" and "(length out - sz) mod al = 0"
    and "length out \<le> max_arena \<Longrightarrow> dec_tag1 out (root_pos sz out) = Some (ucast tag)"
    and "length out \<le> max_arena \<Longrightarrow> P out (root_pos sz out)"
proof -
  obtain fs a' where fs: "prepare_fields ms new_arena = Some (writers_of fs, a')"
    "fields_laid_out a' fs" "fields_fit 1 fs sz" "fields_hold fs = P"
    using partsE [OF assms(1), of new_arena] by metis
  obtain out where out: "encode_root al sz tag (prepare_struct (writers_of fs)) a' = Some out"
    "sz \<le> length out" "(length out - sz) mod al = 0"
    "length out \<le> max_arena \<Longrightarrow> dec_tag1 out (int (length out - sz)) = Some (ucast tag)"
    "length out \<le> max_arena \<Longrightarrow> fields_hold fs out (int (length out - sz))"
    using encode_root_fields [OF fs(3,2) assms(2), of tag] by metis
  have "int (length out - sz) = root_pos sz out" using out(2) by (simp add: root_pos_def)
  then show ?thesis
    using that [of out] out fs by (simp add: encode_message_def)
qed

text \<open>The promises of the leaves, for the proofs about the message types.\<close>

named_theorems leaves \<open>promises of the prepared values\<close>

lemma prepares_primitives [leaves]:
  "prepares (ready (prepare_bool b)) 1 (reads dec_bool b)"
  "prepares (ready (prepare_u16 x2)) 2 (reads dec_u16 x2)"
  "prepares (ready (prepare_u32 x4)) 4 (reads dec_u32 x4)"
  "prepares (ready (prepare_u64 x8)) 8 (reads dec_u64 x8)"
  "prepares (ready (prepare_i64 x8)) 8 (reads dec_u64 x8)"
  "prepares (ready (prepare_f32 x4)) 4 (reads dec_f32 x4)"
  "prepares (ready (prepare_tag1 x1)) 1 (reads dec_tag1 x1)"
  by (auto intro!: prepares_ready lays_out_u16 lays_out_u32 lays_out_u64 lays_out_i64 lays_out_f32
      lays_out_byte_sized)

declare prepares_string [leaves]

end
