(* ===== verification/Gradient_Types.thy ===== *)
theory Gradient_Types
  imports Wire_Records
begin

text \<open>
  The message payload types of \<open>gradientproto\<close> (\<open>build_types.go\<close>, \<open>build_output.go\<close>,
  \<open>cached_path.go\<close>, \<open>capabilities.go\<close>, \<open>failed_peer.go\<close>, \<open>job_update.go\<close>): each struct as a
  record, its layout as the run of \<open>Layout.Field\<close> calls of its \<open>init\<close>, its \<open>prepare\<close> and
  \<open>decode\<close> functions. Where the program only encodes a type, a reference decoder (\<open>read_...\<close>)
  written from the offsets the protocol fixes says what a peer reads; where it only decodes one,
  the reference encoder (\<open>fake_...\<close>) is the one of the repository's tests.
\<close>

section \<open>Layouts\<close>

definition derivation_output_size :: nat where
  "derivation_output_size = 2 * string_size"

definition build_task_layout :: "nat list \<times> layout" where
  "build_task_layout = layout_fields
     [(string_align, string_size), (string_align, string_size), (1, 1), (1, 1),
      (vec_align, vec_size), (8, option_size 8 8), (8, option_size 8 8)] layout_new"

definition build_product_layout :: "nat list \<times> layout" where
  "build_product_layout = layout_fields
     [(string_align, string_size), (string_align, string_size), (string_align, string_size),
      (string_align, string_size), (8, option_size 8 8)] layout_new"

definition build_output_layout :: "nat list \<times> layout" where
  "build_output_layout = layout_fields
     [(string_align, string_size), (string_align, string_size), (string_align, string_size),
      (8, option_size 8 8), (string_align, option_size string_align string_size),
      (vec_align, vec_size)] layout_new"

definition build_metrics_layout :: "nat list \<times> layout" where
  "build_metrics_layout = layout_fields
     [(8, option_size 8 8), (8, option_size 8 8), (4, option_size 4 4), (8, option_size 8 8),
      (8, option_size 8 8), (1, 1), (8, option_size 8 8), (4, option_size 4 4)] layout_new"

definition cached_path_layout :: "nat list \<times> layout" where
  "cached_path_layout = layout_fields
     [(string_align, string_size), (1, 1), (8, option_size 8 8), (8, option_size 8 8),
      (string_align, option_size string_align string_size),
      (string_align, option_size string_align string_size),
      (string_align, option_size string_align string_size),
      (vec_align, option_size vec_align vec_size),
      (vec_align, option_size vec_align vec_size),
      (string_align, option_size string_align string_size),
      (string_align, option_size string_align string_size)] layout_new"

definition failed_peer_size :: nat where
  "failed_peer_size = 2 * string_size"

definition capabilities_size :: nat where "capabilities_size = 6"
definition job_size :: nat where "job_size = 96"
definition job_align :: nat where "job_align = 8"
definition build_job_size :: nat where "build_job_size = vec_size"
definition job_update_kind_size :: nat where "job_update_kind_size = 144"

definition job_update_building_layout :: "nat list \<times> layout" where
  "job_update_building_layout = layout_fields [(string_align, string_size)] tag_field"

definition job_update_build_output_layout :: "nat list \<times> layout" where
  "job_update_build_output_layout = layout_fields
     [(string_align, string_size), (vec_align, vec_size),
      (align_of build_metrics_layout,
       option_size (align_of build_metrics_layout) (size_of build_metrics_layout)),
      (1, 1)] tag_field"

text \<open>The sizes and alignments the code's \<open>init\<close> functions check, or the protocol fixes.\<close>

lemmas sizes_eval =
  string_size_def string_align_def vec_size_def vec_align_def option_size_def pad_up_def
  derivation_output_size_def failed_peer_size_def capabilities_size_def job_size_def job_align_def
  build_job_size_def job_update_kind_size_def offset_of_def size_of_def align_of_def
  layout_size_def layout_align_def

lemma layouts_eval:
  "build_task_layout = ([0, 8, 16, 17, 20, 32, 48], \<lparr>l_offset = 64, l_align = 8\<rparr>)"
  "build_product_layout = ([0, 8, 16, 24, 32], \<lparr>l_offset = 48, l_align = 8\<rparr>)"
  "build_output_layout = ([0, 8, 16, 24, 40, 52], \<lparr>l_offset = 60, l_align = 8\<rparr>)"
  "build_metrics_layout = ([0, 16, 32, 40, 56, 72, 80, 96], \<lparr>l_offset = 104, l_align = 8\<rparr>)"
  "cached_path_layout = ([0, 8, 16, 32, 48, 60, 72, 84, 96, 108, 120], \<lparr>l_offset = 132, l_align = 8\<rparr>)"
  "job_update_building_layout = ([4], \<lparr>l_offset = 12, l_align = 4\<rparr>)"
  "job_update_build_output_layout = ([4, 12, 24, 136], \<lparr>l_offset = 137, l_align = 8\<rparr>)"
  by (simp_all add: sizes_eval build_task_layout_def build_product_layout_def build_output_layout_def
      build_metrics_layout_def cached_path_layout_def job_update_building_layout_def
      job_update_build_output_layout_def layout_new_def layout_field_def tag_field_def)

section \<open>Strings, optional fields and vectors\<close>

definition prepare_string_vec :: "string list \<Rightarrow> preparation" where
  "prepare_string_vec vs = prepare_vec (length vs) string_align string_size (\<lambda>i. prepare_string (vs ! i))"

definition prepare_byte_vec :: "byte list \<Rightarrow> preparation" where
  "prepare_byte_vec bs = prepare_vec (length bs) 1 1 (\<lambda>i. ready (prepare_tag1 (bs ! i)))"

definition decode_string_vec :: "byte list \<Rightarrow> int \<Rightarrow> string list option" where
  "decode_string_vec b pos = vec_each string_size dec_string b pos"

definition prepare_opt_u64 :: "u64 option \<Rightarrow> preparation" where
  "prepare_opt_u64 v = prepare_opt 8 (\<lambda>x. ready (prepare_u64 x)) v"

definition prepare_opt_f32 :: "f32 option \<Rightarrow> preparation" where
  "prepare_opt_f32 v = prepare_opt 4 (\<lambda>x. ready (prepare_f32 x)) v"

definition prepare_opt_string :: "string option \<Rightarrow> preparation" where
  "prepare_opt_string v = prepare_opt string_align prepare_string v"

definition decode_opt_string :: "byte list \<Rightarrow> int \<Rightarrow> string option option" where
  "decode_opt_string b pos = dec_opt string_align dec_string b pos"

definition decode_opt_u64 :: "byte list \<Rightarrow> int \<Rightarrow> u64 option option" where
  "decode_opt_u64 b pos = dec_opt 8 dec_u64 b pos"

definition decode_opt_string_vec :: "byte list \<Rightarrow> int \<Rightarrow> string list option option" where
  "decode_opt_string_vec b pos = dec_opt vec_align decode_string_vec b pos"

lemma prepares_string_vec [leaves]:
  "(\<And>v. v \<in> set vs \<Longrightarrow> sso_safe v) \<Longrightarrow>
     prepares (prepare_string_vec vs) vec_size (reads decode_string_vec vs)"
  unfolding prepare_string_vec_def decode_string_vec_def by (rule arch_string.vec_law)

lemma prepares_byte_vec [leaves]:
  "prepares (prepare_byte_vec bs) vec_size (reads (vec_each 1 dec_tag1) bs)"
  unfolding prepare_byte_vec_def ready_def by (rule arch_byte.vec_law) simp

lemma prepares_opts [leaves]:
  "prepares (prepare_opt_u64 v8) (option_size 8 8) (reads decode_opt_u64 v8)"
  "prepares (prepare_opt_f32 v4) (option_size 4 4) (reads (dec_opt 4 dec_f32) v4)"
  "(\<And>s. v = Some s \<Longrightarrow> sso_safe s) \<Longrightarrow>
     prepares (prepare_opt_string v) (option_size string_align string_size) (reads decode_opt_string v)"
  unfolding prepare_opt_u64_def decode_opt_u64_def prepare_opt_f32_def prepare_opt_string_def
    decode_opt_string_def
  by (auto intro!: prepares_opt leaves simp del: Option.option.simps)

section \<open>Capabilities\<close>

record gradient_capabilities =
  cap_core :: bool
  cap_federate :: bool
  cap_fetch :: bool
  cap_eval :: bool
  cap_build :: bool
  cap_cache :: bool

definition prepare_capabilities :: "gradient_capabilities \<Rightarrow> preparation" where
  "prepare_capabilities c = prepare_record
     [(0, ready (prepare_bool (cap_core c))), (1, ready (prepare_bool (cap_federate c))),
      (2, ready (prepare_bool (cap_fetch c))), (3, ready (prepare_bool (cap_eval c))),
      (4, ready (prepare_bool (cap_build c))), (5, ready (prepare_bool (cap_cache c)))]"

definition decode_capabilities :: "byte list \<Rightarrow> int \<Rightarrow> gradient_capabilities option" where
  "decode_capabilities b pos = do {
     core \<leftarrow> dec_bool b (pos + 0);
     federate \<leftarrow> dec_bool b (pos + 1);
     fetch \<leftarrow> dec_bool b (pos + 2);
     eval \<leftarrow> dec_bool b (pos + 3);
     build \<leftarrow> dec_bool b (pos + 4);
     cache \<leftarrow> dec_bool b (pos + 5);
     Some \<lparr>cap_core = core, cap_federate = federate, cap_fetch = fetch, cap_eval = eval,
           cap_build = build, cap_cache = cache\<rparr> }"

lemma prepares_capabilities [leaves]:
  "prepares (prepare_capabilities c) capabilities_size (reads decode_capabilities c)"
  unfolding prepare_capabilities_def
  by (rule prepares_weaken, rule prepares_record, (rule parts_Nil parts_Cons leaves | simp add: sizes_eval)+)
    (simp add: decode_capabilities_def)

interpretation arch_capabilities:
  archived prepare_capabilities decode_capabilities capabilities_size "\<lambda>_. True"
  by unfold_locales (simp_all add: capabilities_size_def prepares_capabilities [unfolded capabilities_size_def])

section \<open>Peers and derivation outputs\<close>

record failed_peer =
  fp_peer_id :: string
  fp_reason :: string

definition decode_failed_peer :: "byte list \<Rightarrow> int \<Rightarrow> failed_peer option" where
  "decode_failed_peer b pos = do {
     peer_id \<leftarrow> dec_string b (pos + 0);
     reason \<leftarrow> dec_string b (pos + int string_size);
     Some \<lparr>fp_peer_id = peer_id, fp_reason = reason\<rparr> }"

record derivation_output =
  do_name :: string
  do_path :: string

definition decode_derivation_output :: "byte list \<Rightarrow> int \<Rightarrow> derivation_output option" where
  "decode_derivation_output b pos = do {
     name \<leftarrow> dec_string b (pos + 0);
     path \<leftarrow> dec_string b (pos + int string_size);
     Some \<lparr>do_name = name, do_path = path\<rparr> }"

text \<open>The peer's side of a pair of strings.\<close>

definition prepare_string_pair :: "string \<Rightarrow> string \<Rightarrow> preparation" where
  "prepare_string_pair s t = prepare_record [(0, prepare_string s), (string_size, prepare_string t)]"

definition fake_derivation_output :: "derivation_output \<Rightarrow> preparation" where
  "fake_derivation_output d = prepare_string_pair (do_name d) (do_path d)"

definition fake_failed_peer :: "failed_peer \<Rightarrow> preparation" where
  "fake_failed_peer f = prepare_string_pair (fp_peer_id f) (fp_reason f)"

definition safe_derivation_output :: "derivation_output \<Rightarrow> bool" where
  "safe_derivation_output d \<longleftrightarrow> sso_safe (do_name d) \<and> sso_safe (do_path d)"

definition safe_failed_peer :: "failed_peer \<Rightarrow> bool" where
  "safe_failed_peer f \<longleftrightarrow> sso_safe (fp_peer_id f) \<and> sso_safe (fp_reason f)"

lemma prepares_string_pair [leaves]:
  "sso_safe s \<Longrightarrow> sso_safe t \<Longrightarrow> prepares (prepare_string_pair s t) (2 * string_size)
     (\<lambda>b p. dec_string b (p + 0) = Some s \<and> dec_string b (p + int string_size) = Some t)"
  unfolding prepare_string_pair_def
  by (rule prepares_weaken, rule prepares_record, (rule parts_Nil parts_Cons leaves | simp add: sizes_eval)+)

lemma prepares_failed_peer:
  assumes "safe_failed_peer f"
  shows "prepares (fake_failed_peer f) failed_peer_size (reads decode_failed_peer f)"
  unfolding fake_failed_peer_def failed_peer_size_def
  by (rule prepares_weaken, rule prepares_string_pair)
    (use assms in \<open>auto simp: safe_failed_peer_def decode_failed_peer_def\<close>)

lemma prepares_derivation_output:
  assumes "safe_derivation_output d"
  shows "prepares (fake_derivation_output d) derivation_output_size (reads decode_derivation_output d)"
  unfolding fake_derivation_output_def derivation_output_size_def
  by (rule prepares_weaken, rule prepares_string_pair)
    (use assms in \<open>auto simp: safe_derivation_output_def decode_derivation_output_def\<close>)

interpretation arch_failed_peer:
  archived fake_failed_peer decode_failed_peer failed_peer_size safe_failed_peer
  by (unfold_locales, (rule prepares_failed_peer | simp add: failed_peer_size_def string_size_def)+)

interpretation arch_derivation_output:
  archived fake_derivation_output decode_derivation_output derivation_output_size safe_derivation_output
  by (unfold_locales, (rule prepares_derivation_output | simp add: derivation_output_size_def string_size_def)+)

section \<open>Build tasks and jobs\<close>

record build_task =
  bt_build_id :: string
  bt_drv_path :: string
  bt_external_cached :: bool
  bt_is_fixed_output :: bool
  bt_outputs :: "derivation_output list"
  bt_timeout_secs :: "u64 option"
  bt_max_silent_secs :: "u64 option"

definition decode_build_task :: "byte list \<Rightarrow> int \<Rightarrow> build_task option" where
  "decode_build_task b pos = do {
     build_id \<leftarrow> dec_string b (pos + int (offset_of build_task_layout 0));
     drv_path \<leftarrow> dec_string b (pos + int (offset_of build_task_layout 1));
     external_cached \<leftarrow> dec_bool b (pos + int (offset_of build_task_layout 2));
     is_fixed_output \<leftarrow> dec_bool b (pos + int (offset_of build_task_layout 3));
     outputs \<leftarrow> vec_each derivation_output_size decode_derivation_output b
       (pos + int (offset_of build_task_layout 4));
     timeout \<leftarrow> dec_opt 8 dec_u64 b (pos + int (offset_of build_task_layout 5));
     max_silent \<leftarrow> dec_opt 8 dec_u64 b (pos + int (offset_of build_task_layout 6));
     Some \<lparr>bt_build_id = build_id, bt_drv_path = drv_path, bt_external_cached = external_cached,
           bt_is_fixed_output = is_fixed_output, bt_outputs = outputs, bt_timeout_secs = timeout,
           bt_max_silent_secs = max_silent\<rparr> }"

definition fake_build_task :: "build_task \<Rightarrow> preparation" where
  "fake_build_task t = prepare_record
     [(offset_of build_task_layout 0, prepare_string (bt_build_id t)),
      (offset_of build_task_layout 1, prepare_string (bt_drv_path t)),
      (offset_of build_task_layout 2, ready (prepare_bool (bt_external_cached t))),
      (offset_of build_task_layout 3, ready (prepare_bool (bt_is_fixed_output t))),
      (offset_of build_task_layout 4,
       prepare_vec (length (bt_outputs t)) string_align derivation_output_size
         (\<lambda>i. fake_derivation_output (bt_outputs t ! i))),
      (offset_of build_task_layout 5, prepare_opt_u64 (bt_timeout_secs t)),
      (offset_of build_task_layout 6, prepare_opt_u64 (bt_max_silent_secs t))]"

definition safe_build_task :: "build_task \<Rightarrow> bool" where
  "safe_build_task t \<longleftrightarrow> sso_safe (bt_build_id t) \<and> sso_safe (bt_drv_path t) \<and>
     (\<forall>d \<in> set (bt_outputs t). safe_derivation_output d)"

lemma size_of_build_task [simp]: "size_of build_task_layout = 64"
  by (simp add: layouts_eval sizes_eval)

lemma prepares_build_task:
  "safe_build_task t \<Longrightarrow> prepares (fake_build_task t) (size_of build_task_layout) (reads decode_build_task t)"
  unfolding fake_build_task_def safe_build_task_def
  by (rule prepares_weaken, rule prepares_record,
      (rule parts_Nil parts_Cons leaves arch_derivation_output.vec_law
        | simp add: layouts_eval sizes_eval)+)
    (simp add: decode_build_task_def decode_opt_u64_def layouts_eval sizes_eval)

interpretation arch_build_task:
  archived fake_build_task decode_build_task "size_of build_task_layout" safe_build_task
  by unfold_locales (simp_all add: prepares_build_task [simplified])

type_synonym build_job = "build_task list"

definition decode_build_job :: "byte list \<Rightarrow> int \<Rightarrow> build_job option" where
  "decode_build_job b pos = vec_each (size_of build_task_layout) decode_build_task b pos"

text \<open>
  \<open>DecodeJob\<close> rejects \<open>Job::Flake\<close> (tag 0) and unknown variants; \<open>None\<close> is, as everywhere in the
  decoder, the panic on an out-of-range offset.
\<close>

datatype decode_error =
    FlakeJob
  | UnknownJobTag u32
  | BufferTooShort nat
  | DecodingAssignJob decode_error

definition job_tag_flake :: u32 where "job_tag_flake = 0"
definition job_tag_build :: u32 where "job_tag_build = 1"

definition decode_job :: "byte list \<Rightarrow> int \<Rightarrow> (decode_error + build_job) option" where
  "decode_job b pos = do {
     t \<leftarrow> dec_tag1 b pos;
     let tag = ucast t;
     if tag = job_tag_build then do { j \<leftarrow> decode_build_job b (pos + 4); Some (Inr j) }
     else if tag = job_tag_flake then Some (Inl FlakeJob)
     else Some (Inl (UnknownJobTag tag)) }"

definition fake_build_job :: "build_job \<Rightarrow> preparation" where
  "fake_build_job j = prepare_variant job_tag_build
     [(offset_of (layout_fields [(vec_align, vec_size)] tag_field) 0,
       prepare_vec (length j) (align_of build_task_layout) (size_of build_task_layout)
         (\<lambda>i. fake_build_task (j ! i)))]"

lemma prepares_build_job [leaves]:
  assumes "\<forall>t \<in> set j. safe_build_task t"
  shows "prepares (fake_build_job j) job_size (\<lambda>b p. decode_job b p = Some (Inr j))"
proof -
  have off: "offset_of (layout_fields [(vec_align, vec_size)] tag_field) 0 = 4"
    by (simp add: sizes_eval tag_field_def layout_field_def layout_new_def)
  show ?thesis
    unfolding fake_build_job_def off
    by (rule prepares_weaken, rule prepares_variant,
        (rule parts_Nil parts_Cons arch_build_task.vec_law | simp add: assms sizes_eval)+)
      (auto simp: decode_job_def decode_build_job_def job_tag_build_def layouts_eval sizes_eval)
qed

section \<open>Build outputs and metrics\<close>

record build_product =
  bp_file_type :: string
  bp_subtype :: string
  bp_name :: string
  bp_path :: string
  bp_size :: "u64 option"

definition prepare_build_product :: "build_product \<Rightarrow> preparation" where
  "prepare_build_product p = prepare_record
     [(offset_of build_product_layout 0, prepare_string (bp_file_type p)),
      (offset_of build_product_layout 1, prepare_string (bp_subtype p)),
      (offset_of build_product_layout 2, prepare_string (bp_name p)),
      (offset_of build_product_layout 3, prepare_string (bp_path p)),
      (offset_of build_product_layout 4, prepare_opt 8 (\<lambda>x. ready (prepare_u64 x)) (bp_size p))]"

text \<open>\<open>NarSize\<close> is an \<open>int64\<close>, modelled by its bits.\<close>

record build_output =
  bo_name :: string
  bo_store_path :: string
  bo_hash :: string
  bo_nar_size :: "u64 option"
  bo_nar_hash :: "string option"
  bo_products :: "build_product list"

definition prepare_build_output :: "build_output \<Rightarrow> preparation" where
  "prepare_build_output o' = prepare_record
     [(offset_of build_output_layout 0, prepare_string (bo_name o')),
      (offset_of build_output_layout 1, prepare_string (bo_store_path o')),
      (offset_of build_output_layout 2, prepare_string (bo_hash o')),
      (offset_of build_output_layout 3, prepare_opt 8 (\<lambda>x. ready (prepare_i64 x)) (bo_nar_size o')),
      (offset_of build_output_layout 4, prepare_opt string_align prepare_string (bo_nar_hash o')),
      (offset_of build_output_layout 5,
       prepare_vec (length (bo_products o')) (align_of build_product_layout) (size_of build_product_layout)
         (\<lambda>i. prepare_build_product (bo_products o' ! i)))]"

record build_metrics =
  bm_peak_ram_mb :: "u64 option"
  bm_cpu_time_ms :: "u64 option"
  bm_avg_cpu_pct :: "f32 option"
  bm_disk_read_bytes :: "u64 option"
  bm_disk_write_bytes :: "u64 option"
  bm_oom_killed :: bool
  bm_build_time_ms :: "u64 option"
  bm_peak_network_mbps :: "f32 option"

definition prepare_build_metrics :: "build_metrics \<Rightarrow> preparation" where
  "prepare_build_metrics m = prepare_record
     [(offset_of build_metrics_layout 0, prepare_opt_u64 (bm_peak_ram_mb m)),
      (offset_of build_metrics_layout 1, prepare_opt_u64 (bm_cpu_time_ms m)),
      (offset_of build_metrics_layout 2, prepare_opt_f32 (bm_avg_cpu_pct m)),
      (offset_of build_metrics_layout 3, prepare_opt_u64 (bm_disk_read_bytes m)),
      (offset_of build_metrics_layout 4, prepare_opt_u64 (bm_disk_write_bytes m)),
      (offset_of build_metrics_layout 5, ready (prepare_bool (bm_oom_killed m))),
      (offset_of build_metrics_layout 6, prepare_opt_u64 (bm_build_time_ms m)),
      (offset_of build_metrics_layout 7, prepare_opt_f32 (bm_peak_network_mbps m))]"

text \<open>What the server reads at the offsets of the protocol.\<close>

definition read_build_product :: "byte list \<Rightarrow> int \<Rightarrow> build_product option" where
  "read_build_product b p = do {
     file_type \<leftarrow> dec_string b p;
     subtype \<leftarrow> dec_string b (p + 8);
     name \<leftarrow> dec_string b (p + 16);
     path \<leftarrow> dec_string b (p + 24);
     sz \<leftarrow> dec_opt 8 dec_u64 b (p + 32);
     Some \<lparr>bp_file_type = file_type, bp_subtype = subtype, bp_name = name, bp_path = path, bp_size = sz\<rparr> }"

definition read_build_output :: "byte list \<Rightarrow> int \<Rightarrow> build_output option" where
  "read_build_output b p = do {
     name \<leftarrow> dec_string b p;
     store_path \<leftarrow> dec_string b (p + 8);
     hash \<leftarrow> dec_string b (p + 16);
     nar_size \<leftarrow> dec_opt 8 dec_u64 b (p + 24);
     nar_hash \<leftarrow> dec_opt 4 dec_string b (p + 40);
     products \<leftarrow> vec_each 48 read_build_product b (p + 52);
     Some \<lparr>bo_name = name, bo_store_path = store_path, bo_hash = hash, bo_nar_size = nar_size,
           bo_nar_hash = nar_hash, bo_products = products\<rparr> }"

definition read_build_metrics :: "byte list \<Rightarrow> int \<Rightarrow> build_metrics option" where
  "read_build_metrics b p = do {
     peak_ram \<leftarrow> dec_opt 8 dec_u64 b p;
     cpu_time \<leftarrow> dec_opt 8 dec_u64 b (p + 16);
     avg_cpu \<leftarrow> dec_opt 4 dec_f32 b (p + 32);
     disk_read \<leftarrow> dec_opt 8 dec_u64 b (p + 40);
     disk_write \<leftarrow> dec_opt 8 dec_u64 b (p + 56);
     oom \<leftarrow> dec_bool b (p + 72);
     build_time \<leftarrow> dec_opt 8 dec_u64 b (p + 80);
     network \<leftarrow> dec_opt 4 dec_f32 b (p + 96);
     Some \<lparr>bm_peak_ram_mb = peak_ram, bm_cpu_time_ms = cpu_time, bm_avg_cpu_pct = avg_cpu,
           bm_disk_read_bytes = disk_read, bm_disk_write_bytes = disk_write, bm_oom_killed = oom,
           bm_build_time_ms = build_time, bm_peak_network_mbps = network\<rparr> }"

definition safe_build_product :: "build_product \<Rightarrow> bool" where
  "safe_build_product p \<longleftrightarrow> sso_safe (bp_file_type p) \<and> sso_safe (bp_subtype p) \<and>
     sso_safe (bp_name p) \<and> sso_safe (bp_path p)"

definition safe_build_output :: "build_output \<Rightarrow> bool" where
  "safe_build_output o' \<longleftrightarrow> sso_safe (bo_name o') \<and> sso_safe (bo_store_path o') \<and>
     sso_safe (bo_hash o') \<and> (\<forall>h \<in> set_option (bo_nar_hash o'). sso_safe h) \<and>
     (\<forall>p \<in> set (bo_products o'). safe_build_product p)"

lemma prepares_build_product:
  "safe_build_product p \<Longrightarrow>
     prepares (prepare_build_product p) (size_of build_product_layout) (reads read_build_product p)"
  unfolding prepare_build_product_def safe_build_product_def
  by (rule prepares_weaken, rule prepares_record,
      (rule parts_Nil parts_Cons leaves prepares_opt | simp add: layouts_eval sizes_eval)+)
    (simp add: read_build_product_def layouts_eval sizes_eval)

lemma size_of_build_product [simp]: "size_of build_product_layout = 48"
  by (simp add: layouts_eval sizes_eval)

interpretation arch_build_product:
  archived prepare_build_product read_build_product "size_of build_product_layout" safe_build_product
  by unfold_locales (simp_all add: prepares_build_product [simplified])

lemma size_of_build_output [simp]: "size_of build_output_layout = 64"
  by (simp add: layouts_eval sizes_eval)

lemma prepares_build_output:
  "safe_build_output o' \<Longrightarrow>
     prepares (prepare_build_output o') (size_of build_output_layout) (reads read_build_output o')"
  unfolding prepare_build_output_def safe_build_output_def
  by (rule prepares_weaken, rule prepares_record,
      (rule parts_Nil parts_Cons leaves prepares_opt arch_build_product.vec_law
        | simp add: layouts_eval sizes_eval)+)
    (simp add: read_build_output_def layouts_eval sizes_eval)

interpretation arch_build_output:
  archived prepare_build_output read_build_output "size_of build_output_layout" safe_build_output
  by unfold_locales (simp_all add: prepares_build_output [simplified])

lemma size_of_build_metrics [simp]: "size_of build_metrics_layout = 104"
  by (simp add: layouts_eval sizes_eval)

lemma prepares_build_metrics:
  "prepares (prepare_build_metrics m) (size_of build_metrics_layout) (reads read_build_metrics m)"
  unfolding prepare_build_metrics_def
  by (rule prepares_weaken, rule prepares_record,
      (rule parts_Nil parts_Cons leaves | simp add: layouts_eval sizes_eval)+)
    (simp add: read_build_metrics_def decode_opt_u64_def layouts_eval sizes_eval)

interpretation arch_build_metrics:
  archived prepare_build_metrics read_build_metrics "size_of build_metrics_layout" "\<lambda>_. True"
  by unfold_locales (simp_all add: prepares_build_metrics [simplified])

section \<open>Cached paths\<close>

record cached_path =
  cp_path :: string
  cp_cached :: bool
  cp_file_size :: "u64 option"
  cp_nar_size :: "u64 option"
  cp_url :: "string option"
  cp_nar_hash :: "string option"
  cp_file_hash :: "string option"
  cp_references :: "string list option"
  cp_signatures :: "string list option"
  cp_deriver :: "string option"
  cp_ca :: "string option"

definition decode_cached_path :: "byte list \<Rightarrow> int \<Rightarrow> cached_path option" where
  "decode_cached_path b pos = do {
     path \<leftarrow> dec_string b (pos + int (offset_of cached_path_layout 0));
     cached \<leftarrow> dec_bool b (pos + int (offset_of cached_path_layout 1));
     file_size \<leftarrow> decode_opt_u64 b (pos + int (offset_of cached_path_layout 2));
     nar_size \<leftarrow> decode_opt_u64 b (pos + int (offset_of cached_path_layout 3));
     url \<leftarrow> decode_opt_string b (pos + int (offset_of cached_path_layout 4));
     nar_hash \<leftarrow> decode_opt_string b (pos + int (offset_of cached_path_layout 5));
     file_hash \<leftarrow> decode_opt_string b (pos + int (offset_of cached_path_layout 6));
     references \<leftarrow> decode_opt_string_vec b (pos + int (offset_of cached_path_layout 7));
     signatures \<leftarrow> decode_opt_string_vec b (pos + int (offset_of cached_path_layout 8));
     deriver \<leftarrow> decode_opt_string b (pos + int (offset_of cached_path_layout 9));
     ca \<leftarrow> decode_opt_string b (pos + int (offset_of cached_path_layout 10));
     Some \<lparr>cp_path = path, cp_cached = cached, cp_file_size = file_size, cp_nar_size = nar_size,
           cp_url = url, cp_nar_hash = nar_hash, cp_file_hash = file_hash, cp_references = references,
           cp_signatures = signatures, cp_deriver = deriver, cp_ca = ca\<rparr> }"

definition fake_cached_path :: "cached_path \<Rightarrow> preparation" where
  "fake_cached_path c = prepare_record
     [(offset_of cached_path_layout 0, prepare_string (cp_path c)),
      (offset_of cached_path_layout 1, ready (prepare_bool (cp_cached c))),
      (offset_of cached_path_layout 2, prepare_opt_u64 (cp_file_size c)),
      (offset_of cached_path_layout 3, prepare_opt_u64 (cp_nar_size c)),
      (offset_of cached_path_layout 4, prepare_opt_string (cp_url c)),
      (offset_of cached_path_layout 5, prepare_opt_string (cp_nar_hash c)),
      (offset_of cached_path_layout 6, prepare_opt_string (cp_file_hash c)),
      (offset_of cached_path_layout 7, prepare_opt vec_align prepare_string_vec (cp_references c)),
      (offset_of cached_path_layout 8, prepare_opt vec_align prepare_string_vec (cp_signatures c)),
      (offset_of cached_path_layout 9, prepare_opt_string (cp_deriver c)),
      (offset_of cached_path_layout 10, prepare_opt_string (cp_ca c))]"

definition safe_opt :: "string option \<Rightarrow> bool" where
  "safe_opt v \<longleftrightarrow> (\<forall>s \<in> set_option v. sso_safe s)"

definition safe_opt_vec :: "string list option \<Rightarrow> bool" where
  "safe_opt_vec v \<longleftrightarrow> (\<forall>vs \<in> set_option v. \<forall>s \<in> set vs. sso_safe s)"

definition safe_cached_path :: "cached_path \<Rightarrow> bool" where
  "safe_cached_path c \<longleftrightarrow> sso_safe (cp_path c) \<and> safe_opt (cp_url c) \<and> safe_opt (cp_nar_hash c) \<and>
     safe_opt (cp_file_hash c) \<and> safe_opt_vec (cp_references c) \<and> safe_opt_vec (cp_signatures c) \<and>
     safe_opt (cp_deriver c) \<and> safe_opt (cp_ca c)"

lemma prepares_opt_string_vec [leaves]:
  "safe_opt_vec v \<Longrightarrow> prepares (prepare_opt vec_align prepare_string_vec v)
     (option_size vec_align vec_size) (reads decode_opt_string_vec v)"
  unfolding decode_opt_string_vec_def safe_opt_vec_def
  by (auto intro!: prepares_opt prepares_string_vec)

lemma prepares_safe_opt [leaves]:
  "safe_opt v \<Longrightarrow>
     prepares (prepare_opt_string v) (option_size string_align string_size) (reads decode_opt_string v)"
  unfolding safe_opt_def by (auto intro!: prepares_opts)

lemma size_of_cached_path [simp]: "size_of cached_path_layout = 136"
  by (simp add: layouts_eval sizes_eval)

lemma prepares_cached_path:
  "safe_cached_path c \<Longrightarrow>
     prepares (fake_cached_path c) (size_of cached_path_layout) (reads decode_cached_path c)"
  unfolding fake_cached_path_def safe_cached_path_def
  by (rule prepares_weaken, rule prepares_record,
      (rule parts_Nil parts_Cons prepares_safe_opt prepares_opt_string_vec leaves
        | simp add: layouts_eval sizes_eval)+)
    (simp add: decode_cached_path_def layouts_eval sizes_eval)

interpretation arch_cached_path:
  archived fake_cached_path decode_cached_path "size_of cached_path_layout" safe_cached_path
  by unfold_locales (simp_all add: prepares_cached_path [simplified])

section \<open>Job updates\<close>

definition job_update_tag_building :: u32 where "job_update_tag_building = 5"
definition job_update_tag_build_output :: u32 where "job_update_tag_build_output = 6"

definition prepare_job_update_building :: "string \<Rightarrow> preparation" where
  "prepare_job_update_building build_id = prepare_variant job_update_tag_building
     [(offset_of job_update_building_layout 0, prepare_string build_id)]"

definition prepare_job_update_build_output ::
  "string \<Rightarrow> build_output list \<Rightarrow> build_metrics option \<Rightarrow> bool \<Rightarrow> preparation" where
  "prepare_job_update_build_output build_id outputs metrics substituted =
     prepare_variant job_update_tag_build_output
     [(offset_of job_update_build_output_layout 0, prepare_string build_id),
      (offset_of job_update_build_output_layout 1,
       prepare_vec (length outputs) (align_of build_output_layout) (size_of build_output_layout)
         (\<lambda>i. prepare_build_output (outputs ! i))),
      (offset_of job_update_build_output_layout 2,
       prepare_opt (align_of build_metrics_layout) prepare_build_metrics metrics),
      (offset_of job_update_build_output_layout 3, ready (prepare_bool substituted))]"

text \<open>What the server reads: the variant's tag, and its fields at the protocol's offsets.\<close>

datatype job_update =
    Building string
  | BuildOutput string "build_output list" "build_metrics option" bool

definition read_job_update :: "byte list \<Rightarrow> int \<Rightarrow> job_update option" where
  "read_job_update b p = do {
     t \<leftarrow> dec_tag1 b p;
     if t = 5 then do { build_id \<leftarrow> dec_string b (p + 4); Some (Building build_id) }
     else if t = 6 then do {
       build_id \<leftarrow> dec_string b (p + 4);
       outputs \<leftarrow> vec_each 64 read_build_output b (p + 12);
       metrics \<leftarrow> dec_opt 8 read_build_metrics b (p + 24);
       substituted \<leftarrow> dec_bool b (p + 136);
       Some (BuildOutput build_id outputs metrics substituted) }
     else None }"

lemma prepares_building [leaves]:
  "sso_safe build_id \<Longrightarrow> prepares (prepare_job_update_building build_id) job_update_kind_size
     (reads read_job_update (Building build_id))"
  unfolding prepare_job_update_building_def
  by (rule prepares_weaken, rule prepares_variant,
      (rule parts_Nil parts_Cons leaves | simp add: layouts_eval sizes_eval)+)
    (simp add: read_job_update_def job_update_tag_building_def layouts_eval sizes_eval)

lemma prepares_opt_metrics:
  "prepares (prepare_opt (align_of build_metrics_layout) prepare_build_metrics m) 112
     (reads (dec_opt 8 read_build_metrics) m)"
proof -
  have "align_of build_metrics_layout = 8" by (simp add: layouts_eval sizes_eval)
  moreover have "option_size 8 (size_of build_metrics_layout) = 112" by (simp add: sizes_eval layouts_eval)
  ultimately show ?thesis
    using prepares_opt [of m prepare_build_metrics "size_of build_metrics_layout" read_build_metrics 8]
      prepares_build_metrics by simp
qed

lemma prepares_build_output_update [leaves]:
  "sso_safe build_id \<Longrightarrow> (\<And>o'. o' \<in> set outputs \<Longrightarrow> safe_build_output o') \<Longrightarrow>
     prepares (prepare_job_update_build_output build_id outputs metrics substituted)
       job_update_kind_size (reads read_job_update (BuildOutput build_id outputs metrics substituted))"
  unfolding prepare_job_update_build_output_def
  by (rule prepares_weaken, rule prepares_variant,
      (rule parts_Nil parts_Cons leaves prepares_opt_metrics arch_build_output.vec_law
        | simp add: layouts_eval sizes_eval)+)
    (simp add: read_job_update_def job_update_tag_build_output_def layouts_eval sizes_eval)

end
