(* ===== verification/Client_Messages.thy ===== *)
theory Client_Messages
  imports Gradient_Types
begin

text \<open>
  The messages the worker sends (\<open>client_message.go\<close>): one definition for each \<open>Encode...\<close>
  function, with its arguments and its own layout. The datatype \<open>client_message\<close> and the decoder
  \<open>read_client_message\<close> are the abstract side: what the server sees, with the tags and offsets of
  the protocol written out; every encoder refines it.
\<close>

section \<open>The encoders\<close>

definition client_message_size :: nat where "client_message_size = 160"
definition client_message_align :: nat where "client_message_align = 8"

definition tag_init_connection :: u32 where "tag_init_connection = 0"
definition tag_auth_response :: u32 where "tag_auth_response = 1"
definition tag_worker_capabilities :: u32 where "tag_worker_capabilities = 4"
definition tag_assign_job_response :: u32 where "tag_assign_job_response = 8"
definition tag_job_update :: u32 where "tag_job_update = 9"
definition tag_job_completed :: u32 where "tag_job_completed = 10"
definition tag_job_failed :: u32 where "tag_job_failed = 11"
definition tag_draining :: u32 where "tag_draining = 12"
definition tag_log_chunk :: u32 where "tag_log_chunk = 13"
definition tag_nar_push :: u32 where "tag_nar_push = 15"
definition tag_nar_uploaded :: u32 where "tag_nar_uploaded = 16"
definition tag_nar_stream_header :: u32 where "tag_nar_stream_header = 17"
definition tag_request_job :: u32 where "tag_request_job = 23"
definition tag_cache_query :: u32 where "tag_cache_query = 25"

definition encode_client_message :: "u32 \<Rightarrow> (nat \<times> preparation) list \<Rightarrow> byte list option" where
  "encode_client_message tag ms = encode_message client_message_align client_message_size tag ms"

definition encode_init_connection :: "u16 \<Rightarrow> gradient_capabilities \<Rightarrow> string \<Rightarrow> byte list option" where
  "encode_init_connection version capabilities ident =
     (let l = layout_fields [(2, 2), (1, capabilities_size), (string_align, string_size)] tag_field
      in encode_client_message tag_init_connection
        [(offset_of l 0, ready (prepare_u16 version)),
         (offset_of l 1, prepare_capabilities capabilities),
         (offset_of l 2, prepare_string ident)])"

definition encode_auth_response :: "(string \<times> string) list \<Rightarrow> byte list option" where
  "encode_auth_response tokens =
     (let l = layout_fields [(vec_align, vec_size)] tag_field; tuple_size = 2 * string_size
      in encode_client_message tag_auth_response
        [(offset_of l 0, prepare_vec (length tokens) string_align tuple_size
            (\<lambda>i. prepare_record [(0, prepare_string (fst (tokens ! i))),
                                 (string_size, prepare_string (snd (tokens ! i)))]))])"

definition encode_draining :: "byte list option" where
  "encode_draining = encode_client_message tag_draining []"

definition encode_worker_capabilities ::
  "string list \<Rightarrow> string list \<Rightarrow> u32 \<Rightarrow> u32 \<Rightarrow> u64 \<Rightarrow> u32 \<Rightarrow> byte list option" where
  "encode_worker_capabilities architectures system_features max_builds cpu_count ram_total score =
     (let l = layout_fields [(vec_align, vec_size), (vec_align, vec_size), (4, 4), (4, 4), (8, 8), (4, 4)]
                tag_field
      in encode_client_message tag_worker_capabilities
        [(offset_of l 0, prepare_string_vec architectures),
         (offset_of l 1, prepare_string_vec system_features),
         (offset_of l 2, ready (prepare_u32 max_builds)),
         (offset_of l 3, ready (prepare_u32 cpu_count)),
         (offset_of l 4, ready (prepare_u64 ram_total)),
         (offset_of l 5, ready (prepare_u32 score))])"

definition job_kind_flake :: u8 where "job_kind_flake = 0"
definition job_kind_build :: u8 where "job_kind_build = 1"

definition encode_request_job :: "u8 \<Rightarrow> byte list option" where
  "encode_request_job kind =
     (let l = layout_fields [(1, 1)] tag_field
      in encode_client_message tag_request_job [(offset_of l 0, ready (prepare_tag1 kind))])"

definition encode_assign_job_response :: "string \<Rightarrow> bool \<Rightarrow> string \<Rightarrow> byte list option" where
  "encode_assign_job_response job_id accepted reason =
     (let l = layout_fields [(string_align, string_size), (1, 1),
                (string_align, option_size string_align string_size)] tag_field
      in encode_client_message tag_assign_job_response
        [(offset_of l 0, prepare_string job_id),
         (offset_of l 1, ready (prepare_bool accepted)),
         (offset_of l 2, prepare_opt string_align prepare_string (if \<not> accepted then Some reason else None))])"

definition job_update_kind_align :: nat where "job_update_kind_align = 8"

definition job_update_fields_layout :: "nat list \<times> layout" where
  "job_update_fields_layout = layout_fields
     [(string_align, string_size), (job_update_kind_align, job_update_kind_size)] tag_field"

definition encode_job_update_building :: "string \<Rightarrow> string \<Rightarrow> byte list option" where
  "encode_job_update_building job_id build_id = encode_client_message tag_job_update
     [(offset_of job_update_fields_layout 0, prepare_string job_id),
      (offset_of job_update_fields_layout 1, prepare_job_update_building build_id)]"

definition encode_job_update_build_output ::
  "string \<Rightarrow> string \<Rightarrow> build_output list \<Rightarrow> build_metrics option \<Rightarrow> bool \<Rightarrow> byte list option" where
  "encode_job_update_build_output job_id build_id outputs metrics substituted =
     encode_client_message tag_job_update
     [(offset_of job_update_fields_layout 0, prepare_string job_id),
      (offset_of job_update_fields_layout 1,
       prepare_job_update_build_output build_id outputs metrics substituted)]"

definition encode_job_completed :: "string \<Rightarrow> byte list option" where
  "encode_job_completed job_id =
     (let l = layout_fields [(string_align, string_size)] tag_field
      in encode_client_message tag_job_completed [(offset_of l 0, prepare_string job_id)])"

definition build_failure_transient :: u8 where "build_failure_transient = 0"
definition build_failure_permanent :: u8 where "build_failure_permanent = 1"
definition build_failure_timeout :: u8 where "build_failure_timeout = 2"
definition build_failure_inputs_unavailable :: u8 where "build_failure_inputs_unavailable = 4"

definition encode_job_failed :: "string \<Rightarrow> string \<Rightarrow> u8 \<Rightarrow> string list \<Rightarrow> byte list option" where
  "encode_job_failed job_id err_msg kind missing_paths =
     (let l = layout_fields [(string_align, string_size), (string_align, string_size), (1, 1),
                (vec_align, vec_size)] tag_field
      in encode_client_message tag_job_failed
        [(offset_of l 0, prepare_string job_id),
         (offset_of l 1, prepare_string err_msg),
         (offset_of l 2, ready (prepare_tag1 kind)),
         (offset_of l 3, prepare_string_vec missing_paths)])"

definition encode_log_chunk :: "string \<Rightarrow> u32 \<Rightarrow> byte list \<Rightarrow> byte list option" where
  "encode_log_chunk job_id task_index data =
     (let l = layout_fields [(string_align, string_size), (4, 4), (vec_align, vec_size)] tag_field
      in encode_client_message tag_log_chunk
        [(offset_of l 0, prepare_string job_id),
         (offset_of l 1, ready (prepare_u32 task_index)),
         (offset_of l 2, prepare_byte_vec data)])"

definition encode_nar_stream_header :: "string \<Rightarrow> string \<Rightarrow> u64 option \<Rightarrow> string \<Rightarrow> byte list option" where
  "encode_nar_stream_header job_id store_path total_bytes stream_token =
     (let l = layout_fields [(string_align, string_size), (string_align, string_size),
                (8, option_size 8 8), (string_align, string_size)] tag_field
      in encode_client_message tag_nar_stream_header
        [(offset_of l 0, prepare_string job_id),
         (offset_of l 1, prepare_string store_path),
         (offset_of l 2, prepare_opt_u64 total_bytes),
         (offset_of l 3, prepare_string stream_token)])"

definition encode_nar_push :: "string \<Rightarrow> string \<Rightarrow> byte list \<Rightarrow> u64 \<Rightarrow> bool \<Rightarrow> byte list option" where
  "encode_nar_push job_id store_path data offset is_final =
     (let l = layout_fields [(string_align, string_size), (string_align, string_size),
                (vec_align, vec_size), (8, 8), (1, 1)] tag_field
      in encode_client_message tag_nar_push
        [(offset_of l 0, prepare_string job_id),
         (offset_of l 1, prepare_string store_path),
         (offset_of l 2, prepare_byte_vec data),
         (offset_of l 3, ready (prepare_u64 offset)),
         (offset_of l 4, ready (prepare_bool is_final))])"

definition encode_nar_uploaded ::
  "string \<Rightarrow> string \<Rightarrow> string \<Rightarrow> u64 \<Rightarrow> u64 \<Rightarrow> string \<Rightarrow> string list \<Rightarrow> string option \<Rightarrow> string option
     \<Rightarrow> byte list option" where
  "encode_nar_uploaded job_id store_path file_hash file_size nar_size nar_hash references deriver ca =
     (let l = layout_fields [(string_align, string_size), (string_align, string_size),
                (string_align, string_size), (8, 8), (8, 8), (string_align, string_size),
                (vec_align, vec_size), (string_align, option_size string_align string_size),
                (string_align, option_size string_align string_size)] tag_field
      in encode_client_message tag_nar_uploaded
        [(offset_of l 0, prepare_string job_id),
         (offset_of l 1, prepare_string store_path),
         (offset_of l 2, prepare_string file_hash),
         (offset_of l 3, ready (prepare_u64 file_size)),
         (offset_of l 4, ready (prepare_u64 nar_size)),
         (offset_of l 5, prepare_string nar_hash),
         (offset_of l 6, prepare_string_vec references),
         (offset_of l 7, prepare_opt_string deriver),
         (offset_of l 8, prepare_opt_string ca)])"

definition query_mode_normal :: u8 where "query_mode_normal = 0"
definition query_mode_pull :: u8 where "query_mode_pull = 1"
definition query_mode_push :: u8 where "query_mode_push = 2"

definition encode_cache_query :: "string \<Rightarrow> string \<Rightarrow> string list \<Rightarrow> u8 \<Rightarrow> byte list option" where
  "encode_cache_query job_id query_id paths mode =
     (let l = layout_fields [(string_align, string_size), (string_align, string_size),
                (vec_align, vec_size), (1, 1)] tag_field
      in encode_client_message tag_cache_query
        [(offset_of l 0, prepare_string job_id),
         (offset_of l 1, prepare_string query_id),
         (offset_of l 2, prepare_string_vec paths),
         (offset_of l 3, ready (prepare_tag1 mode))])"

section \<open>What the server reads\<close>

datatype client_message =
    InitConnection u16 gradient_capabilities string
  | AuthResponse "(string \<times> string) list"
  | WorkerCapabilities "string list" "string list" u32 u32 u64 u32
  | AssignJobResponse string bool "string option"
  | JobUpdate string job_update
  | JobCompleted string
  | JobFailed string string u8 "string list"
  | Draining
  | LogChunk string u32 "byte list"
  | NarPush string string "byte list" u64 bool
  | NarUploaded string string string u64 u64 string "string list" "string option" "string option"
  | NarStreamHeader string string "u64 option" string
  | RequestJob u8
  | CacheQuery string string "string list" u8

definition read_pair :: "byte list \<Rightarrow> int \<Rightarrow> (string \<times> string) option" where
  "read_pair b p = do { s \<leftarrow> dec_string b p; t \<leftarrow> dec_string b (p + 8); Some (s, t) }"

text \<open>The fields of each variant, \<open>p\<close> being the position of the message's root.\<close>

definition read_client_fields :: "byte list \<Rightarrow> int \<Rightarrow> u8 \<Rightarrow> client_message option" where
  "read_client_fields b p t =
     (if t = 0 then do {
        v \<leftarrow> dec_u16 b (p + 2); c \<leftarrow> decode_capabilities b (p + 4); i \<leftarrow> dec_string b (p + 12);
        Some (InitConnection v c i) }
      else if t = 1 then do { ts \<leftarrow> vec_each 16 read_pair b (p + 4); Some (AuthResponse ts) }
      else if t = 4 then do {
        as \<leftarrow> decode_string_vec b (p + 4); fs \<leftarrow> decode_string_vec b (p + 12); m \<leftarrow> dec_u32 b (p + 20);
        c \<leftarrow> dec_u32 b (p + 24); r \<leftarrow> dec_u64 b (p + 32); s \<leftarrow> dec_u32 b (p + 40);
        Some (WorkerCapabilities as fs m c r s) }
      else if t = 8 then do {
        j \<leftarrow> dec_string b (p + 4); a \<leftarrow> dec_bool b (p + 12); r \<leftarrow> decode_opt_string b (p + 16);
        Some (AssignJobResponse j a r) }
      else if t = 9 then do {
        j \<leftarrow> dec_string b (p + 4); u \<leftarrow> read_job_update b (p + 16); Some (JobUpdate j u) }
      else if t = 10 then do { j \<leftarrow> dec_string b (p + 4); Some (JobCompleted j) }
      else if t = 11 then do {
        j \<leftarrow> dec_string b (p + 4); e \<leftarrow> dec_string b (p + 12); k \<leftarrow> dec_tag1 b (p + 20);
        ms \<leftarrow> decode_string_vec b (p + 24); Some (JobFailed j e k ms) }
      else if t = 12 then Some Draining
      else if t = 13 then do {
        j \<leftarrow> dec_string b (p + 4); i \<leftarrow> dec_u32 b (p + 12); d \<leftarrow> vec_each 1 dec_tag1 b (p + 16);
        Some (LogChunk j i d) }
      else if t = 15 then do {
        j \<leftarrow> dec_string b (p + 4); s \<leftarrow> dec_string b (p + 12); d \<leftarrow> vec_each 1 dec_tag1 b (p + 20);
        off \<leftarrow> dec_u64 b (p + 32); f \<leftarrow> dec_bool b (p + 40); Some (NarPush j s d off f) }
      else if t = 16 then do {
        j \<leftarrow> dec_string b (p + 4); s \<leftarrow> dec_string b (p + 12); fh \<leftarrow> dec_string b (p + 20);
        fs \<leftarrow> dec_u64 b (p + 32); ns \<leftarrow> dec_u64 b (p + 40); nh \<leftarrow> dec_string b (p + 48);
        rs \<leftarrow> decode_string_vec b (p + 56); d \<leftarrow> decode_opt_string b (p + 64);
        c \<leftarrow> decode_opt_string b (p + 76); Some (NarUploaded j s fh fs ns nh rs d c) }
      else if t = 17 then do {
        j \<leftarrow> dec_string b (p + 4); s \<leftarrow> dec_string b (p + 12); n \<leftarrow> decode_opt_u64 b (p + 24);
        k \<leftarrow> dec_string b (p + 40); Some (NarStreamHeader j s n k) }
      else if t = 23 then do { k \<leftarrow> dec_tag1 b (p + 1); Some (RequestJob k) }
      else if t = 25 then do {
        j \<leftarrow> dec_string b (p + 4); q \<leftarrow> dec_string b (p + 12); ps \<leftarrow> decode_string_vec b (p + 20);
        m \<leftarrow> dec_tag1 b (p + 28); Some (CacheQuery j q ps m) }
      else None)"

definition read_client_message :: "byte list \<Rightarrow> client_message option" where
  "read_client_message b = do {
     t \<leftarrow> dec_tag1 b (root_pos 160 b);
     read_client_fields b (root_pos 160 b) t }"

text \<open>\<open>faithful out m\<close>: a buffer the encoder returned is a well-placed root that reads as \<open>m\<close>.\<close>

definition faithful :: "byte list option \<Rightarrow> client_message \<Rightarrow> bool" where
  "faithful res m \<longleftrightarrow> (\<exists>out. res = Some out \<and> 160 \<le> length out \<and> (length out - 160) mod 8 = 0 \<and>
     (length out \<le> max_arena \<longrightarrow> read_client_message out = Some m))"

lemma faithfulI:
  assumes "parts 1 ms 160 P"
    and "\<And>b p. P b p \<Longrightarrow> read_client_fields b p (ucast tag) = Some m"
  shows "faithful (encode_client_message tag ms) m"
  by (rule encode_message_law [OF assms(1), of 8 tag])
    (auto simp: faithful_def encode_client_message_def client_message_align_def client_message_size_def
      read_client_message_def assms(2))

section \<open>Every encoder refines the protocol\<close>

lemmas client_tags =
  tag_init_connection_def tag_auth_response_def tag_worker_capabilities_def
  tag_assign_job_response_def tag_job_update_def tag_job_completed_def tag_job_failed_def
  tag_draining_def tag_log_chunk_def tag_nar_push_def tag_nar_uploaded_def tag_nar_stream_header_def
  tag_request_job_def tag_cache_query_def

text \<open>The offsets, all within the 160 bytes of the union, that the layouts compute.\<close>

lemma client_layouts:
  "layout_fields [(2, 2), (1, capabilities_size), (string_align, string_size)] tag_field =
     ([2, 4, 12], \<lparr>l_offset = 20, l_align = 4\<rparr>)"
  "layout_fields [(vec_align, vec_size)] tag_field =
     ([4], \<lparr>l_offset = 12, l_align = 4\<rparr>)"
  "layout_fields [(vec_align, vec_size), (vec_align, vec_size), (4, 4), (4, 4), (8, 8), (4, 4)] tag_field =
     ([4, 12, 20, 24, 32, 40], \<lparr>l_offset = 44, l_align = 8\<rparr>)"
  "layout_fields [(1, 1)] tag_field =
     ([1], \<lparr>l_offset = 2, l_align = 1\<rparr>)"
  "layout_fields [(string_align, string_size), (1, 1), (string_align, option_size string_align string_size)] tag_field =
     ([4, 12, 16], \<lparr>l_offset = 28, l_align = 4\<rparr>)"
  "layout_fields [(string_align, string_size)] tag_field =
     ([4], \<lparr>l_offset = 12, l_align = 4\<rparr>)"
  "layout_fields [(string_align, string_size), (string_align, string_size), (1, 1), (vec_align, vec_size)] tag_field =
     ([4, 12, 20, 24], \<lparr>l_offset = 32, l_align = 4\<rparr>)"
  "layout_fields [(string_align, string_size), (4, 4), (vec_align, vec_size)] tag_field =
     ([4, 12, 16], \<lparr>l_offset = 24, l_align = 4\<rparr>)"
  "layout_fields [(string_align, string_size), (string_align, string_size), (8, option_size 8 8), (string_align, string_size)] tag_field =
     ([4, 12, 24, 40], \<lparr>l_offset = 48, l_align = 8\<rparr>)"
  "layout_fields [(string_align, string_size), (string_align, string_size), (vec_align, vec_size), (8, 8), (1, 1)] tag_field =
     ([4, 12, 20, 32, 40], \<lparr>l_offset = 41, l_align = 8\<rparr>)"
  "layout_fields [(string_align, string_size), (string_align, string_size), (string_align, string_size), (8, 8), (8, 8),
     (string_align, string_size), (vec_align, vec_size), (string_align, option_size string_align string_size),
     (string_align, option_size string_align string_size)] tag_field =
     ([4, 12, 20, 32, 40, 48, 56, 64, 76], \<lparr>l_offset = 88, l_align = 8\<rparr>)"
  "layout_fields [(string_align, string_size), (string_align, string_size), (vec_align, vec_size), (1, 1)] tag_field =
     ([4, 12, 20, 28], \<lparr>l_offset = 29, l_align = 4\<rparr>)"
  "job_update_fields_layout = ([4, 16], \<lparr>l_offset = 160, l_align = 8\<rparr>)"
  by (simp_all add: sizes_eval layout_new_def layout_field_def tag_field_def job_update_fields_layout_def
      job_update_kind_align_def)

lemma init_connection_faithful:
  "sso_safe i \<Longrightarrow> faithful (encode_init_connection v c i) (InitConnection v c i)"
  unfolding encode_init_connection_def Let_def client_layouts
  by (rule faithfulI, (rule parts_Nil parts_Cons prepares_safe_opt leaves
        | force | simp add: sizes_eval)+)
    (simp add: read_client_fields_def client_tags sizes_eval)

lemma prepares_token_pair:
  "(\<lambda>(p, t). sso_safe p \<and> sso_safe t) v \<Longrightarrow>
     prepares (prepare_record [(0, prepare_string (fst v)), (string_size, prepare_string (snd v))])
       (2 * string_size) (reads read_pair v)"
  by (rule prepares_weaken, rule prepares_string_pair [unfolded prepare_string_pair_def])
    (auto simp: read_pair_def string_size_def split: prod.splits)

interpretation arch_token:
  archived "\<lambda>v. prepare_record [(0, prepare_string (fst v)), (string_size, prepare_string (snd v))]"
    read_pair "2 * string_size" "\<lambda>(p, t). sso_safe p \<and> sso_safe t"
  by (unfold_locales, simp add: string_size_def, rule prepares_token_pair)

lemma auth_response_faithful:
  "(\<forall>(p, t) \<in> set ts. sso_safe p \<and> sso_safe t) \<Longrightarrow>
     faithful (encode_auth_response ts) (AuthResponse ts)"
  unfolding encode_auth_response_def Let_def client_layouts
  by (rule faithfulI, (rule parts_Nil parts_Cons prepares_safe_opt leaves arch_token.vec_law
        | force | simp add: sizes_eval)+)
    (simp add: read_client_fields_def client_tags sizes_eval)

lemma draining_faithful:
  "faithful encode_draining (Draining)"
  unfolding encode_draining_def Let_def client_layouts
  by (rule faithfulI, (rule parts_Nil parts_Cons prepares_safe_opt leaves
        | force | simp add: sizes_eval)+)
    (simp add: read_client_fields_def client_tags sizes_eval)

lemma worker_capabilities_faithful:
  "(\<forall>s \<in> set as \<union> set fs. sso_safe s) \<Longrightarrow>
     faithful (encode_worker_capabilities as fs m c r k) (WorkerCapabilities as fs m c r k)"
  unfolding encode_worker_capabilities_def Let_def client_layouts
  by (rule faithfulI, (rule parts_Nil parts_Cons prepares_safe_opt leaves
        | force | simp add: sizes_eval)+)
    (simp add: read_client_fields_def client_tags sizes_eval)

lemma request_job_faithful:
  "faithful (encode_request_job k) (RequestJob k)"
  unfolding encode_request_job_def Let_def client_layouts
  by (rule faithfulI, (rule parts_Nil parts_Cons prepares_safe_opt leaves
        | force | simp add: sizes_eval)+)
    (simp add: read_client_fields_def client_tags sizes_eval)

lemma assign_job_response_faithful:
  "sso_safe j \<Longrightarrow> sso_safe r \<Longrightarrow> faithful (encode_assign_job_response j a r) (AssignJobResponse j a (if \<not> a then Some r else None))"
  unfolding encode_assign_job_response_def Let_def client_layouts
  by (rule faithfulI, (rule parts_Nil parts_Cons prepares_safe_opt leaves prepares_opt
        | simp split: if_splits | simp add: sizes_eval)+)
    (simp_all add: read_client_fields_def decode_opt_string_def client_tags sizes_eval)

lemma job_update_building_faithful:
  "sso_safe j \<Longrightarrow> sso_safe i \<Longrightarrow> faithful (encode_job_update_building j i) (JobUpdate j (Building i))"
  unfolding encode_job_update_building_def Let_def client_layouts
  by (rule faithfulI, (rule parts_Nil parts_Cons prepares_safe_opt leaves
        | force | simp add: sizes_eval)+)
    (simp add: read_client_fields_def client_tags sizes_eval)

lemma job_update_build_output_faithful:
  "sso_safe j \<Longrightarrow>
     sso_safe i \<Longrightarrow>
     (\<forall>o' \<in> set os. safe_build_output o') \<Longrightarrow>
     faithful (encode_job_update_build_output j i os m sb) (JobUpdate j (BuildOutput i os m sb))"
  unfolding encode_job_update_build_output_def Let_def client_layouts
  by (rule faithfulI, (rule parts_Nil parts_Cons prepares_safe_opt leaves
        | force | simp add: sizes_eval)+)
    (simp add: read_client_fields_def client_tags sizes_eval)

lemma job_completed_faithful:
  "sso_safe j \<Longrightarrow> faithful (encode_job_completed j) (JobCompleted j)"
  unfolding encode_job_completed_def Let_def client_layouts
  by (rule faithfulI, (rule parts_Nil parts_Cons prepares_safe_opt leaves
        | force | simp add: sizes_eval)+)
    (simp add: read_client_fields_def client_tags sizes_eval)

lemma job_failed_faithful:
  "sso_safe j \<Longrightarrow>
     sso_safe e \<Longrightarrow>
     (\<forall>m \<in> set ms. sso_safe m) \<Longrightarrow>
     faithful (encode_job_failed j e k ms) (JobFailed j e k ms)"
  unfolding encode_job_failed_def Let_def client_layouts
  by (rule faithfulI, (rule parts_Nil parts_Cons prepares_safe_opt leaves
        | force | simp add: sizes_eval)+)
    (simp add: read_client_fields_def client_tags sizes_eval)

lemma log_chunk_faithful:
  "sso_safe j \<Longrightarrow> faithful (encode_log_chunk j i d) (LogChunk j i d)"
  unfolding encode_log_chunk_def Let_def client_layouts
  by (rule faithfulI, (rule parts_Nil parts_Cons prepares_safe_opt leaves
        | force | simp add: sizes_eval)+)
    (simp add: read_client_fields_def client_tags sizes_eval)

lemma nar_stream_header_faithful:
  "sso_safe j \<Longrightarrow>
     sso_safe s \<Longrightarrow>
     sso_safe k \<Longrightarrow>
     faithful (encode_nar_stream_header j s n k) (NarStreamHeader j s n k)"
  unfolding encode_nar_stream_header_def Let_def client_layouts
  by (rule faithfulI, (rule parts_Nil parts_Cons prepares_safe_opt leaves
        | force | simp add: sizes_eval)+)
    (simp add: read_client_fields_def client_tags sizes_eval)

lemma nar_push_faithful:
  "sso_safe j \<Longrightarrow> sso_safe s \<Longrightarrow> faithful (encode_nar_push j s d off f) (NarPush j s d off f)"
  unfolding encode_nar_push_def Let_def client_layouts
  by (rule faithfulI, (rule parts_Nil parts_Cons prepares_safe_opt leaves
        | force | simp add: sizes_eval)+)
    (simp add: read_client_fields_def client_tags sizes_eval)

lemma nar_uploaded_faithful:
  "sso_safe j \<Longrightarrow>
     sso_safe s \<Longrightarrow>
     sso_safe fh \<Longrightarrow>
     sso_safe nh \<Longrightarrow>
     (\<forall>r \<in> set rs. sso_safe r) \<Longrightarrow>
     safe_opt d \<Longrightarrow>
     safe_opt c \<Longrightarrow>
     faithful (encode_nar_uploaded j s fh fs ns nh rs d c) (NarUploaded j s fh fs ns nh rs d c)"
  unfolding encode_nar_uploaded_def Let_def client_layouts
  by (rule faithfulI, (rule parts_Nil parts_Cons prepares_safe_opt leaves
        | force | simp add: sizes_eval)+)
    (simp add: read_client_fields_def client_tags sizes_eval)

lemma cache_query_faithful:
  "sso_safe j \<Longrightarrow>
     sso_safe q \<Longrightarrow>
     (\<forall>p \<in> set ps. sso_safe p) \<Longrightarrow>
     faithful (encode_cache_query j q ps m) (CacheQuery j q ps m)"
  unfolding encode_cache_query_def Let_def client_layouts
  by (rule faithfulI, (rule parts_Nil parts_Cons prepares_safe_opt leaves
        | force | simp add: sizes_eval)+)
    (simp add: read_client_fields_def client_tags sizes_eval)

text \<open>
  All messages at once: the message \<open>encode_client m\<close> sends for an abstract message. An
  \<open>AssignJobResponse\<close> carries a reason exactly when it rejects the job.
\<close>

fun encode_client :: "client_message \<Rightarrow> byte list option" where
  "encode_client (InitConnection v c i) = encode_init_connection v c i"
| "encode_client (AuthResponse ts) = encode_auth_response ts"
| "encode_client (WorkerCapabilities as fs m c r k) = encode_worker_capabilities as fs m c r k"
| "encode_client (AssignJobResponse j a r) =
     encode_assign_job_response j a (case r of None \<Rightarrow> [] | Some s \<Rightarrow> s)"
| "encode_client (JobUpdate j (Building i)) = encode_job_update_building j i"
| "encode_client (JobUpdate j (BuildOutput i os m sb)) = encode_job_update_build_output j i os m sb"
| "encode_client (JobCompleted j) = encode_job_completed j"
| "encode_client (JobFailed j e k ms) = encode_job_failed j e k ms"
| "encode_client Draining = encode_draining"
| "encode_client (LogChunk j i d) = encode_log_chunk j i d"
| "encode_client (NarPush j s d off f) = encode_nar_push j s d off f"
| "encode_client (NarUploaded j s fh fs ns nh rs d c) = encode_nar_uploaded j s fh fs ns nh rs d c"
| "encode_client (NarStreamHeader j s n k) = encode_nar_stream_header j s n k"
| "encode_client (RequestJob k) = encode_request_job k"
| "encode_client (CacheQuery j q ps m) = encode_cache_query j q ps m"

fun safe_client :: "client_message \<Rightarrow> bool" where
  "safe_client (InitConnection v c i) = sso_safe i"
| "safe_client (AuthResponse ts) = (\<forall>(p, t) \<in> set ts. sso_safe p \<and> sso_safe t)"
| "safe_client (WorkerCapabilities as fs m c r k) = (\<forall>s \<in> set as \<union> set fs. sso_safe s)"
| "safe_client (AssignJobResponse j a r) = (sso_safe j \<and> safe_opt r \<and> (a \<longleftrightarrow> r = None))"
| "safe_client (JobUpdate j (Building i)) = (sso_safe j \<and> sso_safe i)"
| "safe_client (JobUpdate j (BuildOutput i os m sb)) =
     (sso_safe j \<and> sso_safe i \<and> (\<forall>o' \<in> set os. safe_build_output o'))"
| "safe_client (JobCompleted j) = sso_safe j"
| "safe_client (JobFailed j e k ms) = (sso_safe j \<and> sso_safe e \<and> (\<forall>m \<in> set ms. sso_safe m))"
| "safe_client Draining = True"
| "safe_client (LogChunk j i d) = sso_safe j"
| "safe_client (NarPush j s d off f) = (sso_safe j \<and> sso_safe s)"
| "safe_client (NarUploaded j s fh fs ns nh rs d c) =
     (sso_safe j \<and> sso_safe s \<and> sso_safe fh \<and> sso_safe nh \<and> (\<forall>r \<in> set rs. sso_safe r) \<and>
      safe_opt d \<and> safe_opt c)"
| "safe_client (NarStreamHeader j s n k) = (sso_safe j \<and> sso_safe s \<and> sso_safe k)"
| "safe_client (RequestJob k) = True"
| "safe_client (CacheQuery j q ps m) = (sso_safe j \<and> sso_safe q \<and> (\<forall>p \<in> set ps. sso_safe p))"

lemmas encoders_faithful =
  init_connection_faithful auth_response_faithful worker_capabilities_faithful
  job_update_building_faithful job_update_build_output_faithful job_completed_faithful
  job_failed_faithful draining_faithful log_chunk_faithful nar_push_faithful nar_uploaded_faithful
  nar_stream_header_faithful request_job_faithful cache_query_faithful

lemma sso_safe_Nil [simp]: "sso_safe []"
  by (simp add: sso_safe_def)

lemma assign_response_faithful:
  "sso_safe j \<Longrightarrow> safe_opt r \<Longrightarrow>
     faithful (encode_assign_job_response j (r = None) (case r of None \<Rightarrow> [] | Some s \<Rightarrow> s))
       (AssignJobResponse j (r = None) r)"
  using assign_job_response_faithful [of j "case r of None \<Rightarrow> [] | Some s \<Rightarrow> s" "r = None"]
  by (cases r) (simp_all add: safe_opt_def)

lemma encode_client_faithful: "safe_client m \<Longrightarrow> faithful (encode_client m) m"
  by (cases m rule: encode_client.cases) (auto intro: encoders_faithful assign_response_faithful)

section \<open>Properties of the encoders\<close>

definition no_caps :: gradient_capabilities where
  "no_caps = \<lparr>cap_core = False, cap_federate = False, cap_fetch = False, cap_eval = False,
     cap_build = False, cap_cache = False\<rparr>"

text \<open>
  C12: every message the worker encodes is the one the server reads. For each of the 15 encoders and
  all arguments (their strings being \<open>sso_safe\<close>), the encoder returns a buffer without a panic; its
  last 160 bytes, 8-aligned, are the root; and, up to 1 GiB, the protocol's decoder reads every field
  back at its offset: the optional fields, the vectors and the nested structs included.
\<close>

theorem client_messages_roundtrip:
  assumes "safe_client m"
  shows "\<exists>out. encode_client m = Some out \<and> 160 \<le> length out \<and> (length out - 160) mod 8 = 0 \<and>
    (length out \<le> max_arena \<longrightarrow> read_client_message out = Some m)"
  using encode_client_faithful [OF assms] by (simp add: faithful_def)

lemma client_messages_roundtrip_witness:
  "\<exists>out. encode_client (NarPush ''job-1'' ''/nix/store/abc-hello'' [1, 2, 3] 4096 True) = Some out \<and>
    160 \<le> length out \<and> (length out - 160) mod 8 = 0 \<and>
    (length out \<le> max_arena \<longrightarrow> read_client_message out =
      Some (NarPush ''job-1'' ''/nix/store/abc-hello'' [1, 2, 3] 4096 True))"
  by (rule client_messages_roundtrip) (simp add: sso_safe_def)

text \<open>
  byte-exact agreement with the archives that the Rust implementation produced
  (\<open>testdata/fixtures/ClientMessage_InitConnection.bin\<close> and \<open>ClientMessage_JobFailed.bin\<close>).
\<close>

theorem client_fixtures:
  "encode_init_connection 1 (no_caps\<lparr>cap_build := True\<rparr>) ''550e8400-e29b-41d4-a716-446655440000'' =
     Some (bytes_of ''550e8400-e29b-41d4-a716-446655440000'' @ zeros 4 @
       [0, 0, 1, 0, 0, 0, 0, 0, 1, 0, 0, 0, 0xa4, 0, 0, 0, 0xcc, 0xff, 0xff, 0xff] @ zeros 140) \<and>
   encode_job_failed ''j-1'' ''build failed'' build_failure_permanent [] =
     Some (bytes_of ''build failed'' @ zeros 4 @ [0x0b, 0, 0, 0] @ bytes_of ''j-1'' @
       [0xff, 0xff, 0xff, 0xff, 0xff, 0x8c, 0, 0, 0, 0xe4, 0xff, 0xff, 0xff, 1, 0, 0, 0,
        0xe4, 0xff, 0xff, 0xff] @ zeros 132)"
  by (intro conjI; code_simp)

end
