(* ===== verification/Server_Messages.thy ===== *)
theory Server_Messages
  imports Gradient_Types
begin

text \<open>
  The messages the worker receives (\<open>server_message.go\<close>). Go has no sum types, so a decoded message
  is one flat struct whose \<open>Kind\<close> says which fields are meaningful and whose other fields are zero;
  the record follows it. The peer's side is a reference encoder, written with the same arena
  operations and the offsets of the protocol (the repository's tests build their messages like this).
\<close>

section \<open>The decoder\<close>

definition server_message_size :: nat where "server_message_size = 112"
definition server_message_align :: nat where "server_message_align = 8"

definition server_tag_auth_challenge :: u32 where "server_tag_auth_challenge = 0"
definition server_tag_init_ack :: u32 where "server_tag_init_ack = 1"
definition server_tag_reject :: u32 where "server_tag_reject = 3"
definition server_tag_error :: u32 where "server_tag_error = 4"
definition server_tag_draining :: u32 where "server_tag_draining = 5"
definition server_tag_assign_job :: u32 where "server_tag_assign_job = 9"
definition server_tag_abort_job :: u32 where "server_tag_abort_job = 10"
definition server_tag_nar_push_resume :: u32 where "server_tag_nar_push_resume = 16"
definition server_tag_cache_status :: u32 where "server_tag_cache_status = 21"
definition server_tag_cache_error :: u32 where "server_tag_cache_error = 23"

datatype server_message_kind =
    MsgUnknown | MsgAuthChallenge | MsgInitAck | MsgReject | MsgError | MsgDraining
  | MsgAssignJob | MsgAbortJob | MsgNarPushResume | MsgCacheStatus | MsgCacheError

record server_message =
  sm_kind :: server_message_kind
  sm_peers :: "string list"
  sm_version :: u16
  sm_capabilities :: gradient_capabilities
  sm_authorized_peers :: "string list"
  sm_failed_peers :: "failed_peer list"
  sm_code :: u16
  sm_message :: string
  sm_reason :: string
  sm_job_id :: string
  sm_job :: build_job
  sm_store_path :: string
  sm_received_bytes :: u64
  sm_query_id :: string
  sm_cached :: "cached_path list"
  sm_unknown_tag :: u32

text \<open>The zero value of the struct, with its \<open>Kind\<close> set.\<close>

definition no_capabilities :: gradient_capabilities where
  "no_capabilities = \<lparr>cap_core = False, cap_federate = False, cap_fetch = False, cap_eval = False,
     cap_build = False, cap_cache = False\<rparr>"

definition server_msg :: "server_message_kind \<Rightarrow> server_message" where
  "server_msg k = \<lparr>sm_kind = k, sm_peers = [], sm_version = 0, sm_capabilities = no_capabilities,
     sm_authorized_peers = [], sm_failed_peers = [], sm_code = 0, sm_message = [], sm_reason = [],
     sm_job_id = [], sm_job = [], sm_store_path = [], sm_received_bytes = 0, sm_query_id = [],
     sm_cached = [], sm_unknown_tag = 0\<rparr>"

definition auth_challenge_off :: "nat list \<times> layout" where
  "auth_challenge_off = layout_fields [(vec_align, vec_size)] tag_field"

definition init_ack_off :: "nat list \<times> layout" where
  "init_ack_off = layout_fields
     [(2, 2), (1, capabilities_size), (vec_align, vec_size), (vec_align, vec_size)] tag_field"

definition reject_off :: "nat list \<times> layout" where
  "reject_off = layout_fields [(2, 2), (string_align, string_size)] tag_field"

definition error_off :: "nat list \<times> layout" where
  "error_off = layout_fields [(2, 2), (string_align, string_size)] tag_field"

definition assign_job_off :: "nat list \<times> layout" where
  "assign_job_off = layout_fields [(string_align, string_size), (job_align, job_size)] tag_field"

definition abort_job_off :: "nat list \<times> layout" where
  "abort_job_off = layout_fields [(string_align, string_size), (string_align, string_size)] tag_field"

definition nar_push_resume_off :: "nat list \<times> layout" where
  "nar_push_resume_off = layout_fields
     [(string_align, string_size), (string_align, string_size), (8, 8)] tag_field"

definition cache_status_off :: "nat list \<times> layout" where
  "cache_status_off = layout_fields [(string_align, string_size), (vec_align, vec_size)] tag_field"

definition cache_error_off :: "nat list \<times> layout" where
  "cache_error_off = layout_fields [(string_align, string_size), (string_align, string_size)] tag_field"

definition decode_failed_peer_vec :: "byte list \<Rightarrow> int \<Rightarrow> failed_peer list option" where
  "decode_failed_peer_vec b pos = vec_each failed_peer_size decode_failed_peer b pos"

definition decode_cached_path_vec :: "byte list \<Rightarrow> int \<Rightarrow> cached_path list option" where
  "decode_cached_path_vec b pos = vec_each (size_of cached_path_layout) decode_cached_path b pos"

text \<open>The \<open>switch\<close> of \<open>DecodeServerMessage\<close>: \<open>None\<close> is a panic of the decoder.\<close>

definition decode_server_fields ::
  "byte list \<Rightarrow> int \<Rightarrow> u32 \<Rightarrow> (decode_error + server_message) option" where
  "decode_server_fields b pos tag =
     (if tag = server_tag_auth_challenge then do {
        peers \<leftarrow> decode_string_vec b (pos + int (offset_of auth_challenge_off 0));
        Some (Inr ((server_msg MsgAuthChallenge)\<lparr>sm_peers := peers\<rparr>)) }
      else if tag = server_tag_init_ack then do {
        version \<leftarrow> dec_u16 b (pos + int (offset_of init_ack_off 0));
        caps \<leftarrow> decode_capabilities b (pos + int (offset_of init_ack_off 1));
        authorized \<leftarrow> decode_string_vec b (pos + int (offset_of init_ack_off 2));
        failed \<leftarrow> decode_failed_peer_vec b (pos + int (offset_of init_ack_off 3));
        Some (Inr ((server_msg MsgInitAck)\<lparr>sm_version := version, sm_capabilities := caps,
          sm_authorized_peers := authorized, sm_failed_peers := failed\<rparr>)) }
      else if tag = server_tag_reject then do {
        code \<leftarrow> dec_u16 b (pos + int (offset_of reject_off 0));
        reason \<leftarrow> dec_string b (pos + int (offset_of reject_off 1));
        Some (Inr ((server_msg MsgReject)\<lparr>sm_code := code, sm_reason := reason\<rparr>)) }
      else if tag = server_tag_error then do {
        code \<leftarrow> dec_u16 b (pos + int (offset_of error_off 0));
        message \<leftarrow> dec_string b (pos + int (offset_of error_off 1));
        Some (Inr ((server_msg MsgError)\<lparr>sm_code := code, sm_message := message\<rparr>)) }
      else if tag = server_tag_draining then Some (Inr (server_msg MsgDraining))
      else if tag = server_tag_assign_job then do {
        r \<leftarrow> decode_job b (pos + int (offset_of assign_job_off 1));
        case r of
          Inl e \<Rightarrow> Some (Inl (DecodingAssignJob e))
        | Inr job \<Rightarrow> do {
            job_id \<leftarrow> dec_string b (pos + int (offset_of assign_job_off 0));
            Some (Inr ((server_msg MsgAssignJob)\<lparr>sm_job_id := job_id, sm_job := job\<rparr>)) } }
      else if tag = server_tag_abort_job then do {
        job_id \<leftarrow> dec_string b (pos + int (offset_of abort_job_off 0));
        reason \<leftarrow> dec_string b (pos + int (offset_of abort_job_off 1));
        Some (Inr ((server_msg MsgAbortJob)\<lparr>sm_job_id := job_id, sm_reason := reason\<rparr>)) }
      else if tag = server_tag_nar_push_resume then do {
        job_id \<leftarrow> dec_string b (pos + int (offset_of nar_push_resume_off 0));
        store_path \<leftarrow> dec_string b (pos + int (offset_of nar_push_resume_off 1));
        received \<leftarrow> dec_u64 b (pos + int (offset_of nar_push_resume_off 2));
        Some (Inr ((server_msg MsgNarPushResume)\<lparr>sm_job_id := job_id, sm_store_path := store_path,
          sm_received_bytes := received\<rparr>)) }
      else if tag = server_tag_cache_status then do {
        query_id \<leftarrow> dec_string b (pos + int (offset_of cache_status_off 0));
        cached \<leftarrow> decode_cached_path_vec b (pos + int (offset_of cache_status_off 1));
        Some (Inr ((server_msg MsgCacheStatus)\<lparr>sm_query_id := query_id, sm_cached := cached\<rparr>)) }
      else if tag = server_tag_cache_error then do {
        query_id \<leftarrow> dec_string b (pos + int (offset_of cache_error_off 0));
        message \<leftarrow> dec_string b (pos + int (offset_of cache_error_off 1));
        Some (Inr ((server_msg MsgCacheError)\<lparr>sm_query_id := query_id, sm_message := message\<rparr>)) }
      else Some (Inr ((server_msg MsgUnknown)\<lparr>sm_unknown_tag := tag\<rparr>)))"

definition decode_server_message :: "byte list \<Rightarrow> (decode_error + server_message) option" where
  "decode_server_message buf =
     (if length buf < server_message_size then Some (Inl (BufferTooShort (length buf)))
      else let pos = int (length buf) - int server_message_size in
        do { t \<leftarrow> dec_tag1 buf pos; decode_server_fields buf pos (ucast t) })"

section \<open>What the server sends\<close>

definition encode_server :: "u32 \<Rightarrow> (nat \<times> preparation) list \<Rightarrow> byte list option" where
  "encode_server tag ms = encode_message server_message_align server_message_size tag ms"

datatype server_event =
    AuthChallenge "string list"
  | InitAck u16 gradient_capabilities "string list" "failed_peer list"
  | Reject u16 string
  | ServerError u16 string
  | ServerDraining
  | AssignJob string build_job
  | AbortJob string string
  | NarPushResume string string u64
  | CacheStatus string "cached_path list"
  | CacheError string string

text \<open>The sender, with the offsets of the protocol.\<close>

fun fake_server :: "server_event \<Rightarrow> byte list option" where
  "fake_server (AuthChallenge ps) = encode_server 0 [(4, prepare_string_vec ps)]"
| "fake_server (InitAck v c ps fs) = encode_server 1
     [(2, ready (prepare_u16 v)), (4, prepare_capabilities c), (12, prepare_string_vec ps),
      (20, prepare_vec (length fs) 4 failed_peer_size (\<lambda>i. fake_failed_peer (fs ! i)))]"
| "fake_server (Reject c r) = encode_server 3 [(2, ready (prepare_u16 c)), (4, prepare_string r)]"
| "fake_server (ServerError c m) = encode_server 4 [(2, ready (prepare_u16 c)), (4, prepare_string m)]"
| "fake_server ServerDraining = encode_server 5 []"
| "fake_server (AssignJob i j) = encode_server 9 [(4, prepare_string i), (16, fake_build_job j)]"
| "fake_server (AbortJob i r) = encode_server 10 [(4, prepare_string i), (12, prepare_string r)]"
| "fake_server (NarPushResume i s n) = encode_server 16
     [(4, prepare_string i), (12, prepare_string s), (24, ready (prepare_u64 n))]"
| "fake_server (CacheStatus q cs) = encode_server 21
     [(4, prepare_string q),
      (12, prepare_vec (length cs) 8 (size_of cached_path_layout) (\<lambda>i. fake_cached_path (cs ! i)))]"
| "fake_server (CacheError q m) = encode_server 23 [(4, prepare_string q), (12, prepare_string m)]"

text \<open>The struct that \<open>DecodeServerMessage\<close> must return for each of them.\<close>

fun as_message :: "server_event \<Rightarrow> server_message" where
  "as_message (AuthChallenge ps) = (server_msg MsgAuthChallenge)\<lparr>sm_peers := ps\<rparr>"
| "as_message (InitAck v c ps fs) = (server_msg MsgInitAck)\<lparr>sm_version := v, sm_capabilities := c,
     sm_authorized_peers := ps, sm_failed_peers := fs\<rparr>"
| "as_message (Reject c r) = (server_msg MsgReject)\<lparr>sm_code := c, sm_reason := r\<rparr>"
| "as_message (ServerError c m) = (server_msg MsgError)\<lparr>sm_code := c, sm_message := m\<rparr>"
| "as_message ServerDraining = server_msg MsgDraining"
| "as_message (AssignJob i j) = (server_msg MsgAssignJob)\<lparr>sm_job_id := i, sm_job := j\<rparr>"
| "as_message (AbortJob i r) = (server_msg MsgAbortJob)\<lparr>sm_job_id := i, sm_reason := r\<rparr>"
| "as_message (NarPushResume i s n) = (server_msg MsgNarPushResume)\<lparr>sm_job_id := i,
     sm_store_path := s, sm_received_bytes := n\<rparr>"
| "as_message (CacheStatus q cs) = (server_msg MsgCacheStatus)\<lparr>sm_query_id := q, sm_cached := cs\<rparr>"
| "as_message (CacheError q m) = (server_msg MsgCacheError)\<lparr>sm_query_id := q, sm_message := m\<rparr>"

fun safe_server :: "server_event \<Rightarrow> bool" where
  "safe_server (AuthChallenge ps) = (\<forall>p \<in> set ps. sso_safe p)"
| "safe_server (InitAck v c ps fs) = ((\<forall>p \<in> set ps. sso_safe p) \<and> (\<forall>f \<in> set fs. safe_failed_peer f))"
| "safe_server (Reject c r) = sso_safe r"
| "safe_server (ServerError c m) = sso_safe m"
| "safe_server ServerDraining = True"
| "safe_server (AssignJob i j) = (sso_safe i \<and> (\<forall>t \<in> set j. safe_build_task t))"
| "safe_server (AbortJob i r) = (sso_safe i \<and> sso_safe r)"
| "safe_server (NarPushResume i s n) = (sso_safe i \<and> sso_safe s)"
| "safe_server (CacheStatus q cs) = (sso_safe q \<and> (\<forall>c \<in> set cs. safe_cached_path c))"
| "safe_server (CacheError q m) = (sso_safe q \<and> sso_safe m)"

section \<open>The decoder reads what the server sends\<close>

lemmas server_tags =
  server_tag_auth_challenge_def server_tag_init_ack_def server_tag_reject_def server_tag_error_def
  server_tag_draining_def server_tag_assign_job_def server_tag_abort_job_def
  server_tag_nar_push_resume_def server_tag_cache_status_def server_tag_cache_error_def

lemma server_layouts:
  "auth_challenge_off = ([4], \<lparr>l_offset = 12, l_align = 4\<rparr>)"
  "init_ack_off = ([2, 4, 12, 20], \<lparr>l_offset = 28, l_align = 4\<rparr>)"
  "reject_off = ([2, 4], \<lparr>l_offset = 12, l_align = 4\<rparr>)"
  "error_off = ([2, 4], \<lparr>l_offset = 12, l_align = 4\<rparr>)"
  "assign_job_off = ([4, 16], \<lparr>l_offset = 112, l_align = 8\<rparr>)"
  "abort_job_off = ([4, 12], \<lparr>l_offset = 20, l_align = 4\<rparr>)"
  "nar_push_resume_off = ([4, 12, 24], \<lparr>l_offset = 32, l_align = 8\<rparr>)"
  "cache_status_off = ([4, 12], \<lparr>l_offset = 20, l_align = 4\<rparr>)"
  "cache_error_off = ([4, 12], \<lparr>l_offset = 20, l_align = 4\<rparr>)"
  by (simp_all add: sizes_eval layout_new_def layout_field_def tag_field_def auth_challenge_off_def
      init_ack_off_def reject_off_def error_off_def assign_job_off_def abort_job_off_def
      nar_push_resume_off_def cache_status_off_def cache_error_off_def)

definition delivered :: "byte list option \<Rightarrow> server_message \<Rightarrow> bool" where
  "delivered res m \<longleftrightarrow> (\<exists>out. res = Some out \<and> 112 \<le> length out \<and> (length out - 112) mod 8 = 0 \<and>
     (length out \<le> max_arena \<longrightarrow> decode_server_message out = Some (Inr m)))"

lemma deliveredI:
  assumes "parts 1 ms 112 P"
    and "\<And>b p. P b p \<Longrightarrow> decode_server_fields b p (ucast (ucast tag :: u8)) = Some (Inr m)"
  shows "delivered (encode_server tag ms) m"
  by (rule encode_message_law [OF assms(1), of 8 tag])
    (auto simp: delivered_def encode_server_def server_message_align_def server_message_size_def
      decode_server_message_def root_pos_def assms(2))

lemma fake_server_delivered: "safe_server e \<Longrightarrow> delivered (fake_server e) (as_message e)"
  by (cases e; simp only: fake_server.simps as_message.simps safe_server.simps; rule deliveredI,
      (rule parts_Nil parts_Cons leaves arch_failed_peer.vec_law arch_cached_path.vec_law | force | simp add: sizes_eval)+,
      simp add: decode_server_fields_def server_tags server_layouts decode_failed_peer_vec_def
        decode_cached_path_vec_def sizes_eval)

lemma tag_inject: "ucast (x :: u8) = (ucast (y :: u8) :: u32) \<longleftrightarrow> x = y"
proof -
  have "ucast (ucast z :: u32) = z" for z :: u8
    by (rule bit_word_eqI) (simp add: bit_ucast_iff)
  then show ?thesis by metis
qed

lemma tag_numerals:
  "ucast (x :: u8) = (0 :: u32) \<longleftrightarrow> x = 0" "ucast x = (1 :: u32) \<longleftrightarrow> x = 1"
  "ucast x = (3 :: u32) \<longleftrightarrow> x = 3" "ucast x = (4 :: u32) \<longleftrightarrow> x = 4"
  "ucast x = (5 :: u32) \<longleftrightarrow> x = 5" "ucast x = (9 :: u32) \<longleftrightarrow> x = 9"
  "ucast x = (10 :: u32) \<longleftrightarrow> x = 10" "ucast x = (16 :: u32) \<longleftrightarrow> x = 16"
  "ucast x = (21 :: u32) \<longleftrightarrow> x = 21" "ucast x = (23 :: u32) \<longleftrightarrow> x = 23"
  using tag_inject [of x 0] tag_inject [of x 1] tag_inject [of x 3] tag_inject [of x 4]
    tag_inject [of x 5] tag_inject [of x 9] tag_inject [of x 10] tag_inject [of x 16]
    tag_inject [of x 21] tag_inject [of x 23] by simp_all

lemma decode_job_error:
  "decode_job b p = Some (Inl e) \<longleftrightarrow> (\<exists>t. dec_tag1 b p = Some t \<and> t \<noteq> 1 \<and>
     e = (if t = 0 then FlakeJob else UnknownJobTag (ucast t)))"
  by (cases "dec_tag1 b p")
    (auto simp: decode_job_def job_tag_build_def job_tag_flake_def tag_numerals bind_eq_Some_conv Let_def)

lemma decode_server_fields_error:
  "decode_server_fields b p tag = Some (Inl e) \<longleftrightarrow>
     tag = 9 \<and> (\<exists>e'. decode_job b (p + 16) = Some (Inl e') \<and> e = DecodingAssignJob e')"
proof (cases "tag = 9")
  case True
  consider "decode_job b (p + 16) = None" | e' where "decode_job b (p + 16) = Some (Inl e')"
    | j where "decode_job b (p + 16) = Some (Inr j)"
    by (metis option.exhaust sum.exhaust)
  then show ?thesis
    by cases (use True in \<open>auto simp: decode_server_fields_def server_tags server_layouts sizes_eval
        bind_eq_Some_conv\<close>)
next
  case False
  then show ?thesis
    by (simp add: decode_server_fields_def server_tags bind_eq_Some_conv)
qed

section \<open>Properties of the decoder\<close>

text \<open>
  C13: \<open>DecodeServerMessage\<close> reads what the server sends. For each of the ten variants the worker
  handles, and all contents (strings \<open>sso_safe\<close>, messages up to 1 GiB), decoding the server's buffer
  gives the struct with the variant's \<open>Kind\<close>, all its fields, and every other field zero; nested jobs,
  build tasks, cached paths and failed peers included.
\<close>

theorem server_messages_roundtrip:
  assumes "safe_server e"
  shows "\<exists>out. fake_server e = Some out \<and> 112 \<le> length out \<and>
    (length out \<le> max_arena \<longrightarrow> decode_server_message out = Some (Inr (as_message e)))"
  using fake_server_delivered [OF assms] by (auto simp: delivered_def)

lemma server_messages_roundtrip_witness:
  "\<exists>out. fake_server (AssignJob ''j-1'' [\<lparr>bt_build_id = ''b'', bt_drv_path = ''/nix/store/x.drv'',
       bt_external_cached = True, bt_is_fixed_output = False,
       bt_outputs = [\<lparr>do_name = ''out'', do_path = ''/nix/store/y-hello''\<rparr>],
       bt_timeout_secs = Some 3600, bt_max_silent_secs = None\<rparr>]) = Some out \<and> 112 \<le> length out \<and>
    (length out \<le> max_arena \<longrightarrow> decode_server_message out = Some (Inr (as_message
      (AssignJob ''j-1'' [\<lparr>bt_build_id = ''b'', bt_drv_path = ''/nix/store/x.drv'',
       bt_external_cached = True, bt_is_fixed_output = False,
       bt_outputs = [\<lparr>do_name = ''out'', do_path = ''/nix/store/y-hello''\<rparr>],
       bt_timeout_secs = Some 3600, bt_max_silent_secs = None\<rparr>]))))"
  by (rule server_messages_roundtrip)
    (simp add: sso_safe_def safe_build_task_def safe_derivation_output_def)

text \<open>
  a variant the worker does not implement does not fail the connection: any buffer of at least
  112 bytes whose root has another tag decodes to \<open>ServerMsgUnknown\<close> with that tag, whatever the
  rest of the buffer holds.
\<close>

theorem server_unknown_variant:
  assumes "112 \<le> length b" and "b ! (length b - 112) \<notin> {0, 1, 3, 4, 5, 9, 10, 16, 21, 23}"
  shows "decode_server_message b =
    Some (Inr ((server_msg MsgUnknown)\<lparr>sm_unknown_tag := ucast (b ! (length b - 112))\<rparr>))"
proof -
  let ?t = "b ! (length b - 112)"
  have "dec_tag1 b (int (length b) - 112) = Some ?t"
    using assms(1) by (simp add: dec_tag1_def buf_at_def nat_diff_distrib)
  moreover have "decode_server_fields b (int (length b) - 112) (ucast ?t) =
      Some (Inr ((server_msg MsgUnknown)\<lparr>sm_unknown_tag := ucast ?t\<rparr>))"
    using assms(2) by (simp add: decode_server_fields_def server_tags tag_numerals)
  ultimately show ?thesis using assms(1)
    by (simp add: decode_server_message_def server_message_size_def)
qed

lemma server_unknown_variant_witness:
  "decode_server_message (7 # zeros 111) = Some (Inr ((server_msg MsgUnknown)\<lparr>sm_unknown_tag := 7\<rparr>))"
  using server_unknown_variant [of "7 # zeros 111"] by simp

text \<open>
  the errors of \<open>DecodeServerMessage\<close> are exactly these: a buffer shorter than the root, or an
  \<open>AssignJob\<close> (tag 9) whose job is a \<open>Job::Flake\<close> (tag 0) or of an unknown kind. In particular a
  Flake assignment is never handed to the executor.
\<close>

theorem server_decode_errors:
  "decode_server_message b = Some (Inl e) \<longleftrightarrow>
     (length b < 112 \<and> e = BufferTooShort (length b)) \<or>
     (112 \<le> length b \<and> b ! (length b - 112) = 9 \<and> b ! (length b - 96) \<noteq> 1 \<and>
      e = DecodingAssignJob (if b ! (length b - 96) = 0 then FlakeJob
                             else UnknownJobTag (ucast (b ! (length b - 96)))))"
proof (cases "length b < 112")
  case True
  then show ?thesis by (auto simp: decode_server_message_def server_message_size_def)
next
  case False
  then have root: "dec_tag1 b (int (length b) - 112) = Some (b ! (length b - 112))"
    "dec_tag1 b (int (length b) - 96) = Some (b ! (length b - 96))"
    by (auto simp: dec_tag1_def buf_at_def nat_diff_distrib)
  show ?thesis
    using False by (auto simp: decode_server_message_def server_message_size_def root
        decode_server_fields_error decode_job_error tag_numerals)
qed

text \<open>A message whose fields fit its kind: the fields of the other kinds are zero.\<close>

definition typed_message :: "server_message \<Rightarrow> bool" where
  "typed_message m \<longleftrightarrow> m = (case sm_kind m of
       MsgUnknown \<Rightarrow> (server_msg MsgUnknown)\<lparr>sm_unknown_tag := sm_unknown_tag m\<rparr>
     | MsgAuthChallenge \<Rightarrow> as_message (AuthChallenge (sm_peers m))
     | MsgInitAck \<Rightarrow> as_message (InitAck (sm_version m) (sm_capabilities m) (sm_authorized_peers m) (sm_failed_peers m))
     | MsgReject \<Rightarrow> as_message (Reject (sm_code m) (sm_reason m))
     | MsgError \<Rightarrow> as_message (ServerError (sm_code m) (sm_message m))
     | MsgDraining \<Rightarrow> as_message ServerDraining
     | MsgAssignJob \<Rightarrow> as_message (AssignJob (sm_job_id m) (sm_job m))
     | MsgAbortJob \<Rightarrow> as_message (AbortJob (sm_job_id m) (sm_reason m))
     | MsgNarPushResume \<Rightarrow> as_message (NarPushResume (sm_job_id m) (sm_store_path m) (sm_received_bytes m))
     | MsgCacheStatus \<Rightarrow> as_message (CacheStatus (sm_query_id m) (sm_cached m))
     | MsgCacheError \<Rightarrow> as_message (CacheError (sm_query_id m) (sm_message m)))"

definition kind_of_tag :: "u8 \<Rightarrow> server_message_kind" where
  "kind_of_tag t = (if t = 0 then MsgAuthChallenge else if t = 1 then MsgInitAck else if t = 3 then MsgReject
     else if t = 4 then MsgError else if t = 5 then MsgDraining else if t = 9 then MsgAssignJob else if t = 10 then MsgAbortJob
     else if t = 16 then MsgNarPushResume else if t = 21 then MsgCacheStatus else if t = 23 then MsgCacheError else MsgUnknown)"

lemma decode_server_fields_typed:
  assumes "decode_server_fields b p (ucast (t :: u8)) = Some (Inr m)"
  shows "typed_message m \<and> sm_kind m = kind_of_tag t \<and> sm_unknown_tag m = (if kind_of_tag t = MsgUnknown then ucast t else 0)"
proof -
  note d = assms [unfolded decode_server_fields_def server_tags tag_numerals]
  consider "t = 0" | "t = 1" | "t = 3" | "t = 4" | "t = 5" | "t = 9" | "t = 10" | "t = 16" | "t = 21" | "t = 23"
    | "t \<notin> {0, 1, 3, 4, 5, 9, 10, 16, 21, 23}" by blast
  then show ?thesis
  proof cases
    case 6
    then obtain r where r: "decode_job b (p + int (offset_of assign_job_off 1)) = Some r"
      using d by (cases "decode_job b (p + int (offset_of assign_job_off 1))") simp_all
    then show ?thesis
      using d 6 by (cases r) (auto simp: bind_eq_Some_conv kind_of_tag_def typed_message_def server_msg_def)
  qed (use d in \<open>auto simp: bind_eq_Some_conv kind_of_tag_def typed_message_def server_msg_def\<close>)
qed



text \<open>
  malformed archives. The decoder checks the length of the root and nothing else: an offset or
  length that points outside the buffer makes it panic (\<open>None\<close>) rather than return an error.
\<close>

theorem server_malformed_panics:
  assumes "length b = 112" and "b ! 0 = 3" and "b ! 4 AND 0xC0 = 0x80"
    and "dec_i32 b 8 = Some off" and "4 + off < 0"
  shows "decode_server_message b = None"
proof -
  have "dec_tag1 b 0 = Some 3" "buf_at b 4 = Some (b ! 4)"
    using assms(1,2) by (simp_all add: dec_tag1_def buf_at_def)
  moreover have "dec_string b 4 = None"
    using assms calculation(2) by (cases "dec_u32 b 4") (simp_all add: dec_string_def buf_slice_def Let_def)
  ultimately show ?thesis
    using assms(1) by (simp add: decode_server_message_def server_message_size_def
        decode_server_fields_def server_tags server_layouts sizes_eval split: Option.bind_splits)
qed

lemma server_malformed_panics_witness:
  "decode_server_message ([3, 0, 0, 0, 0x80, 0, 0, 0, 0, 0, 0, 0x80] @ zeros 100) = None"
  by (rule server_malformed_panics [where off = "- (2 ^ 31)"]; code_simp)

text \<open>\<open>ServerMessage_InitAck.bin\<close> and \<open>ServerMessage_Reject.bin\<close>.\<close>

definition init_ack_fixture :: "byte list" where
  "init_ack_fixture = bytes_of ''peer-1'' @ [0xff, 0xff] @ bytes_of ''bad token'' @ zeros 3 @
     bytes_of ''peer-2'' @ [0xff, 0xff, 0x89, 0, 0, 0, 0xec, 0xff, 0xff, 0xff] @ zeros 4 @
     [1, 0, 1, 0, 1, 0, 0, 0, 1, 1, 0, 0, 0xcc, 0xff, 0xff, 0xff, 1, 0, 0, 0, 0xd8, 0xff, 0xff, 0xff,
      1, 0, 0, 0] @ zeros 84"

definition reject_fixture :: "byte list" where
  "reject_fixture = [117, 110, 97, 117, 116, 104, 111, 114, 105, 122, 101, 100, 0, 0, 0, 0, 3, 0, 145, 1, 140, 0, 0, 0, 236, 255, 255, 255] @ zeros 100"

text \<open>
  the decoder reads two archives that the Rust implementation produced
  (\<open>testdata/fixtures/ServerMessage_InitAck.bin\<close> and \<open>ServerMessage_Reject.bin\<close>).
\<close>

theorem server_fixtures:
  "decode_server_message init_ack_fixture =
     Some (Inr (as_message (InitAck 1 (no_capabilities\<lparr>cap_core := True, cap_build := True, cap_cache := True\<rparr>)
       [''peer-1''] [\<lparr>fp_peer_id = ''peer-2'', fp_reason = ''bad token''\<rparr>]))) \<and>
   decode_server_message reject_fixture = Some (Inr (as_message (Reject 401 ''unauthorized'')))"
  by (intro conjI; code_simp)

end
