(* ===== verification/Pool.thy ===== *)
theory Pool
  imports Prelude "HOL-Library.AList"
begin

text \<open>
  The pool of builder machines (\<open>provisioner/pool.go\<close>, \<open>status.go\<close> and the types of
  \<open>provisioner.go\<close>). Goroutines that share the pool take turns under its mutex, so the model has one
  function for each critical section and one event for each atomic step of a goroutine: a section, a
  channel operation, the end of a wait. The provisioner and \<open>generateID\<close> are not under \<open>src/\<close>: what
  they return is part of the event. Builders and requests are pointers in the code; here they are
  positions in the lists \<open>p_heap\<close> and \<open>p_requests\<close>, which only grow. Time is a count of nanoseconds
  since the zero \<open>time.Time\<close>.
\<close>

section \<open>Builders, requests and the pool\<close>

type_synonym time = int

definition second :: int where "second = 1000000000"

definition minute :: int where "minute = 60 * second"

text \<open>\<open>Time.Sub\<close> saturates at the bounds of a 64-bit duration.\<close>

definition time_sub :: "time \<Rightarrow> time \<Rightarrow> int" where
  "time_sub a b = max (- (2 ^ 63)) (min (2 ^ 63 - 1) (a - b))"

datatype builder_status = Provisioning | Ready | InUse | Pooled | Destroying

record builder =
  bl_id :: string
  bl_ip :: string
  bl_arch :: string
  bl_created :: time
  bl_last_used :: time
  bl_status :: builder_status
  bl_drv_path :: string

record pool_config =
  pl_reuse :: bool
  pl_max_pool_size :: int
  pl_destroy_delay :: int
  pl_idle_timeout :: int

text \<open>
  Where the goroutine of \<open>acquireBuilder\<close> is after it has put its request into the queue: about to
  signal, in the \<open>select\<close>, having received a builder, having seen its context done, returned with a
  builder, or returned with the error.
\<close>

datatype phase = Signalling | Waiting | Taking nat | GivingUp | Got nat | TimedOut

record request =
  rq_arch :: string
  rq_drv_path :: string
  rq_deadline :: time
  rq_cancelled :: bool
  rq_chan :: "nat option"
  rq_phase :: phase

text \<open>A goroutine of \<open>provisionBackground\<close>.\<close>

datatype worker =
    Spawned (worker_arch: string)
  | Creating (worker_arch: string) (worker_id: string)
  | Finishing (worker_arch: string)
  | Exited (worker_arch: string)

text \<open>
  The struct and its goroutines: \<open>p_signals\<close> is the number of elements in the signal channel,
  \<open>p_ticking\<close> says that the maintenance goroutine is between the two calls of a tick, \<open>p_reapers\<close> holds
  the sleeping goroutines of \<open>scheduleDestruction\<close> with the end of their sleep, \<open>p_destroyed\<close> the calls
  of \<open>Destroy\<close> and \<open>p_users\<close> the builders that callers have obtained and not given back.
\<close>

record pool =
  p_heap :: "builder list"
  p_builders :: "(string \<times> nat) list"
  p_available :: "(string \<times> nat list) list"
  p_active :: "(string \<times> nat) list"
  p_waiters :: "nat list"
  p_requests :: "request list"
  p_signals :: nat
  p_provisioning :: "string \<Rightarrow> int"
  p_workers :: "worker list"
  p_reapers :: "(string \<times> time) list"
  p_ticking :: bool
  p_destroyed :: "string list"
  p_users :: "nat list"
  p_clock :: time

definition default_config :: "pool_config \<Rightarrow> pool_config" where
  "default_config cfg = (if pl_idle_timeout cfg = 0 then cfg\<lparr>pl_idle_timeout := 15 * minute\<rparr> else cfg)"

definition new_pool :: "time \<Rightarrow> pool" where
  "new_pool now =
     \<lparr>p_heap = [], p_builders = [], p_available = [], p_active = [], p_waiters = [], p_requests = [],
      p_signals = 0, p_provisioning = (\<lambda>_. 0), p_workers = [], p_reapers = [], p_ticking = False,
      p_destroyed = [], p_users = [], p_clock = now\<rparr>"

text \<open>\<open>archFromPlatform\<close>: the part in front of the first dash.\<close>

definition arch_from_platform :: "string \<Rightarrow> string" where
  "arch_from_platform platform = takeWhile (\<lambda>c. c \<noteq> CHR ''-'') platform"

text \<open>A missing key of \<open>availablePool\<close> reads as the empty slice.\<close>

definition pooled_for :: "pool \<Rightarrow> string \<Rightarrow> nat list" where
  "pooled_for p a = (case map_of (p_available p) a of None \<Rightarrow> [] | Some l \<Rightarrow> l)"

definition set_pooled :: "string \<Rightarrow> nat list \<Rightarrow> pool \<Rightarrow> pool" where
  "set_pooled a l p = p\<lparr>p_available := AList.update a l (p_available p)\<rparr>"

definition on_builder :: "nat \<Rightarrow> (builder \<Rightarrow> builder) \<Rightarrow> pool \<Rightarrow> pool" where
  "on_builder k f p = p\<lparr>p_heap := (p_heap p)[k := f (p_heap p ! k)]\<rparr>"

definition on_request :: "nat \<Rightarrow> (request \<Rightarrow> request) \<Rightarrow> pool \<Rightarrow> pool" where
  "on_request r f p = p\<lparr>p_requests := (p_requests p)[r := f (p_requests p ! r)]\<rparr>"

section \<open>Acquiring a builder\<close>

text \<open>What \<open>acquireBuilder\<close> writes into a builder it is about to return.\<close>

definition assign_builder :: "nat \<Rightarrow> string \<Rightarrow> pool \<Rightarrow> pool" where
  "assign_builder k drv_path p =
     (let p1 = on_builder k (\<lambda>b. b\<lparr>bl_status := InUse, bl_last_used := p_clock p, bl_drv_path := drv_path\<rparr>) p
      in p1\<lparr>p_active := AList.update (bl_id (p_heap p ! k)) k (p_active p), p_users := k # p_users p\<rparr>)"

text \<open>The first section: a pooled builder, or a place in the queue.\<close>

definition acquire_builder :: "string \<Rightarrow> string \<Rightarrow> pool \<Rightarrow> pool" where
  "acquire_builder drv_path a p =
     (case pooled_for p a of
        k # rest \<Rightarrow> assign_builder k drv_path (set_pooled a rest p)
      | [] \<Rightarrow>
          p\<lparr>p_requests := p_requests p @
              [\<lparr>rq_arch = a, rq_drv_path = drv_path, rq_deadline = p_clock p + 10 * minute,
                rq_cancelled = False, rq_chan = None, rq_phase = Signalling\<rparr>],
            p_waiters := p_waiters p @ [length (p_requests p)]\<rparr>)"

text \<open>A send that is dropped when the channel is full.\<close>

definition signal_provisioning :: "nat \<Rightarrow> pool \<Rightarrow> pool" where
  "signal_provisioning r p =
     on_request r (\<lambda>q. q\<lparr>rq_phase := Waiting\<rparr>) (p\<lparr>p_signals := min 10 (p_signals p + 1)\<rparr>)"

text \<open>
  The cases of the \<open>select\<close>. The receiver's context is cancelled by the deferred call when it returns.
\<close>

definition receive_builder :: "nat \<Rightarrow> nat \<Rightarrow> pool \<Rightarrow> pool" where
  "receive_builder r k p = on_request r (\<lambda>q. q\<lparr>rq_chan := None, rq_phase := Taking k\<rparr>) p"

definition take_builder :: "nat \<Rightarrow> nat \<Rightarrow> pool \<Rightarrow> pool" where
  "take_builder r k p =
     on_request r (\<lambda>q. q\<lparr>rq_phase := Got k, rq_cancelled := True\<rparr>)
       (assign_builder k (rq_drv_path (p_requests p ! r)) p)"

definition withdraw_request :: "nat \<Rightarrow> pool \<Rightarrow> pool" where
  "withdraw_request r p = on_request r (\<lambda>q. q\<lparr>rq_phase := TimedOut\<rparr>) (p\<lparr>p_waiters := remove1 r (p_waiters p)\<rparr>)"

section \<open>Handing builders over\<close>

definition wants :: "pool \<Rightarrow> string \<Rightarrow> nat \<Rightarrow> bool" where
  "wants p a r \<longleftrightarrow> \<not> rq_cancelled (p_requests p ! r) \<and> rq_arch (p_requests p ! r) = a"

text \<open>The loop over the waiters that \<open>releaseBuilder\<close> and \<open>provisionBackground\<close> share.\<close>

definition hand_off :: "nat \<Rightarrow> string \<Rightarrow> pool \<Rightarrow> pool option" where
  "hand_off k a p =
     (case find (wants p a) (p_waiters p) of
        None \<Rightarrow> None
      | Some r \<Rightarrow>
          Some (on_request r (\<lambda>q. q\<lparr>rq_chan := Some k\<rparr>) (p\<lparr>p_waiters := remove1 r (p_waiters p)\<rparr>)))"

definition pool_or_destroy :: "pool_config \<Rightarrow> nat \<Rightarrow> pool \<Rightarrow> pool" where
  "pool_or_destroy cfg k p =
     (let b = p_heap p ! k; a = bl_arch b
      in if pl_reuse cfg \<and> int (length (pooled_for p a)) < pl_max_pool_size cfg
         then set_pooled a (pooled_for p a @ [k]) (on_builder k (\<lambda>b. b\<lparr>bl_status := Pooled\<rparr>) p)
         else on_builder k (\<lambda>b. b\<lparr>bl_status := Destroying\<rparr>)
           (p\<lparr>p_reapers := p_reapers p @ [(bl_id b, p_clock p + pl_destroy_delay cfg)]\<rparr>))"

definition release_builder :: "pool_config \<Rightarrow> string \<Rightarrow> pool \<Rightarrow> pool" where
  "release_builder cfg builder_id p =
     (case map_of (p_active p) builder_id of
        None \<Rightarrow> p
      | Some k \<Rightarrow>
          (let p1 = on_builder k (\<lambda>b. b\<lparr>bl_drv_path := [], bl_last_used := p_clock p\<rparr>)
                      (p\<lparr>p_active := AList.delete builder_id (p_active p)\<rparr>)
           in case hand_off k (bl_arch (p_heap p ! k)) p1 of
                Some p2 \<Rightarrow> p2
              | None \<Rightarrow> pool_or_destroy cfg k p1))"

section \<open>Provisioning\<close>

definition live_waiters :: "pool \<Rightarrow> string \<Rightarrow> nat" where
  "live_waiters p a = length (filter (wants p a) (p_waiters p))"

definition needed :: "pool \<Rightarrow> string \<Rightarrow> nat" where
  "needed p a = nat (int (live_waiters p a) - p_provisioning p a)"

definition waiting_archs :: "pool \<Rightarrow> string list" where
  "waiting_archs p =
     remdups (map (\<lambda>r. rq_arch (p_requests p ! r)) (filter (\<lambda>r. \<not> rq_cancelled (p_requests p ! r)) (p_waiters p)))"

definition check_and_scale :: "pool \<Rightarrow> pool" where
  "check_and_scale p =
     p\<lparr>p_provisioning := (\<lambda>a. if a \<in> set (waiting_archs p) then p_provisioning p a + int (needed p a)
                              else p_provisioning p a),
       p_workers := p_workers p @ concat (map (\<lambda>a. replicate (needed p a) (Spawned a)) (waiting_archs p))\<rparr>"

definition set_worker :: "nat \<Rightarrow> worker \<Rightarrow> pool \<Rightarrow> pool" where
  "set_worker i w p = p\<lparr>p_workers := (p_workers p)[i := w]\<rparr>"

text \<open>A builder that was created: its first use is not recorded in \<open>LastUsed\<close>.\<close>

definition new_builder :: "string \<Rightarrow> string \<Rightarrow> string \<Rightarrow> time \<Rightarrow> builder" where
  "new_builder builder_id ip a now =
     \<lparr>bl_id = builder_id, bl_ip = ip, bl_arch = a, bl_created = now, bl_last_used = 0, bl_status = Ready,
      bl_drv_path = []\<rparr>"

definition publish_builder :: "string \<Rightarrow> string \<Rightarrow> string \<Rightarrow> pool \<Rightarrow> pool" where
  "publish_builder builder_id ip a p =
     (let k = length (p_heap p);
          p1 = p\<lparr>p_heap := p_heap p @ [new_builder builder_id ip a (p_clock p)],
                 p_builders := AList.update builder_id k (p_builders p)\<rparr>
      in case hand_off k a p1 of
           Some p2 \<Rightarrow> p2
         | None \<Rightarrow> set_pooled a (pooled_for p1 a @ [k]) (on_builder k (\<lambda>b. b\<lparr>bl_status := Pooled\<rparr>) p1))"

definition end_provisioning :: "string \<Rightarrow> pool \<Rightarrow> pool" where
  "end_provisioning a p = p\<lparr>p_provisioning := (p_provisioning p)(a := p_provisioning p a - 1)\<rparr>"

section \<open>Destroying\<close>

text \<open>\<open>scheduleDestruction\<close> after its sleep.\<close>

definition finish_destruction :: "string \<Rightarrow> pool \<Rightarrow> pool" where
  "finish_destruction builder_id p =
     (case map_of (p_builders p) builder_id of
        None \<Rightarrow> p
      | Some k \<Rightarrow>
          if bl_status (p_heap p ! k) \<noteq> Destroying then p
          else p\<lparr>p_builders := AList.delete builder_id (p_builders p), p_destroyed := p_destroyed p @ [builder_id]\<rparr>)"

definition destroy_all :: "pool \<Rightarrow> pool" where
  "destroy_all p =
     p\<lparr>p_builders := [], p_available := [], p_active := [],
       p_destroyed := p_destroyed p @ map fst (p_builders p)\<rparr>"

definition is_idle :: "pool_config \<Rightarrow> pool \<Rightarrow> nat \<Rightarrow> bool" where
  "is_idle cfg p k \<longleftrightarrow> time_sub (p_clock p) (bl_last_used (p_heap p ! k)) > pl_idle_timeout cfg"

definition retire_builder :: "nat \<Rightarrow> pool \<Rightarrow> pool" where
  "retire_builder k p =
     (let p1 = on_builder k (\<lambda>b. b\<lparr>bl_status := Destroying\<rparr>) p; ident = bl_id (p_heap p ! k)
      in p1\<lparr>p_builders := AList.delete ident (p_builders p), p_destroyed := p_destroyed p @ [ident]\<rparr>)"

definition cleanup_arch :: "pool_config \<Rightarrow> string \<times> nat list \<Rightarrow> pool \<Rightarrow> pool" where
  "cleanup_arch cfg al p =
     set_pooled (fst al) (filter (\<lambda>k. \<not> is_idle cfg p k) (snd al)) (fold retire_builder (filter (is_idle cfg p) (snd al)) p)"

definition cleanup_old_builders :: "pool_config \<Rightarrow> pool \<Rightarrow> pool" where
  "cleanup_old_builders cfg p = fold (cleanup_arch cfg) (p_available p) p"

section \<open>The atomic steps\<close>

text \<open>
  \<open>Return k\<close> is a caller giving back the builder it has, as \<open>ReleaseBuilder\<close> or because the SSH
  connection of \<open>GetBuilder\<close> to it failed. \<open>Draw i x\<close> is \<open>generateID\<close> returning \<open>x\<close> in worker \<open>i\<close>;
  \<open>Publish i ip\<close> is \<open>Create\<close> returning there, and \<open>Fail i\<close> its error.
\<close>

datatype event =
    Ask string string
  | Signal nat | Receive nat | Take nat | GiveUp nat | Withdraw nat | Expire nat
  | Pass int
  | Return nat
  | ScaleOnSignal | ScaleOnTick | Cleanup
  | Draw nat string | Fail nat | Publish nat string | Finish nat
  | Reap nat
  | DestroyAll

definition in_phase :: "pool \<Rightarrow> nat \<Rightarrow> phase \<Rightarrow> bool" where
  "in_phase p r ph \<longleftrightarrow> r < length (p_requests p) \<and> rq_phase (p_requests p ! r) = ph"

fun step :: "pool_config \<Rightarrow> event \<Rightarrow> pool \<Rightarrow> pool option" where
  "step cfg (Ask drv_path platform) p =
     (if arch_from_platform platform = [] then None
      else Some (acquire_builder drv_path (arch_from_platform platform) p))"
| "step cfg (Signal r) p = (if in_phase p r Signalling then Some (signal_provisioning r p) else None)"
| "step cfg (Receive r) p =
     (if in_phase p r Waiting then map_option (\<lambda>k. receive_builder r k p) (rq_chan (p_requests p ! r)) else None)"
| "step cfg (Take r) p =
     (if r < length (p_requests p)
      then (case rq_phase (p_requests p ! r) of Taking k \<Rightarrow> Some (take_builder r k p) | _ \<Rightarrow> None) else None)"
| "step cfg (GiveUp r) p =
     (if in_phase p r Waiting \<and> rq_cancelled (p_requests p ! r)
      then Some (on_request r (\<lambda>q. q\<lparr>rq_phase := GivingUp\<rparr>) p) else None)"
| "step cfg (Withdraw r) p = (if in_phase p r GivingUp then Some (withdraw_request r p) else None)"
| "step cfg (Expire r) p =
     (if r < length (p_requests p) \<and> rq_deadline (p_requests p ! r) \<le> p_clock p
      then Some (on_request r (\<lambda>q. q\<lparr>rq_cancelled := True\<rparr>) p) else None)"
| "step cfg (Pass d) p = (if 0 \<le> d then Some (p\<lparr>p_clock := p_clock p + d\<rparr>) else None)"
| "step cfg (Return k) p =
     (if k \<in> set (p_users p)
      then Some (release_builder cfg (bl_id (p_heap p ! k)) (p\<lparr>p_users := remove1 k (p_users p)\<rparr>)) else None)"
| "step cfg ScaleOnSignal p =
     (if 0 < p_signals p \<and> \<not> p_ticking p then Some (check_and_scale (p\<lparr>p_signals := p_signals p - 1\<rparr>)) else None)"
| "step cfg ScaleOnTick p =
     (if p_ticking p then None else Some (check_and_scale (p\<lparr>p_ticking := True\<rparr>)))"
| "step cfg Cleanup p =
     (if p_ticking p then Some (cleanup_old_builders cfg (p\<lparr>p_ticking := False\<rparr>)) else None)"
| "step cfg (Draw i x) p =
     (if i < length (p_workers p)
      then (case p_workers p ! i of Spawned a \<Rightarrow> Some (set_worker i (Creating a x) p) | _ \<Rightarrow> None) else None)"
| "step cfg (Fail i) p =
     (if i < length (p_workers p)
      then (case p_workers p ! i of Creating a x \<Rightarrow> Some (set_worker i (Finishing a) p) | _ \<Rightarrow> None) else None)"
| "step cfg (Publish i ip) p =
     (if i < length (p_workers p)
      then (case p_workers p ! i of
          Creating a x \<Rightarrow> Some (set_worker i (Finishing a) (publish_builder x ip a p)) | _ \<Rightarrow> None) else None)"
| "step cfg (Finish i) p =
     (if i < length (p_workers p)
      then (case p_workers p ! i of
          Finishing a \<Rightarrow> Some (set_worker i (Exited a) (end_provisioning a p)) | _ \<Rightarrow> None) else None)"
| "step cfg (Reap j) p =
     (if j < length (p_reapers p) \<and> snd (p_reapers p ! j) \<le> p_clock p
      then Some (finish_destruction (fst (p_reapers p ! j))
        (p\<lparr>p_reapers := take j (p_reapers p) @ drop (Suc j) (p_reapers p)\<rparr>)) else None)"
| "step cfg DestroyAll p = Some (destroy_all p)"

text \<open>
  Runs of the pool. Identifiers are four random bytes; the runs are those in which none is drawn twice
  while the program runs.
\<close>

definition ids_in_use :: "pool \<Rightarrow> string set" where
  "ids_in_use p = bl_id ` set (p_heap p) \<union> {x. \<exists>a. Creating a x \<in> set (p_workers p)}"

fun drawn_anew :: "event \<Rightarrow> pool \<Rightarrow> bool" where
  "drawn_anew (Draw i x) p \<longleftrightarrow> x \<notin> ids_in_use p"
| "drawn_anew _ p \<longleftrightarrow> True"

inductive pool_run :: "pool_config \<Rightarrow> time \<Rightarrow> event list \<Rightarrow> pool \<Rightarrow> bool" for cfg now where
  start: "pool_run cfg now [] (new_pool now)"
| step: "pool_run cfg now es p \<Longrightarrow> step cfg e p = Some p' \<Longrightarrow> drawn_anew e p \<Longrightarrow> pool_run cfg now (es @ [e]) p'"

section \<open>The status page\<close>

record builder_status_info =
  bs_id :: string
  bs_ip :: string
  bs_arch :: string
  bs_status :: string
  bs_drv_path :: string
  bs_created :: time
  bs_last_used :: time
  bs_age_secs :: int

record pool_status_info =
  ps_builders :: "builder_status_info list"
  ps_pending_requests :: nat
  ps_provisioning_count :: "string \<Rightarrow> int option"

fun builder_status_string :: "builder_status \<Rightarrow> string" where
  "builder_status_string Provisioning = ''provisioning''"
| "builder_status_string Ready = ''ready''"
| "builder_status_string InUse = ''in_use''"
| "builder_status_string Pooled = ''pooled''"
| "builder_status_string Destroying = ''destroying''"

text \<open>\<open>seconds\<close> is the conversion of a duration through a float. The newest builder comes first.\<close>

definition status_info :: "(int \<Rightarrow> int) \<Rightarrow> time \<Rightarrow> builder \<Rightarrow> builder_status_info" where
  "status_info seconds now b =
     \<lparr>bs_id = bl_id b, bs_ip = bl_ip b, bs_arch = bl_arch b, bs_status = builder_status_string (bl_status b),
      bs_drv_path = bl_drv_path b, bs_created = bl_created b, bs_last_used = bl_last_used b,
      bs_age_secs = seconds (time_sub now (bl_created b))\<rparr>"

definition pool_status :: "(int \<Rightarrow> int) \<Rightarrow> pool \<Rightarrow> pool_status_info" where
  "pool_status seconds p =
     \<lparr>ps_builders = sort_key (\<lambda>i. - bs_created i)
        (map (\<lambda>(_, k). status_info seconds (p_clock p) (p_heap p ! k)) (p_builders p)),
      ps_pending_requests = length (filter (\<lambda>r. \<not> rq_cancelled (p_requests p ! r)) (p_waiters p)),
      ps_provisioning_count = (\<lambda>a. if p_provisioning p a > 0 then Some (p_provisioning p a) else None)\<rparr>"

end
