(* ===== verification/Pool_Invariant.thy ===== *)
theory Pool_Invariant
  imports Pool
begin

text \<open>
  Custody: who has which builder, and that the queue, the available builders and the map of active
  builders agree with it. Every critical section keeps it.
\<close>

section \<open>Reading an updated pool\<close>

named_theorems pool_simps

lemma pool_update_simps [pool_simps]:
  "p_heap (on_builder k f p) = (p_heap p)[k := f (p_heap p ! k)]" "p_builders (on_builder k f p) = p_builders p"
  "p_available (on_builder k f p) = p_available p" "p_active (on_builder k f p) = p_active p"
  "p_waiters (on_builder k f p) = p_waiters p" "p_requests (on_builder k f p) = p_requests p"
  "p_signals (on_builder k f p) = p_signals p" "p_provisioning (on_builder k f p) = p_provisioning p"
  "p_workers (on_builder k f p) = p_workers p" "p_reapers (on_builder k f p) = p_reapers p"
  "p_ticking (on_builder k f p) = p_ticking p" "p_destroyed (on_builder k f p) = p_destroyed p"
  "p_users (on_builder k f p) = p_users p" "p_clock (on_builder k f p) = p_clock p"
  "p_heap (on_request r g p) = p_heap p" "p_builders (on_request r g p) = p_builders p"
  "p_available (on_request r g p) = p_available p" "p_active (on_request r g p) = p_active p"
  "p_waiters (on_request r g p) = p_waiters p"
  "p_requests (on_request r g p) = (p_requests p)[r := g (p_requests p ! r)]"
  "p_signals (on_request r g p) = p_signals p" "p_provisioning (on_request r g p) = p_provisioning p"
  "p_workers (on_request r g p) = p_workers p" "p_reapers (on_request r g p) = p_reapers p"
  "p_ticking (on_request r g p) = p_ticking p" "p_destroyed (on_request r g p) = p_destroyed p"
  "p_users (on_request r g p) = p_users p" "p_clock (on_request r g p) = p_clock p"
  "p_heap (set_pooled a l p) = p_heap p" "p_builders (set_pooled a l p) = p_builders p"
  "p_available (set_pooled a l p) = AList.update a l (p_available p)" "p_active (set_pooled a l p) = p_active p"
  "p_waiters (set_pooled a l p) = p_waiters p" "p_requests (set_pooled a l p) = p_requests p"
  "p_signals (set_pooled a l p) = p_signals p" "p_provisioning (set_pooled a l p) = p_provisioning p"
  "p_workers (set_pooled a l p) = p_workers p" "p_reapers (set_pooled a l p) = p_reapers p"
  "p_ticking (set_pooled a l p) = p_ticking p" "p_destroyed (set_pooled a l p) = p_destroyed p"
  "p_users (set_pooled a l p) = p_users p" "p_clock (set_pooled a l p) = p_clock p"
  "p_heap (set_worker i w p) = p_heap p" "p_builders (set_worker i w p) = p_builders p"
  "p_available (set_worker i w p) = p_available p" "p_active (set_worker i w p) = p_active p"
  "p_waiters (set_worker i w p) = p_waiters p" "p_requests (set_worker i w p) = p_requests p"
  "p_signals (set_worker i w p) = p_signals p" "p_provisioning (set_worker i w p) = p_provisioning p"
  "p_workers (set_worker i w p) = (p_workers p)[i := w]" "p_reapers (set_worker i w p) = p_reapers p"
  "p_ticking (set_worker i w p) = p_ticking p" "p_destroyed (set_worker i w p) = p_destroyed p"
  "p_users (set_worker i w p) = p_users p" "p_clock (set_worker i w p) = p_clock p"
  by (simp_all add: on_builder_def on_request_def set_pooled_def set_worker_def)

lemma pooled_for_simps [pool_simps]:
  "pooled_for (on_builder k f p) a = pooled_for p a"
  "pooled_for (on_request r g p) a = pooled_for p a"
  "pooled_for (set_worker i w p) a = pooled_for p a"
  "pooled_for (set_pooled a' l p) a = (if a = a' then l else pooled_for p a)"
  by (simp_all add: pooled_for_def pool_simps update_conv)

lemma pooled_for_cong: "p_available p' = p_available p \<Longrightarrow> pooled_for p' a = pooled_for p a"
  by (simp add: pooled_for_def)

text \<open>The builder that request \<open>r\<close> holds: sent to its channel, or received and not yet its user's.\<close>

definition holds :: "pool \<Rightarrow> nat \<Rightarrow> nat \<Rightarrow> bool" where
  "holds p r k \<longleftrightarrow> r < length (p_requests p) \<and>
     (rq_chan (p_requests p ! r) = Some k \<or> rq_phase (p_requests p ! r) = Taking k)"

abbreviation status_of :: "pool \<Rightarrow> nat \<Rightarrow> builder_status" where
  "status_of p k \<equiv> bl_status (p_heap p ! k)"

section \<open>The clauses\<close>

definition users_ok :: "pool \<Rightarrow> bool" where
  "users_ok p \<longleftrightarrow> distinct (p_users p) \<and> (\<forall>k \<in> set (p_users p). k < length (p_heap p) \<and> status_of p k = InUse)"

definition held_ok :: "pool \<Rightarrow> bool" where
  "held_ok p \<longleftrightarrow>
     (\<forall>r k. holds p r k \<longrightarrow> k < length (p_heap p) \<and> status_of p k \<in> {Ready, InUse} \<and>
        bl_arch (p_heap p ! k) = rq_arch (p_requests p ! r) \<and> k \<notin> set (p_users p)) \<and>
     (\<forall>r r' k. holds p r k \<longrightarrow> holds p r' k \<longrightarrow> r = r')"

definition pooled_ok :: "pool \<Rightarrow> bool" where
  "pooled_ok p \<longleftrightarrow> distinct (map fst (p_available p)) \<and>
     (\<forall>a. distinct (pooled_for p a) \<and>
        (\<forall>k \<in> set (pooled_for p a). k < length (p_heap p) \<and> status_of p k = Pooled \<and> bl_arch (p_heap p ! k) = a))"

definition active_ok :: "pool \<Rightarrow> bool" where
  "active_ok p \<longleftrightarrow> distinct (map fst (p_active p)) \<and>
     (\<forall>x k. map_of (p_active p) x = Some k \<longrightarrow> k \<in> set (p_users p) \<and> bl_id (p_heap p ! k) = x)"

definition queued :: "request \<Rightarrow> bool" where
  "queued q \<longleftrightarrow> rq_chan q = None \<and> rq_phase q \<in> {Signalling, Waiting, GivingUp}"

definition queue_ok :: "pool \<Rightarrow> bool" where
  "queue_ok p \<longleftrightarrow> distinct (p_waiters p) \<and>
     (\<forall>r \<in> set (p_waiters p). r < length (p_requests p) \<and> queued (p_requests p ! r)) \<and>
     (\<forall>r < length (p_requests p). queued (p_requests p ! r) \<longrightarrow> r \<in> set (p_waiters p))"

definition request_ok :: "request \<Rightarrow> bool" where
  "request_ok q \<longleftrightarrow> (rq_phase q \<in> {GivingUp, TimedOut} \<longrightarrow> rq_cancelled q) \<and>
     (\<forall>k. rq_phase q = Taking k \<or> rq_phase q = Got k \<longrightarrow> rq_chan q = None)"

definition requests_ok :: "pool \<Rightarrow> bool" where
  "requests_ok p \<longleftrightarrow> (\<forall>q \<in> set (p_requests p). request_ok q)"

definition running :: "worker \<Rightarrow> bool" where
  "running w = (case w of Exited a \<Rightarrow> False | _ \<Rightarrow> True)"

definition workers_for :: "pool \<Rightarrow> string \<Rightarrow> nat" where
  "workers_for p a = length (filter (\<lambda>w. running w \<and> worker_arch w = a) (p_workers p))"

definition count_ok :: "pool \<Rightarrow> bool" where
  "count_ok p \<longleftrightarrow> (\<forall>a. p_provisioning p a = int (workers_for p a)) \<and> p_signals p \<le> 10"

fun drawn :: "worker \<Rightarrow> string list" where
  "drawn (Creating a x) = [x]"
| "drawn _ = []"

definition ids_ok :: "pool \<Rightarrow> bool" where
  "ids_ok p \<longleftrightarrow> distinct (map bl_id (p_heap p) @ concat (map drawn (p_workers p)))"

definition gone :: "pool \<Rightarrow> string set \<Rightarrow> bool" where
  "gone p X \<longleftrightarrow> (\<forall>x \<in> X. \<exists>k < length (p_heap p). bl_id (p_heap p ! k) = x \<and> status_of p k = Destroying)"

definition tracked_ok :: "pool \<Rightarrow> bool" where
  "tracked_ok p \<longleftrightarrow> distinct (map fst (p_builders p)) \<and>
     (\<forall>x k. map_of (p_builders p) x = Some k \<longrightarrow> k < length (p_heap p) \<and> bl_id (p_heap p ! k) = x) \<and>
     gone p (fst ` set (p_reapers p))"

lemmas ok_defs = users_ok_def held_ok_def pooled_ok_def active_ok_def queue_ok_def requests_ok_def

definition custody :: "pool \<Rightarrow> bool" where
  "custody p \<longleftrightarrow> users_ok p \<and> held_ok p \<and> pooled_ok p \<and> active_ok p \<and> queue_ok p \<and> requests_ok p"

lemma custodyI:
  "users_ok p \<Longrightarrow> held_ok p \<Longrightarrow> pooled_ok p \<Longrightarrow> active_ok p \<Longrightarrow> queue_ok p \<Longrightarrow> requests_ok p \<Longrightarrow> custody p"
  by (simp add: custody_def)

lemma custodyD:
  assumes "custody p"
  shows "users_ok p" "held_ok p" "pooled_ok p" "active_ok p" "queue_ok p" "requests_ok p"
  using assms by (auto simp: custody_def)

text \<open>Only some components matter for it.\<close>

lemma custody_cong:
  assumes "p_heap p' = p_heap p" "p_available p' = p_available p" "p_active p' = p_active p"
    "p_waiters p' = p_waiters p" "p_requests p' = p_requests p" "p_users p' = p_users p"
  shows "custody p' \<longleftrightarrow> custody p"
  using assms by (simp add: custody_def ok_defs holds_def pooled_for_def)

section \<open>Steps of a request\<close>

lemma nth_update_builder [pool_simps]:
  "k < length xs \<Longrightarrow> xs[k := y] ! j = (if j = k then y else xs ! j)"
  by (simp add: nth_list_update)

lemma holds_on_request [pool_simps]:
  "r < length (p_requests p) \<Longrightarrow> holds (on_request r g p) r' k \<longleftrightarrow>
     (if r' = r then rq_chan (g (p_requests p ! r)) = Some k \<or> rq_phase (g (p_requests p ! r)) = Taking k
      else holds p r' k)"
  by (auto simp: holds_def pool_simps)

lemma holds_cong: "p_requests p' = p_requests p \<Longrightarrow> holds p' r k \<longleftrightarrow> holds p r k"
  by (simp add: holds_def)

lemma holds_simps [pool_simps]:
  "holds (on_builder j f p) r k \<longleftrightarrow> holds p r k"
  "holds (set_pooled a l p) r k \<longleftrightarrow> holds p r k"
  "holds (set_worker i w p) r k \<longleftrightarrow> holds p r k"
  by (simp_all add: holds_def pool_simps)

text \<open>A step of a request that changes neither what it holds nor whether it is queued.\<close>

lemma custody_on_request:
  assumes p: "custody p" and r: "r < length (p_requests p)"
    and g: "\<And>k. rq_chan (g (p_requests p ! r)) = Some k \<or> rq_phase (g (p_requests p ! r)) = Taking k \<longleftrightarrow>
        rq_chan (p_requests p ! r) = Some k \<or> rq_phase (p_requests p ! r) = Taking k"
      "rq_arch (g (p_requests p ! r)) = rq_arch (p_requests p ! r)"
      "queued (g (p_requests p ! r)) \<longleftrightarrow> queued (p_requests p ! r)"
      "request_ok (g (p_requests p ! r))"
  shows "custody (on_request r g p)"
proof (rule custodyI)
  show "users_ok (on_request r g p)" using custodyD(1) [OF p] by (simp add: users_ok_def pool_simps)
  have same: "holds (on_request r g p) r' k \<longleftrightarrow> holds p r' k" for r' k
    using r g(1) by (cases "r' = r") (simp_all add: holds_def pool_simps)
  show "held_ok (on_request r g p)"
    using custodyD(2) [OF p] r g(2) unfolding held_ok_def same by (simp add: pool_simps)
  show "pooled_ok (on_request r g p)" using custodyD(3) [OF p] by (simp add: pooled_ok_def pool_simps)
  show "active_ok (on_request r g p)" using custodyD(4) [OF p] by (simp add: active_ok_def pool_simps)
  have queued: "queued (p_requests (on_request r g p) ! r') \<longleftrightarrow> queued (p_requests p ! r')" for r'
    using r g(3) by (cases "r' = r") (simp_all add: pool_simps)
  show "queue_ok (on_request r g p)"
    using custodyD(5) [OF p] unfolding queue_ok_def queued by (simp add: pool_simps)
  show "requests_ok (on_request r g p)"
    using custodyD(6) [OF p] r g(4) unfolding requests_ok_def
    by (auto simp: pool_simps dest!: set_update_subset_insert [THEN subsetD])
qed

lemma request_at: "custody p \<Longrightarrow> r < length (p_requests p) \<Longrightarrow> request_ok (p_requests p ! r)"
  by (simp add: custody_def requests_ok_def)

lemma custody_signal:
  "custody p \<Longrightarrow> in_phase p r Signalling \<Longrightarrow> custody (signal_provisioning r p)"
  unfolding signal_provisioning_def in_phase_def
  by (rule custody_on_request) (use request_at [of p r] in
      \<open>auto simp: queued_def request_ok_def custody_cong [of "p\<lparr>p_signals := _\<rparr>" p]\<close>)

lemma custody_receive:
  assumes "custody p" "in_phase p r Waiting" "rq_chan (p_requests p ! r) = Some k"
  shows "custody (receive_builder r k p)"
  unfolding receive_builder_def
  by (rule custody_on_request) (use assms in \<open>auto simp: queued_def request_ok_def in_phase_def\<close>)

lemma custody_give_up:
  assumes "custody p" "in_phase p r Waiting" "rq_cancelled (p_requests p ! r)"
  shows "custody (on_request r (\<lambda>q. q\<lparr>rq_phase := GivingUp\<rparr>) p)"
  by (rule custody_on_request) (use assms in \<open>auto simp: queued_def request_ok_def in_phase_def\<close>)

lemma custody_expire:
  assumes "custody p" "r < length (p_requests p)"
  shows "custody (on_request r (\<lambda>q. q\<lparr>rq_cancelled := True\<rparr>) p)"
  by (rule custody_on_request) (use assms request_at [OF assms] in \<open>auto simp: queued_def request_ok_def\<close>)

text \<open>A request that leaves the queue without a builder.\<close>

lemma custody_withdraw:
  assumes p: "custody p" and r: "in_phase p r GivingUp"
  shows "custody (withdraw_request r p)"
proof -
  note rl = r [unfolded in_phase_def]
  let ?p = "withdraw_request r p"
  have requests: "p_requests ?p = (p_requests p)[r := (p_requests p ! r)\<lparr>rq_phase := TimedOut\<rparr>]"
    and waiters: "p_waiters ?p = remove1 r (p_waiters p)"
    and rest: "p_heap ?p = p_heap p" "p_available ?p = p_available p" "p_active ?p = p_active p" "p_users ?p = p_users p"
    by (simp_all add: withdraw_request_def pool_simps)
  have same: "holds ?p r' k \<longleftrightarrow> holds p r' k" for r' k
    using rl by (cases "r' = r") (simp_all add: holds_def requests nth_update_builder)
  have archs: "rq_arch (p_requests ?p ! r') = rq_arch (p_requests p ! r')" for r'
    using rl by (cases "r' = r") (simp_all add: requests nth_update_builder)
  have queued: "queued (p_requests ?p ! r') \<longleftrightarrow> r' \<noteq> r \<and> queued (p_requests p ! r')" for r'
    using rl by (cases "r' = r") (simp_all add: requests nth_update_builder queued_def)
  show ?thesis
  proof (rule custodyI)
    show "users_ok ?p" using custodyD(1) [OF p] by (simp add: users_ok_def rest)
    show "held_ok ?p" using custodyD(2) [OF p] unfolding held_ok_def same archs by (simp add: rest)
    show "pooled_ok ?p" using custodyD(3) [OF p] by (simp add: pooled_ok_def pooled_for_def rest)
    show "active_ok ?p" using custodyD(4) [OF p] by (simp add: active_ok_def rest)
    show "queue_ok ?p"
      using custodyD(5) [OF p] unfolding queue_ok_def queued by (auto simp: requests waiters)
    show "requests_ok ?p"
      using custodyD(6) [OF p] request_at [OF p] rl unfolding requests_ok_def requests
      by (auto simp: request_ok_def dest!: set_update_subset_insert [THEN subsetD])
  qed
qed

text \<open>A new request.\<close>

lemma custody_enqueue:
  assumes p: "custody p" and q: "queued q" "rq_phase q = Signalling"
  shows "custody (p\<lparr>p_requests := p_requests p @ [q], p_waiters := p_waiters p @ [length (p_requests p)]\<rparr>)"
    (is "custody ?p")
proof -
  have same: "holds ?p r k \<longleftrightarrow> holds p r k" for r k
    using q by (auto simp: holds_def nth_append queued_def)
  have before: "holds p r k \<Longrightarrow> r < length (p_requests p)" for r k by (simp add: holds_def)
  show ?thesis
  proof (rule custodyI)
    show "users_ok ?p" using custodyD(1) [OF p] by (simp add: users_ok_def)
    show "held_ok ?p"
      using custodyD(2) [OF p] before unfolding held_ok_def same by (simp add: nth_append)
    show "pooled_ok ?p" using custodyD(3) [OF p] by (simp add: pooled_ok_def pooled_for_def)
    show "active_ok ?p" using custodyD(4) [OF p] by (simp add: active_ok_def)
    show "queue_ok ?p"
      using custodyD(5) [OF p] q by (auto simp: queue_ok_def nth_append less_Suc_eq)
    show "requests_ok ?p"
      using custodyD(6) [OF p] q by (auto simp: requests_ok_def request_ok_def queued_def)
  qed
qed

section \<open>A builder in nobody's hands\<close>

definition loose :: "pool \<Rightarrow> nat \<Rightarrow> bool" where
  "loose p k \<longleftrightarrow> k < length (p_heap p) \<and> k \<notin> set (p_users p) \<and> (\<forall>r. \<not> holds p r k) \<and>
     (\<forall>a. k \<notin> set (pooled_for p a))"

lemma looseD:
  assumes "loose p k"
  shows "k < length (p_heap p)" "k \<notin> set (p_users p)" "\<And>r. \<not> holds p r k" "\<And>a. k \<notin> set (pooled_for p a)"
  using assms by (auto simp: loose_def)

lemma loose_cong:
  assumes "p_heap p' = p_heap p" "p_available p' = p_available p" "p_requests p' = p_requests p"
    "p_users p' = p_users p"
  shows "loose p' k \<longleftrightarrow> loose p k"
  using assms by (simp add: loose_def holds_def pooled_for_def)

lemma loose_on_builder [simp]: "loose (on_builder j f p) k \<longleftrightarrow> loose p k"
  by (simp add: loose_def pool_simps)

lemma custody_on_builder:
  assumes p: "custody p" and k: "loose p k" and f: "bl_id (f (p_heap p ! k)) = bl_id (p_heap p ! k)"
  shows "custody (on_builder k f p)"
proof -
  note free = looseD [OF k]
  show ?thesis
  proof (rule custodyI)
    show "users_ok (on_builder k f p)"
      using custodyD(1) [OF p] free by (auto simp: users_ok_def pool_simps)
    show "held_ok (on_builder k f p)"
      using custodyD(2) [OF p] free unfolding held_ok_def by (auto simp: pool_simps)
    show "pooled_ok (on_builder k f p)"
      using custodyD(3) [OF p] free unfolding pooled_ok_def by (auto simp: pool_simps)
    show "active_ok (on_builder k f p)"
      using custodyD(4) [OF p] free f unfolding active_ok_def by (auto simp: pool_simps)
    show "queue_ok (on_builder k f p)" using custodyD(5) [OF p] by (simp add: queue_ok_def pool_simps)
    show "requests_ok (on_builder k f p)" using custodyD(6) [OF p] by (simp add: requests_ok_def pool_simps)
  qed
qed

lemma custody_to_user:
  assumes p: "custody p" and k: "loose p k" and s: "status_of p k = InUse"
  shows "custody (p\<lparr>p_active := AList.update (bl_id (p_heap p ! k)) k (p_active p), p_users := k # p_users p\<rparr>)"
    (is "custody ?p")
proof -
  note free = looseD [OF k]
  have same: "holds ?p r j \<longleftrightarrow> holds p r j" for r j by (simp add: holds_def)
  have pooled: "pooled_for ?p a = pooled_for p a" for a by (simp add: pooled_for_def)
  show ?thesis
  proof (rule custodyI)
    show "users_ok ?p" using custodyD(1) [OF p] free s by (simp add: users_ok_def)
    show "held_ok ?p" using custodyD(2) [OF p] free unfolding held_ok_def same by auto
    show "pooled_ok ?p" using custodyD(3) [OF p] unfolding pooled_ok_def pooled by simp
    show "active_ok ?p"
      using custodyD(4) [OF p] by (auto simp: active_ok_def update_conv distinct_update)
    show "queue_ok ?p" using custodyD(5) [OF p] by (simp add: queue_ok_def)
    show "requests_ok ?p" using custodyD(6) [OF p] by (simp add: requests_ok_def)
  qed
qed

lemma custody_assign:
  assumes "custody p" "loose p k"
  shows "custody (assign_builder k drv_path p)"
proof -
  let ?f = "\<lambda>b. b\<lparr>bl_status := InUse, bl_last_used := p_clock p, bl_drv_path := drv_path\<rparr>"
  have "custody (on_builder k ?f p)" by (rule custody_on_builder [OF assms]) simp
  from custody_to_user [OF this, of k] show ?thesis
    using assms(2) looseD(1) [OF assms(2)] by (simp add: assign_builder_def Let_def pool_simps)
qed

lemma custody_to_pool:
  assumes p: "custody p" and k: "loose p k" and s: "status_of p k = Pooled" "bl_arch (p_heap p ! k) = a"
  shows "custody (set_pooled a (pooled_for p a @ [k]) p)" (is "custody ?p")
proof -
  note free = looseD [OF k]
  show ?thesis
  proof (rule custodyI)
    show "users_ok ?p" using custodyD(1) [OF p] by (simp add: users_ok_def pool_simps)
    show "held_ok ?p" using custodyD(2) [OF p] unfolding held_ok_def by (simp add: pool_simps)
    show "pooled_ok ?p"
      using custodyD(3) [OF p] free s unfolding pooled_ok_def by (auto simp: pool_simps distinct_update)
    show "active_ok ?p" using custodyD(4) [OF p] by (simp add: active_ok_def pool_simps)
    show "queue_ok ?p" using custodyD(5) [OF p] by (simp add: queue_ok_def pool_simps)
    show "requests_ok ?p" using custodyD(6) [OF p] by (simp add: requests_ok_def pool_simps)
  qed
qed

text \<open>Taking builders out of the pool leaves them loose.\<close>

lemma custody_from_pool:
  assumes p: "custody p" and l: "distinct l" "set l \<subseteq> set (pooled_for p a)"
  shows "custody (set_pooled a l p)"
proof (rule custodyI)
  show "users_ok (set_pooled a l p)" using custodyD(1) [OF p] by (simp add: users_ok_def pool_simps)
  show "held_ok (set_pooled a l p)" using custodyD(2) [OF p] unfolding held_ok_def by (simp add: pool_simps)
  show "pooled_ok (set_pooled a l p)"
    using custodyD(3) [OF p] l unfolding pooled_ok_def by (auto simp: pool_simps distinct_update)
  show "active_ok (set_pooled a l p)" using custodyD(4) [OF p] by (simp add: active_ok_def pool_simps)
  show "queue_ok (set_pooled a l p)" using custodyD(5) [OF p] by (simp add: queue_ok_def pool_simps)
  show "requests_ok (set_pooled a l p)" using custodyD(6) [OF p] by (simp add: requests_ok_def pool_simps)
qed

lemma heldD:
  assumes "custody p" "holds p r k"
  shows "k < length (p_heap p)" "status_of p k \<in> {Ready, InUse}"
    "bl_arch (p_heap p ! k) = rq_arch (p_requests p ! r)" "k \<notin> set (p_users p)" "holds p r' k \<Longrightarrow> r' = r"
  using custodyD(2) [OF assms(1)] assms(2) unfolding held_ok_def by blast+

lemma pooledD:
  assumes "custody p" "k \<in> set (pooled_for p a)"
  shows "k < length (p_heap p)" "status_of p k = Pooled" "bl_arch (p_heap p ! k) = a"
    "k \<notin> set (p_users p)" "\<not> holds p r k"
proof -
  show k: "k < length (p_heap p)" "status_of p k = Pooled" "bl_arch (p_heap p ! k) = a"
    using custodyD(3) [OF assms(1)] assms(2) by (auto simp: pooled_ok_def)
  show "k \<notin> set (p_users p)" using custodyD(1) [OF assms(1)] k(2) by (auto simp: users_ok_def)
  show "\<not> holds p r k" using heldD(2) [OF assms(1), of r k] k(2) by auto
qed

lemma loose_from_pool:
  assumes p: "custody p" and k: "k \<in> set (pooled_for p a)" "k \<notin> set l" and l: "set l \<subseteq> set (pooled_for p a)"
  shows "loose (set_pooled a l p) k"
proof -
  have "k \<in> set (pooled_for p a') \<Longrightarrow> a' = a" for a'
    using pooledD(3) [OF p k(1)] pooledD(3) [OF p, of k a'] by simp
  then show ?thesis using pooledD [OF p k(1)] k(2) by (auto simp: loose_def pool_simps)
qed

lemma custody_hand_off:
  assumes p: "custody p" and k: "loose p k" and s: "status_of p k \<in> {Ready, InUse}" "bl_arch (p_heap p ! k) = a"
    and h: "hand_off k a p = Some p'"
  shows "custody p'"
proof -
  obtain r where f: "find (wants p a) (p_waiters p) = Some r"
    and p': "p' = on_request r (\<lambda>q. q\<lparr>rq_chan := Some k\<rparr>) (p\<lparr>p_waiters := remove1 r (p_waiters p)\<rparr>)"
    using h by (auto simp: hand_off_def split: option.splits)
  from f have w: "r \<in> set (p_waiters p)" and want: "wants p a r" by (auto simp: find_Some_iff)
  have r: "r < length (p_requests p)" and q: "queued (p_requests p ! r)"
    using custodyD(5) [OF p] w by (auto simp: queue_ok_def)
  have requests: "p_requests p' = (p_requests p)[r := (p_requests p ! r)\<lparr>rq_chan := Some k\<rparr>]"
    and waiters: "p_waiters p' = remove1 r (p_waiters p)"
    and rest: "p_heap p' = p_heap p" "p_available p' = p_available p" "p_active p' = p_active p" "p_users p' = p_users p"
    by (simp_all add: p' pool_simps)
  note free = looseD [OF k]
  have held: "holds p' r' j \<longleftrightarrow> (if r' = r then j = k else holds p r' j)" for r' j
    using r q by (auto simp: holds_def requests nth_update_builder queued_def)
  have archs: "rq_arch (p_requests p' ! r') = rq_arch (p_requests p ! r')" for r'
    using r by (cases "r' = r") (simp_all add: requests nth_update_builder)
  have queued: "queued (p_requests p' ! r') \<longleftrightarrow> r' \<noteq> r \<and> queued (p_requests p ! r')" for r'
    using r by (cases "r' = r") (simp_all add: requests nth_update_builder queued_def)
  show ?thesis
  proof (rule custodyI)
    show "users_ok p'" using custodyD(1) [OF p] by (simp add: users_ok_def rest)
    show "held_ok p'"
      using custodyD(2) [OF p] free s want unfolding held_ok_def held archs rest wants_def by auto
    show "pooled_ok p'" using custodyD(3) [OF p] by (simp add: pooled_ok_def pooled_for_def rest)
    show "active_ok p'" using custodyD(4) [OF p] by (simp add: active_ok_def rest)
    show "queue_ok p'"
      using custodyD(5) [OF p] unfolding queue_ok_def queued by (auto simp: requests waiters)
    show "requests_ok p'"
      using custodyD(6) [OF p] request_at [OF p r] q unfolding requests_ok_def requests
      by (auto simp: request_ok_def queued_def dest!: set_update_subset_insert [THEN subsetD])
  qed
qed

section \<open>Acquiring, releasing, publishing\<close>

lemma custody_acquire:
  assumes "custody p"
  shows "custody (acquire_builder drv_path a p)"
proof (cases "pooled_for p a")
  case Nil
  then show ?thesis
    by (simp add: acquire_builder_def) (rule custody_enqueue [OF assms], simp_all add: queued_def)
next
  case (Cons k rest)
  have d: "distinct (pooled_for p a)" using custodyD(3) [OF assms] by (simp add: pooled_ok_def)
  have "custody (set_pooled a rest p)" using custody_from_pool [OF assms, of rest a] d Cons by auto
  moreover have "loose (set_pooled a rest p) k" using loose_from_pool [OF assms, of k a rest] d Cons by auto
  ultimately show ?thesis using Cons by (simp add: acquire_builder_def custody_assign)
qed

text \<open>A received builder becomes its user's.\<close>

lemma custody_drop_held:
  assumes p: "custody p" and r: "r < length (p_requests p)" "rq_phase (p_requests p ! r) = Taking k"
  shows "custody (on_request r (\<lambda>q. q\<lparr>rq_phase := Got k, rq_cancelled := True\<rparr>) p)" (is "custody ?p")
    and "loose (on_request r (\<lambda>q. q\<lparr>rq_phase := Got k, rq_cancelled := True\<rparr>) p) k"
proof -
  have chan: "rq_chan (p_requests p ! r) = None" using request_at [OF p r(1)] r(2) by (auto simp: request_ok_def)
  have here: "holds p r k" using r by (simp add: holds_def)
  have held: "holds ?p r' j \<longleftrightarrow> r' \<noteq> r \<and> holds p r' j" for r' j
    using r chan by (auto simp: holds_def pool_simps)
  have archs: "rq_arch (p_requests ?p ! r') = rq_arch (p_requests p ! r')" for r'
    using r by (cases "r' = r") (simp_all add: pool_simps)
  have queued: "queued (p_requests ?p ! r') \<longleftrightarrow> queued (p_requests p ! r')" for r'
    using r by (cases "r' = r") (simp_all add: pool_simps queued_def)
  have heap: "p_heap ?p = p_heap p" "p_users ?p = p_users p" by (simp_all add: pool_simps)
  show "custody ?p"
  proof (rule custodyI)
    show "users_ok ?p" using custodyD(1) [OF p] by (simp add: users_ok_def pool_simps)
    show "held_ok ?p"
      using heldD [OF p] unfolding held_ok_def held archs heap by blast
    show "pooled_ok ?p" using custodyD(3) [OF p] by (simp add: pooled_ok_def pool_simps)
    show "active_ok ?p" using custodyD(4) [OF p] by (simp add: active_ok_def pool_simps)
    show "queue_ok ?p" using custodyD(5) [OF p] unfolding queue_ok_def queued by (simp add: pool_simps)
    show "requests_ok ?p"
      using custodyD(6) [OF p] chan unfolding requests_ok_def
      by (auto simp: pool_simps request_ok_def dest!: set_update_subset_insert [THEN subsetD])
  qed
  have "k \<notin> set (pooled_for p a)" for a using pooledD(5) [OF p, of k a r] here by blast
  then show "loose ?p k"
    using heldD [OF p here] unfolding loose_def held by (auto simp: pool_simps)
qed

lemma assign_on_request:
  "on_request r f (assign_builder k d p) = assign_builder k d (on_request r f p)"
  by (simp add: assign_builder_def on_builder_def on_request_def Let_def)

lemma custody_take:
  assumes "custody p" "r < length (p_requests p)" "rq_phase (p_requests p ! r) = Taking k"
  shows "custody (take_builder r k p)"
  unfolding take_builder_def assign_on_request
  by (rule custody_assign) (use custody_drop_held [OF assms] in auto)

text \<open>What happens to a builder that its user gives back.\<close>

lemma custody_pool_or_destroy:
  assumes "custody p" "loose p k"
  shows "custody (pool_or_destroy cfg k p)"
proof -
  have k: "k < length (p_heap p)" by (rule looseD(1) [OF assms(2)])
  have pooled: "custody (on_builder k (\<lambda>b. b\<lparr>bl_status := Pooled\<rparr>) p)"
    and destroyed: "custody (on_builder k (\<lambda>b. b\<lparr>bl_status := Destroying\<rparr>) p)"
    by (rule custody_on_builder [OF assms], simp)+
  have "custody (set_pooled (bl_arch (p_heap p ! k)) (pooled_for p (bl_arch (p_heap p ! k)) @ [k])
      (on_builder k (\<lambda>b. b\<lparr>bl_status := Pooled\<rparr>) p))"
    using custody_to_pool [OF pooled, of k "bl_arch (p_heap p ! k)"] assms(2) k by (simp add: pool_simps)
  moreover have "custody (on_builder k (\<lambda>b. b\<lparr>bl_status := Destroying\<rparr>) (p\<lparr>p_reapers := l\<rparr>))" for l
    using destroyed by (subst custody_cong [of _ "on_builder k (\<lambda>b. b\<lparr>bl_status := Destroying\<rparr>) p"])
      (simp_all add: pool_simps)
  ultimately show ?thesis by (simp add: pool_or_destroy_def Let_def)
qed

lemma custody_give_back:
  assumes p: "custody p" and ids: "ids_ok p" and k: "k \<in> set (p_users p)"
  shows "custody (p\<lparr>p_users := remove1 k (p_users p), p_active := AList.delete (bl_id (p_heap p ! k)) (p_active p)\<rparr>)"
      (is "custody ?p")
    and "loose (p\<lparr>p_users := remove1 k (p_users p), p_active := AList.delete (bl_id (p_heap p ! k)) (p_active p)\<rparr>) k"
proof -
  have same: "holds ?p r j \<longleftrightarrow> holds p r j" for r j by (simp add: holds_def)
  have pooled: "pooled_for ?p a = pooled_for p a" for a by (simp add: pooled_for_def)
  have d: "distinct (p_users p)" and len: "k < length (p_heap p)"
    using custodyD(1) [OF p] k by (auto simp: users_ok_def)
  show "custody ?p"
  proof (rule custodyI)
    show "users_ok ?p" using custodyD(1) [OF p] by (auto simp: users_ok_def)
    show "held_ok ?p" using custodyD(2) [OF p] d unfolding held_ok_def same by auto
    show "pooled_ok ?p" using custodyD(3) [OF p] unfolding pooled_ok_def pooled by simp
    show "active_ok ?p"
      using custodyD(4) [OF p] d by (auto simp: active_ok_def distinct_delete delete_conv split: if_splits)
    show "queue_ok ?p" using custodyD(5) [OF p] by (simp add: queue_ok_def)
    show "requests_ok ?p" using custodyD(6) [OF p] by (simp add: requests_ok_def)
  qed
  show "loose ?p k"
    using pooledD(4) [OF p, of k] heldD(4) [OF p, of _ k] k d len unfolding loose_def same pooled by auto
qed

lemma same_id:
  "ids_ok p \<Longrightarrow> j < length (p_heap p) \<Longrightarrow> k < length (p_heap p) \<Longrightarrow> bl_id (p_heap p ! j) = bl_id (p_heap p ! k) \<Longrightarrow> j = k"
  using nth_eq_iff_index_eq [of "map bl_id (p_heap p)" j k] by (simp add: ids_ok_def)

lemma custody_return:
  assumes p: "custody p" and ids: "ids_ok p" and k: "k \<in> set (p_users p)"
  shows "custody (release_builder cfg (bl_id (p_heap p ! k)) (p\<lparr>p_users := remove1 k (p_users p)\<rparr>))"
proof -
  let ?x = "bl_id (p_heap p ! k)"
  let ?p = "p\<lparr>p_users := remove1 k (p_users p), p_active := AList.delete ?x (p_active p)\<rparr>"
  let ?f = "\<lambda>b. b\<lparr>bl_drv_path := [], bl_last_used := p_clock p\<rparr>"
  let ?p1 = "on_builder k ?f ?p"
  note given = custody_give_back [OF assms]
  have len: "k < length (p_heap p)" and busy: "status_of p k = InUse"
    using custodyD(1) [OF p] k by (auto simp: users_ok_def)
  show ?thesis
  proof (cases "map_of (p_active p) ?x")
    case None
    then have "AList.delete ?x (p_active p) = p_active p"
      by (simp add: delete_idem map_of_eq_None_iff)
    then have "?p = p\<lparr>p_users := remove1 k (p_users p)\<rparr>" by simp
    then show ?thesis using given(1) None by (simp add: release_builder_def)
  next
    case (Some j)
    then have "j < length (p_heap p)" "bl_id (p_heap p ! j) = ?x"
      using custodyD(1,4) [OF p] by (auto simp: active_ok_def users_ok_def)
    then have "j = k" using same_id [OF ids _ len] by simp
    with Some have active: "map_of (p_active p) ?x = Some k" by simp
    have free: "custody ?p1" "loose ?p1 k" using custody_on_builder [OF given] given(2) by simp_all
    have status: "status_of ?p1 k \<in> {Ready, InUse}" "bl_arch (p_heap ?p1 ! k) = bl_arch (p_heap p ! k)"
      using len busy by (simp_all add: pool_simps)
    have eq: "release_builder cfg ?x (p\<lparr>p_users := remove1 k (p_users p)\<rparr>) =
        (case hand_off k (bl_arch (p_heap p ! k)) ?p1 of Some p2 \<Rightarrow> p2 | None \<Rightarrow> pool_or_destroy cfg k ?p1)"
      using active by (simp add: release_builder_def Let_def)
    show ?thesis
      unfolding eq using custody_hand_off [OF free status] custody_pool_or_destroy [OF free]
      by (auto split: option.splits)
  qed
qed

lemma custody_new_builder:
  assumes p: "custody p"
  shows "custody (p\<lparr>p_heap := p_heap p @ [b], p_builders := bs\<rparr>)" (is "custody ?p")
    and "loose (p\<lparr>p_heap := p_heap p @ [b], p_builders := bs\<rparr>) (length (p_heap p))"
proof -
  have same: "holds ?p r j \<longleftrightarrow> holds p r j" for r j by (simp add: holds_def)
  have pooled: "pooled_for ?p a = pooled_for p a" for a by (simp add: pooled_for_def)
  show "custody ?p"
  proof (rule custodyI)
    show "users_ok ?p" using custodyD(1) [OF p] by (auto simp: users_ok_def nth_append)
    have old: "holds p r j \<Longrightarrow> p_heap ?p ! j = p_heap p ! j \<and> j < length (p_heap ?p)" for r j
      using heldD(1) [OF p, of r j] by (simp add: nth_append)
    show "held_ok ?p"
      unfolding held_ok_def same using heldD [OF p] old by simp
    have "k \<in> set (pooled_for p a) \<Longrightarrow> p_heap ?p ! k = p_heap p ! k \<and> k < length (p_heap ?p)" for k a
      using pooledD(1) [OF p, of k a] by (simp add: nth_append)
    then show "pooled_ok ?p" using custodyD(3) [OF p] unfolding pooled_ok_def pooled by simp
    show "active_ok ?p"
      using custodyD(1,4) [OF p] by (auto simp: active_ok_def users_ok_def nth_append)
    show "queue_ok ?p" using custodyD(5) [OF p] by (simp add: queue_ok_def)
    show "requests_ok ?p" using custodyD(6) [OF p] by (simp add: requests_ok_def)
  qed
  show "loose ?p (length (p_heap p))"
    using pooledD(1) [OF p, of "length (p_heap p)"] heldD(1) [OF p, of _ "length (p_heap p)"] custodyD(1) [OF p]
    unfolding loose_def same pooled by (auto simp: users_ok_def)
qed

lemma custody_publish:
  assumes "custody p"
  shows "custody (publish_builder x ip a p)"
proof -
  let ?k = "length (p_heap p)"
  let ?p = "p\<lparr>p_heap := p_heap p @ [new_builder x ip a (p_clock p)], p_builders := AList.update x ?k (p_builders p)\<rparr>"
  note free = custody_new_builder [OF assms, where b = "new_builder x ip a (p_clock p)" and bs = "AList.update x ?k (p_builders p)"]
  have status: "status_of ?p ?k \<in> {Ready, InUse}" "bl_arch (p_heap ?p ! ?k) = a" by (simp_all add: new_builder_def)
  have "custody (on_builder ?k (\<lambda>b. b\<lparr>bl_status := Pooled\<rparr>) ?p)" by (rule custody_on_builder [OF free]) simp
  from custody_to_pool [OF this, of ?k a] free(2)
  have "custody (set_pooled a (pooled_for ?p a @ [?k]) (on_builder ?k (\<lambda>b. b\<lparr>bl_status := Pooled\<rparr>) ?p))"
    by (simp add: pool_simps new_builder_def)
  then show ?thesis
    using custody_hand_off [OF free status] by (auto simp: publish_builder_def Let_def split: option.splits)
qed

section \<open>Cleaning up\<close>

lemma retire_simps [pool_simps]:
  "p_heap (retire_builder k p) = (p_heap p)[k := (p_heap p ! k)\<lparr>bl_status := Destroying\<rparr>]"
  "p_available (retire_builder k p) = p_available p" "p_active (retire_builder k p) = p_active p"
  "p_waiters (retire_builder k p) = p_waiters p" "p_requests (retire_builder k p) = p_requests p"
  "p_users (retire_builder k p) = p_users p" "p_workers (retire_builder k p) = p_workers p"
  "p_provisioning (retire_builder k p) = p_provisioning p" "p_signals (retire_builder k p) = p_signals p"
  "p_reapers (retire_builder k p) = p_reapers p" "p_clock (retire_builder k p) = p_clock p"
  "p_builders (retire_builder k p) = AList.delete (bl_id (p_heap p ! k)) (p_builders p)"
  "p_destroyed (retire_builder k p) = p_destroyed p @ [bl_id (p_heap p ! k)]"
  by (simp_all add: retire_builder_def Let_def pool_simps)

lemma retire_set_pooled: "set_pooled a l (retire_builder k p) = retire_builder k (set_pooled a l p)"
  by (simp add: retire_builder_def set_pooled_def on_builder_def Let_def)

lemma retires_set_pooled: "set_pooled a l (fold retire_builder ks p) = fold retire_builder ks (set_pooled a l p)"
  by (induction ks arbitrary: p) (simp_all add: retire_set_pooled)

text \<open>
  A property that holds after taking an architecture's idle builders out of the pool, and that is kept
  by retiring a loose builder, is kept by the whole clean-up.
\<close>

lemma cleanup_induct:
  assumes init: "I p" and available: "distinct (map fst (p_available p))"
    and arch: "\<And>a l p. I p \<Longrightarrow> l = pooled_for p a \<Longrightarrow> I (cleanup_arch cfg (a, l) p)"
  shows "I (cleanup_old_builders cfg p)"
proof -
  have "I q \<Longrightarrow> distinct (map fst als) \<Longrightarrow> (\<forall>(a, l) \<in> set als. l = pooled_for q a) \<Longrightarrow> I (fold (cleanup_arch cfg) als q)" for als q
  proof (induction als arbitrary: q)
    case (Cons al als)
    obtain a l where al: "al = (a, l)" by (cases al)
    have "pooled_for (fold retire_builder ks q') a' = pooled_for q' a'" for ks q' a'
      by (induction ks arbitrary: q') (simp_all add: pooled_for_def pool_simps)
    then have "pooled_for (cleanup_arch cfg al q) a' = pooled_for q a'" if "a' \<noteq> a" for a'
      using that by (simp add: cleanup_arch_def al pool_simps)
    then have "\<forall>(a', l') \<in> set als. l' = pooled_for (cleanup_arch cfg al q) a'"
      using Cons.prems al by (force simp: image_iff)
    moreover have "I (cleanup_arch cfg al q)" using arch Cons.prems al by auto
    ultimately show ?case using Cons by simp
  qed simp
  moreover have "\<forall>(a, l) \<in> set (p_available p). l = pooled_for p a"
    using available by (auto simp: pooled_for_def)
  ultimately show ?thesis using init available by (simp add: cleanup_old_builders_def)
qed

lemma loose_retire [simp]: "loose (retire_builder j p) k \<longleftrightarrow> loose p k"
  by (simp add: loose_def holds_def pooled_for_def pool_simps)

lemma custody_retire:
  assumes "custody p" "loose p k" shows "custody (retire_builder k p)"
  using custody_on_builder [OF assms, of "\<lambda>b. b\<lparr>bl_status := Destroying\<rparr>"]
  by (subst custody_cong [of _ "on_builder k (\<lambda>b. b\<lparr>bl_status := Destroying\<rparr>) p"])
    (simp_all add: pool_simps)

text \<open>The idle builders of an architecture, taken out of the pool.\<close>

lemma cleanup_arch_conv:
  "cleanup_arch cfg (a, l) p =
     fold retire_builder (filter (is_idle cfg p) l) (set_pooled a (filter (\<lambda>k. \<not> is_idle cfg p k) l) p)"
  by (simp add: cleanup_arch_def retires_set_pooled)

lemma idle_loose:
  assumes "custody p" "k \<in> set (filter (is_idle cfg p) (pooled_for p a))"
  shows "loose (set_pooled a (filter (\<lambda>k. \<not> is_idle cfg p k) (pooled_for p a)) p) k"
  using loose_from_pool [OF assms(1), of k a "filter (\<lambda>k. \<not> is_idle cfg p k) (pooled_for p a)"] assms(2) by auto

lemma retires_induct:
  assumes "I p" "\<And>k. k \<in> set ks \<Longrightarrow> loose p k" "distinct ks"
    and "\<And>k p. I p \<Longrightarrow> loose p k \<Longrightarrow> status_of p k = Pooled \<Longrightarrow> I (retire_builder k p)"
    and "\<And>k. k \<in> set ks \<Longrightarrow> status_of p k = Pooled"
  shows "I (fold retire_builder ks p)"
  using assms
proof (induction ks arbitrary: p)
  case (Cons k ks)
  have "status_of (retire_builder k p) j = Pooled" if "j \<in> set ks" for j
  proof -
    have "j \<noteq> k" using that Cons.prems(3) by auto
    then show ?thesis using Cons.prems(5) that by (simp add: pool_simps)
  qed
  moreover have "I (retire_builder k p)" using Cons.prems by simp
  ultimately show ?case using Cons by simp
qed simp

lemma cleanup_keeps:
  assumes p: "I p" "custody p"
    and pool: "\<And>p a l. I p \<Longrightarrow> custody p \<Longrightarrow> set l \<subseteq> set (pooled_for p a) \<Longrightarrow> I (set_pooled a l p)"
    and retire: "\<And>k p. I p \<Longrightarrow> custody p \<Longrightarrow> loose p k \<Longrightarrow> status_of p k = Pooled \<Longrightarrow> I (retire_builder k p)"
  shows "I (cleanup_old_builders cfg p) \<and> custody (cleanup_old_builders cfg p)"
proof (rule cleanup_induct [where I = "\<lambda>p. I p \<and> custody p"])
  show "I p \<and> custody p" using p by blast
  show "distinct (map fst (p_available p))" using custodyD(3) [OF p(2)] by (simp add: pooled_ok_def)
  fix a l p
  assume q: "I p \<and> custody p" and l: "l = pooled_for p a"
  have d: "distinct l" using custodyD(3) q l by (simp add: pooled_ok_def)
  show "I (cleanup_arch cfg (a, l) p) \<and> custody (cleanup_arch cfg (a, l) p)"
    unfolding cleanup_arch_conv
  proof (rule retires_induct [where I = "\<lambda>p. I p \<and> custody p"])
    let ?l = "filter (\<lambda>k. \<not> is_idle cfg p k) l"
    show "I (set_pooled a ?l p) \<and> custody (set_pooled a ?l p)"
      using q l d pool custody_from_pool [of p ?l a] by auto
    show "distinct (filter (is_idle cfg p) l)" using d by simp
    show "k \<in> set (filter (is_idle cfg p) l) \<Longrightarrow> loose (set_pooled a ?l p) k" for k
      using idle_loose [of p k cfg a] q l by simp
    show "k \<in> set (filter (is_idle cfg p) l) \<Longrightarrow> status_of (set_pooled a ?l p) k = Pooled" for k
      using pooledD(2) [of p k a] q l by (simp add: pool_simps)
  qed (use retire custody_retire in blast)
qed

lemma custody_cleanup: "custody p \<Longrightarrow> custody (cleanup_old_builders cfg p)"
  using cleanup_keeps [where I = "\<lambda>_. True"] by blast

lemma custody_destroy_all:
  assumes p: "custody p" shows "custody (destroy_all p)"
proof (rule custodyI)
  have same: "holds (destroy_all p) r k \<longleftrightarrow> holds p r k" for r k by (simp add: holds_def destroy_all_def)
  show "held_ok (destroy_all p)"
    using custodyD(2) [OF p] unfolding held_ok_def same by (simp add: destroy_all_def)
qed (use custodyD [OF p] in \<open>simp_all add: users_ok_def pooled_ok_def active_ok_def queue_ok_def requests_ok_def
    pooled_for_def destroy_all_def\<close>)

end
