(* ===== verification/Pool_Books.thy ===== *)
theory Pool_Books
  imports Pool_Invariant "HOL-Library.Multiset"
begin

text \<open>
  The books of the pool: the number of provisioning goroutines, the identifiers, and the map of all
  builders with the goroutines that will destroy some of them.
\<close>

section \<open>What the sections leave alone\<close>

lemma hand_offE:
  assumes "hand_off k a p = Some p'"
  obtains r where "r \<in> set (p_waiters p)" "wants p a r"
    "p' = on_request r (\<lambda>q. q\<lparr>rq_chan := Some k\<rparr>) (p\<lparr>p_waiters := remove1 r (p_waiters p)\<rparr>)"
proof -
  from assms obtain r where f: "find (wants p a) (p_waiters p) = Some r"
    and p': "p' = on_request r (\<lambda>q. q\<lparr>rq_chan := Some k\<rparr>) (p\<lparr>p_waiters := remove1 r (p_waiters p)\<rparr>)"
    by (auto simp: hand_off_def split: option.splits)
  from f have "r \<in> set (p_waiters p)" "wants p a r" by (auto simp: find_Some_iff)
  then show thesis using that p' by blast
qed

definition work :: "pool \<Rightarrow> (string \<Rightarrow> int) \<times> worker list \<times> nat" where
  "work p = (p_provisioning p, p_workers p, p_signals p)"

lemma work_simps [pool_simps]:
  "work (on_builder k f p) = work p" "work (on_request r g p) = work p" "work (set_pooled a l p) = work p"
  by (simp_all add: work_def pool_simps)

lemma work_hand_off: "hand_off k a p = Some p' \<Longrightarrow> work p' = work p"
  by (elim hand_offE) (simp add: work_def pool_simps)

lemma work_sections [pool_simps]:
  "work (assign_builder k d p) = work p" "work (acquire_builder d a p) = work p"
  "work (receive_builder r k p) = work p" "work (take_builder r k p) = work p" "work (withdraw_request r p) = work p"
  "work (pool_or_destroy cfg k p) = work p" "work (release_builder cfg x p) = work p"
  "work (publish_builder x ip a p) = work p" "work (finish_destruction x p) = work p" "work (destroy_all p) = work p"
proof -
  have upd: "work (p\<lparr>p_active := u, p_users := v\<rparr>) = work p" "work (p\<lparr>p_requests := w, p_waiters := t\<rparr>) = work p"
    "work (p\<lparr>p_waiters := t\<rparr>) = work p" "work (p\<lparr>p_requests := w\<rparr>) = work p" "work (p\<lparr>p_reapers := s\<rparr>) = work p" "work (p\<lparr>p_active := u\<rparr>) = work p"
    "work (p\<lparr>p_heap := h, p_builders := b\<rparr>) = work p" "work (p\<lparr>p_builders := b, p_destroyed := d'\<rparr>) = work p"
    for p u v w t s h b d' by (simp_all add: work_def)
  show assign: "work (assign_builder k d p) = work p" for k d p
    by (simp add: assign_builder_def Let_def upd pool_simps)
  show "work (acquire_builder d a p) = work p"
    by (simp add: acquire_builder_def assign upd pool_simps split: list.splits)
  show "work (receive_builder r k p) = work p" by (simp add: receive_builder_def pool_simps)
  show "work (take_builder r k p) = work p" by (simp add: take_builder_def assign pool_simps)
  show "work (withdraw_request r p) = work p" by (simp add: withdraw_request_def upd pool_simps)
  show pool: "work (pool_or_destroy cfg k p) = work p" for k p
    by (simp add: pool_or_destroy_def Let_def upd pool_simps)
  show "work (release_builder cfg x p) = work p"
    by (auto simp: release_builder_def Let_def upd pool pool_simps dest!: work_hand_off split: option.splits)
  show "work (publish_builder x ip a p) = work p"
    by (auto simp: publish_builder_def Let_def upd pool_simps dest!: work_hand_off split: option.splits)
  show "work (finish_destruction x p) = work p"
    by (simp add: finish_destruction_def upd split: option.splits)
  show "work (destroy_all p) = work p" by (simp add: destroy_all_def work_def)
qed

lemma work_cleanup [pool_simps]: "work (cleanup_old_builders cfg p) = work p"
proof -
  have "work (fold retire_builder ks p) = work p" for ks p
    by (induction ks arbitrary: p) (simp_all add: work_def pool_simps)
  then have "work (fold (cleanup_arch cfg) als p) = work p" for als p
    by (induction als arbitrary: p) (simp_all add: cleanup_arch_def pool_simps)
  then show ?thesis by (simp add: cleanup_old_builders_def)
qed

lemma count_ok_work: "work p' = work p \<Longrightarrow> count_ok p' \<longleftrightarrow> count_ok p"
  by (simp add: count_ok_def work_def workers_for_def)

text \<open>The counter follows the goroutines.\<close>

lemma length_filter_update:
  "i < length xs \<Longrightarrow>
     length (filter P (xs[i := y])) + of_bool (P (xs ! i)) = length (filter P xs) + of_bool (P y)"
proof (induction xs arbitrary: i)
  case (Cons x xs)
  then show ?case by (cases i) auto
qed simp

lemma workers_for_set:
  "i < length (p_workers p) \<Longrightarrow>
     workers_for (set_worker i w p) a + of_bool (running (p_workers p ! i) \<and> worker_arch (p_workers p ! i) = a) =
     workers_for p a + of_bool (running w \<and> worker_arch w = a)"
  unfolding workers_for_def set_worker_def
  by (subst length_filter_update [where P = "\<lambda>w. running w \<and> worker_arch w = a", symmetric]) simp_all

lemma count_ok_set_worker:
  assumes "count_ok p" "i < length (p_workers p)"
    "running w \<longleftrightarrow> running (p_workers p ! i)" "worker_arch w = worker_arch (p_workers p ! i)"
  shows "count_ok (set_worker i w p)"
  using assms workers_for_set [OF assms(2), of w] by (simp add: count_ok_def pool_simps)

lemma count_ok_finish:
  assumes p: "count_ok p" and i: "i < length (p_workers p)" "p_workers p ! i = Finishing a"
  shows "count_ok (set_worker i (Exited a) (end_provisioning a p))"
proof -
  have before: "workers_for (set_worker i (Exited a) p) a' + of_bool (a = a') = workers_for p a'" for a'
    using workers_for_set [OF i(1), of "Exited a" a'] i(2) by (simp add: running_def)
  have same: "workers_for (set_worker i (Exited a) (end_provisioning a p)) a' = workers_for (set_worker i (Exited a) p) a'" for a'
    by (simp add: workers_for_def set_worker_def end_provisioning_def)
  have count: "p_provisioning p a' = int (workers_for p a')" for a' using p by (simp add: count_ok_def)
  have "p_provisioning (end_provisioning a p) a' = int (workers_for (set_worker i (Exited a) p) a')" for a'
    using before [of a'] count [of a'] by (cases "a' = a") (auto simp: end_provisioning_def)
  moreover have "p_signals (end_provisioning a p) = p_signals p" by (simp add: end_provisioning_def)
  ultimately show ?thesis using p unfolding count_ok_def same pool_update_simps by simp
qed

lemma spawned_for:
  "distinct as \<Longrightarrow>
     length (filter (\<lambda>w. running w \<and> worker_arch w = a) (concat (map (\<lambda>a. replicate (n a) (Spawned a)) as))) =
     (if a \<in> set as then n a else 0)"
  by (induction as) (auto simp: filter_replicate running_def)

lemma count_ok_scale:
  assumes "count_ok p" shows "count_ok (check_and_scale p)"
proof -
  have "workers_for (check_and_scale p) a = workers_for p a + (if a \<in> set (waiting_archs p) then needed p a else 0)" for a
    unfolding workers_for_def check_and_scale_def
    by (simp add: spawned_for [where n = "needed p"] waiting_archs_def)
  then show ?thesis using assms by (auto simp: count_ok_def) (simp_all add: check_and_scale_def)
qed

section \<open>Identifiers\<close>

definition names :: "pool \<Rightarrow> string list" where
  "names p = map bl_id (p_heap p)"

lemma names_on_builder: "(\<And>b. bl_id (f b) = bl_id b) \<Longrightarrow> names (on_builder k f p) = names p"
  by (cases "k < length (p_heap p)") (simp_all add: names_def pool_simps map_update list_update_same_conv list_update_beyond)

lemma names_same: "p_heap p' = p_heap p \<Longrightarrow> names p' = names p"
  by (simp add: names_def)

lemma hand_off_heap: "hand_off k a p = Some p' \<Longrightarrow> p_heap p' = p_heap p"
  by (elim hand_offE) (simp add: pool_simps)

lemma names_assign: "names (assign_builder k d p) = names p"
proof -
  have "names (assign_builder k d p) =
      names (on_builder k (\<lambda>b. b\<lparr>bl_status := InUse, bl_last_used := p_clock p, bl_drv_path := d\<rparr>) p)"
    by (rule names_same) (simp add: assign_builder_def Let_def)
  then show ?thesis by (simp add: names_on_builder)
qed

lemma names_pool_or_destroy: "names (pool_or_destroy cfg k p) = names p"
  by (auto simp: pool_or_destroy_def Let_def names_on_builder names_same [of "set_pooled _ _ p" p for p]
      names_same [of "p\<lparr>p_reapers := _\<rparr>" p] pool_simps)

lemma names_release: "names (release_builder cfg x p) = names p"
proof -
  have "names (on_builder k (\<lambda>b. b\<lparr>bl_drv_path := [], bl_last_used := p_clock p\<rparr>) (p\<lparr>p_active := l\<rparr>)) = names p" for k l
    by (simp add: names_on_builder) (simp add: names_def)
  then show ?thesis
    by (auto simp: release_builder_def Let_def names_pool_or_destroy
        dest!: hand_off_heap [THEN names_same] split: option.splits)
qed

lemma names_publish: "names (publish_builder x ip a p) = names p @ [x]"
proof -
  have new: "names (p\<lparr>p_heap := p_heap p @ [new_builder x ip a n], p_builders := l\<rparr>) = names p @ [x]" for n l
    by (simp add: names_def new_builder_def)
  have "names (set_pooled a l (on_builder k (\<lambda>b. b\<lparr>bl_status := Pooled\<rparr>) p')) = names p'" for l k p'
    by (simp add: names_same [of "set_pooled _ _ p" p for p] names_on_builder pool_simps)
  with new show ?thesis
    by (auto simp: publish_builder_def Let_def dest!: hand_off_heap [THEN names_same] split: option.splits)
qed

lemma names_cleanup: "names (cleanup_old_builders cfg p) = names p"
proof -
  have "names (retire_builder k p) = names p" for k p
    using names_on_builder [of "\<lambda>b. b\<lparr>bl_status := Destroying\<rparr>" k p] by (simp add: names_def pool_simps)
  then have "names (fold retire_builder ks p) = names p" for ks p
    by (induction ks arbitrary: p) simp_all
  then have "names (fold (cleanup_arch cfg) als p) = names p" for als p
    by (induction als arbitrary: p) (simp_all add: cleanup_arch_def names_same [of "set_pooled _ _ p" p for p] pool_simps)
  then show ?thesis by (simp add: cleanup_old_builders_def)
qed

lemma ids_ok_same: "names p' = names p \<Longrightarrow> p_workers p' = p_workers p \<Longrightarrow> ids_ok p' \<longleftrightarrow> ids_ok p"
  by (simp add: ids_ok_def names_def)

lemma drawn_update:
  "i < length ws \<Longrightarrow> mset (concat (map drawn (ws[i := w]))) + mset (drawn (ws ! i)) = mset (concat (map drawn ws)) + mset (drawn w)"
proof (induction ws arbitrary: i)
  case (Cons v ws)
  then show ?case by (cases i) (auto simp: ac_simps)
qed simp

definition ids :: "pool \<Rightarrow> string list" where
  "ids p = names p @ concat (map drawn (p_workers p))"

lemma ids_ok_ids: "ids_ok p \<longleftrightarrow> distinct (ids p)"
  by (simp add: ids_ok_def ids_def names_def)

lemma set_ids: "set (ids p) = ids_in_use p"
proof -
  have "x \<in> set (drawn w) \<longleftrightarrow> (\<exists>a. w = Creating a x)" for x w by (cases w) auto
  then show ?thesis by (auto simp: ids_def ids_in_use_def names_def)
qed

lemma mset_ids_set_worker:
  assumes "i < length (p_workers p)"
  shows "mset (ids (set_worker i w p)) + mset (drawn (p_workers p ! i)) = mset (ids p) + mset (drawn w)"
proof -
  have "names (set_worker i w p) = names p" by (rule names_same) (simp add: pool_simps)
  then show ?thesis using drawn_update [OF assms, of w] by (simp add: ids_def pool_simps ac_simps)
qed

lemma ids_ok_draw:
  assumes "ids_ok p" "i < length (p_workers p)" "p_workers p ! i = Spawned a" "x \<notin> ids_in_use p"
  shows "ids_ok (set_worker i (Creating a x) p)"
proof -
  have "mset (ids (set_worker i (Creating a x) p)) = mset (x # ids p)"
    using mset_ids_set_worker [OF assms(2), of "Creating a x"] assms(3) by simp
  from mset_eq_imp_distinct_iff [OF this] show ?thesis using assms(1,4) by (simp add: ids_ok_ids set_ids)
qed

lemma ids_ok_undraw:
  assumes "ids_ok p" "i < length (p_workers p)" "drawn w = []"
  shows "ids_ok (set_worker i w p)"
proof -
  have "mset (ids (set_worker i w p) @ drawn (p_workers p ! i)) = mset (ids p)"
    using mset_ids_set_worker [OF assms(2), of w] assms(3) by simp
  from mset_eq_imp_distinct_iff [OF this] show ?thesis using assms(1) by (simp add: ids_ok_ids)
qed

lemma ids_ok_publish:
  assumes "ids_ok p" "i < length (p_workers p)" "p_workers p ! i = Creating a x"
  shows "ids_ok (set_worker i (Finishing a) (publish_builder x ip a p))"
proof -
  let ?p = "publish_builder x ip a p"
  have workers: "p_workers ?p = p_workers p" using work_sections(8) [of x ip a p] by (simp add: work_def)
  then have "mset (ids ?p) = mset (ids p) + {#x#}" by (simp add: ids_def names_publish)
  moreover have "mset (ids (set_worker i (Finishing a) ?p)) + {#x#} = mset (ids ?p)"
    using mset_ids_set_worker [of i ?p "Finishing a"] assms(2,3) workers by simp
  ultimately have "mset (ids (set_worker i (Finishing a) ?p)) = mset (ids p)" by simp
  from mset_eq_imp_distinct_iff [OF this] show ?thesis using assms(1) by (simp add: ids_ok_ids)
qed

lemma ids_ok_scale: "ids_ok p \<Longrightarrow> ids_ok (check_and_scale p)"
proof -
  have none: "concat (map drawn (concat (map (\<lambda>a. replicate (n a) (Spawned a)) as))) = []" for n as
    by (induction as) (auto simp: concat_eq_Nil_conv)
  show "ids_ok p \<Longrightarrow> ids_ok (check_and_scale p)"
    by (simp add: ids_ok_def check_and_scale_def none)
qed

section \<open>Tracking\<close>

lemma gone_mono: "gone p X \<Longrightarrow> Y \<subseteq> X \<Longrightarrow> gone p Y"
  by (auto simp: gone_def)

lemma gone_on_builder:
  assumes "gone p X" "bl_id (f (p_heap p ! k)) = bl_id (p_heap p ! k)"
    "status_of p k \<noteq> Destroying \<or> bl_status (f (p_heap p ! k)) = Destroying"
  shows "gone (on_builder k f p) X"
  unfolding gone_def
proof
  fix x assume "x \<in> X"
  then obtain j where j: "j < length (p_heap p)" "bl_id (p_heap p ! j) = x" "status_of p j = Destroying"
    using assms(1) by (auto simp: gone_def)
  have "j < length (p_heap (on_builder k f p))" "bl_id (p_heap (on_builder k f p) ! j) = x"
    "status_of (on_builder k f p) j = Destroying"
    using j assms(2,3) by (cases "j = k"; simp add: pool_simps)+
  then show "\<exists>j < length (p_heap (on_builder k f p)). bl_id (p_heap (on_builder k f p) ! j) = x \<and> status_of (on_builder k f p) j = Destroying"
    by blast
qed

lemma gone_cong: "p_heap p' = p_heap p \<Longrightarrow> gone p' X \<longleftrightarrow> gone p X"
  by (simp add: gone_def)

lemma gone_append: "gone p X \<Longrightarrow> p_heap p' = p_heap p @ bs \<Longrightarrow> gone p' X"
  by (fastforce simp: gone_def nth_append)

lemma tracked_cong:
  "p_heap p' = p_heap p \<Longrightarrow> p_builders p' = p_builders p \<Longrightarrow> p_reapers p' = p_reapers p \<Longrightarrow> tracked_ok p' \<longleftrightarrow> tracked_ok p"
  by (simp add: tracked_ok_def gone_def)

lemma id_on_builder:
  "bl_id (f (p_heap p ! k)) = bl_id (p_heap p ! k) \<Longrightarrow> bl_id (p_heap (on_builder k f p) ! j) = bl_id (p_heap p ! j)"
  by (cases "k < length (p_heap p)") (auto simp: pool_update_simps nth_list_update list_update_beyond)

lemma tracked_on_builder:
  assumes p: "tracked_ok p" and f: "bl_id (f (p_heap p ! k)) = bl_id (p_heap p ! k)"
    "status_of p k \<noteq> Destroying \<or> bl_status (f (p_heap p ! k)) = Destroying"
  shows "tracked_ok (on_builder k f p)"
proof -
  have "gone (on_builder k f p) (fst ` set (p_reapers p))"
    by (rule gone_on_builder) (use p f in \<open>auto simp: tracked_ok_def\<close>)
  then show ?thesis
    using p f(1) unfolding tracked_ok_def by (simp add: id_on_builder) (simp add: pool_simps)
qed

lemma tracked_assign:
  assumes "tracked_ok p" "status_of p k \<noteq> Destroying" shows "tracked_ok (assign_builder k d p)"
proof -
  have "tracked_ok (on_builder k (\<lambda>b. b\<lparr>bl_status := InUse, bl_last_used := p_clock p, bl_drv_path := d\<rparr>) p)"
    by (rule tracked_on_builder [OF assms(1)]) (use assms(2) in auto)
  then show ?thesis
    by (subst (asm) tracked_cong [of "assign_builder k d p", symmetric]) (simp_all add: assign_builder_def Let_def)
qed

lemma tracked_acquire:
  assumes p: "tracked_ok p" "custody p" shows "tracked_ok (acquire_builder d a p)"
proof (cases "pooled_for p a")
  case Nil
  then show ?thesis using p(1) tracked_cong [of "acquire_builder d a p" p] by (simp add: acquire_builder_def)
next
  case (Cons k rest)
  then have "status_of p k = Pooled" using pooledD(2) [OF p(2), of k a] by simp
  moreover have "tracked_ok (set_pooled a rest p)" using p(1) tracked_cong [of "set_pooled a rest p" p] by (simp add: pool_simps)
  ultimately show ?thesis using Cons tracked_assign [of "set_pooled a rest p" k d] by (simp add: acquire_builder_def pool_simps)
qed

lemma tracked_hand_off: "tracked_ok p \<Longrightarrow> hand_off k a p = Some p' \<Longrightarrow> tracked_ok p'"
  by (elim hand_offE) (subst tracked_cong [of p' p], simp_all add: pool_simps)

lemma tracked_pool_or_destroy:
  assumes p: "tracked_ok p" and k: "k < length (p_heap p)" "status_of p k \<noteq> Destroying"
  shows "tracked_ok (pool_or_destroy cfg k p)"
proof -
  have pooled: "tracked_ok (set_pooled a l (on_builder k (\<lambda>b. b\<lparr>bl_status := Pooled\<rparr>) p))" for a l
    using tracked_on_builder [OF p, of "\<lambda>b. b\<lparr>bl_status := Pooled\<rparr>" k] k
      tracked_cong [of "set_pooled a l q" q for q] by (simp add: pool_simps)
  let ?p = "\<lambda>t. on_builder k (\<lambda>b. b\<lparr>bl_status := Destroying\<rparr>) (p\<lparr>p_reapers := p_reapers p @ [(bl_id (p_heap p ! k), t)]\<rparr>)"
  have "gone (?p t) (fst ` set (p_reapers p))" for t
    using gone_on_builder [of "p\<lparr>p_reapers := p_reapers p @ [(bl_id (p_heap p ! k), t)]\<rparr>" _ "\<lambda>b. b\<lparr>bl_status := Destroying\<rparr>" k]
      p gone_cong [of "p\<lparr>p_reapers := _\<rparr>" p] by (simp add: tracked_ok_def)
  moreover have "gone (?p t) {bl_id (p_heap p ! k)}" for t
    using k by (auto simp: gone_def pool_simps)
  ultimately have "gone (?p t) (fst ` set (p_reapers (?p t)))" for t by (auto simp: gone_def pool_simps)
  moreover have "p_builders (?p t) = p_builders p" for t by (simp add: pool_simps)
  ultimately have "tracked_ok (?p t)" for t
    using p k unfolding tracked_ok_def by (auto simp: pool_simps)
  then show ?thesis using pooled by (simp add: pool_or_destroy_def Let_def)
qed

lemma tracked_return:
  assumes p: "tracked_ok p" "custody p" "ids_ok p" and k: "k \<in> set (p_users p)"
  shows "tracked_ok (release_builder cfg (bl_id (p_heap p ! k)) (p\<lparr>p_users := remove1 k (p_users p)\<rparr>))"
proof (cases "map_of (p_active p) (bl_id (p_heap p ! k))")
  case None
  then show ?thesis using p(1) tracked_cong [of "p\<lparr>p_users := remove1 k (p_users p)\<rparr>" p] by (simp add: release_builder_def)
next
  case (Some j)
  let ?p1 = "on_builder j (\<lambda>b. b\<lparr>bl_drv_path := [], bl_last_used := p_clock p\<rparr>)
    (p\<lparr>p_users := remove1 k (p_users p), p_active := AList.delete (bl_id (p_heap p ! k)) (p_active p)\<rparr>)"
  have j: "j < length (p_heap p)" "status_of p j = InUse"
    using Some custodyD(1,4) [OF p(2)] by (auto simp: active_ok_def users_ok_def)
  have "tracked_ok ?p1"
    by (rule tracked_on_builder)
      (use p(1) j tracked_cong [of "p\<lparr>p_users := remove1 k (p_users p), p_active := _\<rparr>" p] in auto)
  moreover have "tracked_ok (pool_or_destroy cfg j ?p1)"
    by (rule tracked_pool_or_destroy) (use \<open>tracked_ok ?p1\<close> j in \<open>auto simp: pool_simps\<close>)
  ultimately show ?thesis
    using Some tracked_hand_off [of ?p1] by (auto simp: release_builder_def Let_def split: option.splits)
qed

lemma new_builder_tracked:
  assumes p: "tracked_ok p"
  shows "tracked_ok (p\<lparr>p_heap := p_heap p @ [new_builder x ip a n],
    p_builders := AList.update x (length (p_heap p)) (p_builders p)\<rparr>)" (is "tracked_ok ?p")
proof -
  have "gone ?p (fst ` set (p_reapers p))"
    using gone_append [of p _ ?p "[new_builder x ip a n]"] p by (simp add: tracked_ok_def)
  moreover have "k < length (p_heap ?p) \<and> bl_id (p_heap ?p ! k) = y" if "map_of (p_builders ?p) y = Some k" for y k
  proof (cases "y = x")
    case False
    then have "k < length (p_heap p) \<and> bl_id (p_heap p ! k) = y"
      using that p by (simp add: tracked_ok_def update_conv)
    then show ?thesis by (simp add: nth_append)
  qed (use that in \<open>auto simp: update_conv new_builder_def nth_append\<close>)
  ultimately show ?thesis using p by (simp add: tracked_ok_def distinct_update)
qed

lemma tracked_publish:
  assumes p: "tracked_ok p" shows "tracked_ok (publish_builder x ip a p)"
proof -
  let ?k = "length (p_heap p)"
  let ?p = "p\<lparr>p_heap := p_heap p @ [new_builder x ip a (p_clock p)], p_builders := AList.update x ?k (p_builders p)\<rparr>"
  note new = new_builder_tracked [OF p, of x ip a "p_clock p"]
  have "tracked_ok (set_pooled a l (on_builder ?k (\<lambda>b. b\<lparr>bl_status := Pooled\<rparr>) ?p))" for l
    using tracked_on_builder [OF new, of "\<lambda>b. b\<lparr>bl_status := Pooled\<rparr>" ?k] tracked_cong [of "set_pooled a l q" q for q]
    by (simp add: pool_simps new_builder_def)
  then show ?thesis
    using tracked_hand_off [OF new] by (auto simp: publish_builder_def Let_def split: option.splits)
qed

lemma tracked_destroyed:
  assumes "tracked_ok p" "gone p (fst ` set rs)"
  shows "tracked_ok (p\<lparr>p_reapers := rs, p_builders := AList.delete x (p_builders p), p_destroyed := d\<rparr>)"
    and "tracked_ok (p\<lparr>p_reapers := rs\<rparr>)"
  using assms by (auto simp: tracked_ok_def gone_def distinct_delete delete_conv split: if_splits)

lemma tracked_finish_destruction:
  assumes p: "tracked_ok p"
  shows "tracked_ok (finish_destruction x (p\<lparr>p_reapers := take j (p_reapers p) @ drop (Suc j) (p_reapers p)\<rparr>))"
proof -
  let ?rs = "take j (p_reapers p) @ drop (Suc j) (p_reapers p)"
  have "gone p (fst ` set ?rs)"
  proof (rule gone_mono)
    show "gone p (fst ` set (p_reapers p))" using p by (simp add: tracked_ok_def)
    show "fst ` set ?rs \<subseteq> fst ` set (p_reapers p)" by (auto dest: in_set_takeD in_set_dropD)
  qed
  from tracked_destroyed [OF p this] show ?thesis by (simp add: finish_destruction_def split: option.splits)
qed

lemma tracked_cleanup: "tracked_ok p \<Longrightarrow> custody p \<Longrightarrow> tracked_ok (cleanup_old_builders cfg p)"
proof -
  have retire: "tracked_ok (retire_builder k p)" if "tracked_ok p" for k p
  proof -
    have "tracked_ok (on_builder k (\<lambda>b. b\<lparr>bl_status := Destroying\<rparr>) p)"
      by (rule tracked_on_builder [OF that]) auto
    then show ?thesis
      by (auto simp: tracked_ok_def gone_def pool_simps distinct_delete delete_conv split: if_splits)
  qed
  show "tracked_ok p \<Longrightarrow> custody p \<Longrightarrow> tracked_ok (cleanup_old_builders cfg p)"
    using cleanup_keeps [of tracked_ok p cfg] retire tracked_cong [of "set_pooled a l q" q for a l q]
    by (simp add: pool_simps)
qed

lemma tracked_destroy_all: "tracked_ok p \<Longrightarrow> tracked_ok (destroy_all p)"
  by (simp add: tracked_ok_def destroy_all_def gone_def)

end
