(* ===== verification/Pool_Runs.thy ===== *)
theory Pool_Runs
  imports Pool_Books
begin

text \<open>
  The runs of the pool: what holds in every state that is reached, and what never happens.
\<close>

section \<open>The invariant\<close>

definition pool_ok :: "pool \<Rightarrow> bool" where
  "pool_ok p \<longleftrightarrow> custody p \<and> count_ok p \<and> ids_ok p \<and> tracked_ok p"

lemma pool_okD:
  assumes "pool_ok p" shows "custody p" "count_ok p" "ids_ok p" "tracked_ok p"
  using assms by (auto simp: pool_ok_def)

lemma pool_ok_new: "pool_ok (new_pool now)"
  by (auto simp: pool_ok_def custody_def ok_defs count_ok_def ids_ok_def tracked_ok_def gone_def
      new_pool_def holds_def pooled_for_def workers_for_def)

text \<open>A section that leaves the workers alone and keeps the identifiers.\<close>

lemma pool_okI:
  assumes "pool_ok p" "work p' = work p" "names p' = names p" "custody p'" "tracked_ok p'"
  shows "pool_ok p'"
proof -
  have "p_workers p' = p_workers p" using assms(2) by (simp add: work_def)
  then have "ids_ok p'" using assms(1,3) ids_ok_same [of p' p] by (simp add: pool_ok_def)
  moreover have "count_ok p'" using assms(1) count_ok_work [OF assms(2)] by (simp add: pool_ok_def)
  ultimately show ?thesis using assms(4,5) by (simp add: pool_ok_def)
qed

lemma pool_ok_request:
  assumes "pool_ok p" "custody (on_request r g p)" shows "pool_ok (on_request r g p)"
proof (rule pool_okI [OF assms(1)])
  show "names (on_request r g p) = names p" by (rule names_same) (simp add: pool_simps)
  show "tracked_ok (on_request r g p)"
    using pool_okD(4) [OF assms(1)] tracked_cong [of "on_request r g p" p] by (simp add: pool_simps)
qed (use assms(2) in \<open>simp_all add: work_simps\<close>)

text \<open>A section that only concerns the workers.\<close>

lemma pool_ok_work:
  assumes p: "pool_ok p" and w: "count_ok p'" "ids_ok p'"
    and same: "p_heap p' = p_heap p" "p_available p' = p_available p" "p_active p' = p_active p"
      "p_waiters p' = p_waiters p" "p_requests p' = p_requests p" "p_users p' = p_users p"
      "p_builders p' = p_builders p" "p_reapers p' = p_reapers p"
  shows "pool_ok p'"
  using p w custody_cong [OF same(1-6)] tracked_cong [OF same(1,7,8)] by (simp add: pool_ok_def)

lemma pool_ok_clock:
  assumes "pool_ok p" shows "pool_ok (p\<lparr>p_clock := t\<rparr>)"
  by (rule pool_ok_work [OF assms])
    (use assms in \<open>simp_all add: pool_ok_def count_ok_def workers_for_def ids_ok_def\<close>)

lemma pool_ok_signal:
  assumes "pool_ok p" "in_phase p r Signalling" shows "pool_ok (signal_provisioning r p)"
proof -
  have s: "pool_ok (p\<lparr>p_signals := min 10 (p_signals p + 1)\<rparr>)"
    by (rule pool_ok_work [OF assms(1)])
      (use assms(1) in \<open>simp_all add: pool_ok_def count_ok_def workers_for_def ids_ok_def\<close>)
  show ?thesis
    using custody_signal [OF pool_okD(1) [OF assms(1)] assms(2)] pool_ok_request [OF s]
    by (simp add: signal_provisioning_def)
qed

lemma scale_same:
  "p_heap (check_and_scale p) = p_heap p" "p_available (check_and_scale p) = p_available p"
  "p_active (check_and_scale p) = p_active p" "p_waiters (check_and_scale p) = p_waiters p"
  "p_requests (check_and_scale p) = p_requests p" "p_users (check_and_scale p) = p_users p"
  "p_builders (check_and_scale p) = p_builders p" "p_reapers (check_and_scale p) = p_reapers p"
  "p_destroyed (check_and_scale p) = p_destroyed p"
  by (simp_all add: check_and_scale_def)

lemma pool_ok_scale:
  assumes "pool_ok p" "n \<le> p_signals p" shows "pool_ok (check_and_scale (p\<lparr>p_signals := n, p_ticking := b\<rparr>))"
proof -
  have s: "count_ok (p\<lparr>p_signals := n, p_ticking := b\<rparr>)" "ids_ok (p\<lparr>p_signals := n, p_ticking := b\<rparr>)"
    using assms by (simp_all add: pool_ok_def count_ok_def workers_for_def ids_ok_def)
  show ?thesis
    by (rule pool_ok_work [OF assms(1)]) (simp_all add: count_ok_scale ids_ok_scale s scale_same)
qed

lemma pool_ok_set_worker:
  assumes p: "pool_ok p" and w: "count_ok (set_worker i w p)" "ids_ok (set_worker i w p)"
  shows "pool_ok (set_worker i w p)"
  by (rule pool_ok_work [OF p w]) (simp_all add: pool_simps)

lemma pool_ok_publish:
  assumes p: "pool_ok p" and i: "i < length (p_workers p)" "p_workers p ! i = Creating a x"
  shows "pool_ok (set_worker i (Finishing a) (publish_builder x ip a p))"
proof -
  let ?q = "publish_builder x ip a p" let ?p = "set_worker i (Finishing a) ?q"
  have w: "work ?q = work p" by (simp add: pool_simps)
  then have workers: "p_workers ?q = p_workers p" by (simp add: work_def)
  have "count_ok ?q" using count_ok_work [OF w] pool_okD(2) [OF p] by simp
  then have "count_ok ?p" using count_ok_set_worker [of ?q i "Finishing a"] i workers by (simp add: running_def)
  moreover have "ids_ok ?p" by (rule ids_ok_publish [OF pool_okD(3) [OF p] i])
  moreover have "custody ?p"
    using custody_publish [OF pool_okD(1) [OF p]] custody_cong [of ?p ?q] by (simp add: pool_simps)
  moreover have "tracked_ok ?p"
    using tracked_publish [OF pool_okD(4) [OF p]] tracked_cong [of ?p ?q] by (simp add: pool_simps)
  ultimately show ?thesis by (simp add: pool_ok_def)
qed

lemma pool_ok_finish:
  assumes p: "pool_ok p" and i: "i < length (p_workers p)" "p_workers p ! i = Finishing a"
  shows "pool_ok (set_worker i (Exited a) (end_provisioning a p))"
proof (rule pool_ok_work [OF p])
  show "count_ok (set_worker i (Exited a) (end_provisioning a p))" by (rule count_ok_finish [OF pool_okD(2) [OF p] i])
  have "ids_ok (end_provisioning a p)" using pool_okD(3) [OF p] by (simp add: ids_ok_def end_provisioning_def)
  then show "ids_ok (set_worker i (Exited a) (end_provisioning a p))"
    using i by (intro ids_ok_undraw) (simp_all add: end_provisioning_def)
qed (simp_all add: pool_simps end_provisioning_def)

lemma pool_ok_take:
  assumes p: "pool_ok p" and r: "r < length (p_requests p)" "rq_phase (p_requests p ! r) = Taking k"
  shows "pool_ok (take_builder r k p)"
proof (rule pool_okI [OF p])
  have "status_of p k \<in> {Ready, InUse}" using heldD(2) [OF pool_okD(1) [OF p], of r k] r by (simp add: holds_def)
  then have "tracked_ok (assign_builder k d p)" for d by (intro tracked_assign pool_okD(4) [OF p]) auto
  then show "tracked_ok (take_builder r k p)"
    by (simp add: take_builder_def tracked_cong [of "on_request _ _ q" q for q] pool_simps)
  show "names (take_builder r k p) = names p"
    by (simp add: take_builder_def names_same [of "on_request _ _ q" q for q] names_assign pool_simps)
qed (use custody_take [OF pool_okD(1) [OF p] r] in \<open>simp_all add: pool_simps\<close>)

lemma pool_ok_withdraw:
  assumes "pool_ok p" "in_phase p r GivingUp" shows "pool_ok (withdraw_request r p)"
proof (rule pool_okI [OF assms(1)])
  show "names (withdraw_request r p) = names p" by (rule names_same) (simp add: withdraw_request_def pool_simps)
  show "tracked_ok (withdraw_request r p)"
    using pool_okD(4) [OF assms(1)] tracked_cong [of "withdraw_request r p" p] by (simp add: withdraw_request_def pool_simps)
qed (use custody_withdraw [OF pool_okD(1) [OF assms(1)] assms(2)] in \<open>simp_all add: pool_simps\<close>)

lemma pool_ok_acquire: assumes p: "pool_ok p" shows "pool_ok (acquire_builder d a p)"
proof (rule pool_okI [OF p])
  show "names (acquire_builder d a p) = names p"
    by (simp add: acquire_builder_def names_assign names_same [of "set_pooled _ _ p" p]
        names_same [of "p\<lparr>p_requests := _, p_waiters := _\<rparr>" p] pool_simps split: list.splits)
qed (use custody_acquire tracked_acquire pool_okD [OF p] in \<open>auto simp: pool_simps\<close>)

lemma pool_ok_return:
  assumes p: "pool_ok p" and k: "k \<in> set (p_users p)"
  shows "pool_ok (release_builder cfg (bl_id (p_heap p ! k)) (p\<lparr>p_users := remove1 k (p_users p)\<rparr>))"
proof (rule pool_okI [OF p])
  show "names (release_builder cfg (bl_id (p_heap p ! k)) (p\<lparr>p_users := remove1 k (p_users p)\<rparr>)) = names p"
    by (simp add: names_release) (simp add: names_def)
  show "work (release_builder cfg (bl_id (p_heap p ! k)) (p\<lparr>p_users := remove1 k (p_users p)\<rparr>)) = work p"
    by (simp add: work_sections) (simp add: work_def)
qed (use custody_return tracked_return pool_okD [OF p] k in auto)

lemma pool_ok_reap:
  assumes p: "pool_ok p"
  shows "pool_ok (finish_destruction x (p\<lparr>p_reapers := take j (p_reapers p) @ drop (Suc j) (p_reapers p)\<rparr>))"
    (is "pool_ok ?q")
proof (rule pool_okI [OF p])
  show "custody ?q"
    using pool_okD(1) [OF p] custody_cong [of ?q p] by (simp add: finish_destruction_def split: option.splits)
  show "names ?q = names p" by (simp add: finish_destruction_def names_def split: option.splits)
  show "work ?q = work p" by (simp add: work_sections) (simp add: work_def)
qed (rule tracked_finish_destruction [OF pool_okD(4) [OF p]])

lemma pool_ok_cleanup:
  assumes p: "pool_ok p" shows "pool_ok (cleanup_old_builders cfg (p\<lparr>p_ticking := False\<rparr>))"
proof (rule pool_okI [OF p])
  have q: "custody (p\<lparr>p_ticking := False\<rparr>)" "tracked_ok (p\<lparr>p_ticking := False\<rparr>)"
    using pool_okD [OF p] custody_cong [of "p\<lparr>p_ticking := False\<rparr>" p] tracked_cong [of "p\<lparr>p_ticking := False\<rparr>" p] by simp_all
  show "custody (cleanup_old_builders cfg (p\<lparr>p_ticking := False\<rparr>))" "tracked_ok (cleanup_old_builders cfg (p\<lparr>p_ticking := False\<rparr>))"
    by (rule custody_cleanup [OF q(1)], rule tracked_cleanup [OF q(2,1)])
  show "names (cleanup_old_builders cfg (p\<lparr>p_ticking := False\<rparr>)) = names p" by (simp add: names_cleanup) (simp add: names_def)
  show "work (cleanup_old_builders cfg (p\<lparr>p_ticking := False\<rparr>)) = work p" by (simp add: work_cleanup) (simp add: work_def)
qed

lemma pool_ok_destroy_all:
  assumes p: "pool_ok p" shows "pool_ok (destroy_all p)"
proof (rule pool_okI [OF p])
  show "names (destroy_all p) = names p" by (simp add: names_def destroy_all_def)
qed (use custody_destroy_all tracked_destroy_all pool_okD [OF p] in \<open>simp_all add: work_sections\<close>)

theorem pool_ok_step:
  assumes p: "pool_ok p" and s: "step cfg e p = Some p'" and d: "drawn_anew e p"
  shows "pool_ok p'"
proof (cases e)
  case (Ask drv_path platform)
  then show ?thesis using s pool_ok_acquire [OF p] by (auto split: if_splits)
next
  case (Receive r)
  then show ?thesis
    using s custody_receive [OF pool_okD(1) [OF p]] pool_ok_request [OF p]
    by (auto simp: receive_builder_def split: if_splits)
next
  case (GiveUp r)
  then show ?thesis
    using s custody_give_up [OF pool_okD(1) [OF p]] pool_ok_request [OF p] by (auto split: if_splits)
next
  case (Expire r)
  then show ?thesis
    using s custody_expire [OF pool_okD(1) [OF p]] pool_ok_request [OF p] by (auto split: if_splits)
next
  case (Draw i x)
  then obtain a where i: "i < length (p_workers p)" "p_workers p ! i = Spawned a" and p': "p' = set_worker i (Creating a x) p"
    using s by (auto split: if_splits worker.splits)
  have "ids_ok p'" unfolding p' by (rule ids_ok_draw [OF pool_okD(3) [OF p] i]) (use d Draw in simp)
  moreover have "count_ok p'" unfolding p' by (rule count_ok_set_worker [OF pool_okD(2) [OF p] i(1)]) (simp_all add: running_def i)
  ultimately show ?thesis using pool_ok_set_worker [OF p] p' by simp
next
  case (Fail i)
  then obtain a x where i: "i < length (p_workers p)" "p_workers p ! i = Creating a x" and p': "p' = set_worker i (Finishing a) p"
    using s by (auto split: if_splits worker.splits)
  have "ids_ok p'" unfolding p' by (rule ids_ok_undraw [OF pool_okD(3) [OF p] i(1)]) simp
  moreover have "count_ok p'" unfolding p' by (rule count_ok_set_worker [OF pool_okD(2) [OF p] i(1)]) (simp_all add: running_def i)
  ultimately show ?thesis using pool_ok_set_worker [OF p] p' by simp
next
  case ScaleOnSignal
  then show ?thesis using s pool_ok_scale [OF p, of "p_signals p - 1" "p_ticking p"] by (simp split: if_splits)
next
  case ScaleOnTick
  then show ?thesis using s pool_ok_scale [OF p, of "p_signals p" True] by (simp split: if_splits)
qed (use s pool_ok_signal [OF p] pool_ok_take [OF p] pool_ok_withdraw [OF p] pool_ok_clock [OF p]
    pool_ok_return [OF p] pool_ok_cleanup [OF p] pool_ok_publish [OF p] pool_ok_finish [OF p]
    pool_ok_reap [OF p] pool_ok_destroy_all [OF p] in \<open>auto split: if_splits phase.splits worker.splits\<close>)

lemma pool_ok_run: "pool_run cfg now es p \<Longrightarrow> pool_ok p"
  by (induction rule: pool_run.induct) (auto intro: pool_ok_new pool_ok_step)

end
