(* ===== verification/Pool_Custody.thy ===== *)
theory Pool_Custody
  imports Pool_Runs
begin

text \<open>
  No builder is lost track of: until \<open>DestroyAll\<close>, every builder that was created is in the hands of a
  caller, pooled, on its way to a request, or about to be destroyed, and no builder is destroyed while
  it is anywhere else.
\<close>

section \<open>Where a builder may be\<close>

definition doomed :: "pool \<Rightarrow> nat \<Rightarrow> bool" where
  "doomed p k \<longleftrightarrow> bl_id (p_heap p ! k) \<in> fst ` set (p_reapers p) \<union> set (p_destroyed p)"

definition placed :: "pool \<Rightarrow> nat \<Rightarrow> bool" where
  "placed p k \<longleftrightarrow> k \<in> set (p_users p) \<or> (\<exists>r. holds p r k) \<or>
     k \<in> set (pooled_for p (bl_arch (p_heap p ! k))) \<or> (status_of p k = Destroying \<and> doomed p k)"

definition placed_but :: "nat set \<Rightarrow> pool \<Rightarrow> bool" where
  "placed_but K p \<longleftrightarrow> (\<forall>k < length (p_heap p). k \<in> K \<or> placed p k)"

definition listed :: "pool \<Rightarrow> bool" where
  "listed p \<longleftrightarrow>
     (\<forall>k < length (p_heap p). status_of p k \<noteq> Destroying \<longrightarrow> map_of (p_builders p) (bl_id (p_heap p ! k)) = Some k) \<and>
     (\<forall>k \<in> set (p_users p). map_of (p_active p) (bl_id (p_heap p ! k)) = Some k) \<and>
     (\<forall>x t. (x, t) \<in> set (p_reapers p) \<longrightarrow> x \<in> set (p_destroyed p) \<or> map_of (p_builders p) x \<noteq> None) \<and>
     gone p (set (p_destroyed p))"

lemma placed_butD: "placed_but K p \<Longrightarrow> k < length (p_heap p) \<Longrightarrow> k \<notin> K \<Longrightarrow> placed p k"
  by (auto simp: placed_but_def)

text \<open>Placement only depends on some components.\<close>

lemma placed_cong:
  assumes "p_heap p' = p_heap p" "p_available p' = p_available p" "p_requests p' = p_requests p"
    "p_users p' = p_users p" "p_reapers p' = p_reapers p" "p_destroyed p' = p_destroyed p"
  shows "placed_but K p' \<longleftrightarrow> placed_but K p"
  using assms by (simp add: placed_but_def placed_def doomed_def holds_def pooled_for_def)

lemma listed_cong:
  assumes "p_heap p' = p_heap p" "p_builders p' = p_builders p" "p_active p' = p_active p"
    "p_users p' = p_users p" "p_reapers p' = p_reapers p" "p_destroyed p' = p_destroyed p"
  shows "listed p' \<longleftrightarrow> listed p"
  using assms by (simp add: listed_def gone_def)

lemma placed_mono:
  assumes p: "placed_but K p" and len: "length (p_heap p') = length (p_heap p)" and sub: "K \<subseteq> K'"
    and one: "\<And>k. k < length (p_heap p) \<Longrightarrow> k \<notin> K' \<Longrightarrow> placed p k \<Longrightarrow> placed p' k"
  shows "placed_but K' p'"
  using assms by (auto simp: placed_but_def)

lemma placed_keep:
  assumes "placed p k" "k \<in> set (p_users p) \<Longrightarrow> k \<in> set (p_users p')" "\<And>r. holds p r k \<Longrightarrow> holds p' r k"
    "k \<in> set (pooled_for p (bl_arch (p_heap p ! k))) \<Longrightarrow> k \<in> set (pooled_for p' (bl_arch (p_heap p' ! k)))"
    "status_of p k = Destroying \<Longrightarrow> doomed p k \<Longrightarrow> status_of p' k = Destroying \<and> doomed p' k"
  shows "placed p' k"
  using assms unfolding placed_def by blast

lemma placed_on_builder:
  assumes "placed_but K p" "k \<in> K" shows "placed_but K (on_builder k f p)"
proof (rule placed_mono [OF assms(1)])
  fix j assume j: "j \<notin> K" "placed p j"
  then have "k \<noteq> j" using assms(2) by auto
  then have "p_heap (on_builder k f p) ! j = p_heap p ! j" by (simp add: pool_update_simps)
  with j(2) show "placed (on_builder k f p) j" by (elim placed_keep) (simp_all add: doomed_def pool_simps)
qed (simp_all add: pool_update_simps)

lemma placed_here: "placed_but {k} p \<Longrightarrow> placed p k \<Longrightarrow> placed_but {} p"
  by (auto simp: placed_but_def)

lemma placed_to_user:
  assumes "placed_but {k} p" shows "placed_but {} (assign_builder k d p)"
proof (rule placed_here)
  show "placed_but {k} (assign_builder k d p)"
  proof (rule placed_mono [OF assms])
    fix j assume "j \<notin> {k}" "placed p j"
    then show "placed (assign_builder k d p) j"
      by (elim placed_keep)
        (auto simp: assign_builder_def Let_def doomed_def holds_def pooled_for_def pool_update_simps)
  qed (simp_all add: assign_builder_def Let_def pool_update_simps)
qed (simp add: placed_def assign_builder_def Let_def)

lemma placed_hand_off:
  assumes p: "custody p" and k: "placed_but {k} p" and h: "hand_off k a p = Some p'"
  shows "placed_but {} p'"
proof -
  obtain r where r: "r \<in> set (p_waiters p)"
    and p': "p' = on_request r (\<lambda>q. q\<lparr>rq_chan := Some k\<rparr>) (p\<lparr>p_waiters := remove1 r (p_waiters p)\<rparr>)"
    using h by (rule hand_offE)
  have q: "r < length (p_requests p)" "queued (p_requests p ! r)"
    using custodyD(5) [OF p] r by (auto simp: queue_ok_def)
  have keep: "holds p r' j \<Longrightarrow> holds p' r' j" for r' j
    using q by (cases "r' = r") (auto simp: holds_def p' pool_simps queued_def)
  have rest: "p_users p' = p_users p" "p_heap p' = p_heap p" "pooled_for p' b = pooled_for p b"
    "p_reapers p' = p_reapers p" "p_destroyed p' = p_destroyed p" for b
    by (simp_all add: p' pool_simps pooled_for_def)
  show ?thesis
  proof (rule placed_here)
    show "placed_but {k} p'"
    proof (rule placed_mono [OF k])
      fix j assume "placed p j"
      then show "placed p' j" by (elim placed_keep) (simp_all add: keep rest doomed_def)
    qed (simp_all add: rest)
    have "holds p' r k" using q by (simp add: holds_def p' pool_simps)
    then show "placed p' k" by (auto simp: placed_def)
  qed
qed

lemma placed_to_pool:
  assumes "placed_but {k} p" "bl_arch (p_heap p ! k) = a"
  shows "placed_but {} (set_pooled a (pooled_for p a @ [k]) p)"
proof (rule placed_here)
  show "placed_but {k} (set_pooled a (pooled_for p a @ [k]) p)"
    by (rule placed_mono [OF assms(1)]) (auto simp: placed_def doomed_def pool_simps)
qed (use assms(2) in \<open>simp add: placed_def pool_simps\<close>)

lemma placed_pool_or_destroy:
  assumes p: "placed_but {k} p" and k: "k < length (p_heap p)"
  shows "placed_but {} (pool_or_destroy cfg k p)"
proof -
  have pooled: "placed_but {} (set_pooled a (pooled_for p a @ [k]) (on_builder k (\<lambda>b. b\<lparr>bl_status := Pooled\<rparr>) p))"
    if "a = bl_arch (p_heap p ! k)" for a
    using placed_to_pool [OF placed_on_builder [OF p, of k "\<lambda>b. b\<lparr>bl_status := Pooled\<rparr>"], of a] that k
    by (simp add: pool_simps)
  let ?p = "\<lambda>t. on_builder k (\<lambda>b. b\<lparr>bl_status := Destroying\<rparr>) (p\<lparr>p_reapers := p_reapers p @ [(bl_id (p_heap p ! k), t)]\<rparr>)"
  have "placed_but {} (?p t)" for t
  proof (rule placed_here)
    show "placed_but {k} (?p t)"
      by (rule placed_mono [OF p]) (auto simp: placed_def doomed_def pool_simps pooled_for_def holds_def)
  qed (use k in \<open>simp add: placed_def doomed_def pool_simps\<close>)
  then show ?thesis using pooled by (simp add: pool_or_destroy_def Let_def)
qed

lemma placed_request:
  assumes p: "placed_but {} p" and r: "r < length (p_requests p)"
    and g: "\<And>k. rq_chan (p_requests p ! r) = Some k \<or> rq_phase (p_requests p ! r) = Taking k \<Longrightarrow>
        rq_chan (g (p_requests p ! r)) = Some k \<or> rq_phase (g (p_requests p ! r)) = Taking k"
  shows "placed_but {} (on_request r g p)"
proof (rule placed_mono [OF p])
  have keep: "holds p r' k \<Longrightarrow> holds (on_request r g p) r' k" for r' k
    using r g by (cases "r' = r") (auto simp: holds_def pool_simps)
  fix k assume "placed p k"
  then show "placed (on_request r g p) k" by (elim placed_keep) (simp_all add: keep doomed_def pool_simps)
qed (simp_all add: pool_simps)

section \<open>The maps of builders\<close>

lemma listedD:
  assumes "listed p"
  shows "k < length (p_heap p) \<Longrightarrow> status_of p k \<noteq> Destroying \<Longrightarrow> map_of (p_builders p) (bl_id (p_heap p ! k)) = Some k"
    "k \<in> set (p_users p) \<Longrightarrow> map_of (p_active p) (bl_id (p_heap p ! k)) = Some k"
    "(x, t) \<in> set (p_reapers p) \<Longrightarrow> x \<in> set (p_destroyed p) \<or> map_of (p_builders p) x \<noteq> None"
    "gone p (set (p_destroyed p))"
  using assms unfolding listed_def by blast+

lemma listedI:
  assumes "\<And>k. k < length (p_heap p) \<Longrightarrow> status_of p k \<noteq> Destroying \<Longrightarrow> map_of (p_builders p) (bl_id (p_heap p ! k)) = Some k"
    "\<And>k. k \<in> set (p_users p) \<Longrightarrow> map_of (p_active p) (bl_id (p_heap p ! k)) = Some k"
    "\<And>x t. (x, t) \<in> set (p_reapers p) \<Longrightarrow> x \<in> set (p_destroyed p) \<or> map_of (p_builders p) x \<noteq> None"
    "gone p (set (p_destroyed p))"
  shows "listed p"
  using assms unfolding listed_def by blast

lemma listed_on_builder:
  assumes p: "listed p" and f: "bl_id (f (p_heap p ! k)) = bl_id (p_heap p ! k)"
    "status_of p k \<noteq> Destroying \<or> bl_status (f (p_heap p ! k)) = Destroying"
  shows "listed (on_builder k f p)"
proof (rule listedI)
  fix j assume j: "j < length (p_heap (on_builder k f p))" "status_of (on_builder k f p) j \<noteq> Destroying"
  have "status_of p j \<noteq> Destroying" using j f(2) by (cases "k = j") (auto simp: pool_update_simps)
  then show "map_of (p_builders (on_builder k f p)) (bl_id (p_heap (on_builder k f p) ! j)) = Some j"
    using listedD(1) [OF p, of j] j(1) f(1) by (simp add: id_on_builder) (simp add: pool_simps)
next
  fix j assume "j \<in> set (p_users (on_builder k f p))"
  then show "map_of (p_active (on_builder k f p)) (bl_id (p_heap (on_builder k f p) ! j)) = Some j"
    using listedD(2) [OF p, of j] f(1) by (simp add: id_on_builder) (simp add: pool_simps)
next
  show "gone (on_builder k f p) (set (p_destroyed (on_builder k f p)))"
    using gone_on_builder [where f = f and k = k, OF listedD(4) [OF p] f] by (simp add: pool_simps)
qed (use listedD(3) [OF p] in \<open>simp add: pool_simps\<close>)

lemma listed_assign:
  assumes p: "listed p" "ids_ok p" "users_ok p" and k: "k < length (p_heap p)" "status_of p k \<noteq> Destroying"
  shows "listed (assign_builder k d p)"
proof -
  let ?q = "on_builder k (\<lambda>b. b\<lparr>bl_status := InUse, bl_last_used := p_clock p, bl_drv_path := d\<rparr>) p"
  let ?p = "?q\<lparr>p_active := AList.update (bl_id (p_heap p ! k)) k (p_active p), p_users := k # p_users p\<rparr>"
  have q: "listed ?q" by (rule listed_on_builder [OF p(1)]) (use k in auto)
  have ids: "bl_id (p_heap ?q ! j) = bl_id (p_heap p ! j)" for j by (simp add: id_on_builder)
  have "listed ?p"
  proof (rule listedI)
    show "j < length (p_heap ?p) \<Longrightarrow> status_of ?p j \<noteq> Destroying \<Longrightarrow> map_of (p_builders ?p) (bl_id (p_heap ?p ! j)) = Some j" for j
      using listedD(1) [OF q, of j] by (simp add: pool_update_simps)
    show "map_of (p_active ?p) (bl_id (p_heap ?p ! j)) = Some j" if "j \<in> set (p_users ?p)" for j
    proof (cases "j = k")
      case False
      then have j: "j \<in> set (p_users p)" using that by simp
      then have "bl_id (p_heap p ! j) \<noteq> bl_id (p_heap p ! k)"
        using same_id [OF p(2), of j k] k(1) p(3) False by (auto simp: users_ok_def)
      then show ?thesis using listedD(2) [OF p(1) j] ids by (simp add: update_conv)
    qed (simp add: update_conv ids)
    show "gone ?p (set (p_destroyed ?p))" using listedD(4) [OF q] gone_cong [of ?p ?q] by simp
  qed (use listedD(3) [OF q] in simp)
  then show ?thesis by (simp add: assign_builder_def Let_def)
qed

lemma listed_pool_or_destroy:
  assumes p: "listed p" and k: "k < length (p_heap p)" "status_of p k \<noteq> Destroying"
  shows "listed (pool_or_destroy cfg k p)"
proof -
  have pooled: "listed (set_pooled a l (on_builder k (\<lambda>b. b\<lparr>bl_status := Pooled\<rparr>) p))" for a l
    using listed_on_builder [OF p, of "\<lambda>b. b\<lparr>bl_status := Pooled\<rparr>" k] k listed_cong [of "set_pooled a l q" q for q]
    by (simp add: pool_simps)
  have "listed (p\<lparr>p_reapers := p_reapers p @ [(bl_id (p_heap p ! k), t)]\<rparr>)" for t
    by (rule listedI) (use listedD [OF p] k in \<open>auto simp: gone_def\<close>)
  from listed_on_builder [OF this, where f = "\<lambda>b. b\<lparr>bl_status := Destroying\<rparr>" and k = k]
  show ?thesis using pooled by (simp add: pool_or_destroy_def Let_def)
qed

lemma listed_hand_off: "listed p \<Longrightarrow> hand_off k a p = Some p' \<Longrightarrow> listed p'"
  by (elim hand_offE) (subst listed_cong [of p' p], simp_all add: pool_simps)

lemma listed_give_back:
  assumes p: "listed p" "ids_ok p" "users_ok p" and k: "k \<in> set (p_users p)"
  shows "listed (p\<lparr>p_users := remove1 k (p_users p), p_active := AList.delete (bl_id (p_heap p ! k)) (p_active p)\<rparr>)"
    (is "listed ?p")
proof (rule listedI)
  show "map_of (p_active ?p) (bl_id (p_heap ?p ! j)) = Some j" if "j \<in> set (p_users ?p)" for j
  proof -
    have j: "j \<in> set (p_users p)" "j \<noteq> k" using that p(3) by (auto simp: users_ok_def)
    then have "bl_id (p_heap p ! j) \<noteq> bl_id (p_heap p ! k)"
      using same_id [OF p(2), of j k] p(3) k by (auto simp: users_ok_def)
    then show ?thesis using listedD(2) [OF p(1) j(1)] by (simp add: delete_conv)
  qed
  show "gone ?p (set (p_destroyed ?p))" using listedD(4) [OF p(1)] gone_cong [of ?p p] by simp
qed (use listedD(1,3) [OF p(1)] in auto)

lemma listed_new_builder:
  assumes p: "listed p" "users_ok p" and x: "x \<notin> set (names p)"
  shows "listed (p\<lparr>p_heap := p_heap p @ [new_builder x ip a n],
    p_builders := AList.update x (length (p_heap p)) (p_builders p)\<rparr>)" (is "listed ?p")
proof (rule listedI)
  show "map_of (p_builders ?p) (bl_id (p_heap ?p ! j)) = Some j"
    if "j < length (p_heap ?p)" "status_of ?p j \<noteq> Destroying" for j
  proof (cases "j = length (p_heap p)")
    case False
    then have j: "j < length (p_heap p)" "status_of p j \<noteq> Destroying" using that by (auto simp: nth_append)
    then have "bl_id (p_heap p ! j) \<noteq> x" using x by (auto simp: names_def)
    then show ?thesis using listedD(1) [OF p(1) j] j(1) by (simp add: nth_append update_conv)
  qed (simp add: new_builder_def update_conv)
  show "map_of (p_active ?p) (bl_id (p_heap ?p ! j)) = Some j" if "j \<in> set (p_users ?p)" for j
    using that listedD(2) [OF p(1), of j] p(2) by (auto simp: users_ok_def nth_append)
  show "y \<in> set (p_destroyed ?p) \<or> map_of (p_builders ?p) y \<noteq> None" if "(y, t) \<in> set (p_reapers ?p)" for y t
    using that listedD(3) [OF p(1), of y t] by (auto simp: update_conv)
  show "gone ?p (set (p_destroyed ?p))" using gone_append [OF listedD(4) [OF p(1)], of ?p] by simp
qed

lemma listed_retire:
  assumes p: "listed p" "ids_ok p" and k: "k < length (p_heap p)"
  shows "listed (retire_builder k p)"
proof -
  let ?q = "on_builder k (\<lambda>b. b\<lparr>bl_status := Destroying\<rparr>) p" let ?x = "bl_id (p_heap p ! k)"
  let ?p = "?q\<lparr>p_builders := AList.delete ?x (p_builders p), p_destroyed := p_destroyed p @ [?x]\<rparr>"
  have q: "listed ?q" by (rule listed_on_builder [OF p(1)]) auto
  have ids: "bl_id (p_heap ?q ! j) = bl_id (p_heap p ! j)" for j by (simp add: id_on_builder)
  have k': "status_of ?q k = Destroying" "k < length (p_heap ?q)" using k by (simp_all add: pool_simps)
  have "listed ?p"
  proof (rule listedI)
    show "map_of (p_builders ?p) (bl_id (p_heap ?p ! j)) = Some j"
      if "j < length (p_heap ?p)" "status_of ?p j \<noteq> Destroying" for j
    proof -
      have j: "j < length (p_heap p)" "j \<noteq> k" using that k' by (auto simp: pool_update_simps)
      then have "bl_id (p_heap p ! j) \<noteq> ?x" using same_id [OF p(2) j(1) k] by auto
      then show ?thesis using listedD(1) [OF q, of j] that ids by (simp add: delete_conv pool_update_simps)
    qed
    show "map_of (p_active ?p) (bl_id (p_heap ?p ! j)) = Some j" if "j \<in> set (p_users ?p)" for j
      using that listedD(2) [OF q, of j] by simp
    show "y \<in> set (p_destroyed ?p) \<or> map_of (p_builders ?p) y \<noteq> None" if "(y, t) \<in> set (p_reapers ?p)" for y t
      using that listedD(3) [OF q, of y t] by (auto simp: delete_conv pool_update_simps)
    have "gone ?q (set (p_destroyed p))" using listedD(4) [OF q] by (simp add: pool_update_simps)
    then show "gone ?p (set (p_destroyed ?p))"
      using k k' ids [of k] by (auto simp: gone_def)
  qed
  then show ?thesis by (simp add: retire_builder_def Let_def)
qed

section \<open>Every section but \<open>DestroyAll\<close> keeps track\<close>

definition kept :: "pool \<Rightarrow> bool" where
  "kept p \<longleftrightarrow> placed_but {} p \<and> listed p"

lemma kept_new: "kept (new_pool now)"
  by (simp add: kept_def placed_but_def listed_def gone_def new_pool_def)

lemma kept_cong:
  assumes "p_heap p' = p_heap p" "p_available p' = p_available p" "p_requests p' = p_requests p"
    "p_users p' = p_users p" "p_reapers p' = p_reapers p" "p_destroyed p' = p_destroyed p"
    "p_builders p' = p_builders p" "p_active p' = p_active p"
  shows "kept p' \<longleftrightarrow> kept p"
  using placed_cong [OF assms(1-6)] listed_cong [OF assms(1,7,8,4-6)] by (simp add: kept_def)

lemma kept_request:
  assumes p: "kept p" and r: "r < length (p_requests p)"
    and g: "\<And>k. rq_chan (p_requests p ! r) = Some k \<or> rq_phase (p_requests p ! r) = Taking k \<Longrightarrow>
        rq_chan (g (p_requests p ! r)) = Some k \<or> rq_phase (g (p_requests p ! r)) = Taking k"
  shows "kept (on_request r g p)"
proof -
  have "placed_but {} (on_request r g p)" by (rule placed_request [OF _ r]) (use p g in \<open>auto simp: kept_def\<close>)
  then show ?thesis using p listed_cong [of "on_request r g p" p] by (simp add: kept_def pool_simps)
qed

lemma placed_from_pool:
  assumes "placed_but K p" "set (pooled_for p a) - set l \<subseteq> K"
  shows "placed_but K (set_pooled a l p)"
proof (rule placed_mono [OF assms(1)])
  fix k assume "k \<notin> K" "placed p k"
  with assms(2) show "placed (set_pooled a l p) k" by (elim placed_keep) (auto simp: doomed_def pool_simps)
qed (simp_all add: pool_simps)

lemma kept_acquire:
  assumes p: "kept p" "pool_ok p" shows "kept (acquire_builder d a p)"
proof (cases "pooled_for p a")
  case Nil
  let ?p = "acquire_builder d a p"
  have eq: "p_heap ?p = p_heap p" "p_available ?p = p_available p" "p_users ?p = p_users p"
    "p_reapers ?p = p_reapers p" "p_destroyed ?p = p_destroyed p" "p_builders ?p = p_builders p" "p_active ?p = p_active p"
    and hold: "holds p r k \<Longrightarrow> holds ?p r k" for r k
    using Nil by (simp_all add: acquire_builder_def holds_def nth_append)
  have "placed_but {} ?p"
  proof (rule placed_mono)
    fix k assume "placed p k"
    then show "placed ?p k" by (elim placed_keep) (simp_all add: eq hold doomed_def pooled_for_def)
  qed (use p eq in \<open>simp_all add: kept_def\<close>)
  then show ?thesis using p(1) listed_cong [of ?p p] eq by (simp add: kept_def)
next
  case (Cons k rest)
  note k = pooledD [OF pool_okD(1) [OF p(2)], of k a]
  have "placed_but {k} (set_pooled a rest p)"
    by (rule placed_from_pool) (use p(1) Cons in \<open>auto simp: kept_def placed_but_def\<close>)
  moreover have "listed (assign_builder k d (set_pooled a rest p))"
  proof (rule listed_assign)
    show "listed (set_pooled a rest p)"
      using p(1) listed_cong [of "set_pooled a rest p" p] by (simp add: kept_def pool_simps)
    show "ids_ok (set_pooled a rest p)" using pool_okD(3) [OF p(2)] by (simp add: ids_ok_def pool_simps)
    show "users_ok (set_pooled a rest p)"
      using custodyD(1) [OF pool_okD(1) [OF p(2)]] by (simp add: users_ok_def pool_simps)
  qed (use k(1,2) Cons in \<open>simp_all add: pool_simps\<close>)
  ultimately show ?thesis using Cons by (simp add: kept_def acquire_builder_def placed_to_user)
qed

lemma kept_take:
  assumes p: "kept p" "pool_ok p" and r: "r < length (p_requests p)" "rq_phase (p_requests p ! r) = Taking k"
  shows "kept (take_builder r k p)"
proof -
  let ?q = "on_request r (\<lambda>q. q\<lparr>rq_phase := Got k, rq_cancelled := True\<rparr>) p"
  have chan: "rq_chan (p_requests p ! r) = None" using request_at [OF pool_okD(1) [OF p(2)] r(1)] r(2) by (auto simp: request_ok_def)
  note held = heldD [OF pool_okD(1) [OF p(2)], of r k] 
  have k: "k < length (p_heap p)" "status_of p k \<noteq> Destroying" using held(1,2) r by (auto simp: holds_def)
  have "placed_but {k} ?q"
  proof (rule placed_mono [where K = "{}"])
    fix j assume j: "j \<notin> {k}" "placed p j"
    have "holds p r' j \<Longrightarrow> holds ?q r' j" for r' using r chan j(1) by (cases "r' = r") (auto simp: holds_def pool_simps)
    with j(2) show "placed ?q j" by (elim placed_keep) (simp_all add: doomed_def pool_simps)
  qed (use p in \<open>simp_all add: kept_def pool_simps\<close>)
  moreover have "listed (assign_builder k d ?q)" for d
  proof (rule listed_assign)
    show "listed ?q" using p(1) listed_cong [of ?q p] by (simp add: kept_def pool_simps)
    show "ids_ok ?q" using pool_okD(3) [OF p(2)] by (simp add: ids_ok_def pool_simps)
    show "users_ok ?q" using custodyD(1) [OF pool_okD(1) [OF p(2)]] by (simp add: users_ok_def pool_simps)
  qed (use k in \<open>simp_all add: pool_simps\<close>)
  ultimately show ?thesis by (simp add: kept_def take_builder_def assign_on_request placed_to_user)
qed

lemma kept_return:
  assumes p: "kept p" "pool_ok p" and k: "k \<in> set (p_users p)"
  shows "kept (release_builder cfg (bl_id (p_heap p ! k)) (p\<lparr>p_users := remove1 k (p_users p)\<rparr>))"
proof -
  let ?x = "bl_id (p_heap p ! k)"
  let ?p = "p\<lparr>p_users := remove1 k (p_users p), p_active := AList.delete ?x (p_active p)\<rparr>"
  let ?f = "\<lambda>b. b\<lparr>bl_drv_path := [], bl_last_used := p_clock p\<rparr>" let ?p1 = "on_builder k ?f ?p"
  note ok = pool_okD [OF p(2)]
  note users = custodyD(1) [OF ok(1)]
  have len: "k < length (p_heap p)" and busy: "status_of p k = InUse" using users k by (auto simp: users_ok_def)
  have active: "map_of (p_active p) ?x = Some k" using listedD(2) p(1) k by (simp add: kept_def)
  have "placed_but {k} ?p"
  proof (rule placed_mono [where K = "{}"])
    fix j assume j: "j \<notin> {k}" "placed p j"
    then show "placed ?p j" by (elim placed_keep) (simp_all add: doomed_def holds_def pooled_for_def)
  qed (use p in \<open>simp_all add: kept_def\<close>)
  then have pl: "placed_but {k} ?p1" by (rule placed_on_builder) simp
  have li: "listed ?p1"
    by (rule listed_on_builder) (use listed_give_back [OF _ ok(3) users k] p(1) busy in \<open>simp_all add: kept_def\<close>)
  note given = custody_give_back [OF ok(1,3) k]
  have cu: "custody ?p1" using custody_on_builder [OF given] by simp
  have k1: "k < length (p_heap ?p1)" "status_of ?p1 k \<noteq> Destroying" using len busy by (simp_all add: pool_simps)
  have "release_builder cfg ?x (p\<lparr>p_users := remove1 k (p_users p)\<rparr>) =
      (case hand_off k (bl_arch (p_heap p ! k)) ?p1 of Some p2 \<Rightarrow> p2 | None \<Rightarrow> pool_or_destroy cfg k ?p1)"
    using active by (simp add: release_builder_def Let_def)
  then show ?thesis
    using placed_hand_off [OF cu pl] listed_hand_off [OF li] placed_pool_or_destroy [OF pl k1(1)] listed_pool_or_destroy [OF li k1]
    by (auto simp: kept_def split: option.splits)
qed

lemma kept_publish:
  assumes p: "kept p" "pool_ok p" and i: "i < length (p_workers p)" "p_workers p ! i = Creating a x"
  shows "kept (publish_builder x ip a p)"
proof -
  let ?k = "length (p_heap p)"
  let ?p = "p\<lparr>p_heap := p_heap p @ [new_builder x ip a (p_clock p)], p_builders := AList.update x ?k (p_builders p)\<rparr>"
  note ok = pool_okD [OF p(2)]
  have "x \<in> set (concat (map drawn (p_workers p)))" using i nth_mem [OF i(1)] by force
  then have new: "x \<notin> set (names p)" using ok(3) by (auto simp: ids_ok_def names_def)
  have li: "listed ?p" by (rule listed_new_builder) (use p(1) new custodyD(1) [OF ok(1)] in \<open>simp_all add: kept_def\<close>)
  have pl: "placed_but {?k} ?p"
    unfolding placed_but_def
  proof (intro allI impI)
    fix j assume "j < length (p_heap ?p)"
    then consider "j = ?k" | "j < ?k" "placed p j" using p(1) by (auto simp: kept_def placed_but_def less_Suc_eq)
    then show "j \<in> {?k} \<or> placed ?p j"
    proof cases
      case 2
      then have "placed ?p j" by (elim placed_keep) (simp_all add: doomed_def holds_def pooled_for_def nth_append)
      then show ?thesis by blast
    qed simp
  qed
  have cu: "custody ?p" by (rule custody_new_builder [OF ok(1)])
  have "placed_but {} (set_pooled a (pooled_for ?p a @ [?k]) (on_builder ?k (\<lambda>b. b\<lparr>bl_status := Pooled\<rparr>) ?p))"
    using placed_to_pool [OF placed_on_builder [OF pl, of ?k "\<lambda>b. b\<lparr>bl_status := Pooled\<rparr>"], of a]
    by (simp add: pool_simps new_builder_def)
  moreover have "listed (set_pooled a l (on_builder ?k (\<lambda>b. b\<lparr>bl_status := Pooled\<rparr>) ?p))" for l
    using listed_on_builder [OF li, of "\<lambda>b. b\<lparr>bl_status := Pooled\<rparr>" ?k] listed_cong [of "set_pooled a l q" q for q]
    by (simp add: pool_simps new_builder_def)
  ultimately show ?thesis
    using placed_hand_off [OF cu pl] listed_hand_off [OF li]
    by (auto simp: kept_def publish_builder_def Let_def split: option.splits)
qed

lemma kept_reap:
  assumes p: "kept p" "pool_ok p" and j: "j < length (p_reapers p)"
  shows "kept (finish_destruction (fst (p_reapers p ! j)) (p\<lparr>p_reapers := take j (p_reapers p) @ drop (Suc j) (p_reapers p)\<rparr>))"
proof -
  let ?x = "fst (p_reapers p ! j)" let ?rs = "take j (p_reapers p) @ drop (Suc j) (p_reapers p)"
  let ?p1 = "p\<lparr>p_reapers := ?rs\<rparr>"
  let ?p2 = "?p1\<lparr>p_builders := AList.delete ?x (p_builders p), p_destroyed := p_destroyed p @ [?x]\<rparr>"
  have li: "listed p" and pl: "placed_but {} p" using p(1) by (simp_all add: kept_def)
  have "p_reapers p = take j (p_reapers p) @ (p_reapers p ! j) # drop (Suc j) (p_reapers p)" by (rule id_take_nth_drop [OF j])
  then have split: "set (p_reapers p) = insert (p_reapers p ! j) (set ?rs)" by (metis set_append list.set(2) Un_insert_right)
  then have here: "(?x, snd (p_reapers p ! j)) \<in> set (p_reapers p)" by simp
  obtain k where k: "k < length (p_heap p)" "bl_id (p_heap p ! k) = ?x" "status_of p k = Destroying"
    using pool_okD(4) [OF p(2)] here by (force simp: tracked_ok_def gone_def)
  have doom: "doomed p i \<Longrightarrow> ?x \<in> D \<Longrightarrow> set (p_destroyed p) \<subseteq> D \<Longrightarrow> bl_id (p_heap p ! i) \<in> fst ` set ?rs \<union> D" for i D
    unfolding doomed_def split by auto
  have gone1: "gone q (set (p_destroyed p))" if "p_heap q = p_heap p" for q
    using listedD(4) [OF li] gone_cong [OF that] by simp
  show ?thesis
  proof (cases "map_of (p_builders p) ?x")
    case None
    then have x: "?x \<in> set (p_destroyed p)" using listedD(3) [OF li here] by simp
    have "placed_but {} ?p1"
    proof (rule placed_mono [OF pl])
      fix i assume "placed p i"
      then show "placed ?p1 i"
        by (elim placed_keep) (use doom [OF _ x] in \<open>simp_all add: doomed_def holds_def pooled_for_def\<close>)
    qed simp_all
    moreover have "listed ?p1"
      by (rule listedI) (use listedD(1,2) [OF li] listedD(3) [OF li] gone1 split in auto)
    ultimately show ?thesis using None by (simp add: finish_destruction_def kept_def)
  next
    case (Some i)
    then have "i < length (p_heap p)" "bl_id (p_heap p ! i) = ?x" using pool_okD(4) [OF p(2)] by (auto simp: tracked_ok_def)
    then have "i = k" using same_id [OF pool_okD(3) [OF p(2)]] k by simp
    then have eq: "finish_destruction ?x ?p1 = ?p2" using Some k(3) by (simp add: finish_destruction_def)
    have "placed_but {} ?p2"
    proof (rule placed_mono [OF pl])
      fix i assume "placed p i"
      then show "placed ?p2 i"
        by (elim placed_keep)
          (use doom [of i "set (p_destroyed p @ [?x])"] in \<open>auto simp: doomed_def holds_def pooled_for_def\<close>)
    qed simp_all
    moreover have "listed ?p2"
    proof (rule listedI)
      fix i assume i: "i < length (p_heap ?p2)" "status_of ?p2 i \<noteq> Destroying"
      then have "bl_id (p_heap p ! i) \<noteq> ?x" using same_id [OF pool_okD(3) [OF p(2)], of i k] k by auto
      then show "map_of (p_builders ?p2) (bl_id (p_heap ?p2 ! i)) = Some i"
        using listedD(1) [OF li, of i] i by (simp add: delete_conv)
    next
      show "y \<in> set (p_destroyed ?p2) \<or> map_of (p_builders ?p2) y \<noteq> None" if "(y, t) \<in> set (p_reapers ?p2)" for y t
        using listedD(3) [OF li, of y t] that split by (auto simp: delete_conv)
      show "gone ?p2 (set (p_destroyed ?p2))" using gone1 [of ?p2] k by (auto simp: gone_def)
    qed (use listedD(2) [OF li] in simp)
    ultimately show ?thesis by (simp add: eq kept_def)
  qed
qed

lemma placed_retires:
  assumes "placed_but (set ks) p" "distinct ks" "\<forall>k \<in> set ks. k < length (p_heap p)"
  shows "placed_but {} (fold retire_builder ks p)"
  using assms
proof (induction ks arbitrary: p)
  case (Cons k ks)
  have "placed_but (set ks) (retire_builder k p)"
    unfolding placed_but_def
  proof (intro allI impI)
    fix j assume j: "j < length (p_heap (retire_builder k p))"
    show "j \<in> set ks \<or> placed (retire_builder k p) j"
    proof (cases "j = k")
      case True
      then show ?thesis using j by (simp add: placed_def doomed_def pool_simps)
    next
      case False
      then have "j \<in> set ks \<or> placed p j" using Cons.prems(1) j by (auto simp: placed_but_def pool_simps)
      moreover have "placed (retire_builder k p) j" if "placed p j"
        using that by (rule placed_keep)
          (use False in \<open>auto simp: doomed_def holds_def pooled_for_def pool_update_simps retire_simps\<close>)
      ultimately show ?thesis by blast
    qed
  qed
  then show ?case using Cons by (simp add: pool_simps)
qed simp

definition tidy :: "pool \<Rightarrow> bool" where
  "tidy p \<longleftrightarrow> custody p \<and> ids_ok p \<and> listed p"

lemma tidy_set_pooled:
  assumes "tidy p" "distinct l" "set l \<subseteq> set (pooled_for p a)" shows "tidy (set_pooled a l p)"
  using assms custody_from_pool [of p l a] listed_cong [of "set_pooled a l p" p]
  by (simp add: tidy_def ids_ok_def pool_simps)

lemma tidy_retire:
  assumes p: "tidy p" and k: "loose p k" shows "tidy (retire_builder k p)"
proof -
  have "names (retire_builder k p) = names p"
    using names_on_builder [of "\<lambda>b. b\<lparr>bl_status := Destroying\<rparr>" k p] by (simp add: names_def pool_simps)
  then have "ids_ok (retire_builder k p)" using p ids_ok_same [of "retire_builder k p" p] by (simp add: tidy_def pool_simps)
  then show ?thesis
    using p custody_retire [OF _ k] listed_retire [OF _ _ looseD(1) [OF k]] by (simp add: tidy_def)
qed

lemma kept_cleanup:
  assumes p: "kept p" "pool_ok p" shows "kept (cleanup_old_builders cfg p)"
proof -
  have "tidy (cleanup_old_builders cfg p) \<and> placed_but {} (cleanup_old_builders cfg p)"
  proof (rule cleanup_induct [where I = "\<lambda>p. tidy p \<and> placed_but {} p"])
    show "tidy p \<and> placed_but {} p" using p by (simp add: tidy_def kept_def pool_ok_def)
    show "distinct (map fst (p_available p))" using custodyD(3) [OF pool_okD(1) [OF p(2)]] by (simp add: pooled_ok_def)
  next
    fix a l q assume q: "tidy q \<and> placed_but {} q" and l: "l = pooled_for q a"
    let ?l = "filter (\<lambda>k. \<not> is_idle cfg q k) l" let ?ks = "filter (is_idle cfg q) l" let ?q = "set_pooled a ?l q"
    have cu: "custody q" using q by (simp add: tidy_def)
    have d: "distinct l" using custodyD(3) [OF cu] l by (simp add: pooled_ok_def)
    have t: "tidy ?q" by (rule tidy_set_pooled) (use q d l in auto)
    have loose: "loose ?q k" if "k \<in> set ?ks" for k using idle_loose [OF cu, of k cfg a] that l by simp
    have "tidy (fold retire_builder ?ks ?q)"
    proof (rule retires_induct [where I = tidy, OF t])
      show "k \<in> set ?ks \<Longrightarrow> status_of ?q k = Pooled" for k using pooledD(2) [OF cu, of k a] l by (simp add: pool_simps)
    qed (use d loose tidy_retire in auto)
    moreover have "placed_but (set ?ks) ?q"
      by (rule placed_from_pool) (use q l in \<open>auto simp: placed_but_def\<close>)
    then have "placed_but {} (fold retire_builder ?ks ?q)"
      by (rule placed_retires) (use d loose looseD(1) in auto)
    ultimately show "tidy (cleanup_arch cfg (a, l) q) \<and> placed_but {} (cleanup_arch cfg (a, l) q)"
      by (simp add: cleanup_arch_conv)
  qed
  then show ?thesis by (simp add: kept_def tidy_def)
qed

lemma kept_step:
  assumes p: "kept p" "pool_ok p" and s: "step cfg e p = Some p'" and e: "e \<noteq> DestroyAll"
  shows "kept p'"
proof (cases e)
  case (Signal r)
  let ?q = "p\<lparr>p_signals := min 10 (p_signals p + 1)\<rparr>"
  have "kept ?q" using p(1) kept_cong [of ?q p] by simp
  then show ?thesis
    using s Signal kept_request [of ?q r "\<lambda>q. q\<lparr>rq_phase := Waiting\<rparr>"]
    by (auto simp: signal_provisioning_def in_phase_def split: if_splits)
next
  case (Receive r)
  then obtain k where r: "r < length (p_requests p)" "rq_phase (p_requests p ! r) = Waiting" "rq_chan (p_requests p ! r) = Some k"
    and p': "p' = receive_builder r k p" using s by (auto simp: in_phase_def split: if_splits)
  then show ?thesis unfolding p' receive_builder_def by (intro kept_request [OF p(1)]) auto
next
  case (GiveUp r)
  then show ?thesis
    using s kept_request [OF p(1), of r "\<lambda>q. q\<lparr>rq_phase := GivingUp\<rparr>"] by (auto simp: in_phase_def split: if_splits)
next
  case (Withdraw r)
  let ?q = "p\<lparr>p_waiters := remove1 r (p_waiters p)\<rparr>"
  have "kept ?q" using p(1) kept_cong [of ?q p] by simp
  then show ?thesis
    using s Withdraw kept_request [of ?q r "\<lambda>q. q\<lparr>rq_phase := TimedOut\<rparr>"]
    by (auto simp: withdraw_request_def in_phase_def split: if_splits)
next
  case (Expire r)
  then show ?thesis
    using s kept_request [OF p(1), of r "\<lambda>q. q\<lparr>rq_cancelled := True\<rparr>"] by (auto split: if_splits)
next
  case (Publish i ip)
  then obtain a x where i: "i < length (p_workers p)" "p_workers p ! i = Creating a x"
    and p': "p' = set_worker i (Finishing a) (publish_builder x ip a p)"
    using s by (auto split: if_splits worker.splits)
  show ?thesis using kept_publish [OF p i, of ip] kept_cong [of p' "publish_builder x ip a p"] by (simp add: p' pool_simps)
next
  case (Finish i)
  then show ?thesis
    using s p(1) kept_cong [of p' p] by (auto simp: end_provisioning_def pool_simps split: if_splits worker.splits)
next
  case (Draw i x)
  then show ?thesis using s p(1) kept_cong [of p' p] by (auto simp: pool_simps split: if_splits worker.splits)
next
  case (Fail i)
  then show ?thesis using s p(1) kept_cong [of p' p] by (auto simp: pool_simps split: if_splits worker.splits)
next
  case Cleanup
  let ?q = "p\<lparr>p_ticking := False\<rparr>"
  have "pool_ok ?q"
    by (rule pool_ok_work [OF p(2)]) (use p(2) in \<open>simp_all add: pool_ok_def count_ok_def workers_for_def ids_ok_def\<close>)
  then show ?thesis using s Cleanup kept_cleanup [of ?q cfg] p(1) kept_cong [of ?q p] by (auto split: if_splits)
next
  case (Pass d)
  then show ?thesis using s p(1) kept_cong [of p' p] by (auto split: if_splits)
next
  case ScaleOnSignal
  then show ?thesis using s p(1) kept_cong [of p' p] by (auto simp: scale_same split: if_splits)
next
  case ScaleOnTick
  then show ?thesis using s p(1) kept_cong [of p' p] by (auto simp: scale_same split: if_splits)
qed (use s e kept_acquire [OF p] kept_take [OF p] kept_return [OF p] kept_reap [OF p] in \<open>auto split: if_splits phase.splits\<close>)

lemma kept_run:
  assumes "pool_run cfg now es p" "DestroyAll \<notin> set es" shows "kept p"
  using assms
proof (induction rule: pool_run.induct)
  case (step es p e p')
  then show ?case using kept_step [OF _ pool_ok_run [OF step.hyps(1)]] by auto
qed (rule kept_new)

end
