(* ===== verification/Pool_Leases.thy ===== *)
theory Pool_Leases
  imports Pool_Custody
begin

text \<open>
  What the pool promises: a builder has one owner at a time, goes to callers of its architecture, is
  not lost track of and never destroyed while in use; and where it does not keep its promises.
\<close>

section \<open>Leases\<close>

text \<open>
  The contract of a provider of builders: its steps change the list of leased builders by at most
  one builder, and no builder is in it twice.
\<close>

fun trail :: "('e \<Rightarrow> 's \<Rightarrow> 's option) \<Rightarrow> 's \<Rightarrow> 'e list \<Rightarrow> 's list" where
  "trail act s [] = [s]"
| "trail act s (e # es) = s # (case act e s of None \<Rightarrow> [] | Some s' \<Rightarrow> trail act s' es)"

fun fair_trail :: "('e \<Rightarrow> 's \<Rightarrow> 's option) \<Rightarrow> ('e \<Rightarrow> 's \<Rightarrow> bool) \<Rightarrow> 's \<Rightarrow> 'e list \<Rightarrow> bool" where
  "fair_trail act fair s [] \<longleftrightarrow> True"
| "fair_trail act fair s (e # es) \<longleftrightarrow>
     fair e s \<and> (case act e s of None \<Rightarrow> False | Some s' \<Rightarrow> fair_trail act fair s' es)"

text \<open>\<open>True\<close> for each lease of \<open>b\<close> and \<open>False\<close> for each return, in order.\<close>

fun transfers :: "('s \<Rightarrow> 'b list) \<Rightarrow> 'b \<Rightarrow> 's list \<Rightarrow> bool list" where
  "transfers leased b (s # s' # ss) =
     (if count_list (leased s') b > count_list (leased s) b then [True]
      else if count_list (leased s') b < count_list (leased s) b then [False] else []) @
     transfers leased b (s' # ss)"
| "transfers leased b _ = []"

fun alternates :: "bool \<Rightarrow> bool list \<Rightarrow> bool" where
  "alternates now [] \<longleftrightarrow> True"
| "alternates now (x # xs) \<longleftrightarrow> x = (\<not> now) \<and> alternates x xs"

lemma distinct_count_of: "distinct xs \<Longrightarrow> count_list xs b = of_bool (b \<in> set xs)"
  by (induction xs) auto

locale lease_provider =
  fixes act :: "'e \<Rightarrow> 's \<Rightarrow> 's option"
    and fair :: "'e \<Rightarrow> 's \<Rightarrow> bool"
    and sound :: "'s \<Rightarrow> bool"
    and leased :: "'s \<Rightarrow> 'b list"
  assumes sound_act: "sound s \<Longrightarrow> act e s = Some s' \<Longrightarrow> fair e s \<Longrightarrow> sound s'"
    and leased_once: "sound s \<Longrightarrow> distinct (leased s)"
begin

lemma count_leased: "sound s \<Longrightarrow> count_list (leased s) b = of_bool (b \<in> set (leased s))"
  using distinct_count_of [OF leased_once] by simp

lemma alternating:
  "sound s \<Longrightarrow> fair_trail act fair s es \<Longrightarrow>
     alternates (b \<in> set (leased s)) (transfers leased b (trail act s es))"
proof (induction es arbitrary: s)
  case (Cons e es)
  then obtain s' where s': "act e s = Some s'" "fair e s" "fair_trail act fair s' es" by (auto split: option.splits)
  have sound': "sound s'" by (rule sound_act [OF Cons.prems(1) s'(1,2)])
  obtain ss where ss: "trail act s' es = s' # ss" by (cases es) auto
  show ?case
    using Cons.IH [OF sound' s'(3)] s'(1) ss count_leased [OF Cons.prems(1), of b] count_leased [OF sound', of b] by auto
qed simp

end

section \<open>Runs, again\<close>

lemma trail_snoc:
  "fair_trail act fair s es \<Longrightarrow> act e (last (trail act s es)) = Some s' \<Longrightarrow>
     trail act s (es @ [e]) = trail act s es @ [s']"
proof (induction es arbitrary: s)
  case (Cons e' es)
  have "trail act s' es \<noteq> []" for s' by (cases es) auto
  then show ?case using Cons by (auto split: option.splits)
qed simp

lemma fair_trail_snoc:
  "fair_trail act fair s (es @ [e]) \<longleftrightarrow>
     fair_trail act fair s es \<and> fair e (last (trail act s es)) \<and> act e (last (trail act s es)) \<noteq> None"
proof (induction es arbitrary: s)
  case (Cons e' es)
  have "trail act s' es \<noteq> []" for s' by (cases es) auto
  then show ?case using Cons by (auto split: option.splits)
qed (auto split: option.splits)

lemma pool_run_trail:
  assumes "pool_run cfg now es p"
  shows "fair_trail (step cfg) drawn_anew (new_pool now) es" "last (trail (step cfg) (new_pool now) es) = p"
proof -
  have "fair_trail (step cfg) drawn_anew (new_pool now) es \<and> last (trail (step cfg) (new_pool now) es) = p"
    using assms
  proof (induction rule: pool_run.induct)
    case (step es p e p')
    then show ?case using trail_snoc [of "step cfg" drawn_anew "new_pool now" es e p'] by (simp add: fair_trail_snoc)
  qed simp
  then show "fair_trail (step cfg) drawn_anew (new_pool now) es" "last (trail (step cfg) (new_pool now) es) = p"
    by simp_all
qed

interpretation builder_pool: lease_provider "step cfg" drawn_anew pool_ok p_users
proof
  show "pool_ok p \<Longrightarrow> step cfg e p = Some p' \<Longrightarrow> drawn_anew e p \<Longrightarrow> pool_ok p'" for p e p'
    by (rule pool_ok_step)
  show "pool_ok p \<Longrightarrow> distinct (p_users p)" for p
    using custodyD(1) [OF pool_okD(1)] by (simp add: users_ok_def)
qed

text \<open>Runs are executable.\<close>

fun exec :: "pool_config \<Rightarrow> event list \<Rightarrow> pool \<Rightarrow> pool option" where
  "exec cfg [] p = Some p"
| "exec cfg (e # es) p =
     (if drawn_anew e p then (case step cfg e p of None \<Rightarrow> None | Some p' \<Rightarrow> exec cfg es p') else None)"

lemma pool_run_exec:
  "pool_run cfg now es p \<Longrightarrow> exec cfg es' p = Some p' \<Longrightarrow> pool_run cfg now (es @ es') p'"
proof (induction es' arbitrary: es p)
  case (Cons e es')
  then obtain q where q: "drawn_anew e p" "step cfg e p = Some q" "exec cfg es' q = Some p'"
    by (auto split: if_splits option.splits)
  have "pool_run cfg now (es @ [e]) q" by (rule pool_run.step [OF Cons.prems(1) q(2,1)])
  from Cons.IH [OF this q(3)] show ?case by simp
qed simp

lemma exec_run: "exec cfg es (new_pool now) = Some p \<Longrightarrow> pool_run cfg now es p"
  using pool_run_exec [OF pool_run.start, of cfg es now p] by simp

section \<open>One owner\<close>

datatype owner = Caller | Asker nat | Shelf string

fun owns :: "pool \<Rightarrow> owner \<Rightarrow> nat \<Rightarrow> bool" where
  "owns p Caller k \<longleftrightarrow> k \<in> set (p_users p)"
| "owns p (Asker r) k \<longleftrightarrow> holds p r k"
| "owns p (Shelf a) k \<longleftrightarrow> k \<in> set (pooled_for p a)"

lemma one_owner_ok:
  assumes "custody p" "owns p w k" "owns p w' k" shows "w = w'"
proof (cases w; cases w')
  show "w = w'" if "w = Asker r" "w' = Asker r'" for r r' using assms(2,3) heldD(5) [OF assms(1)] that by simp
  show "w = w'" if "w = Shelf a" "w' = Shelf a'" for a a'
    using assms(2,3) pooledD(3) [OF assms(1), of k a] pooledD(3) [OF assms(1), of k a'] that by simp
qed (use assms(2,3) heldD(4) [OF assms(1), of _ k] pooledD(4,5) [OF assms(1), of k] in auto)

fun requested :: "event \<Rightarrow> pool \<Rightarrow> string \<times> string" where
  "requested (Ask drv_path platform) p = (drv_path, arch_from_platform platform)"
| "requested (Take r) p = (rq_drv_path (p_requests p ! r), rq_arch (p_requests p ! r))"
| "requested _ p = ([], [])"

text \<open>Which steps lease a builder.\<close>

lemma users_release: "p_users (release_builder cfg x p) = p_users p"
proof -
  have "p_users (pool_or_destroy cfg k q) = p_users q" for k q by (simp add: pool_or_destroy_def Let_def pool_simps)
  moreover have "hand_off k a q = Some q' \<Longrightarrow> p_users q' = p_users q" for k a q q'
    by (elim hand_offE) (simp add: pool_simps)
  ultimately show ?thesis by (auto simp: release_builder_def Let_def pool_simps split: option.splits)
qed

lemma users_publish: "p_users (publish_builder x ip a p) = p_users p"
proof -
  have "hand_off k a q = Some q' \<Longrightarrow> p_users q' = p_users q" for k a q q'
    by (elim hand_offE) (simp add: pool_simps)
  then show ?thesis by (auto simp: publish_builder_def Let_def pool_simps split: option.splits)
qed

lemma cleanup_same:
  "p_users (cleanup_old_builders cfg p) = p_users p" "p_waiters (cleanup_old_builders cfg p) = p_waiters p"
  "p_requests (cleanup_old_builders cfg p) = p_requests p" "p_workers (cleanup_old_builders cfg p) = p_workers p"
proof -
  have "p_users (fold retire_builder ks q) = p_users q \<and> p_waiters (fold retire_builder ks q) = p_waiters q \<and>
      p_requests (fold retire_builder ks q) = p_requests q \<and> p_workers (fold retire_builder ks q) = p_workers q" for ks q
    by (induction ks arbitrary: q) (simp_all add: pool_simps)
  then have "p_users (fold (cleanup_arch cfg) als q) = p_users q \<and> p_waiters (fold (cleanup_arch cfg) als q) = p_waiters q \<and>
      p_requests (fold (cleanup_arch cfg) als q) = p_requests q \<and> p_workers (fold (cleanup_arch cfg) als q) = p_workers q" for als q
    by (induction als arbitrary: q) (simp_all add: cleanup_arch_def pool_simps)
  then show "p_users (cleanup_old_builders cfg p) = p_users p" "p_waiters (cleanup_old_builders cfg p) = p_waiters p"
    "p_requests (cleanup_old_builders cfg p) = p_requests p" "p_workers (cleanup_old_builders cfg p) = p_workers p"
    by (simp_all add: cleanup_old_builders_def)
qed

lemma remove1_not_Cons: "remove1 x xs \<noteq> y # xs"
  by (metis length_Cons length_remove1 One_nat_def Suc_n_not_le_n diff_le_self le_refl)

lemma step_leases:
  assumes "step cfg e p = Some p'" "p_users p' = k # p_users p"
  shows "(\<exists>d a rest. e = Ask d a \<and> pooled_for p (arch_from_platform a) = k # rest \<and>
      p' = assign_builder k d (set_pooled (arch_from_platform a) rest p)) \<or>
    (\<exists>r. e = Take r \<and> r < length (p_requests p) \<and> rq_phase (p_requests p ! r) = Taking k \<and> p' = take_builder r k p)"
  using assms
proof (cases e)
  case (Return j)
  then show ?thesis using assms by (auto simp: users_release remove1_not_Cons split: if_splits)
next
  case (Ask d a)
  then show ?thesis
    using assms by (auto simp: acquire_builder_def assign_builder_def Let_def pool_simps split: if_splits list.splits)
qed (auto simp: signal_provisioning_def receive_builder_def take_builder_def withdraw_request_def assign_builder_def
    check_and_scale_def cleanup_same users_publish end_provisioning_def finish_destruction_def destroy_all_def Let_def
    pool_simps split: if_splits phase.splits worker.splits option.splits)

text \<open>
  C3: a builder has one owner. In every state that any interleaving of callers, releases, provisioning
  goroutines, timeouts, clean-ups and \<open>DestroyAll\<close> reaches, a builder is with at most one of: the
  callers, one waiting request, one architecture's shelf of the pool; no list holds it twice; requests
  and shelves only hold builders of their architecture; a builder that is about to be destroyed has no
  owner; and the counter of each architecture is the number of its running provisioning goroutines.
\<close>
theorem one_owner:
  assumes "pool_run cfg now es p"
  shows "(\<forall>w w' k. owns p w k \<longrightarrow> owns p w' k \<longrightarrow> w = w') \<and>
    distinct (p_users p) \<and> (\<forall>a. distinct (pooled_for p a)) \<and> distinct (p_waiters p) \<and>
    (\<forall>r k. owns p (Asker r) k \<longrightarrow> bl_arch (p_heap p ! k) = rq_arch (p_requests p ! r)) \<and>
    (\<forall>a k. owns p (Shelf a) k \<longrightarrow> bl_arch (p_heap p ! k) = a) \<and>
    (\<forall>w k. owns p w k \<longrightarrow> k < length (p_heap p) \<and> status_of p k \<notin> {Provisioning, Destroying}) \<and>
    (\<forall>a. p_provisioning p a = int (workers_for p a))"
proof -
  note ok = pool_okD [OF pool_ok_run [OF assms]]
  have status: "k < length (p_heap p) \<and> status_of p k \<notin> {Provisioning, Destroying}" if "owns p w k" for w k
    using that custodyD(1) [OF ok(1)] heldD(1,2) [OF ok(1), of _ k] pooledD(1,2) [OF ok(1), of k]
    by (cases w) (auto simp: users_ok_def)
  have "distinct (p_users p)" "distinct (p_waiters p)" "distinct (pooled_for p a)" for a
    using custodyD(1,3,5) [OF ok(1)] by (auto simp: users_ok_def pooled_ok_def queue_ok_def)
  then show ?thesis
    using one_owner_ok [OF ok(1)] status heldD(3) [OF ok(1)] pooledD(3) [OF ok(1)] ok(2) by (auto simp: count_ok_def)
qed


text \<open>
  C30: a lease fits its request. A step that gives a caller a builder gives one that nobody has, of the
  architecture in front of the dash of the platform the caller named, marks it as in use for the caller's
  derivation, and enters it in the map from which the release will find it.
\<close>
theorem lease_fits:
  assumes "pool_run cfg now es p" "step cfg e p = Some p'" "p_users p' = k # p_users p"
  shows "k \<notin> set (p_users p) \<and> (\<forall>a. k \<notin> set (pooled_for p' a)) \<and> (\<forall>r. \<not> holds p' r k) \<and>
    bl_arch (p_heap p' ! k) = snd (requested e p) \<and> bl_drv_path (p_heap p' ! k) = fst (requested e p) \<and>
    status_of p' k = InUse \<and> bl_last_used (p_heap p' ! k) = p_clock p \<and>
    map_of (p_active p') (bl_id (p_heap p' ! k)) = Some k"
proof -
  note ok = pool_ok_run [OF assms(1)]
  note cu = pool_okD(1) [OF ok]
  have fresh: "drawn_anew e p" using step_leases [OF assms(2,3)] by auto
  note ok' = pool_ok_step [OF ok assms(2) fresh]
  note cu' = pool_okD(1) [OF ok']
  have user: "owns p' Caller k" using assms(3) by simp
  have "\<not> owns p' (Shelf a) k" "\<not> owns p' (Asker r) k" for a r
    using one_owner_ok [OF cu' user] by blast+
  moreover have "k \<notin> set (p_users p)" using custodyD(1) [OF cu'] assms(3) by (simp add: users_ok_def)
  moreover have "bl_arch (p_heap p' ! k) = snd (requested e p) \<and> bl_drv_path (p_heap p' ! k) = fst (requested e p) \<and>
    status_of p' k = InUse \<and> bl_last_used (p_heap p' ! k) = p_clock p \<and>
    map_of (p_active p') (bl_id (p_heap p' ! k)) = Some k"
    using step_leases [OF assms(2,3)]
  proof (elim disjE exE conjE)
    fix d a rest assume e: "e = Ask d a" "pooled_for p (arch_from_platform a) = k # rest"
      and p': "p' = assign_builder k d (set_pooled (arch_from_platform a) rest p)"
    show ?thesis
      using pooledD(1,3) [OF cu, of k "arch_from_platform a"] e
      by (simp add: p' assign_builder_def Let_def pool_simps update_conv)
  next
    fix r assume e: "e = Take r" and r: "r < length (p_requests p)" "rq_phase (p_requests p ! r) = Taking k"
      and p': "p' = take_builder r k p"
    show ?thesis
      using heldD(1,3) [OF cu, of r k] r e
      by (simp add: p' take_builder_def assign_builder_def Let_def pool_simps update_conv holds_def)
  qed
  ultimately show ?thesis by simp
qed


section \<open>Where a builder goes missing\<close>

text \<open>A builder in the channel of a request whose caller has given up.\<close>

definition abandoned :: "pool \<Rightarrow> nat \<Rightarrow> nat \<Rightarrow> bool" where
  "abandoned p r k \<longleftrightarrow> r < length (p_requests p) \<and> rq_chan (p_requests p ! r) = Some k \<and>
     rq_phase (p_requests p ! r) \<in> {GivingUp, TimedOut}"

lemma abandoned_request:
  "abandoned p r k \<Longrightarrow> r' \<noteq> r \<or> (rq_chan (g (p_requests p ! r)) = Some k \<and> rq_phase (g (p_requests p ! r)) \<in> {GivingUp, TimedOut}) \<Longrightarrow>
     abandoned (on_request r' g p) r k"
  by (cases "r' = r") (auto simp: abandoned_def pool_simps)

lemma abandoned_same: "p_requests p' = p_requests p \<Longrightarrow> abandoned p' r k \<longleftrightarrow> abandoned p r k"
  by (simp add: abandoned_def)

lemma abandoned_hand_off:
  assumes "custody p" "abandoned p r k" "hand_off j a p = Some p'" shows "abandoned p' r k"
proof -
  obtain r' where r': "r' \<in> set (p_waiters p)"
    and p': "p' = on_request r' (\<lambda>q. q\<lparr>rq_chan := Some j\<rparr>) (p\<lparr>p_waiters := remove1 r' (p_waiters p)\<rparr>)"
    using assms(3) by (rule hand_offE)
  have "r' \<noteq> r" using custodyD(5) [OF assms(1)] r' assms(2) by (auto simp: queue_ok_def queued_def abandoned_def)
  moreover have "abandoned (p\<lparr>p_waiters := remove1 r' (p_waiters p)\<rparr>) r k" using assms(2) by (simp add: abandoned_def)
  ultimately show ?thesis unfolding p' by (intro abandoned_request) auto
qed

lemma requests_same:
  "p_requests (assign_builder k d p) = p_requests p" "p_requests (pool_or_destroy cfg k p) = p_requests p"
  "p_requests (finish_destruction x p) = p_requests p" "p_requests (destroy_all p) = p_requests p"
  "p_requests (check_and_scale p) = p_requests p" "p_requests (end_provisioning a p) = p_requests p"
  by (simp_all add: assign_builder_def pool_or_destroy_def finish_destruction_def destroy_all_def
      check_and_scale_def end_provisioning_def Let_def pool_simps split: option.splits)

lemma abandoned_step:
  assumes p: "pool_ok p" and a: "abandoned p r k" and s: "step cfg e p = Some p'"
  shows "abandoned p' r k"
proof (cases e)
  case (Ask d pl)
  then show ?thesis
    using s a by (auto simp: acquire_builder_def abandoned_def requests_same nth_append pool_simps split: if_splits list.splits)
next
  case (Take r')
  then show ?thesis
    using s a request_at [OF pool_okD(1) [OF p], of r]
    by (auto simp: take_builder_def request_ok_def abandoned_def requests_same pool_simps nth_list_update
        split: if_splits phase.splits)
next
  case (Return j)
  have cu: "custody (p\<lparr>p_users := remove1 j (p_users p), p_active := AList.delete (bl_id (p_heap p ! j)) (p_active p)\<rparr>)"
    "loose (p\<lparr>p_users := remove1 j (p_users p), p_active := AList.delete (bl_id (p_heap p ! j)) (p_active p)\<rparr>) j"
    if "j \<in> set (p_users p)" using custody_give_back [OF pool_okD(1,3) [OF p] that] by auto
  let ?q = "\<lambda>i. on_builder i (\<lambda>b. b\<lparr>bl_drv_path := [], bl_last_used := p_clock p\<rparr>)
    (p\<lparr>p_users := remove1 j (p_users p), p_active := AList.delete (bl_id (p_heap p ! j)) (p_active p)\<rparr>)"
  have same: "i = j" if "map_of (p_active p) (bl_id (p_heap p ! j)) = Some i" "j \<in> set (p_users p)" for i
    using that custodyD(1,4) [OF pool_okD(1) [OF p]] same_id [OF pool_okD(3) [OF p], of i j]
    by (auto simp: active_ok_def users_ok_def)
  have "abandoned (?q j) r k" using a by (simp add: abandoned_def pool_simps)
  moreover have "custody (?q j)" if "j \<in> set (p_users p)" using custody_on_builder [OF cu [OF that]] by simp
  ultimately show ?thesis
    using s Return same abandoned_hand_off [of "?q j" r k j] a
    by (auto simp: release_builder_def Let_def abandoned_same [OF requests_same(2)] split: if_splits option.splits)
      (auto simp: abandoned_def)
next
  case (Publish i ip)
  then obtain b x where p': "p' = set_worker i (Finishing b) (publish_builder x ip b p)"
    using s by (auto split: if_splits worker.splits)
  let ?q = "p\<lparr>p_heap := p_heap p @ [new_builder x ip b (p_clock p)], p_builders := AList.update x (length (p_heap p)) (p_builders p)\<rparr>"
  have "custody ?q" "abandoned ?q r k"
    using custody_new_builder [OF pool_okD(1) [OF p]] a by (simp_all add: abandoned_def)
  then have "abandoned (publish_builder x ip b p) r k"
    using abandoned_hand_off [of ?q r k] by (auto simp: publish_builder_def Let_def abandoned_def pool_simps split: option.splits)
  then show ?thesis by (simp add: p' abandoned_def pool_simps)
qed (use s a in \<open>auto simp: abandoned_def signal_provisioning_def receive_builder_def withdraw_request_def in_phase_def
    requests_same cleanup_same nth_list_update pool_simps split: if_splits phase.splits worker.splits\<close>)

lemma abandoned_forever:
  assumes "pool_run cfg now es p" "abandoned p r k" "fair_trail (step cfg) drawn_anew p es'"
  shows "abandoned (last (trail (step cfg) p es')) r k \<and> pool_run cfg now (es @ es') (last (trail (step cfg) p es'))"
  using assms
proof (induction es' arbitrary: es p)
  case (Cons e es')
  then obtain q where q: "step cfg e p = Some q" "drawn_anew e p" "fair_trail (step cfg) drawn_anew q es'"
    by (auto split: option.splits)
  have "trail (step cfg) q es' \<noteq> []" by (cases es') auto
  then show ?case
    using Cons.IH [OF pool_run.step [OF Cons.prems(1) q(1,2)] abandoned_step [OF pool_ok_run [OF Cons.prems(1)] Cons.prems(2) q(1)] q(3)] q(1)
    by simp
qed simp

text \<open>
  C39: a hand-over that crosses a timeout loses the builder. If a request was sent a builder and its
  caller takes the other branch of the \<open>select\<close> - both were ready - then, whatever happens afterwards,
  the builder is never given to a caller, never back in the pool, and never destroyed before
  \<open>DestroyAll\<close>: the machine runs on with nobody to use it or to stop it.
\<close>
theorem handed_builder_lost:
  assumes "pool_run cfg now es p" "abandoned p r k" "fair_trail (step cfg) drawn_anew p es'"
    "p' = last (trail (step cfg) p es')"
  shows "k \<notin> set (p_users p') \<and> (\<forall>a. k \<notin> set (pooled_for p' a)) \<and>
    (DestroyAll \<notin> set (es @ es') \<longrightarrow> bl_id (p_heap p' ! k) \<notin> set (p_destroyed p'))"
proof -
  have a: "abandoned p' r k" and run: "pool_run cfg now (es @ es') p'"
    using abandoned_forever [OF assms(1-3)] assms(4) by simp_all
  note ok = pool_okD [OF pool_ok_run [OF run]]
  have h: "owns p' (Asker r) k" using a by (auto simp: abandoned_def holds_def)
  have none: "\<not> owns p' Caller k" "\<not> owns p' (Shelf a) k" for a using one_owner_ok [OF ok(1) h] by blast+
  have k: "k < length (p_heap p')" "status_of p' k \<in> {Ready, InUse}" using heldD(1,2) [OF ok(1)] h by auto
  have "bl_id (p_heap p' ! k) \<notin> set (p_destroyed p')" if "DestroyAll \<notin> set (es @ es')"
  proof
    assume "bl_id (p_heap p' ! k) \<in> set (p_destroyed p')"
    moreover have "gone p' (set (p_destroyed p'))" using kept_run [OF run that] by (auto simp: kept_def listed_def)
    ultimately obtain j where j: "j < length (p_heap p')" "bl_id (p_heap p' ! j) = bl_id (p_heap p' ! k)" "status_of p' j = Destroying"
      by (auto simp: gone_def)
    then have "j = k" using same_id [OF ok(3) _ k(1)] by simp
    then show False using j(3) k(2) by auto
  qed
  then show ?thesis using none by auto
qed

section \<open>Concrete runs\<close>

lemmas exec_simps = in_phase_def acquire_builder_def assign_builder_def signal_provisioning_def receive_builder_def
  take_builder_def withdraw_request_def wants_def hand_off_def pool_or_destroy_def release_builder_def
  live_waiters_def needed_def waiting_archs_def check_and_scale_def new_builder_def publish_builder_def
  end_provisioning_def finish_destruction_def destroy_all_def is_idle_def retire_builder_def cleanup_arch_def
  cleanup_old_builders_def new_pool_def pooled_for_def set_pooled_def on_builder_def on_request_def set_worker_def
  arch_from_platform_def ids_in_use_def time_sub_def minute_def second_def

text \<open>
  A caller waits, a builder is made for it and handed over, the ten minutes are over before the caller
  runs again, and its \<open>select\<close> takes the other branch.
\<close>

definition crossing :: "event list" where
  "crossing = [Ask ''/nix/store/a.drv'' ''x86_64-linux'', Signal 0, ScaleOnSignal, Draw 0 ''b1'', Publish 0 ''10.0.0.1'',
     Finish 0, Pass (10 * minute), Expire 0, GiveUp 0, Withdraw 0]"

definition demo_config :: pool_config where
  "demo_config = \<lparr>pl_reuse = True, pl_max_pool_size = 4, pl_destroy_delay = 0, pl_idle_timeout = 15 * minute\<rparr>"

definition after_crossing :: pool where
  "after_crossing = the (exec demo_config crossing (new_pool 0))"

lemma crossing_run:
  "exec demo_config crossing (new_pool 0) = Some after_crossing"
  "p_requests after_crossing = [\<lparr>rq_arch = ''x86_64'', rq_drv_path = ''/nix/store/a.drv'', rq_deadline = 10 * minute,
     rq_cancelled = True, rq_chan = Some 0, rq_phase = TimedOut\<rparr>]"
  "length (p_heap after_crossing) = 1" "status_of after_crossing 0 = Ready" "p_destroyed after_crossing = []"
  by (simp_all add: after_crossing_def crossing_def demo_config_def exec_simps)

text \<open>A caller waits and is served; it gives the builder back, and another takes it from the pool.\<close>

definition serving_two :: "event list" where
  "serving_two = [Ask ''/nix/store/a.drv'' ''x86_64-linux'', Signal 0, ScaleOnSignal, Draw 0 ''b1'', Publish 0 ''10.0.0.1'',
     Finish 0, Receive 0, Take 0, Return 0, Ask ''/nix/store/b.drv'' ''x86_64-linux'']"

definition after_serving :: pool where
  "after_serving = the (exec demo_config serving_two (new_pool 0))"

lemma serving_run:
  "exec demo_config serving_two (new_pool 0) = Some after_serving"
  "transfers p_users 0 (trail (step demo_config) (new_pool 0) serving_two) = [True, False, True]"
  by (simp_all add: after_serving_def serving_two_def demo_config_def exec_simps)

lemma one_owner_witness:
  "owns after_crossing (Asker 0) 0 \<and> \<not> owns after_crossing Caller 0"
proof -
  have h: "owns after_crossing (Asker 0) 0" by (simp add: holds_def crossing_run(2))
  then show ?thesis using one_owner [OF exec_run [OF crossing_run(1)]] by blast
qed


definition before_second :: pool where
  "before_second = the (exec demo_config (butlast serving_two) (new_pool 0))"

lemma second_lease:
  "exec demo_config (butlast serving_two) (new_pool 0) = Some before_second"
  "step demo_config (Ask ''/nix/store/b.drv'' ''x86_64-linux'') before_second = Some after_serving"
  "p_users after_serving = 0 # p_users before_second"
  by (simp_all add: before_second_def after_serving_def serving_two_def demo_config_def exec_simps)

lemma lease_fits_witness:
  "bl_drv_path (p_heap after_serving ! 0) = ''/nix/store/b.drv'' \<and> bl_arch (p_heap after_serving ! 0) = ''x86_64''"
  using lease_fits [OF exec_run [OF second_lease(1)] second_lease(2,3)] by (simp add: arch_from_platform_def)


lemma handed_builder_lost_witness:
  "DestroyAll \<notin> set (crossing @ [Pass (60 * minute), ScaleOnTick, Cleanup]) \<and>
   bl_id (p_heap (last (trail (step demo_config) after_crossing [Pass (60 * minute), ScaleOnTick, Cleanup])) ! 0) \<notin>
     set (p_destroyed (last (trail (step demo_config) after_crossing [Pass (60 * minute), ScaleOnTick, Cleanup])))"
proof -
  have a: "abandoned after_crossing 0 0" by (simp add: abandoned_def crossing_run(2))
  have f: "fair_trail (step demo_config) drawn_anew after_crossing [Pass (60 * minute), ScaleOnTick, Cleanup]"
    by (simp add: after_crossing_def crossing_def demo_config_def exec_simps)
  have none: "DestroyAll \<notin> set (crossing @ [Pass (60 * minute), ScaleOnTick, Cleanup])" by (simp add: crossing_def)
  from handed_builder_lost [OF exec_run [OF crossing_run(1)] a f refl] none show ?thesis by blast
qed

end
