(* ===== verification/Nix_Wire.thy ===== *)
theory Nix_Wire
  imports Prelude
begin

text \<open>
  The serialisation of the Nix daemon protocol (\<open>nixproto/protocol.go\<close>): everything on the wire is
  a little-endian \<open>uint64\<close> or bytes with such a length and zero padding to 8 bytes. A reader is a
  function on the bytes still to come, a writer one on the bytes already written; both return an
  error or a value and the new stream. The locale \<open>wire_format\<close> is the contract between the
  \<open>Read\<close> and \<open>Write\<close> functions of one type.
\<close>

section \<open>Streams that can fail\<close>

text \<open>
  The errors: the two ends of file of \<open>io.ReadFull\<close>, the lengths \<open>ReadBytes\<close> and \<open>ReadStrings\<close>
  refuse, a failed write, a message of its own (\<open>fmt.Errorf\<close>), and a wrapped error
  (\<open>fmt.Errorf("...: %w", err)\<close>).
\<close>

datatype io_error =
    EndOfFile
  | UnexpectedEOF
  | TooLong u64
  | TooMany u64
  | WriteFailed
  | Failed string
  | Wrapped string io_error

type_synonym ('s, 'a) io = "'s \<Rightarrow> (io_error + 'a) \<times> 's"

definition succeed :: "'a \<Rightarrow> ('s, 'a) io" where
  "succeed v s = (Inr v, s)"

definition throw :: "io_error \<Rightarrow> ('s, 'a) io" where
  "throw e s = (Inl e, s)"

text \<open>\<open>x, err := m; if err != nil { return err }\<close> and then \<open>f x\<close>.\<close>

definition andThen :: "('s, 'a) io \<Rightarrow> ('a \<Rightarrow> ('s, 'b) io) \<Rightarrow> ('s, 'b) io" where
  "andThen m f s = (case m s of (Inl e, s') \<Rightarrow> (Inl e, s') | (Inr v, s') \<Rightarrow> f v s')"

definition wrap :: "string \<Rightarrow> ('s, 'a) io \<Rightarrow> ('s, 'a) io" where
  "wrap msg m s = (case m s of (Inl e, s') \<Rightarrow> (Inl (Wrapped msg e), s') | (Inr v, s') \<Rightarrow> (Inr v, s'))"

text \<open>Run the steps in order, stopping at the first error.\<close>

fun run_all :: "('s, unit) io list \<Rightarrow> ('s, unit) io" where
  "run_all [] = succeed ()"
| "run_all (m # ms) = andThen m (\<lambda>_. run_all ms)"

type_synonym 'a reader = "(byte list, 'a) io"

text \<open>
  A sink is an \<open>io.Writer\<close>: the bytes it took, and how many more it will take before it fails
  (\<open>None\<close>: it does not fail). After a failure nothing more is written, as in \<open>bufio.Writer\<close>.
\<close>

record sink =
  sk_out :: "byte list"
  sk_room :: "nat option"

type_synonym writer = "(sink, unit) io"

definition write_raw :: "byte list \<Rightarrow> writer" where
  "write_raw xs s = (case sk_room s of
       None \<Rightarrow> (Inr (), s\<lparr>sk_out := sk_out s @ xs\<rparr>)
     | Some n \<Rightarrow>
         if length xs \<le> n then (Inr (), s\<lparr>sk_out := sk_out s @ xs, sk_room := Some (n - length xs)\<rparr>)
         else (Inl WriteFailed, s\<lparr>sk_out := sk_out s @ take n xs, sk_room := Some 0\<rparr>))"

text \<open>\<open>io.ReadFull\<close> into a buffer of \<open>n\<close> bytes (\<open>n > 0\<close> in the callers).\<close>

definition read_full :: "nat \<Rightarrow> byte list reader" where
  "read_full n inp =
     (if n \<le> length inp then (Inr (take n inp), drop n inp)
      else if inp = [] then (Inl EndOfFile, [])
      else (Inl UnexpectedEOF, []))"

section \<open>Integers, bytes and strings\<close>

definition read_uint64 :: "u64 reader" where
  "read_uint64 = andThen (read_full 8) (\<lambda>b. succeed (le_word b))"

definition write_uint64 :: "u64 \<Rightarrow> writer" where
  "write_uint64 v = write_raw (le_bytes 8 v)"

definition read_bool :: "bool reader" where
  "read_bool = andThen read_uint64 (\<lambda>v. succeed (v \<noteq> 0))"

definition write_bool :: "bool \<Rightarrow> writer" where
  "write_bool v = write_uint64 (if v then 1 else 0)"

definition max_read_bytes_length :: u64 where
  "max_read_bytes_length = 64 * 1024 * 1024"

definition pad_len :: "nat \<Rightarrow> nat" where
  "pad_len n = (8 - n mod 8) mod 8"

definition read_bytes :: "byte list reader" where
  "read_bytes =
     andThen read_uint64 (\<lambda>len.
     if len > max_read_bytes_length then throw (TooLong len)
     else
       andThen (if unat len > 0 then read_full (unat len) else succeed []) (\<lambda>data.
       andThen (if pad_len (unat len) > 0 then read_full (pad_len (unat len)) else succeed []) (\<lambda>_.
       succeed data)))"

definition write_bytes :: "byte list \<Rightarrow> writer" where
  "write_bytes data =
     andThen (write_uint64 (of_nat (length data))) (\<lambda>_.
     andThen (if length data > 0 then write_raw data else succeed ()) (\<lambda>_.
     if pad_len (length data) > 0 then write_raw (zeros (pad_len (length data))) else succeed ()))"

definition read_string :: "string reader" where
  "read_string = andThen read_bytes (\<lambda>d. succeed (string_of d))"

definition write_string :: "string \<Rightarrow> writer" where
  "write_string s = write_bytes (bytes_of s)"

section \<open>Lists, sets and maps\<close>

definition max_read_strings_count :: u64 where
  "max_read_strings_count = push_bit 20 1"

text \<open>\<open>k\<close> more elements.\<close>

fun read_times :: "nat \<Rightarrow> 'a reader \<Rightarrow> 'a list reader" where
  "read_times 0 r = succeed []"
| "read_times (Suc k) r = andThen r (\<lambda>v. andThen (read_times k r) (\<lambda>vs. succeed (v # vs)))"

definition read_strings :: "string list reader" where
  "read_strings =
     andThen read_uint64 (\<lambda>count.
     if count > max_read_strings_count then throw (TooMany count)
     else read_times (unat count) read_string)"

definition write_strings :: "string list \<Rightarrow> writer" where
  "write_strings ss =
     andThen (write_uint64 (of_nat (length ss))) (\<lambda>_. run_all (map write_string ss))"

text \<open>
  A Go map is enumerated in an unspecified order: the functions that write a set or a map take the
  enumeration as a list of distinct elements or keys, and what is proved holds for every one.
\<close>

definition read_string_set :: "string set reader" where
  "read_string_set = andThen read_strings (\<lambda>ss. succeed (set ss))"

definition write_string_set :: "string list \<Rightarrow> writer" where
  "write_string_set enum = write_strings enum"

definition read_pair_with :: "'a reader \<Rightarrow> 'b reader \<Rightarrow> ('a \<times> 'b) reader" where
  "read_pair_with r1 r2 = andThen r1 (\<lambda>a. andThen r2 (\<lambda>b. succeed (a, b)))"

text \<open>Reading a map: every pair in turn is stored under its key, so the last one of a key counts.\<close>

definition map_of_pairs :: "('k \<times> 'v) list \<Rightarrow> 'k \<rightharpoonup> 'v" where
  "map_of_pairs kvs = map_of (rev kvs)"

definition read_string_map :: "(string \<rightharpoonup> string) reader" where
  "read_string_map =
     andThen read_uint64 (\<lambda>count.
     andThen (read_times (unat count) (read_pair_with read_string read_string)) (\<lambda>kvs.
     succeed (map_of_pairs kvs)))"

definition write_string_map :: "(string \<times> string) list \<Rightarrow> writer" where
  "write_string_map enum =
     andThen (write_uint64 (of_nat (length enum))) (\<lambda>_.
     run_all (map (\<lambda>(k, v). andThen (write_string k) (\<lambda>_. write_string v)) enum))"

section \<open>Laws of the streams\<close>

lemmas io_defs = succeed_def throw_def andThen_def wrap_def

lemma andThen_Inr [nix_simps]: "m s = (Inr v, s') \<Longrightarrow> andThen m f s = f v s'"
  by (simp add: andThen_def)

lemma andThen_Inl [nix_simps]: "m s = (Inl e, s') \<Longrightarrow> andThen m f s = (Inl e, s')"
  by (simp add: andThen_def)

lemma succeed_eq [nix_simps]: "succeed v s = (Inr v, s)"
  by (simp add: succeed_def)

lemma throw_eq [nix_simps]: "throw e s = (Inl e, s)"
  by (simp add: throw_def)

text \<open>
  \<open>decodes r bs v\<close>: the reader takes exactly the bytes \<open>bs\<close>, whatever follows, and returns \<open>v\<close>; from
  a stream that ends earlier it returns an error. \<open>emits w bs\<close>: the writer appends exactly \<open>bs\<close>, or,
  when the sink fails, a proper part of it and an error.
\<close>

definition decodes :: "'a reader \<Rightarrow> byte list \<Rightarrow> 'a \<Rightarrow> bool" where
  "decodes r bs v \<longleftrightarrow> (\<forall>rest. r (bs @ rest) = (Inr v, rest)) \<and>
     (\<forall>p. strict_prefix p bs \<longrightarrow> (\<exists>e. fst (r p) = Inl e))"

definition emits :: "writer \<Rightarrow> byte list \<Rightarrow> bool" where
  "emits w bs \<longleftrightarrow> (\<forall>s. w s = write_raw bs s)"

lemma decodesD: "decodes r bs v \<Longrightarrow> r (bs @ rest) = (Inr v, rest)"
  by (simp add: decodes_def)

lemma decodes_cut: "decodes r bs v \<Longrightarrow> strict_prefix p bs \<Longrightarrow> \<exists>e. fst (r p) = Inl e"
  by (simp add: decodes_def)

lemma decodes_succeed: "decodes (succeed v) [] v"
  by (simp add: decodes_def succeed_eq)

lemma strict_prefix_append_cases:
  assumes "strict_prefix p (xs @ ys)"
  obtains "strict_prefix p xs" | q where "p = xs @ q" and "strict_prefix q ys"
proof -
  from assms obtain r where r: "xs @ ys = p @ r" "r \<noteq> []" by (auto elim: strict_prefixE')
  show thesis
  proof (cases "length p < length xs")
    case True
    then have "p = take (length p) xs" using r(1) by (metis append_eq_append_conv_if less_or_eq_imp_le)
    then have "prefix p xs" by (metis take_is_prefix)
    with True show thesis using that(1) by (auto simp: strict_prefix_def)
  next
    case False
    then obtain q where "p = xs @ q" "ys = q @ r"
      using r(1) by (auto simp: append_eq_append_conv2)
    then show thesis using r(2) that(2) [of q] by (simp add: strict_prefix_def)
  qed
qed

lemma decodes_andThen:
  assumes "decodes r bs v" and "decodes (f v) cs w"
  shows "decodes (andThen r f) (bs @ cs) w"
  unfolding decodes_def
proof (intro conjI allI impI)
  fix rest
  show "andThen r f ((bs @ cs) @ rest) = (Inr w, rest)"
    using decodesD [OF assms(1)] decodesD [OF assms(2)] by (simp add: andThen_def)
next
  fix p assume "strict_prefix p (bs @ cs)"
  then show "\<exists>e. fst (andThen r f p) = Inl e"
  proof (cases rule: strict_prefix_append_cases)
    case 1
    then have "\<exists>e. fst (r p) = Inl e" using decodes_cut [OF assms(1)] by blast
    then obtain e s where "r p = (Inl e, s)" by (metis prod.collapse)
    then show ?thesis by (simp add: andThen_def)
  next
    case (2 q)
    then obtain e where "fst (f v q) = Inl e" using decodes_cut [OF assms(2)] by blast
    then show ?thesis using 2 decodesD [OF assms(1)] by (simp add: andThen_def)
  qed
qed

lemma decodes_map: "decodes r bs v \<Longrightarrow> g v = w \<Longrightarrow> decodes (andThen r (\<lambda>x. succeed (g x))) bs w"
  using decodes_andThen [of r bs v "\<lambda>x. succeed (g x)" "[]" w] by (simp add: decodes_succeed)

lemma decodes_wrap: "decodes r bs v \<Longrightarrow> decodes (wrap msg r) bs v"
proof -
  assume d: "decodes r bs v"
  have "\<exists>e. fst (wrap msg r p) = Inl e" if p: "strict_prefix p bs" for p
  proof -
    obtain e s where "r p = (Inl e, s)" using decodes_cut [OF d p] by (metis prod.collapse)
    then show ?thesis by (simp add: wrap_def)
  qed
  then show ?thesis using decodesD [OF d] by (simp add: decodes_def wrap_def)
qed

lemma decodes_read_full: "decodes (read_full (length bs)) bs bs"
  unfolding decodes_def
proof (intro conjI allI impI)
  fix p assume "strict_prefix p bs"
  then have "length p < length bs" by (rule prefix_length_less)
  then show "\<exists>e. fst (read_full (length bs) p) = Inl e" by (auto simp: read_full_def)
qed (simp add: read_full_def)

lemma emits_raw: "emits (write_raw bs) bs"
  by (simp add: emits_def)

lemma write_raw_append: "andThen (write_raw xs) (\<lambda>_. write_raw ys) s = write_raw (xs @ ys) s"
  by (cases "sk_room s") (auto simp: andThen_def write_raw_def)

lemma write_raw_Nil: "write_raw [] s = (Inr (), s)"
  by (cases "sk_room s") (auto simp: write_raw_def)

lemma emits_succeed: "emits (succeed ()) []"
  by (simp add: emits_def write_raw_Nil succeed_eq)

lemma emits_andThen:
  assumes "emits w xs" and "emits (f ()) ys"
  shows "emits (andThen w f) (xs @ ys)"
proof -
  have "andThen w f s = andThen (write_raw xs) (\<lambda>_. write_raw ys) s" for s
    using assms by (cases "write_raw xs s") (auto simp: emits_def andThen_def split: sum.splits)
  then show ?thesis by (simp add: emits_def write_raw_append)
qed

lemma emits_run_all:
  "(\<And>x. x \<in> set xs \<Longrightarrow> emits (f x) (g x)) \<Longrightarrow> emits (run_all (map f xs)) (concat (map g xs))"
  by (induction xs) (auto intro: emits_succeed emits_andThen)

lemma decodes_times:
  "(\<And>x. x \<in> set xs \<Longrightarrow> decodes r (g x) x) \<Longrightarrow> decodes (read_times (length xs) r) (concat (map g xs)) xs"
proof (induction xs)
  case Nil
  then show ?case by (simp add: decodes_succeed)
next
  case (Cons x xs)
  then have x: "decodes r (g x) x" and xs: "decodes (read_times (length xs) r) (concat (map g xs)) xs" by auto
  then have "decodes (andThen (read_times (length xs) r) (\<lambda>vs. succeed (x # vs)))
      (concat (map g xs) @ []) (x # xs)"
    by (intro decodes_andThen) (auto intro: decodes_succeed)
  then have "decodes (andThen r (\<lambda>v. andThen (read_times (length xs) r) (\<lambda>vs. succeed (v # vs))))
      (g x @ concat (map g xs) @ []) (x # xs)"
    by (intro decodes_andThen [OF x]) simp
  then show ?case by simp
qed

section \<open>The contract of a type's format\<close>

text \<open>
  \<open>wire_format put get wire ok\<close>: \<open>put\<close> emits the bytes \<open>wire v\<close>, and \<open>get\<close> decodes them for
  every \<open>v\<close> that is \<open>ok\<close> (within the length limits).
\<close>

locale wire_format =
  fixes put :: "'v \<Rightarrow> writer"
    and get :: "'v reader"
    and wire :: "'v \<Rightarrow> byte list"
    and ok :: "'v \<Rightarrow> bool"
  assumes writes: "emits (put v) (wire v)"
    and reads: "ok v \<Longrightarrow> decodes get (wire v) v"
begin

lemma roundtrip:
  assumes "ok v" and "put v \<lparr>sk_out = out, sk_room = None\<rparr> = (res, s)"
  shows "res = Inr () \<and> sk_out s = out @ wire v \<and> get (wire v @ rest) = (Inr v, rest)"
  using assms writes [of v] decodesD [OF reads [of v]] by (auto simp: emits_def write_raw_def)

lemma wire_inject: "ok v \<Longrightarrow> ok w \<Longrightarrow> wire v = wire w \<Longrightarrow> v = w"
  using decodesD [OF reads [of v], of "[]"] decodesD [OF reads [of w], of "[]"] by simp

lemma wire_prefix_free: "ok v \<Longrightarrow> ok w \<Longrightarrow> prefix (wire v) (wire w) \<Longrightarrow> v = w"
proof -
  assume ok: "ok v" "ok w" and "prefix (wire v) (wire w)"
  then obtain r where r: "wire w = wire v @ r" by (auto elim: prefixE)
  have "(Inr v, r) = (Inr w, [])"
    using decodesD [OF reads [OF ok(1)], of r] decodesD [OF reads [OF ok(2)], of "[]"] r by simp
  then show "v = w" by simp
qed

lemma list_writes: "emits (run_all (map put vs)) (concat (map wire vs))"
  by (rule emits_run_all) (rule writes)

lemma list_reads:
  "(\<And>v. v \<in> set vs \<Longrightarrow> ok v) \<Longrightarrow> decodes (read_times (length vs) get) (concat (map wire vs)) vs"
  by (rule decodes_times) (rule reads)

end

definition wire_u64 :: "u64 \<Rightarrow> byte list" where
  "wire_u64 v = le_bytes 8 v"

definition wire_bytes :: "byte list \<Rightarrow> byte list" where
  "wire_bytes d = wire_u64 (of_nat (length d)) @ d @ zeros (pad_len (length d))"

definition wire_string :: "string \<Rightarrow> byte list" where
  "wire_string s = wire_bytes (bytes_of s)"

definition wire_strings :: "string list \<Rightarrow> byte list" where
  "wire_strings ss = wire_u64 (of_nat (length ss)) @ concat (map wire_string ss)"

definition short_string :: "string \<Rightarrow> bool" where
  "short_string s \<longleftrightarrow> length s \<le> 64 * 1024 * 1024"

definition short_strings :: "string list \<Rightarrow> bool" where
  "short_strings ss \<longleftrightarrow> length ss \<le> 2 ^ 20 \<and> (\<forall>s \<in> set ss. short_string s)"

named_theorems emission \<open>what the writers emit\<close>
named_theorems decoding \<open>what the readers decode\<close>

lemma emits_u64 [emission]: "emits (write_uint64 v) (wire_u64 v)"
  by (simp add: write_uint64_def wire_u64_def emits_raw)

lemma decodes_u64 [decoding]: "decodes read_uint64 (wire_u64 v) v"
  unfolding read_uint64_def wire_u64_def
  using decodes_map [where g = le_word, OF decodes_read_full [of "le_bytes 8 v"] le_word_le_bytes_64 [of v]]
  by (simp only: length_le_bytes)

lemma emits_bool [emission]: "emits (write_bool v) (wire_u64 (if v then 1 else 0))"
  by (simp add: write_bool_def emits_u64)

lemma decodes_bool [decoding]: "decodes read_bool (wire_u64 (if v then 1 else 0)) v"
  unfolding read_bool_def by (rule decodes_map [OF decodes_u64]) simp

lemma emits_bytes [emission]: "emits (write_bytes d) (wire_bytes d)"
  unfolding write_bytes_def wire_bytes_def
  by (intro emits_andThen emits_u64) (auto intro: emits_raw emits_succeed)

lemma pad_len_less: "pad_len n < 8"
  by (simp add: pad_len_def)

lemma pad_len_mod: "(n + pad_len n) mod 8 = 0"
proof (cases "n mod 8 = 0")
  case True
  then show ?thesis by (simp add: pad_len_def)
next
  case False
  have "n mod 8 < 8" by simp
  with False have "pad_len n + n mod 8 = 8" by (simp add: pad_len_def)
  moreover have "(n + pad_len n) mod 8 = (n mod 8 + pad_len n) mod 8" by (simp add: mod_add_left_eq)
  ultimately show ?thesis by (simp add: add.commute)
qed

lemma decodes_if_full: "decodes (if n > 0 then read_full n else succeed []) xs xs" if "length xs = n"
  using that decodes_read_full [of xs] by (auto simp: decodes_succeed)

lemma decodes_bytes [decoding]:
  assumes "length d \<le> 64 * 1024 * 1024"
  shows "decodes read_bytes (wire_bytes d) d"
proof -
  let ?n = "of_nat (length d) :: u64"
  have n: "unat ?n = length d" using assms by (simp add: unat_of_nat)
  then have lim: "\<not> ?n > max_read_bytes_length"
    using assms by (simp add: max_read_bytes_length_def word_less_nat_alt)
  have pad: "decodes (andThen (if pad_len (length d) > 0 then read_full (pad_len (length d)) else succeed [])
        (\<lambda>_. succeed d)) (zeros (pad_len (length d)) @ []) d"
    by (rule decodes_andThen [OF decodes_if_full [OF length_zeros]]) (rule decodes_succeed)
  have "decodes (andThen (if length d > 0 then read_full (length d) else succeed []) (\<lambda>data.
      andThen (if pad_len (length d) > 0 then read_full (pad_len (length d)) else succeed [])
        (\<lambda>_. succeed data))) (d @ zeros (pad_len (length d)) @ []) d"
    by (rule decodes_andThen [OF decodes_if_full [OF refl]]) (rule pad)
  then show ?thesis
    unfolding read_bytes_def wire_bytes_def
    by (intro decodes_andThen [OF decodes_u64]) (simp only: lim n if_False append_Nil2)
qed

lemma emits_string [emission]: "emits (write_string s) (wire_string s)"
  by (simp add: write_string_def wire_string_def emits_bytes)

lemma decodes_string [decoding]: "short_string s \<Longrightarrow> decodes read_string (wire_string s) s"
  unfolding read_string_def wire_string_def short_string_def
  by (intro decodes_map [OF decodes_bytes]) simp_all

interpretation wf_u64: wire_format write_uint64 read_uint64 wire_u64 "\<lambda>_. True"
  by unfold_locales (auto intro: emission decoding)

interpretation wf_bytes: wire_format write_bytes read_bytes wire_bytes "\<lambda>d. length d \<le> 64 * 1024 * 1024"
  by unfold_locales (auto intro: emission decoding)

interpretation wf_string: wire_format write_string read_string wire_string short_string
  by unfold_locales (auto intro: emission decoding)

lemma emits_strings [emission]: "emits (write_strings ss) (wire_strings ss)"
  unfolding write_strings_def wire_strings_def
  by (intro emits_andThen emits_u64 wf_string.list_writes)

lemma decodes_strings [decoding]: "short_strings ss \<Longrightarrow> decodes read_strings (wire_strings ss) ss"
proof -
  assume ss: "short_strings ss"
  then have n: "unat (of_nat (length ss) :: u64) = length ss"
    by (simp add: short_strings_def unat_of_nat)
  then have lim: "\<not> (of_nat (length ss) :: u64) > max_read_strings_count"
    using ss by (simp add: short_strings_def max_read_strings_count_def word_less_nat_alt push_bit_eq_mult)
  have "decodes (read_times (length ss) read_string) (concat (map wire_string ss)) ss"
    using ss by (intro wf_string.list_reads) (simp add: short_strings_def)
  then show ?thesis
    unfolding read_strings_def wire_strings_def
    by (intro decodes_andThen [OF decodes_u64]) (simp add: lim n)
qed

interpretation wf_strings: wire_format write_strings read_strings wire_strings short_strings
  by unfold_locales (auto intro: emission decoding)

text \<open>Maps: whatever the order the pairs are written in, the same map is read.\<close>

definition wire_entry :: "string \<times> string \<Rightarrow> byte list" where
  "wire_entry kv = wire_string (fst kv) @ wire_string (snd kv)"

definition wire_string_map :: "(string \<times> string) list \<Rightarrow> byte list" where
  "wire_string_map kvs = wire_u64 (of_nat (length kvs)) @ concat (map wire_entry kvs)"

definition short_entries :: "(string \<times> string) list \<Rightarrow> bool" where
  "short_entries kvs \<longleftrightarrow> length kvs < 2 ^ 64 \<and> (\<forall>(k, v) \<in> set kvs. short_string k \<and> short_string v)"

lemma decodes_entry:
  "(\<lambda>(k, v). short_string k \<and> short_string v) kv \<Longrightarrow>
     decodes (read_pair_with read_string read_string) (wire_entry kv) kv"
proof -
  assume kv: "(\<lambda>(k, v). short_string k \<and> short_string v) kv"
  obtain k v where kv': "kv = (k, v)" by (cases kv) simp
  have "decodes (andThen read_string (\<lambda>b. succeed (k, b))) (wire_string v) (k, v)"
    by (rule decodes_map) (use kv kv' in \<open>auto intro: decodes_string\<close>)
  then show ?thesis
    unfolding read_pair_with_def wire_entry_def kv'
    using kv kv' by (auto intro!: decodes_andThen decodes_string)
qed

interpretation wf_entry:
  wire_format "\<lambda>(k, v). andThen (write_string k) (\<lambda>_. write_string v)"
    "read_pair_with read_string read_string" wire_entry "\<lambda>(k, v). short_string k \<and> short_string v"
proof unfold_locales
  show "emits ((\<lambda>(k, v). andThen (write_string k) (\<lambda>_. write_string v)) kv) (wire_entry kv)" for kv
    by (cases kv) (auto simp: wire_entry_def intro!: emits_andThen emits_string)
qed (rule decodes_entry)

lemma emits_string_map [emission]: "emits (write_string_map kvs) (wire_string_map kvs)"
  unfolding write_string_map_def wire_string_map_def
  by (intro emits_andThen emits_u64 wf_entry.list_writes)

lemma map_of_rev_distinct: "distinct (map fst kvs) \<Longrightarrow> map_of_pairs kvs = map_of kvs"
  unfolding map_of_pairs_def by (rule map_of_inject_set [THEN iffD2]) (simp_all add: rev_map [symmetric])

lemma decodes_string_map [decoding]:
  assumes "short_entries kvs" and "distinct (map fst kvs)"
  shows "decodes read_string_map (wire_string_map kvs) (map_of kvs)"
proof -
  have n: "unat (of_nat (length kvs) :: u64) = length kvs"
    using assms(1) by (simp add: short_entries_def unat_of_nat)
  have "decodes (read_times (length kvs) (read_pair_with read_string read_string))
      (concat (map wire_entry kvs)) kvs"
    using assms(1) by (intro wf_entry.list_reads) (auto simp: short_entries_def)
  then have "decodes (andThen (read_times (length kvs) (read_pair_with read_string read_string))
      (\<lambda>kvs. succeed (map_of_pairs kvs))) (concat (map wire_entry kvs)) (map_of kvs)"
    by (rule decodes_map) (simp add: map_of_rev_distinct assms(2))
  then show ?thesis
    unfolding read_string_map_def wire_string_map_def
    by (intro decodes_andThen [OF decodes_u64]) (simp add: n)
qed

section \<open>Protocol constants\<close>

definition client_magic :: u64 where "client_magic = 0x6e697863"
definition server_magic :: u64 where "server_magic = 0x6478696f"

definition protocol_version_major :: u64 where "protocol_version_major = 1"
definition protocol_version_minor :: u64 where "protocol_version_minor = 38"

definition protocol_version :: u64 where
  "protocol_version = or (push_bit 8 protocol_version_major) protocol_version_minor"

definition stderr_next :: u64 where "stderr_next = 0x6f6c6d67"
definition stderr_read :: u64 where "stderr_read = 0x64617461"
definition stderr_write :: u64 where "stderr_write = 0x64617416"
definition stderr_last :: u64 where "stderr_last = 0x616c7473"
definition stderr_error :: u64 where "stderr_error = 0x63787470"
definition stderr_start_activity :: u64 where "stderr_start_activity = 0x53545254"
definition stderr_stop_activity :: u64 where "stderr_stop_activity = 0x53544f50"
definition stderr_result :: u64 where "stderr_result = 0x52534c54"

lemmas stderr_markers =
  stderr_next_def stderr_read_def stderr_write_def stderr_last_def stderr_error_def
  stderr_start_activity_def stderr_stop_activity_def stderr_result_def

text \<open>The operation codes, with the names \<open>WorkerOp.String\<close> gives them.\<close>

definition worker_ops :: "(u64 \<times> string) list" where
  "worker_ops = [
     (1, ''IsValidPath''),
     (3, ''HasSubstitutes''),
     (6, ''QueryReferrers''),
     (7, ''AddToStore''),
     (9, ''BuildPaths''),
     (10, ''EnsurePath''),
     (11, ''AddTempRoot''),
     (12, ''AddIndirectRoot''),
     (13, ''SyncWithGC''),
     (14, ''FindRoots''),
     (19, ''SetOptions''),
     (20, ''CollectGarbage''),
     (21, ''QuerySubstitutablePathInfo''),
     (23, ''QueryAllValidPaths''),
     (24, ''QueryFailedPaths''),
     (25, ''ClearFailedPaths''),
     (26, ''QueryPathInfo''),
     (29, ''QueryPathFromHashPart''),
     (30, ''QuerySubstitutablePathInfos''),
     (31, ''QueryValidPaths''),
     (32, ''QuerySubstitutablePaths''),
     (33, ''QueryValidDerivers''),
     (34, ''OptimiseStore''),
     (35, ''VerifyStore''),
     (36, ''BuildDerivation''),
     (37, ''AddSignatures''),
     (38, ''NarFromPath''),
     (39, ''AddToStoreNar''),
     (40, ''QueryMissing''),
     (41, ''QueryDerivationOutputMap''),
     (42, ''RegisterDrvOutput''),
     (43, ''QueryRealisation''),
     (44, ''AddMultipleToStore''),
     (45, ''AddBuildLog''),
     (46, ''BuildPathsWithResults''),
     (47, ''AddPermRoot'')]"

definition op_is_valid_path :: u64 where "op_is_valid_path = 1"
definition op_query_referrers :: u64 where "op_query_referrers = 6"
definition op_add_to_store :: u64 where "op_add_to_store = 7"
definition op_build_paths :: u64 where "op_build_paths = 9"
definition op_add_temp_root :: u64 where "op_add_temp_root = 11"
definition op_set_options :: u64 where "op_set_options = 19"
definition op_query_path_info :: u64 where "op_query_path_info = 26"
definition op_query_valid_paths :: u64 where "op_query_valid_paths = 31"
definition op_build_derivation :: u64 where "op_build_derivation = 36"
definition op_nar_from_path :: u64 where "op_nar_from_path = 38"
definition op_add_to_store_nar :: u64 where "op_add_to_store_nar = 39"
definition op_query_missing :: u64 where "op_query_missing = 40"
definition op_query_derivation_output_map :: u64 where "op_query_derivation_output_map = 41"
definition op_add_multiple_to_store :: u64 where "op_add_multiple_to_store = 44"
definition op_build_paths_with_results :: u64 where "op_build_paths_with_results = 46"
definition op_ensure_path :: u64 where "op_ensure_path = 10"
definition op_add_signatures :: u64 where "op_add_signatures = 37"
definition op_query_realisation :: u64 where "op_query_realisation = 43"
definition op_register_drv_output :: u64 where "op_register_drv_output = 42"

definition op_string :: "u64 \<Rightarrow> string" where
  "op_string op = (case map_of worker_ops op of
     Some name \<Rightarrow> name | None \<Rightarrow> ''Unknown('' @ decimal (unat op) @ '')'')"

section \<open>Properties of the format\<close>

lemma read_tail:
  assumes "andThen (if n > 0 then read_full n else succeed []) (\<lambda>data.
      andThen (if k > 0 then read_full k else succeed []) (\<lambda>_. succeed data)) inp = (Inr d, r)"
  shows "length d = n \<and> inp = d @ take k (drop n inp) @ r \<and> length inp = n + k + length r"
proof -
  have full: "(if m > 0 then read_full m else succeed []) i = (Inr x, y) \<longleftrightarrow>
      m \<le> length i \<and> x = take m i \<and> y = drop m i" for m i x y
    by (auto simp: read_full_def succeed_def)
  from assms obtain y where y: "n \<le> length inp" "d = take n inp" "k \<le> length (drop n inp)" "r = drop k (drop n inp)"
    by (auto simp: andThen_def succeed_def full split: prod.splits sum.splits)
  then show ?thesis by (metis append_take_drop_id length_append length_take min.absorb2 add.assoc)
qed

text \<open>
  strings on the wire. Up to 64 MiB, \<open>WriteString\<close> appends a multiple of 8 bytes, \<open>ReadString\<close>
  reads exactly those bytes back whatever follows them, and a stream that ends inside the string
  gives an error instead of a shorter string.
\<close>

theorem nix_string_roundtrip:
  assumes "length s \<le> 64 * 1024 * 1024"
  shows "\<exists>bs. write_string s \<lparr>sk_out = out, sk_room = None\<rparr> = (Inr (), \<lparr>sk_out = out @ bs, sk_room = None\<rparr>) \<and>
    length bs mod 8 = 0 \<and> (\<forall>rest. read_string (bs @ rest) = (Inr s, rest)) \<and>
    (\<forall>p. strict_prefix p bs \<longrightarrow> (\<exists>e. fst (read_string p) = Inl e))"
proof (intro exI [of _ "wire_string s"] conjI)
  have ok: "decodes read_string (wire_string s) s"
    using assms by (intro decodes_string) (simp add: short_string_def)
  show "\<forall>rest. read_string (wire_string s @ rest) = (Inr s, rest)"
    "\<forall>p. strict_prefix p (wire_string s) \<longrightarrow> (\<exists>e. fst (read_string p) = Inl e)"
    using ok by (auto simp: decodes_def)
  show "write_string s \<lparr>sk_out = out, sk_room = None\<rparr> =
      (Inr (), \<lparr>sk_out = out @ wire_string s, sk_room = None\<rparr>)"
    using emits_string [of s] by (simp add: emits_def write_raw_def)
  have "length (wire_string s) = 8 + (length s + pad_len (length s))"
    by (simp add: wire_string_def wire_bytes_def wire_u64_def)
  then show "length (wire_string s) mod 8 = 0" using pad_len_mod [of "length s"] by simp
qed

lemma nix_string_roundtrip_witness:
  "\<exists>bs. write_string ''x86_64-linux'' \<lparr>sk_out = [], sk_room = None\<rparr> =
      (Inr (), \<lparr>sk_out = [] @ bs, sk_room = None\<rparr>) \<and>
    length bs mod 8 = 0 \<and> (\<forall>rest. read_string (bs @ rest) = (Inr ''x86_64-linux'', rest)) \<and>
    (\<forall>p. strict_prefix p bs \<longrightarrow> (\<exists>e. fst (read_string p) = Inl e))"
  by (rule nix_string_roundtrip) simp

text \<open>
  what \<open>ReadBytes\<close> takes from any stream, well-formed or not: on success the data is at most
  64 MiB and it consumed the length, the data and the padding and nothing else; a length over the
  limit is refused after its 8 bytes, with everything after it left in the stream.
\<close>

theorem read_bytes_bounded:
  "(fst (read_bytes inp) = Inr d \<longrightarrow> length d \<le> 64 * 1024 * 1024 \<and>
      inp = take 8 inp @ d @ take (pad_len (length d)) (drop (8 + length d) inp) @ snd (read_bytes inp) \<and>
      length inp = 8 + length d + pad_len (length d) + length (snd (read_bytes inp))) \<and>
   (8 \<le> length inp \<and> le_word (take 8 inp) > (64 * 1024 * 1024 :: u64) \<longrightarrow>
      read_bytes inp = (Inl (TooLong (le_word (take 8 inp))), drop 8 inp))"
proof (cases "length inp < 8")
  case True
  then show ?thesis by (auto simp: read_bytes_def read_uint64_def read_full_def andThen_def succeed_def)
next
  case False
  let ?v = "le_word (take 8 inp) :: u64"
  have r8: "read_uint64 inp = (Inr ?v, drop 8 inp)"
    using False by (simp add: read_uint64_def read_full_def andThen_def succeed_def)
  show ?thesis
  proof (cases "?v > max_read_bytes_length")
    case True
    then show ?thesis
      using r8 by (simp add: read_bytes_def andThen_def throw_def max_read_bytes_length_def)
  next
    case le: False
    then have n: "unat ?v \<le> 64 * 1024 * 1024"
      by (simp add: max_read_bytes_length_def word_less_nat_alt not_less)
    have two: "read_bytes inp = andThen (if unat ?v > 0 then read_full (unat ?v) else succeed []) (\<lambda>data.
        andThen (if pad_len (unat ?v) > 0 then read_full (pad_len (unat ?v)) else succeed [])
          (\<lambda>_. succeed data)) (drop 8 inp)"
      using r8 le by (simp add: read_bytes_def andThen_def)
    have "length d = unat ?v \<and> drop 8 inp = d @ take (pad_len (unat ?v)) (drop (unat ?v) (drop 8 inp)) @ r
        \<and> length (drop 8 inp) = unat ?v + pad_len (unat ?v) + length r" if rb: "read_bytes inp = (Inr d, r)" for r
      by (rule read_tail [OF trans [OF two [symmetric] rb]])
    then have fst_ok: "fst (read_bytes inp) = Inr d \<Longrightarrow> length d = unat ?v \<and>
        drop 8 inp = d @ take (pad_len (unat ?v)) (drop (unat ?v) (drop 8 inp)) @ snd (read_bytes inp) \<and>
        length (drop 8 inp) = unat ?v + pad_len (unat ?v) + length (snd (read_bytes inp))"
      by (metis prod.collapse)
    have ok: "length d \<le> 64 * 1024 * 1024 \<and>
        inp = take 8 inp @ d @ take (pad_len (length d)) (drop (8 + length d) inp) @ snd (read_bytes inp) \<and>
        length inp = 8 + length d + pad_len (length d) + length (snd (read_bytes inp))"
      if "fst (read_bytes inp) = Inr d"
    proof -
      have len: "unat ?v = length d" using fst_ok [OF that] by simp
      note f = fst_ok [OF that, unfolded len]
      have rest: "drop 8 inp = d @ take (pad_len (length d)) (drop (8 + length d) inp) @ snd (read_bytes inp)"
        using f by (metis drop_drop add.commute)
      have "length inp - 8 = length d + pad_len (length d) + length (snd (read_bytes inp))"
        using conjunct2 [OF conjunct2 [OF f]] by (simp only: length_drop)
      then show ?thesis
        using n len False append_take_drop_id [of 8 inp, unfolded rest, symmetric] by simp
    qed
    then show ?thesis using le by (simp add: max_read_bytes_length_def)
  qed
qed

lemma read_bytes_bounded_witness:
  "read_bytes (le_bytes 8 (0x4000001 :: u64) @ [7]) = (Inl (TooLong 0x4000001), [7])"
  using read_bytes_bounded [of "le_bytes 8 (0x4000001 :: u64) @ [7]"] by simp

end
