(* ===== verification/Nix_Hash.thy ===== *)
theory Nix_Hash
  imports Nix_Wire "HOL-Library.Multiset" "HOL-Library.List_Lexorder" "HOL-Library.Char_ord"
begin

text \<open>
  Hashes and store paths of the Nix side: the base32 alphabet of Nix (\<open>nix32ToBytes\<close> of
  \<open>nixproto/protocol.go\<close>, \<open>bytesToNix32\<close> of \<open>signer.go\<close>), standard base64, the
  normalisation of NAR hashes and the fingerprint that a store signature covers (\<open>signer.go\<close>), and
  the identifiers of derivation outputs (\<open>MakeDrvOutputID\<close>).
\<close>

section \<open>Nix base32\<close>

unbundle bit_operations_syntax

definition nix32_alphabet :: string where
  "nix32_alphabet = ''0123456789abcdfghijklmnpqrsvwxyz''"

text \<open>The reverse lookup table.\<close>

fun index_of :: "'a \<Rightarrow> 'a list \<Rightarrow> nat \<Rightarrow> nat option" where
  "index_of x [] i = None"
| "index_of x (y # ys) i = (if x = y then Some i else index_of x ys (Suc i))"

definition nix32_lookup :: "char \<Rightarrow> nat option" where
  "nix32_lookup c = index_of c nix32_alphabet 0"

text \<open>The body of the loop of \<open>nix32ToBytes\<close>: digit \<open>val\<close> at bit position \<open>5 * i\<close> of the 20 bytes.\<close>

definition nix32_put :: "nat \<Rightarrow> nat \<Rightarrow> byte list \<Rightarrow> byte list" where
  "nix32_put i val hash =
     (let bit_pos = i * 5; byte_pos = bit_pos div 8; bit_offset = bit_pos mod 8;
          h1 = (if byte_pos < 20
                then hash[byte_pos := hash ! byte_pos OR word_of_nat (push_bit bit_offset val)]
                else hash)
      in if bit_offset > 3 \<and> byte_pos + 1 < 20
         then h1[byte_pos + 1 := h1 ! (byte_pos + 1) OR word_of_nat (drop_bit (8 - bit_offset) val)]
         else h1)"

datatype nix32_error =
    BadNix32Length nat
  | BadNix32Char char

text \<open>The loop with \<open>k\<close> iterations left, the next one being \<open>i\<close>.\<close>

fun nix32_loop :: "string \<Rightarrow> nat \<Rightarrow> nat \<Rightarrow> byte list \<Rightarrow> nix32_error + byte list" where
  "nix32_loop s i 0 hash = Inr hash"
| "nix32_loop s i (Suc k) hash = (case nix32_lookup (s ! (31 - i)) of
       None \<Rightarrow> Inl (BadNix32Char (s ! (31 - i)))
     | Some val \<Rightarrow> nix32_loop s (Suc i) k (nix32_put i val hash))"

definition nix32_to_bytes :: "string \<Rightarrow> nix32_error + byte list" where
  "nix32_to_bytes s =
     (if length s \<noteq> 32 then Inl (BadNix32Length (length s)) else nix32_loop s 0 32 (zeros 20))"

definition nix32_digit :: "byte list \<Rightarrow> nat \<Rightarrow> byte" where
  "nix32_digit data n =
     (let b = n * 5; i = b div 8; j = b mod 8;
          c = (if i < length data then drop_bit j (data ! i) else 0);
          c' = (if i + 1 < length data then c OR push_bit (8 - j) (data ! (i + 1)) else c)
      in c' AND 0x1f)"

definition bytes_to_nix32 :: "byte list \<Rightarrow> string" where
  "bytes_to_nix32 data =
     (let out_len = (length data * 8 + 4) div 5
      in map (\<lambda>n. nix32_alphabet ! unat (nix32_digit data n)) (rev [0..<out_len]))"

text \<open>The bits of a byte string, from the low bit of its first byte on.\<close>

definition bit_at :: "byte list \<Rightarrow> nat \<Rightarrow> bool" where
  "bit_at bs k \<longleftrightarrow> k div 8 < length bs \<and> bit (bs ! (k div 8)) (k mod 8)"

lemma bit_1f: "bit (0x1f :: byte) r \<longleftrightarrow> r < 5"
proof -
  have "(0x1f :: byte) = mask 5" by (simp add: mask_eq_exp_minus_1)
  then show ?thesis by (auto simp only: bit_mask_iff) auto
qed

lemma div8_split: "k = 8 * q + r \<Longrightarrow> r < 8 \<Longrightarrow> k div 8 = q \<and> k mod (8 :: nat) = r"
  by simp

lemma nix32_digit_bit: "bit (nix32_digit data n) r \<longleftrightarrow> r < 5 \<and> bit_at data (5 * n + r)"
proof (cases "r < 5")
  case True
  let ?b = "n * 5" let ?i = "?b div 8" let ?j = "?b mod 8"
  have b: "5 * n + r = 8 * ?i + (?j + r)" by simp
  show ?thesis
  proof (cases "?j + r < 8")
    case True': True
    have "(5 * n + r) div 8 = ?i" "(5 * n + r) mod 8 = ?j + r"
      using div8_split [OF b True'] by auto
    then show ?thesis using True True'
      by (auto simp: nix32_digit_def Let_def bit_at_def bit_and_iff bit_or_iff bit_drop_bit_eq
          bit_push_bit_iff bit_1f simp del: bit_numeral_word_iff)
  next
    case False
    then have b': "5 * n + r = 8 * (?i + 1) + (?j + r - 8)" using b by simp
    have "?j + r - 8 < 8" using True by (simp add: less_diff_conv2)
    then have "(5 * n + r) div 8 = ?i + 1" "(5 * n + r) mod 8 = ?j + r - 8"
      using div8_split [OF b'] by auto
    then show ?thesis using True False
      by (auto simp: nix32_digit_def Let_def bit_at_def bit_and_iff bit_or_iff bit_drop_bit_eq
          bit_push_bit_iff bit_1f add.commute [of r] dest: bit_imp_le_length simp del: bit_numeral_word_iff)
  qed
next
  case False
  then show ?thesis by (auto simp: nix32_digit_def Let_def bit_and_iff bit_1f simp del: bit_numeral_word_iff)
qed

lemma nix32_lookup_alphabet: "v < 32 \<Longrightarrow> nix32_lookup (nix32_alphabet ! v) = Some v"
proof -
  have "\<forall>v \<in> set [0..<32]. nix32_lookup (nix32_alphabet ! v) = Some v" by code_simp
  then show "v < 32 \<Longrightarrow> nix32_lookup (nix32_alphabet ! v) = Some v" by simp
qed

lemma bit_small_nat: "bit (v :: nat) r \<Longrightarrow> v < 2 ^ n \<Longrightarrow> r < n"
  by (metis bit_take_bit_iff take_bit_nat_eq_self)

lemma length_nix32_put [simp]: "length (nix32_put i val h) = length h"
  by (simp add: nix32_put_def Let_def)

lemma bit_at_split: "m < 8 \<Longrightarrow> bit_at bs (8 * q + m) \<longleftrightarrow> q < length bs \<and> bit (bs ! q) m"
  by (simp add: bit_at_def)

lemma nix32_put_split:
  assumes "i * 5 = 8 * p + r" and "r < 8"
  shows "nix32_put i val h =
    (let h1 = (if p < 20 then h[p := h ! p OR word_of_nat (push_bit r val)] else h)
     in if r > 3 \<and> p + 1 < 20 then h1[p + 1 := h1 ! (p + 1) OR word_of_nat (drop_bit (8 - r) val)] else h1)"
  using div8_split [OF assms] by (simp add: nix32_put_def)

lemma nix32_put_bit:
  assumes h: "length h = 20" and i: "i < 32" and v: "val < 32"
  shows "bit_at (nix32_put i val h) k \<longleftrightarrow> bit_at h k \<or> (5 * i \<le> k \<and> k < 5 * i + 5 \<and> bit val (k - 5 * i))"
proof -
  obtain p r where pr: "i * 5 = 8 * p + r" "r < 8" by (metis mod_less_divisor mult_div_mod_eq zero_less_numeral)
  obtain q m where qm: "k = 8 * q + m" "m < 8" by (metis mod_less_divisor mult_div_mod_eq zero_less_numeral)
  have p: "p < 20" using pr i by linarith
  have small: "bit val n \<Longrightarrow> n < 5" for n using bit_small_nat [of val n 5] v by simp
  have lo: "bit (word_of_nat (push_bit r val) :: byte) m \<longleftrightarrow> r \<le> m \<and> bit val (m - r)"
    using qm(2) by (simp add: bit_of_nat_iff bit_push_bit_iff)
  have hi: "bit (word_of_nat (drop_bit (8 - r) val) :: byte) m \<longleftrightarrow> bit val (8 - r + m)"
    using qm(2) by (simp add: bit_of_nat_iff bit_drop_bit_eq)
  note put = nix32_put_split [OF pr, of val h] and at = bit_at_split [OF qm(2)]
  consider "q = p" | "q = p + 1" | "q < p \<or> p + 1 < q" by linarith
  then show ?thesis
  proof cases
    case 1
    have "k - 5 * i = m - r" "(5 * i \<le> k) = (r \<le> m)" using 1 pr(1) qm(1) by linarith+
    moreover have "k < 5 * i + 5" if "r \<le> m" "bit val (m - r)"
      using that small [of "m - r"] 1 pr(1) qm(1) by linarith
    moreover have "bit_at (nix32_put i val h) k \<longleftrightarrow> bit_at h k \<or> (r \<le> m \<and> bit val (m - r))"
      unfolding put qm(1) at using 1 p h by (simp add: Let_def bit_or_iff lo)
    ultimately show ?thesis by auto
  next
    case 2
    have e: "k - 5 * i = 8 - r + m" "5 * i \<le> k" using 2 pr qm by linarith+
    have three: "bit val (8 - r + m) \<Longrightarrow> 3 < r" using small [of "8 - r + m"] by linarith
    have "k < 5 * i + 5" if "bit val (8 - r + m)" using small [OF that] 2 pr qm by linarith
    moreover have "bit_at (nix32_put i val h) k \<longleftrightarrow> bit_at h k \<or> (p + 1 < 20 \<and> 3 < r \<and> bit val (8 - r + m))"
      unfolding put qm(1) at using 2 p h by (auto simp: Let_def bit_or_iff hi)
    moreover have "bit val (8 - r + m) \<Longrightarrow> p + 1 < 20" using three i pr by linarith
    ultimately show ?thesis using e three by auto
  next
    case 3
    have "\<not> (5 * i \<le> k \<and> k < 5 * i + 5)" using 3 pr qm by linarith
    moreover have "bit_at (nix32_put i val h) k \<longleftrightarrow> bit_at h k"
      unfolding put qm(1) at using 3 p h by (auto simp: Let_def)
    ultimately show ?thesis by auto
  qed
qed

lemma nix32_loop_decodes:
  assumes "\<And>i. i < 32 \<Longrightarrow> d i < 32" and "\<And>i. i < 32 \<Longrightarrow> s ! (31 - i) = nix32_alphabet ! d i"
  shows "i + n = 32 \<Longrightarrow> length h = 20 \<Longrightarrow> \<exists>h'. nix32_loop s i n h = Inr h' \<and> length h' = 20 \<and>
    (\<forall>k. bit_at h' k \<longleftrightarrow> bit_at h k \<or> (5 * i \<le> k \<and> k < 160 \<and> bit (d (k div 5)) (k mod 5)))"
proof (induction n arbitrary: i h)
  case 0
  then show ?case by auto
next
  case (Suc n)
  then have i: "i < 32" by simp
  obtain h' where h': "nix32_loop s (Suc i) n (nix32_put i (d i) h) = Inr h'" "length h' = 20"
    "\<forall>k. bit_at h' k \<longleftrightarrow> bit_at (nix32_put i (d i) h) k \<or>
        (5 * Suc i \<le> k \<and> k < 160 \<and> bit (d (k div 5)) (k mod 5))"
    using Suc.IH [of "Suc i" "nix32_put i (d i) h"] Suc.prems by auto
  have "bit_at h' k \<longleftrightarrow> bit_at h k \<or> (5 * i \<le> k \<and> k < 160 \<and> bit (d (k div 5)) (k mod 5))" for k
  proof (cases "5 * i \<le> k \<and> k < 5 * i + 5")
    case True
    then have "k div 5 = i" "k mod 5 = k - 5 * i" by (auto simp: div_nat_eqI le_add_diff_inverse mod_nat_eqI)
    then show ?thesis
      using True h'(3) nix32_put_bit [OF Suc.prems(2) i, of "d i" k] assms(1) i by auto
  next
    case False
    then show ?thesis
      using h'(3) nix32_put_bit [OF Suc.prems(2) i, of "d i" k] assms(1) i by auto
  qed
  then show ?case
    using h' assms i nix32_lookup_alphabet [of "d i"] by auto
qed

lemma bit_at_eqI: "length xs = length ys \<Longrightarrow> (\<And>k. bit_at xs k = bit_at ys k) \<Longrightarrow> xs = ys"
proof (rule nth_equalityI)
  fix p assume len: "length xs = length ys" and eq: "\<And>k. bit_at xs k = bit_at ys k" and p: "p < length xs"
  show "xs ! p = ys ! p"
  proof (rule bit_word_eqI)
    fix q assume "q < LENGTH(8)"
    then have "(8 * p + q) div 8 = p" "(8 * p + q) mod 8 = q" by simp_all
    then show "bit (xs ! p) q = bit (ys ! p) q"
      using eq [of "8 * p + q"] len p by (simp add: bit_at_def)
  qed
qed

lemma nix32_digit_less: "unat (nix32_digit data n) < 32"
proof -
  have "nix32_digit data n = take_bit 5 (nix32_digit data n)"
    by (rule bit_word_eqI) (auto simp: bit_take_bit_iff nix32_digit_bit)
  then have "unat (nix32_digit data n) = take_bit 5 (unat (nix32_digit data n))"
    by (metis unsigned_take_bit_eq)
  then show ?thesis using take_bit_nat_less_exp [of 5 "unat (nix32_digit data n)"] by simp
qed

lemma nix32_roundtrip:
  assumes "length data = 20"
  shows "nix32_to_bytes (bytes_to_nix32 data) = Inr data"
proof -
  let ?s = "bytes_to_nix32 data" and ?d = "\<lambda>i. unat (nix32_digit data i)"
  have len: "length ?s = 32" using assms by (simp add: bytes_to_nix32_def Let_def)
  have nth: "?s ! (31 - i) = nix32_alphabet ! ?d i" if "i < 32" for i
  proof -
    have "rev [0..<32] ! (31 - i) = i" using that by (simp add: rev_nth del: upt_Suc)
    moreover have "?s ! (31 - i) = nix32_alphabet ! ?d (rev [0..<32] ! (31 - i))"
      using that assms by (simp add: bytes_to_nix32_def del: upt_Suc)
    ultimately show ?thesis by metis
  qed
  obtain h where h: "nix32_loop ?s 0 32 (zeros 20) = Inr h" "length h = 20"
    "\<forall>k. bit_at h k \<longleftrightarrow> bit_at (zeros 20) k \<or> (5 * 0 \<le> k \<and> k < 160 \<and> bit (?d (k div 5)) (k mod 5))"
    using nix32_loop_decodes [of ?d ?s 0 32 "zeros 20"] nix32_digit_less nth by auto
  have "h = data"
  proof (rule bit_at_eqI)
    fix k
    have "bit_at (zeros 20) k = False" by (auto simp: bit_at_def zeros_def)
    moreover have "bit (?d (k div 5)) (k mod 5) \<longleftrightarrow> bit_at data k"
      by (simp add: bit_unsigned_iff nix32_digit_bit bit_imp_le_length)
    moreover have "bit_at data k \<Longrightarrow> k < 160" using assms by (auto simp: bit_at_def)
    ultimately show "bit_at h k = bit_at data k" using h(3) by auto
  qed (use h(2) assms in simp)
  then show ?thesis using len h(1) by (simp add: nix32_to_bytes_def)
qed

section \<open>Base64\<close>

text \<open>
  \<open>base64.StdEncoding\<close>: the decoder skips line ends anywhere, wants the input padded to whole
  groups of four and ignores the unused bits of the last digit.
\<close>

definition b64_alphabet :: string where
  "b64_alphabet = ''ABCDEFGHIJKLMNOPQRSTUVWXYZabcdefghijklmnopqrstuvwxyz0123456789+/''"

definition b64_char :: "byte \<Rightarrow> char" where
  "b64_char v = b64_alphabet ! unat v"

definition b64_value :: "char \<Rightarrow> byte option" where
  "b64_value c = map_option word_of_nat (index_of c b64_alphabet 0)"

text \<open>The four digits of three bytes; missing bytes count as 0.\<close>

definition b64_digit1 :: "byte \<Rightarrow> byte" where
  "b64_digit1 x = drop_bit 2 x"

definition b64_digit2 :: "byte \<Rightarrow> byte \<Rightarrow> byte" where
  "b64_digit2 x y = push_bit 4 (x AND 3) OR drop_bit 4 y"

definition b64_digit3 :: "byte \<Rightarrow> byte \<Rightarrow> byte" where
  "b64_digit3 y z = push_bit 2 (y AND 15) OR drop_bit 6 z"

definition b64_digit4 :: "byte \<Rightarrow> byte" where
  "b64_digit4 z = z AND 63"

fun b64_encode :: "byte list \<Rightarrow> string" where
  "b64_encode [] = []"
| "b64_encode [x] = [b64_char (b64_digit1 x), b64_char (b64_digit2 x 0), CHR ''='', CHR ''='']"
| "b64_encode [x, y] =
     [b64_char (b64_digit1 x), b64_char (b64_digit2 x y), b64_char (b64_digit3 y 0), CHR ''='']"
| "b64_encode (x # y # z # rest) =
     b64_char (b64_digit1 x) # b64_char (b64_digit2 x y) # b64_char (b64_digit3 y z) #
     b64_char (b64_digit4 z) # b64_encode rest"

definition b64_bytes :: "byte \<Rightarrow> byte \<Rightarrow> byte \<Rightarrow> byte \<Rightarrow> byte list" where
  "b64_bytes a b c d =
     [push_bit 2 a OR drop_bit 4 b, push_bit 4 b OR drop_bit 2 c, push_bit 6 c OR d]"

fun b64_groups :: "string \<Rightarrow> byte list option" where
  "b64_groups [] = Some []"
| "b64_groups (c1 # c2 # c3 # c4 # rest) =
     (if c4 = CHR ''='' \<and> rest = [] then
        (if c3 = CHR ''='' then
           do { a \<leftarrow> b64_value c1; b \<leftarrow> b64_value c2; Some (take 1 (b64_bytes a b 0 0)) }
         else do { a \<leftarrow> b64_value c1; b \<leftarrow> b64_value c2; c \<leftarrow> b64_value c3;
                   Some (take 2 (b64_bytes a b c 0)) })
      else do { a \<leftarrow> b64_value c1; b \<leftarrow> b64_value c2; c \<leftarrow> b64_value c3; d \<leftarrow> b64_value c4;
                bs \<leftarrow> b64_groups rest; Some (b64_bytes a b c d @ bs) })"
| "b64_groups _ = None"

definition b64_decode :: "string \<Rightarrow> byte list option" where
  "b64_decode s = b64_groups (filter (\<lambda>c. c \<noteq> CHR 10 \<and> c \<noteq> CHR 13) s)"

lemma b64_alphabet_table:
  "\<forall>v \<in> set [0..<64]. index_of (b64_alphabet ! v) b64_alphabet 0 = Some v \<and>
     b64_alphabet ! v \<notin> {CHR ''='', CHR 10, CHR 13}"
  by code_simp

lemma bit_small_byte: "unat (v :: byte) < 64 \<longleftrightarrow> (\<forall>r. bit v r \<longrightarrow> r < 6)"
proof
  assume "unat v < 64"
  then show "\<forall>r. bit v r \<longrightarrow> r < 6" using bit_small_nat [of "unat v" _ 6] by (auto simp: bit_unsigned_iff)
next
  assume "\<forall>r. bit v r \<longrightarrow> r < 6"
  then have "take_bit 6 v = v" by (auto intro!: bit_word_eqI simp: bit_take_bit_iff)
  then have "unat v = take_bit 6 (unat v)" by (metis unsigned_take_bit_eq)
  then show "unat v < 64" using take_bit_nat_less_exp [of 6 "unat v"] by simp
qed

lemma b64_char_props:
  assumes "unat v < 64"
  shows "b64_value (b64_char v) = Some v" and "b64_char v \<noteq> CHR ''=''"
    and "b64_char v \<noteq> CHR 10" and "b64_char v \<noteq> CHR 13"
  using assms b64_alphabet_table by (auto simp: b64_value_def b64_char_def)

lemma byte_mask_bits:
  "bit (3 :: byte) r \<longleftrightarrow> r < 2" "bit (15 :: byte) r \<longleftrightarrow> r < 4" "bit (63 :: byte) r \<longleftrightarrow> r < 6"
proof -
  have "(3 :: byte) = mask 2" "(15 :: byte) = mask 4" "(63 :: byte) = mask 6"
    by (simp_all add: mask_eq_exp_minus_1)
  then show "bit (3 :: byte) r \<longleftrightarrow> r < 2" "bit (15 :: byte) r \<longleftrightarrow> r < 4" "bit (63 :: byte) r \<longleftrightarrow> r < 6"
    by (auto simp only: bit_mask_iff) auto
qed

lemmas byte_bits = bit_or_iff bit_and_iff bit_push_bit_iff bit_drop_bit_eq comp_def byte_mask_bits

lemmas b64_digits = b64_digit1_def b64_digit2_def b64_digit3_def b64_digit4_def

lemma b64_digits_small:
  "unat (b64_digit1 x) < 64" "unat (b64_digit2 x y) < 64" "unat (b64_digit3 y z) < 64"
  "unat (b64_digit4 z) < 64"
  unfolding bit_small_byte b64_digits byte_bits by (auto dest: bit_imp_le_length)

lemma diff_back: "2 \<le> n \<Longrightarrow> Suc (Suc (n - 2)) = n" "4 \<le> n \<Longrightarrow> 4 + (n - 4) = n" "6 \<le> n \<Longrightarrow> 6 + (n - 6) = n"
  by simp_all

lemma b64_bytes_encode:
  "b64_bytes (b64_digit1 x) (b64_digit2 x y) (b64_digit3 y z) (b64_digit4 z) = [x, y, z]"
proof -
  have "push_bit 2 (b64_digit1 x) OR drop_bit 4 (b64_digit2 x y) = x"
  proof (rule bit_word_eqI)
    fix n assume "n < LENGTH(8)"
    then show "bit (push_bit 2 (b64_digit1 x) OR drop_bit 4 (b64_digit2 x y)) n = bit x n"
      unfolding b64_digits byte_bits
      by (cases "2 \<le> n") (auto simp: diff_back not_le dest: bit_imp_le_length)
  qed
  moreover have "push_bit 4 (b64_digit2 x y) OR drop_bit 2 (b64_digit3 y z) = y"
  proof (rule bit_word_eqI)
    fix n assume "n < LENGTH(8)"
    then show "bit (push_bit 4 (b64_digit2 x y) OR drop_bit 2 (b64_digit3 y z)) n = bit y n"
      unfolding b64_digits byte_bits
      by (cases "4 \<le> n") (auto simp: diff_back not_le dest: bit_imp_le_length)
  qed
  moreover have "push_bit 6 (b64_digit3 y z) OR b64_digit4 z = z"
  proof (rule bit_word_eqI)
    fix n assume "n < LENGTH(8)"
    then show "bit (push_bit 6 (b64_digit3 y z) OR b64_digit4 z) n = bit z n"
      unfolding b64_digits byte_bits
      by (cases "6 \<le> n") (auto simp: diff_back not_le dest: bit_imp_le_length)
  qed
  ultimately show ?thesis by (simp add: b64_bytes_def)
qed

lemma b64_bytes_two: "take 2 (b64_bytes (b64_digit1 x) (b64_digit2 x y) (b64_digit3 y 0) 0) = [x, y]"
  using b64_bytes_encode [of x y 0] by (simp add: b64_bytes_def)

lemma b64_bytes_one: "take 1 (b64_bytes (b64_digit1 x) (b64_digit2 x 0) 0 0) = [x]"
  using b64_bytes_encode [of x 0 0] by (simp add: b64_bytes_def)

lemma b64_groups_encode: "b64_groups (b64_encode bs) = Some bs"
  by (induction bs rule: b64_encode.induct)
    (simp_all add: b64_char_props b64_digits_small b64_bytes_encode b64_bytes_two
      b64_bytes_one [unfolded One_nat_def])

lemma b64_no_newlines: "filter (\<lambda>c. c \<noteq> CHR 10 \<and> c \<noteq> CHR 13) (b64_encode bs) = b64_encode bs"
  by (induction bs rule: b64_encode.induct) (simp_all add: b64_char_props b64_digits_small)

lemma b64_roundtrip: "b64_decode (b64_encode bs) = Some bs"
  by (simp add: b64_decode_def b64_no_newlines b64_groups_encode)

section \<open>Normal form of a NAR hash\<close>

datatype hash_error =
    BadSha256Length nat
  | BadSRI
  | BadSRILength nat
  | UnsupportedHash string

definition sha256_colon :: string where "sha256_colon = ''sha256:''"
definition sha256_dash :: string where "sha256_dash = ''sha256-''"

definition normalize_nar_hash_to_nix32 :: "string \<Rightarrow> hash_error + string" where
  "normalize_nar_hash_to_nix32 nar_hash =
     (if prefix sha256_colon nar_hash then
        let rest = drop 7 nar_hash in
        if length rest = 52 then Inr nar_hash
        else (case b64_decode rest of
            Some decoded \<Rightarrow>
              if length decoded = 32 then Inr (sha256_colon @ bytes_to_nix32 decoded)
              else Inl (BadSha256Length (length rest))
          | None \<Rightarrow> Inl (BadSha256Length (length rest)))
      else if prefix sha256_dash nar_hash then
        let b64 = drop 7 nar_hash;
            padded = (if length b64 mod 4 = 2 then b64 @ ''==''
                      else if length b64 mod 4 = 3 then b64 @ ''='' else b64)
        in (case b64_decode padded of
            None \<Rightarrow> Inl BadSRI
          | Some decoded \<Rightarrow>
              if length decoded \<noteq> 32 then Inl (BadSRILength (length decoded))
              else Inr (sha256_colon @ bytes_to_nix32 decoded))
      else Inl (UnsupportedHash nar_hash))"

section \<open>Fingerprints\<close>

text \<open>\<open>strings.Join\<close>.\<close>

fun join :: "string \<Rightarrow> string list \<Rightarrow> string" where
  "join sep [] = []"
| "join sep [s] = s"
| "join sep (s # t # ts) = s @ sep @ join sep (t # ts)"

definition make_fingerprint :: "string \<Rightarrow> string \<Rightarrow> u64 \<Rightarrow> string list \<Rightarrow> string" where
  "make_fingerprint path nar_hash nar_size refs =
     ''1;'' @ path @ '';'' @ nar_hash @ '';'' @ decimal (unat nar_size) @ '';'' @ join '','' (sort refs)"

text \<open>
  \<open>StoreSigner\<close>; \<open>ed25519.Sign\<close> is the parameter \<open>sign\<close> (the key pair is inside it).
\<close>

record store_signer =
  sg_key_name :: string
  sg_public_key :: "byte list"

definition public_key_string :: "store_signer \<Rightarrow> string" where
  "public_key_string s = sg_key_name s @ '':'' @ b64_encode (sg_public_key s)"

definition sign_path ::
  "(byte list \<Rightarrow> byte list) \<Rightarrow> store_signer \<Rightarrow> string \<Rightarrow> string \<Rightarrow> u64 \<Rightarrow> string list \<Rightarrow> hash_error + string" where
  "sign_path sign s path nar_hash nar_size refs =
     (case normalize_nar_hash_to_nix32 nar_hash of
        Inl e \<Rightarrow> Inl e
      | Inr h \<Rightarrow>
          let fp = make_fingerprint path h nar_size refs
          in Inr (sg_key_name s @ '':'' @ b64_encode (sign (bytes_of fp))))"

section \<open>Derivation output identifiers\<close>

definition store_prefix :: string where "store_prefix = ''/nix/store/''"

text \<open>A path that is just \<open>/nix/store/\<close> is left alone: the code asks for more than the prefix.\<close>

definition store_path_basename :: "string \<Rightarrow> string" where
  "store_path_basename path =
     (let idx = length store_prefix in
      if length path > idx \<and> take idx path = store_prefix then drop idx path else path)"

definition hex_digit :: "nat \<Rightarrow> char" where
  "hex_digit n = ''0123456789abcdef'' ! n"

definition hex :: "byte list \<Rightarrow> string" where
  "hex bs = concat (map (\<lambda>b. [hex_digit (unat b div 16), hex_digit (unat b mod 16)]) bs)"

datatype drv_id_error =
    BadHashPart nat
  | DecodingNix32 nix32_error

definition make_drv_output_id :: "string \<Rightarrow> string \<Rightarrow> drv_id_error + string" where
  "make_drv_output_id drv_path output_name =
     (let idx = length store_prefix;
          basename = (if length drv_path > idx \<and> take idx drv_path = store_prefix
                      then drop idx drv_path else drv_path);
          hash_part = takeWhile (\<lambda>c. c \<noteq> CHR ''-'') basename
      in if length hash_part \<noteq> 32 then Inl (BadHashPart (length hash_part))
         else (case nix32_to_bytes hash_part of
             Inl e \<Rightarrow> Inl (DecodingNix32 e)
           | Inr hash_bytes \<Rightarrow>
               Inr (''sha256:'' @ hex (take 32 (hash_bytes @ zeros (32 - length hash_bytes))) @
                    ''!'' @ output_name)))"

lemma digits_no_dash: "\<forall>v \<in> set [0..<32]. nix32_alphabet ! v \<noteq> CHR ''-''"
  by code_simp

lemma nix32_no_dash: "c \<in> set (bytes_to_nix32 data) \<Longrightarrow> c \<noteq> CHR ''-''"
  using digits_no_dash nix32_digit_less by (auto simp: bytes_to_nix32_def Let_def)

lemma length_bytes_to_nix32: "length (bytes_to_nix32 data) = (length data * 8 + 4) div 5"
  by (simp add: bytes_to_nix32_def Let_def)

lemma drv_output_id_input_addressed:
  assumes "length h = 20"
  shows "make_drv_output_id (store_prefix @ bytes_to_nix32 h @ ''-'' @ name) out =
    Inr (''sha256:'' @ hex (h @ zeros 12) @ ''!'' @ out)"
proof -
  have "takeWhile (\<lambda>c. c \<noteq> CHR ''-'') (bytes_to_nix32 h @ ''-'' @ name) = bytes_to_nix32 h"
    by (subst takeWhile_append2) (auto dest: nix32_no_dash)
  then show ?thesis
    using nix32_roundtrip [OF assms] assms
    by (simp add: make_drv_output_id_def length_bytes_to_nix32 nix32_to_bytes_def split: if_splits)
qed

section \<open>Fingerprints determine what they cover\<close>

lemma split_at: "c \<notin> set xs \<Longrightarrow> c \<notin> set ys \<Longrightarrow> xs @ c # us = ys @ c # vs \<Longrightarrow> xs = ys \<and> us = vs"
  by (induction xs arbitrary: ys) (auto simp: Cons_eq_append_conv)

lemma join_Cons: "join sep (s # ts) = s @ (if ts = [] then [] else sep @ join sep ts)"
  by (cases ts) simp_all

text \<open>A joined list of non-empty strings without the separator can be split again.\<close>

lemma join_inject:
  "(\<And>s. s \<in> set xs \<Longrightarrow> s \<noteq> [] \<and> c \<notin> set s) \<Longrightarrow> (\<And>s. s \<in> set ys \<Longrightarrow> s \<noteq> [] \<and> c \<notin> set s) \<Longrightarrow>
     join [c] xs = join [c] ys \<Longrightarrow> xs = ys"
proof (induction xs arbitrary: ys)
  case Nil
  then show ?case by (cases ys) (auto simp: join_Cons split: if_splits)
next
  case (Cons x xs)
  then obtain y ys' where ys: "ys = y # ys'" by (cases ys) (auto simp: join_Cons split: if_splits)
  have clean: "x \<noteq> []" "c \<notin> set x" "c \<notin> set y" using Cons.prems(1,2) ys by auto
  have eq: "x @ (if xs = [] then [] else c # join [c] xs) = y @ (if ys' = [] then [] else c # join [c] ys')"
    using Cons.prems(3) ys by (auto simp: join_Cons)
  show ?case
  proof (cases "xs = []")
    case True
    with eq clean have "ys' = []" by (auto split: if_splits)
    with eq True ys show ?thesis by simp
  next
    case False
    with eq clean have ne: "ys' \<noteq> []" by (auto split: if_splits)
    have "x = y \<and> join [c] xs = join [c] ys'" using split_at [OF clean(2,3)] eq False ne by simp
    moreover from this have "xs = ys'" using Cons.IH [of ys'] Cons.prems(1,2) ys by auto
    ultimately show ?thesis using ys by simp
  qed
qed

lemma sort_eq_mset: "sort xs = sort ys \<longleftrightarrow> mset xs = mset (ys :: string list)"
  by (metis mset_sort properties_for_sort sorted_sort)

lemma semicolon_free:
  "CHR '';'' \<notin> set (decimal n)"
  using decimal_digits [of "CHR '';''" n] by auto

lemma make_fingerprint_inject:
  assumes "CHR '';'' \<notin> set p" "CHR '';'' \<notin> set p'" "CHR '';'' \<notin> set h" "CHR '';'' \<notin> set h'"
    and "\<forall>r \<in> set rs \<union> set rs'. r \<noteq> [] \<and> CHR '','' \<notin> set r"
    and "make_fingerprint p h n rs = make_fingerprint p' h' n' rs'"
  shows "p = p' \<and> h = h' \<and> n = n' \<and> mset rs = mset rs'"
proof -
  have e1: "p @ CHR '';'' # (h @ CHR '';'' # (decimal (unat n) @ CHR '';'' # join '','' (sort rs))) =
      p' @ CHR '';'' # (h' @ CHR '';'' # (decimal (unat n') @ CHR '';'' # join '','' (sort rs')))"
    using assms(6) by (simp add: make_fingerprint_def)
  note s1 = split_at [OF assms(1,2) e1]
  note s2 = split_at [OF assms(3,4) conjunct2 [OF s1]]
  note s3 = split_at [OF semicolon_free semicolon_free conjunct2 [OF s2]]
  have "sort rs = sort rs'" by (rule join_inject [OF _ _ conjunct2 [OF s3]]) (use assms(5) in auto)
  then show ?thesis using s1 s2 s3 by (simp add: sort_eq_mset decimal_inject word_unat_eq_iff)
qed

section \<open>Properties of hashes and signatures\<close>

text \<open>
  \<open>nix32ToBytes\<close> inverts \<open>bytesToNix32\<close> on the 20 bytes of a store path hash, so distinct
  hashes have distinct encodings; the encoding has 32 characters, all of the alphabet.
\<close>

theorem nix32_roundtrip_20:
  assumes "length h = 20"
  shows "nix32_to_bytes (bytes_to_nix32 h) = Inr h \<and> length (bytes_to_nix32 h) = 32 \<and>
    set (bytes_to_nix32 h) \<subseteq> set nix32_alphabet"
proof (intro conjI)
  have "length nix32_alphabet = 32" by code_simp
  then show "set (bytes_to_nix32 h) \<subseteq> set nix32_alphabet"
    using nix32_digit_less by (auto simp: bytes_to_nix32_def Let_def)
qed (use assms nix32_roundtrip length_bytes_to_nix32 in auto)

lemma nix32_roundtrip_20_witness:
  "nix32_to_bytes (bytes_to_nix32 (map word_of_nat [100..<120])) = Inr (map word_of_nat [100..<120])"
  using nix32_roundtrip_20 [of "map word_of_nat [100..<120]"] by simp

text \<open>
  \<open>normalizeNarHashToNix32\<close> gives one normal form for every spelling of a SHA-256 hash: the SRI
  form with or without its padding, and base64 after \<open>sha256:\<close>, become \<open>sha256:\<close> and the 52
  characters of Nix base32, and the normal form is left as it is.
\<close>

theorem nar_hash_normal_form:
  assumes "length h = 32" and "b64_encode h = sri @ ''=''"
  shows "normalize_nar_hash_to_nix32 (''sha256-'' @ sri @ ''='') = Inr (''sha256:'' @ bytes_to_nix32 h) \<and>
    normalize_nar_hash_to_nix32 (''sha256-'' @ sri) = Inr (''sha256:'' @ bytes_to_nix32 h) \<and>
    normalize_nar_hash_to_nix32 (''sha256:'' @ sri @ ''='') = Inr (''sha256:'' @ bytes_to_nix32 h) \<and>
    normalize_nar_hash_to_nix32 (''sha256:'' @ bytes_to_nix32 h) = Inr (''sha256:'' @ bytes_to_nix32 h)"
proof -
  have len: "length (b64_encode bs) = 4 * ((length bs + 2) div 3)" for bs
    by (induction bs rule: b64_encode.induct) (simp_all, presburger)
  have l: "length sri = 43" using len [of h] assms by simp
  have d: "b64_decode (sri @ ''='') = Some h" using b64_roundtrip [of h] assms(2) by simp
  have n: "length (bytes_to_nix32 h) = 52" using assms(1) by (simp add: length_bytes_to_nix32)
  note defs = normalize_nar_hash_to_nix32_def sha256_colon_def sha256_dash_def Let_def
  show ?thesis
    using assms(1) l d n by (simp_all add: defs)
qed

lemma nar_hash_normal_form_witness:
  "normalize_nar_hash_to_nix32 ''sha256-AAAAAAAAAAAAAAAAAAAAAAAAAAAAAAAAAAAAAAAAAAA'' =
     Inr (''sha256:'' @ bytes_to_nix32 (zeros 32))"
proof -
  have "b64_encode (zeros 32) = replicate 43 CHR ''A'' @ ''=''" by code_simp
  then show ?thesis
    using nar_hash_normal_form [of "zeros 32" "replicate 43 CHR ''A''"] by (simp add: numeral_eq_Suc)
qed

text \<open>
  the fingerprint \<open>SignPath\<close> signs determines what it covers. It depends on the references only
  as a multiset (their order in the request does not matter), and two fingerprints are equal only
  if path, NAR hash, NAR size and references are: no two store objects share a signature.
\<close>

theorem fingerprint_canonical:
  assumes "CHR '';'' \<notin> set p" "CHR '';'' \<notin> set p'" "CHR '';'' \<notin> set h" "CHR '';'' \<notin> set h'"
    and "\<forall>r \<in> set rs \<union> set rs'. r \<noteq> [] \<and> CHR '','' \<notin> set r"
  shows "make_fingerprint p h n rs = make_fingerprint p' h' n' rs' \<longleftrightarrow>
    p = p' \<and> h = h' \<and> n = n' \<and> mset rs = mset rs'"
  using make_fingerprint_inject [OF assms]
  by (auto simp: make_fingerprint_def sort_eq_mset [symmetric])

lemma fingerprint_canonical_witness:
  "make_fingerprint ''/nix/store/a'' ''sha256:0'' 7 [''x'', ''y''] =
     make_fingerprint ''/nix/store/a'' ''sha256:0'' 7 [''y'', ''x'']"
  using fingerprint_canonical [of "''/nix/store/a''" "''/nix/store/a''" "''sha256:0''" "''sha256:0''"
      "[''x'', ''y'']" "[''y'', ''x'']" 7 7] by simp

text \<open>
  \<open>MakeDrvOutputID\<close> of a derivation's store path is \<open>sha256:\<close>, the hex of the path's 20 hash
  bytes filled up with zeros to 32, \<open>!\<close> and the output name; other paths give an error.
\<close>

theorem drv_output_id_of_path:
  assumes "length h = 20"
  shows "make_drv_output_id (''/nix/store/'' @ bytes_to_nix32 h @ ''-'' @ name) out =
    Inr (''sha256:'' @ hex (h @ zeros 12) @ ''!'' @ out)"
  using drv_output_id_input_addressed [OF assms, of name out] by (simp add: store_prefix_def)

lemma drv_output_id_of_path_witness:
  "make_drv_output_id (''/nix/store/'' @ bytes_to_nix32 (zeros 20) @ ''-'' @ ''hello.drv'') ''out'' =
     Inr (''sha256:'' @ hex (zeros 20 @ zeros 12) @ ''!'' @ ''out'')"
  by (rule drv_output_id_of_path) simp

end
