(* ===== verification/Nix_Derivation.thy ===== *)
theory Nix_Derivation
  imports Nix_Hash "HOL-Library.AList"
begin

text \<open>
  Derivations and build results (\<open>nixproto/derivation.go\<close>): their records, their readers and
  writers by protocol version, and the ATerm text that a derivation's hash covers. A Go map is a
  list of pairs with distinct keys, in the order in which a \<open>range\<close> loop may enumerate it; storing
  under a key is \<open>AList.update\<close>.
\<close>

section \<open>Derivations\<close>

record nix_output =
  no_path :: string
  no_hash_algo :: string
  no_hash :: string

record basic_derivation =
  bd_outputs :: "(string \<times> nix_output) list"
  bd_input_srcs :: "string list"
  bd_platform :: string
  bd_builder :: string
  bd_args :: "string list"
  bd_env :: "(string \<times> string) list"

definition read_derivation_output :: "nix_output reader" where
  "read_derivation_output =
     andThen (wrap ''reading output path'' read_string) (\<lambda>path.
     andThen (wrap ''reading hash algo'' read_string) (\<lambda>hash_algo.
     andThen (wrap ''reading hash'' read_string) (\<lambda>hash.
     succeed \<lparr>no_path = path, no_hash_algo = hash_algo, no_hash = hash\<rparr>)))"

definition write_derivation_output :: "nix_output \<Rightarrow> writer" where
  "write_derivation_output out =
     andThen (write_string (no_path out)) (\<lambda>_.
     andThen (write_string (no_hash_algo out)) (\<lambda>_.
     write_string (no_hash out)))"

text \<open>A loop that reads \<open>k\<close> entries and stores each in the map as it comes.\<close>

fun read_into :: "nat \<Rightarrow> ('k \<times> 'v) reader \<Rightarrow> ('k \<times> 'v) list \<Rightarrow> ('k \<times> 'v) list reader" where
  "read_into 0 r m = succeed m"
| "read_into (Suc k) r m = andThen r (\<lambda>(key, v). read_into k r (AList.update key v m))"

definition read_named_output :: "(string \<times> nix_output) reader" where
  "read_named_output =
     andThen (wrap ''reading output name'' read_string) (\<lambda>name.
     andThen (wrap (''reading output '' @ name) read_derivation_output) (\<lambda>output.
     succeed (name, output)))"

definition read_env_entry :: "(string \<times> string) reader" where
  "read_env_entry =
     andThen (wrap ''reading env key'' read_string) (\<lambda>key.
     andThen (wrap ''reading env value'' read_string) (\<lambda>val.
     succeed (key, val)))"

definition read_basic_derivation :: "basic_derivation reader" where
  "read_basic_derivation =
     andThen (wrap ''reading output count'' read_uint64) (\<lambda>output_count.
     andThen (read_into (unat output_count) read_named_output []) (\<lambda>outputs.
     andThen (wrap ''reading input sources'' read_strings) (\<lambda>input_srcs.
     andThen (wrap ''reading platform'' read_string) (\<lambda>platform.
     andThen (wrap ''reading builder'' read_string) (\<lambda>builder.
     andThen (wrap ''reading args'' read_strings) (\<lambda>args.
     andThen (wrap ''reading env count'' read_uint64) (\<lambda>env_count.
     andThen (read_into (unat env_count) read_env_entry []) (\<lambda>env.
     succeed \<lparr>bd_outputs = outputs, bd_input_srcs = input_srcs, bd_platform = platform,
       bd_builder = builder, bd_args = args, bd_env = env\<rparr>))))))))"

definition write_basic_derivation :: "basic_derivation \<Rightarrow> writer" where
  "write_basic_derivation drv =
     andThen (write_uint64 (of_nat (length (bd_outputs drv)))) (\<lambda>_.
     andThen (run_all (map (\<lambda>(name, output).
        andThen (write_string name) (\<lambda>_. write_derivation_output output)) (bd_outputs drv))) (\<lambda>_.
     andThen (write_strings (bd_input_srcs drv)) (\<lambda>_.
     andThen (write_string (bd_platform drv)) (\<lambda>_.
     andThen (write_string (bd_builder drv)) (\<lambda>_.
     andThen (write_strings (bd_args drv)) (\<lambda>_.
     andThen (write_uint64 (of_nat (length (bd_env drv)))) (\<lambda>_.
     run_all (map (\<lambda>(k, v). andThen (write_string k) (\<lambda>_. write_string v)) (bd_env drv)))))))))"

section \<open>The derivation format\<close>

definition wire_output :: "nix_output \<Rightarrow> byte list" where
  "wire_output out = wire_string (no_path out) @ wire_string (no_hash_algo out) @ wire_string (no_hash out)"

definition short_output :: "nix_output \<Rightarrow> bool" where
  "short_output out \<longleftrightarrow> short_string (no_path out) \<and> short_string (no_hash_algo out) \<and> short_string (no_hash out)"

definition wire_named_output :: "string \<times> nix_output \<Rightarrow> byte list" where
  "wire_named_output no = wire_string (fst no) @ wire_output (snd no)"

definition wire_derivation :: "basic_derivation \<Rightarrow> byte list" where
  "wire_derivation drv =
     wire_u64 (of_nat (length (bd_outputs drv))) @ concat (map wire_named_output (bd_outputs drv)) @
     wire_strings (bd_input_srcs drv) @ wire_string (bd_platform drv) @ wire_string (bd_builder drv) @
     wire_strings (bd_args drv) @
     wire_u64 (of_nat (length (bd_env drv))) @ concat (map wire_entry (bd_env drv))"

definition short_derivation :: "basic_derivation \<Rightarrow> bool" where
  "short_derivation drv \<longleftrightarrow>
     length (bd_outputs drv) < 2 ^ 64 \<and> distinct (map fst (bd_outputs drv)) \<and>
     (\<forall>(name, out) \<in> set (bd_outputs drv). short_string name \<and> short_output out) \<and>
     short_strings (bd_input_srcs drv) \<and> short_string (bd_platform drv) \<and> short_string (bd_builder drv) \<and>
     short_strings (bd_args drv) \<and>
     length (bd_env drv) < 2 ^ 64 \<and> distinct (map fst (bd_env drv)) \<and>
     (\<forall>(k, v) \<in> set (bd_env drv). short_string k \<and> short_string v)"

lemma decodes_andThen_wrap:
  "decodes r bs v \<Longrightarrow> decodes (f v) cs w \<Longrightarrow> decodes (andThen (wrap msg r) f) (bs @ cs) w"
  by (intro decodes_andThen decodes_wrap)

lemma decodes_last: "decodes r bs v \<Longrightarrow> decodes (f v) [] w \<Longrightarrow> decodes (andThen r f) bs w"
  using decodes_andThen [of r bs v f "[]" w] by simp

lemma decodes_succeedI: "v = w \<Longrightarrow> decodes (succeed v) [] w"
  by (simp add: decodes_succeed)

text \<open>The rules that follow a sequence of readers along the bytes, field by field.\<close>

lemmas follow = decodes_u64 decodes_bool decodes_string decodes_strings decodes_andThen_wrap decodes_wrap
  decodes_succeedI decodes_last

lemma update_fresh: "k \<notin> fst ` set m \<Longrightarrow> AList.update k v m = m @ [(k, v)]"
  by (induction m) auto

lemma decodes_read_into:
  "(\<And>kv. kv \<in> set kvs \<Longrightarrow> decodes r (g kv) kv) \<Longrightarrow> distinct (map fst (m @ kvs)) \<Longrightarrow>
     decodes (read_into (length kvs) r m) (concat (map g kvs)) (m @ kvs)"
proof (induction kvs arbitrary: m)
  case Nil
  then show ?case by (simp add: decodes_succeed)
next
  case (Cons kv kvs)
  obtain k v where kv: "kv = (k, v)" by (cases kv)
  have up: "AList.update k v m = m @ [(k, v)]" using Cons.prems(2) kv by (intro update_fresh) auto
  have "decodes (read_into (length kvs) r (m @ [(k, v)])) (concat (map g kvs)) ((m @ [(k, v)]) @ kvs)"
    using Cons.prems kv by (intro Cons.IH) auto
  then have "decodes (andThen r (\<lambda>(key, v). read_into (length kvs) r (AList.update key v m)))
      (g kv @ concat (map g kvs)) (m @ kv # kvs)"
    using Cons.prems(1) kv up by (intro decodes_andThen [of r "g kv" kv]) auto
  then show ?case by simp
qed

lemma decodes_output: "short_output out \<Longrightarrow> decodes read_derivation_output (wire_output out) out"
  unfolding read_derivation_output_def wire_output_def short_output_def
  by (rule follow | simp)+

lemma emits_output: "emits (write_derivation_output out) (wire_output out)"
  unfolding write_derivation_output_def wire_output_def by (intro emits_andThen emits_string)

interpretation wf_output: wire_format write_derivation_output read_derivation_output wire_output short_output
  by unfold_locales (auto intro: emits_output decodes_output)

lemma decodes_named_output:
  "(\<lambda>(name, out). short_string name \<and> short_output out) no \<Longrightarrow>
     decodes read_named_output (wire_named_output no) no"
  unfolding read_named_output_def wire_named_output_def
  by (rule wf_output.reads follow | auto split: prod.splits)+

lemma decodes_env_entry:
  "(\<lambda>(k, v). short_string k \<and> short_string v) kv \<Longrightarrow> decodes read_env_entry (wire_entry kv) kv"
  unfolding read_env_entry_def wire_entry_def
  by (rule follow | auto split: prod.splits)+

lemma emits_named_output:
  "emits ((\<lambda>(name, output). andThen (write_string name) (\<lambda>_. write_derivation_output output)) no)
     (wire_named_output no)"
  by (cases no) (auto simp: wire_named_output_def intro!: emits_andThen emits_string emits_output)

lemma emits_derivation: "emits (write_basic_derivation drv) (wire_derivation drv)"
  unfolding write_basic_derivation_def wire_derivation_def
  by (intro emits_andThen emits_u64 emits_strings emits_string emits_run_all emits_named_output
      wf_entry.writes)

lemma decodes_derivation: "short_derivation drv \<Longrightarrow> decodes read_basic_derivation (wire_derivation drv) drv"
proof -
  assume ok: "short_derivation drv"
  have outs: "decodes (read_into (unat (of_nat (length (bd_outputs drv)) :: u64)) read_named_output [])
      (concat (map wire_named_output (bd_outputs drv))) (bd_outputs drv)"
    using ok decodes_read_into [of "bd_outputs drv" read_named_output wire_named_output "[]"]
    by (auto simp: short_derivation_def unat_of_nat intro!: decodes_named_output)
  have env: "decodes (read_into (unat (of_nat (length (bd_env drv)) :: u64)) read_env_entry [])
      (concat (map wire_entry (bd_env drv))) (bd_env drv)"
    using ok decodes_read_into [of "bd_env drv" read_env_entry wire_entry "[]"]
    by (auto simp: short_derivation_def unat_of_nat intro!: decodes_env_entry)
  show ?thesis
    unfolding read_basic_derivation_def wire_derivation_def
    by (rule decodes_andThen [OF outs] decodes_last [OF env] follow
        | use ok in \<open>simp add: short_derivation_def\<close>)+
qed

interpretation wf_derivation:
  wire_format write_basic_derivation read_basic_derivation wire_derivation short_derivation
  by unfold_locales (auto intro: emits_derivation decodes_derivation)

section \<open>Build results\<close>

text \<open>
  \<open>BuildResultStatus\<close> is a \<open>uint64\<close> with fifteen named values; nil and empty slices and maps are
  not told apart. The JSON text of a realisation, written by \<open>json.Marshal\<close> and read by
  \<open>json.Unmarshal\<close>, is a pair of parameters \<open>to_json\<close> and \<open>of_json\<close>.
\<close>

definition build_result_built :: u64 where "build_result_built = 0"
definition build_result_permanent_failure :: u64 where "build_result_permanent_failure = 3"
definition build_result_misc_failure :: u64 where "build_result_misc_failure = 9"

record realisation =
  rl_id :: string
  rl_out_path :: string
  rl_signatures :: "string list"
  rl_dependent :: "(string \<times> string) list"

record build_result =
  br_status :: u64
  br_error_msg :: string
  br_times_built :: u64
  br_is_non_deterministic :: bool
  br_start_time :: u64
  br_stop_time :: u64
  br_cpu_user :: "u64 option"
  br_cpu_system :: "u64 option"
  br_built_outputs :: "(string \<times> realisation) list"

definition minor_of :: "u64 \<Rightarrow> u64" where
  "minor_of version = and version 0xff"

definition read_opt_micros :: "string \<Rightarrow> u64 option reader" where
  "read_opt_micros what =
     andThen (wrap (''reading '' @ what @ '' tag'') read_uint64) (\<lambda>tag.
     if tag \<noteq> 0 then
       andThen (wrap (''reading '' @ what @ '' value'') read_uint64) (\<lambda>val. succeed (Some val))
     else succeed None)"

definition read_realisation_entry ::
  "(string \<Rightarrow> realisation option) \<Rightarrow> (string \<times> realisation) reader" where
  "read_realisation_entry of_json =
     andThen (wrap ''reading realisation id'' read_string) (\<lambda>ident.
     andThen (wrap ''reading realisation JSON'' read_string) (\<lambda>json.
     case of_json json of
       None \<Rightarrow> throw (Failed ''unmarshaling realisation JSON'')
     | Some real \<Rightarrow> succeed (ident, real)))"

text \<open>A field that only some minor versions carry; otherwise it keeps its zero value.\<close>

definition when_minor :: "bool \<Rightarrow> 'a \<Rightarrow> 'a reader \<Rightarrow> 'a reader" where
  "when_minor b dflt r = (if b then r else succeed dflt)"

definition read_build_result :: "(string \<Rightarrow> realisation option) \<Rightarrow> u64 \<Rightarrow> build_result reader" where
  "read_build_result of_json version =
     (let minor = minor_of version in
     andThen (wrap ''reading status'' read_uint64) (\<lambda>status.
     andThen (wrap ''reading error msg'' read_string) (\<lambda>error_msg.
     andThen (when_minor (minor \<ge> 29) 0 (wrap ''reading timesBuilt'' read_uint64)) (\<lambda>times_built.
     andThen (when_minor (minor \<ge> 29) False (wrap ''reading isNonDeterministic'' read_bool)) (\<lambda>non_det.
     andThen (when_minor (minor \<ge> 37) 0 (wrap ''reading startTime'' read_uint64)) (\<lambda>start.
     andThen (when_minor (minor \<ge> 37) 0 (wrap ''reading stopTime'' read_uint64)) (\<lambda>stop.
     andThen (when_minor (minor \<ge> 37) None (read_opt_micros ''cpuUser'')) (\<lambda>cpu_user.
     andThen (when_minor (minor \<ge> 37) None (read_opt_micros ''cpuSystem'')) (\<lambda>cpu_system.
     andThen (when_minor (minor \<ge> 28) []
        (andThen (wrap ''reading builtOutputs count'' read_uint64) (\<lambda>count.
         read_into (unat count) (read_realisation_entry of_json) []))) (\<lambda>outputs.
     succeed \<lparr>br_status = status, br_error_msg = error_msg, br_times_built = times_built,
       br_is_non_deterministic = non_det, br_start_time = start, br_stop_time = stop,
       br_cpu_user = cpu_user, br_cpu_system = cpu_system, br_built_outputs = outputs\<rparr>))))))))))"

definition write_opt_micros :: "u64 option \<Rightarrow> writer" where
  "write_opt_micros v = (case v of
     Some x \<Rightarrow> andThen (write_uint64 1) (\<lambda>_. write_uint64 x)
   | None \<Rightarrow> write_uint64 0)"

definition write_build_result :: "(realisation \<Rightarrow> string) \<Rightarrow> build_result \<Rightarrow> u64 \<Rightarrow> writer" where
  "write_build_result to_json r version =
     (let minor = minor_of version in
     andThen (write_uint64 (br_status r)) (\<lambda>_.
     andThen (write_string (br_error_msg r)) (\<lambda>_.
     andThen (if minor \<ge> 29 then
        andThen (write_uint64 (br_times_built r)) (\<lambda>_. write_bool (br_is_non_deterministic r))
        else succeed ()) (\<lambda>_.
     andThen (if minor \<ge> 37 then
        andThen (write_uint64 (br_start_time r)) (\<lambda>_. write_uint64 (br_stop_time r))
        else succeed ()) (\<lambda>_.
     andThen (if minor \<ge> 37 then
        andThen (write_opt_micros (br_cpu_user r)) (\<lambda>_. write_opt_micros (br_cpu_system r))
        else succeed ()) (\<lambda>_.
     if minor \<ge> 28 then
       andThen (write_uint64 (of_nat (length (br_built_outputs r)))) (\<lambda>_.
       run_all (map (\<lambda>(ident, real).
         andThen (write_string ident) (\<lambda>_. write_string (to_json real))) (br_built_outputs r)))
     else succeed ()))))))"

text \<open>The bytes, and what is left of a result after it went through a given protocol version.\<close>

definition wire_opt :: "u64 option \<Rightarrow> byte list" where
  "wire_opt v = (case v of Some x \<Rightarrow> wire_u64 1 @ wire_u64 x | None \<Rightarrow> wire_u64 0)"

definition wire_realisation :: "(realisation \<Rightarrow> string) \<Rightarrow> string \<times> realisation \<Rightarrow> byte list" where
  "wire_realisation to_json ir = wire_string (fst ir) @ wire_string (to_json (snd ir))"

definition wire_build_result :: "(realisation \<Rightarrow> string) \<Rightarrow> u64 \<Rightarrow> build_result \<Rightarrow> byte list" where
  "wire_build_result to_json version r = (let minor = minor_of version in
     wire_u64 (br_status r) @ wire_string (br_error_msg r) @
     (if minor \<ge> 29 then wire_u64 (br_times_built r) else []) @
     (if minor \<ge> 29 then wire_u64 (if br_is_non_deterministic r then 1 else 0) else []) @
     (if minor \<ge> 37 then wire_u64 (br_start_time r) else []) @
     (if minor \<ge> 37 then wire_u64 (br_stop_time r) else []) @
     (if minor \<ge> 37 then wire_opt (br_cpu_user r) else []) @
     (if minor \<ge> 37 then wire_opt (br_cpu_system r) else []) @
     (if minor \<ge> 28 then wire_u64 (of_nat (length (br_built_outputs r))) @
        concat (map (wire_realisation to_json) (br_built_outputs r)) else []))"

definition carried :: "u64 \<Rightarrow> build_result \<Rightarrow> build_result" where
  "carried version r = (let minor = minor_of version in
     \<lparr>br_status = br_status r, br_error_msg = br_error_msg r,
      br_times_built = (if minor \<ge> 29 then br_times_built r else 0),
      br_is_non_deterministic = (if minor \<ge> 29 then br_is_non_deterministic r else False),
      br_start_time = (if minor \<ge> 37 then br_start_time r else 0),
      br_stop_time = (if minor \<ge> 37 then br_stop_time r else 0),
      br_cpu_user = (if minor \<ge> 37 then br_cpu_user r else None),
      br_cpu_system = (if minor \<ge> 37 then br_cpu_system r else None),
      br_built_outputs = (if minor \<ge> 28 then br_built_outputs r else [])\<rparr>)"

definition short_result :: "(realisation \<Rightarrow> string) \<Rightarrow> build_result \<Rightarrow> bool" where
  "short_result to_json r \<longleftrightarrow> short_string (br_error_msg r) \<and>
     length (br_built_outputs r) < 2 ^ 64 \<and> distinct (map fst (br_built_outputs r)) \<and>
     (\<forall>(i, real) \<in> set (br_built_outputs r). short_string i \<and> short_string (to_json real))"

lemma emits_when: "emits w bs \<Longrightarrow> emits (if b then w else succeed ()) (if b then bs else [])"
  by (simp add: emits_succeed)

lemma decodes_when:
  "(b \<Longrightarrow> decodes r bs v) \<Longrightarrow>
     decodes (when_minor b d r) (if b then bs else []) (if b then v else d)"
  by (simp add: when_minor_def decodes_succeed)

lemma emits_opt: "emits (write_opt_micros v) (wire_opt v)"
  by (cases v) (auto simp: write_opt_micros_def wire_opt_def intro: emits_andThen emits_u64)

lemma decodes_opt: "decodes (read_opt_micros what) (wire_opt v) v"
proof (cases v)
  case None
  have "decodes (read_opt_micros what) (wire_u64 0) None"
    unfolding read_opt_micros_def
    by (rule decodes_last [OF decodes_wrap [OF decodes_u64]]) (simp add: decodes_succeed)
  with None show ?thesis by (simp add: wire_opt_def)
next
  case (Some x)
  have v: "decodes (andThen (wrap msg read_uint64) (\<lambda>val. succeed (Some val))) (wire_u64 x) (Some x)" for msg
    by (rule decodes_last [OF decodes_wrap [OF decodes_u64]]) (rule decodes_succeed)
  have "decodes (read_opt_micros what) (wire_u64 1 @ wire_u64 x) (Some x)"
    unfolding read_opt_micros_def by (rule decodes_andThen_wrap [OF decodes_u64]) (simp add: v)
  with Some show ?thesis by (simp add: wire_opt_def)
qed

lemma emits_build_result: "emits (write_build_result to_json r v) (wire_build_result to_json v r)"
proof -
  have pair: "emits ((\<lambda>(ident, real). andThen (write_string ident) (\<lambda>_. write_string (to_json real))) ir)
      (wire_realisation to_json ir)" for ir
    by (cases ir) (auto simp: wire_realisation_def intro!: emits_andThen emits_string)
  have split2: "(if b then xs @ ys else []) = (if b then xs else []) @ (if b then ys else [])"
    for b and xs ys :: "byte list" by simp
  have "emits (write_build_result to_json r v)
     (wire_u64 (br_status r) @ wire_string (br_error_msg r) @
     (if minor_of v \<ge> 29 then wire_u64 (br_times_built r) @
        wire_u64 (if br_is_non_deterministic r then 1 else 0) else []) @
     (if minor_of v \<ge> 37 then wire_u64 (br_start_time r) @ wire_u64 (br_stop_time r) else []) @
     (if minor_of v \<ge> 37 then wire_opt (br_cpu_user r) @ wire_opt (br_cpu_system r) else []) @
     (if minor_of v \<ge> 28 then wire_u64 (of_nat (length (br_built_outputs r))) @
        concat (map (wire_realisation to_json) (br_built_outputs r)) else []))"
    unfolding write_build_result_def Let_def
    by (intro emits_andThen emits_when emits_u64 emits_string emits_bool emits_opt emits_run_all pair)
  then show ?thesis unfolding wire_build_result_def Let_def by (simp only: split2 append_assoc)
qed

lemma decodes_realisation_entry:
  assumes "short_string (fst ir)" and "short_string (to_json (snd ir))"
    and "of_json (to_json (snd ir)) = Some (snd ir)"
  shows "decodes (read_realisation_entry of_json) (wire_realisation to_json ir) ir"
proof -
  have "decodes (andThen (wrap msg read_string) (\<lambda>json. case of_json json of
        None \<Rightarrow> throw (Failed e) | Some real \<Rightarrow> succeed (fst ir, real))) (wire_string (to_json (snd ir))) ir"
    for msg e
    by (rule decodes_last [OF decodes_wrap [OF decodes_string [OF assms(2)]]])
      (simp add: assms(3) decodes_succeed)
  then show ?thesis
    unfolding read_realisation_entry_def wire_realisation_def
    by (rule decodes_andThen_wrap [OF decodes_string [OF assms(1)]])
qed

lemma decodes_build_result:
  assumes ok: "short_result to_json r"
    and json: "\<And>i real. (i, real) \<in> set (br_built_outputs r) \<Longrightarrow> of_json (to_json real) = Some real"
  shows "decodes (read_build_result of_json v) (wire_build_result to_json v r) (carried v r)"
proof -
  have entries: "decodes (read_into (length (br_built_outputs r)) (read_realisation_entry of_json) [])
      (concat (map (wire_realisation to_json) (br_built_outputs r))) ([] @ br_built_outputs r)"
    using ok json by (intro decodes_read_into decodes_realisation_entry) (auto simp: short_result_def)
  have n: "unat (of_nat (length (br_built_outputs r)) :: u64) = length (br_built_outputs r)"
    using ok by (simp add: short_result_def unat_of_nat)
  have outs: "decodes (andThen (wrap msg read_uint64) (\<lambda>count.
        read_into (unat count) (read_realisation_entry of_json) []))
      (wire_u64 (of_nat (length (br_built_outputs r))) @
       concat (map (wire_realisation to_json) (br_built_outputs r))) (br_built_outputs r)" for msg
    by (rule decodes_andThen_wrap [OF decodes_u64]) (use n entries in simp)
  have msg: "short_string (br_error_msg r)" using ok by (simp add: short_result_def)
  note fields = decodes_wrap [OF decodes_u64] decodes_wrap [OF decodes_bool] decodes_opt outs
  show ?thesis
    unfolding read_build_result_def wire_build_result_def Let_def
    by (rule decodes_andThen_wrap decodes_u64 decodes_string [OF msg]
        decodes_andThen [OF decodes_when] decodes_last [OF decodes_when] fields decodes_succeedI
        | simp add: carried_def)+
qed

section \<open>ATerm text\<close>

text \<open>
  \<open>for _, c := range s\<close> decodes UTF-8: \<open>rune_len s\<close> is the number of bytes of the well-formed
  sequence at the front of \<open>s\<close>, or \<open>None\<close> when there is none; then the loop sees U+FFFD and goes
  on after one byte.
\<close>

definition cont :: "char \<Rightarrow> nat \<Rightarrow> nat \<Rightarrow> bool" where
  "cont c lo hi \<longleftrightarrow> lo \<le> (of_char c :: nat) \<and> (of_char c :: nat) \<le> hi"

fun rune_len :: "string \<Rightarrow> nat option" where
  "rune_len [] = None"
| "rune_len (c # s) =
     (if cont c 0 0x7F then Some 1
      else if cont c 0xC2 0xDF then
        (case s of d # _ \<Rightarrow> if cont d 0x80 0xBF then Some 2 else None | _ \<Rightarrow> None)
      else if cont c 0xE0 0xEF then
        (case s of d # e # _ \<Rightarrow>
           if cont d (if c = CHR 0xE0 then 0xA0 else 0x80) (if c = CHR 0xED then 0x9F else 0xBF) \<and> cont e 0x80 0xBF
           then Some 3 else None
         | _ \<Rightarrow> None)
      else if cont c 0xF0 0xF4 then
        (case s of d # e # f # _ \<Rightarrow>
           if cont d (if c = CHR 0xF0 then 0x90 else 0x80) (if c = CHR 0xF4 then 0x8F else 0xBF) \<and>
              cont e 0x80 0xBF \<and> cont f 0x80 0xBF
           then Some 4 else None
         | _ \<Rightarrow> None)
      else None)"

definition replacement :: string where
  "replacement = [CHR 0xEF, CHR 0xBF, CHR 0xBD]"

definition escape_rune :: "string \<Rightarrow> string" where
  "escape_rune r =
     (if r = [CHR 92] then [CHR 92, CHR 92]
      else if r = [CHR 34] then [CHR 92, CHR 34]
      else if r = [CHR 10] then [CHR 92, CHR ''n'']
      else if r = [CHR 13] then [CHR 92, CHR ''r'']
      else if r = [CHR 9] then [CHR 92, CHR ''t'']
      else r)"

text \<open>\<open>skip\<close> bytes of the current rune are still to be passed over.\<close>

fun at_escape :: "nat \<Rightarrow> string \<Rightarrow> string" where
  "at_escape skip [] = []"
| "at_escape (Suc k) (c # s) = at_escape k s"
| "at_escape 0 (c # s) = (case rune_len (c # s) of
     Some n \<Rightarrow> escape_rune (take n (c # s)) @ at_escape (n - 1) s
   | None \<Rightarrow> replacement @ at_escape 0 s)"

definition at_string :: "string \<Rightarrow> string" where
  "at_string s = [CHR 34] @ at_escape 0 s @ [CHR 34]"

definition serialize_to_aterm :: "basic_derivation \<Rightarrow> string" where
  "serialize_to_aterm drv =
     (let names = sort (map fst (bd_outputs drv));
          output = (\<lambda>name. case map_of (bd_outputs drv) name of
             Some out \<Rightarrow> ''('' @ at_string name @ '','' @ at_string (no_path out) @ '','' @
                        at_string (no_hash_algo out) @ '','' @ at_string (no_hash out) @ '')''
           | None \<Rightarrow> []);
          keys = sort (map fst (bd_env drv));
          entry = (\<lambda>k. case map_of (bd_env drv) k of
             Some v \<Rightarrow> ''('' @ at_string k @ '','' @ at_string v @ '')'' | None \<Rightarrow> [])
      in ''Derive(['' @ join '','' (map output names) @ ''],['' @ ''],['' @
         join '','' (map at_string (sort (bd_input_srcs drv))) @ ''],'' @
         at_string (bd_platform drv) @ '','' @ at_string (bd_builder drv) @ '',['' @
         join '','' (map at_string (bd_args drv)) @ ''],['' @
         join '','' (map entry keys) @ ''])'')"

text \<open>\<open>ComputeDerivationHash\<close>; SHA-256 is the parameter \<open>sha256\<close>.\<close>

definition compute_derivation_hash :: "(byte list \<Rightarrow> byte list) \<Rightarrow> basic_derivation \<Rightarrow> string" where
  "compute_derivation_hash sha256 drv = hex (sha256 (bytes_of (serialize_to_aterm drv)))"

section \<open>Reading ATerm strings\<close>

text \<open>
  The inverse of \<open>writeATString\<close> (the program has none): the content after the opening quote, up
  to the first quote that is not escaped, and what follows it.
\<close>

fun at_parse :: "string \<Rightarrow> (string \<times> string) option" where
  "at_parse [] = None"
| "at_parse (c # s) =
     (if c = CHR 34 then Some ([], s)
      else if c = CHR 92 then
        (case s of [] \<Rightarrow> None
         | d # t \<Rightarrow> do { (v, rest) \<leftarrow> at_parse t;
             Some ((if d = CHR ''n'' then CHR 10 else if d = CHR ''r'' then CHR 13
                    else if d = CHR ''t'' then CHR 9 else d) # v, rest) })
      else do { (v, rest) \<leftarrow> at_parse s; Some (c # v, rest) })"

text \<open>\<open>valid_utf8 n s\<close>: after \<open>n\<close> bytes of the current rune, \<open>s\<close> is a sequence of well-formed runes.\<close>

fun valid_utf8 :: "nat \<Rightarrow> string \<Rightarrow> bool" where
  "valid_utf8 n [] \<longleftrightarrow> n = 0"
| "valid_utf8 (Suc k) (c # s) \<longleftrightarrow> valid_utf8 k s"
| "valid_utf8 0 (c # s) \<longleftrightarrow> (case rune_len (c # s) of Some n \<Rightarrow> valid_utf8 (n - 1) s | None \<Rightarrow> False)"

definition plain :: "char \<Rightarrow> bool" where
  "plain c \<longleftrightarrow> c \<noteq> CHR 34 \<and> c \<noteq> CHR 92"

lemma at_parse_plain:
  "\<forall>c \<in> set r. plain c \<Longrightarrow> at_parse (r @ t) = (case at_parse t of None \<Rightarrow> None | Some (v, rest) \<Rightarrow> Some (r @ v, rest))"
  by (induction r) (auto simp: plain_def split: option.splits)

lemma rune_len_cases:
  assumes "rune_len (c # s) = Some n"
  obtains "n = 1" "cont c 0 0x7F"
  | d t where "n = 2" "s = d # t" "cont c 0xC2 0xDF" "cont d 0x80 0xBF"
  | d e t where "n = 3" "s = d # e # t" "cont c 0xE0 0xEF" "cont d 0x80 0xBF" "cont e 0x80 0xBF"
  | d e f t where "n = 4" "s = d # e # f # t" "cont c 0xF0 0xF4" "cont d 0x80 0xBF" "cont e 0x80 0xBF" "cont f 0x80 0xBF"
  using assms by (auto simp: cont_def split: if_splits list.splits)

lemma cont_high: "cont c lo hi \<Longrightarrow> 0x80 \<le> lo \<Longrightarrow> plain c"
  by (auto simp: cont_def plain_def)

lemma escape_rune_multi: "1 < length r \<Longrightarrow> escape_rune r = r"
  by (auto simp: escape_rune_def)

lemma at_parse_multi:
  "\<forall>x \<in> set r. plain x \<Longrightarrow> 1 < length r \<Longrightarrow> at_parse (escape_rune r @ t) =
     (case at_parse t of None \<Rightarrow> None | Some (v, rest) \<Rightarrow> Some (r @ v, rest))"
  by (simp add: escape_rune_multi at_parse_plain)

lemma at_parse_escape1:
  "at_parse (escape_rune [c] @ t) = (case at_parse t of None \<Rightarrow> None | Some (v, rest) \<Rightarrow> Some (c # v, rest))"
  by (auto simp: escape_rune_def split: option.splits)

lemma at_parse_escape_rune:
  assumes "rune_len (c # s) = Some n"
  shows "n \<le> length (c # s) \<and> 1 \<le> n \<and>
    at_parse (escape_rune (take n (c # s)) @ t) =
      (case at_parse t of None \<Rightarrow> None | Some (v, rest) \<Rightarrow> Some (take n (c # s) @ v, rest))"
  using assms
proof (cases rule: rune_len_cases)
  case 1
  then show ?thesis using at_parse_escape1 [of c t] by (simp split: option.splits)
next
  case (2 d u)
  then have "plain c" "plain d" by (auto dest: cont_high)
  then have "\<forall>x \<in> set (take n (c # s)). plain x" "1 < length (take n (c # s))" using 2 by auto
  note parse = at_parse_multi [OF this, of t]
  show ?thesis using 2 by (intro conjI parse) simp_all
next
  case (3 d e u)
  then have "plain c" "plain d" "plain e" by (auto dest: cont_high)
  then have "\<forall>x \<in> set (take n (c # s)). plain x" "1 < length (take n (c # s))" using 3 by auto
  note parse = at_parse_multi [OF this, of t]
  show ?thesis using 3 by (intro conjI parse) simp_all
next
  case (4 d e f u)
  then have "plain c" "plain d" "plain e" "plain f" by (auto dest: cont_high)
  then have "\<forall>x \<in> set (take n (c # s)). plain x" "1 < length (take n (c # s))" using 4 by auto
  note parse = at_parse_multi [OF this, of t]
  show ?thesis using 4 by (intro conjI parse) simp_all
qed

lemma at_parse_at_escape:
  "valid_utf8 n s \<Longrightarrow> at_parse (at_escape n s @ CHR 34 # rest) = Some (drop n s, rest)"
proof (induction n s rule: at_escape.induct)
  case (3 c s)
  then obtain n where n: "rune_len (c # s) = Some n" "valid_utf8 (n - 1) s"
    by (auto split: option.splits)
  note r = at_parse_escape_rune [OF n(1), of "at_escape (n - 1) s @ CHR 34 # rest"]
  have "take n (c # s) @ drop (n - 1) s = c # s" using r by (cases n) auto
  then show ?case using 3 n r by simp
qed simp_all

section \<open>Properties of derivations and results\<close>

lemma map_of_mset:
  assumes "distinct (map fst xs)" and "mset xs = mset ys"
  shows "map_of xs = map_of ys"
proof -
  have "mset (map fst xs) = mset (map fst ys)" using assms(2) by (metis mset_map)
  then have "distinct (map fst ys)" using assms(1) mset_eq_imp_distinct_iff by blast
  then show ?thesis using assms mset_eq_setD [OF assms(2)] map_of_inject_set [of xs ys] by blast
qed

text \<open>
  C32: a derivation survives the wire. Whatever order the maps are enumerated in, \<open>WriteBasicDerivation\<close>
  emits bytes from which \<open>ReadBasicDerivation\<close> returns the same derivation, consuming exactly them;
  a stream cut anywhere inside gives an error, never a derivation with missing fields.
\<close>

theorem derivation_roundtrip:
  assumes "short_derivation drv"
  shows "\<exists>bs. write_basic_derivation drv \<lparr>sk_out = out, sk_room = None\<rparr> =
      (Inr (), \<lparr>sk_out = out @ bs, sk_room = None\<rparr>) \<and>
    (\<forall>rest. read_basic_derivation (bs @ rest) = (Inr drv, rest)) \<and>
    (\<forall>p. strict_prefix p bs \<longrightarrow> (\<exists>e. fst (read_basic_derivation p) = Inl e))"
  using emits_derivation [of drv] decodes_derivation [OF assms]
  by (intro exI [of _ "wire_derivation drv"]) (simp add: emits_def decodes_def write_raw_def)

lemma derivation_roundtrip_witness:
  "\<exists>bs. write_basic_derivation \<lparr>bd_outputs = [(''out'', \<lparr>no_path = ''/nix/store/a-hello'', no_hash_algo = [], no_hash = []\<rparr>)],
      bd_input_srcs = [''/nix/store/b-src''], bd_platform = ''x86_64-linux'', bd_builder = ''/bin/sh'',
      bd_args = [''-e''], bd_env = [(''name'', ''hello''), (''out'', ''/nix/store/a-hello'')]\<rparr> \<lparr>sk_out = [], sk_room = None\<rparr> =
      (Inr (), \<lparr>sk_out = [] @ bs, sk_room = None\<rparr>)"
  using derivation_roundtrip [of "\<lparr>bd_outputs = [(''out'', \<lparr>no_path = ''/nix/store/a-hello'', no_hash_algo = [], no_hash = []\<rparr>)],
      bd_input_srcs = [''/nix/store/b-src''], bd_platform = ''x86_64-linux'', bd_builder = ''/bin/sh'',
      bd_args = [''-e''], bd_env = [(''name'', ''hello''), (''out'', ''/nix/store/a-hello'')]\<rparr>" "[]"]
  by (simp add: short_derivation_def short_string_def short_strings_def short_output_def) blast

text \<open>
  C33: a build result survives the wire, up to the fields the minor version does not carry. For
  every protocol version, \<open>ReadBuildResult\<close> reads from what \<open>WriteBuildResult\<close> wrote with the same
  version the same status, message, and from 1.28, 1.29 and 1.37 on the outputs, the counters and
  the times; the other fields are zero. The two functions agree on which fields are there.
\<close>

theorem build_result_roundtrip:
  assumes "short_result to_json r"
    and "\<And>i real. (i, real) \<in> set (br_built_outputs r) \<Longrightarrow> of_json (to_json real) = Some real"
  shows "\<exists>bs. write_build_result to_json r version \<lparr>sk_out = out, sk_room = None\<rparr> =
      (Inr (), \<lparr>sk_out = out @ bs, sk_room = None\<rparr>) \<and>
    (\<forall>rest. read_build_result of_json version (bs @ rest) = (Inr (carried version r), rest))"
proof -
  have "decodes (read_build_result of_json version) (wire_build_result to_json version r) (carried version r)"
    by (rule decodes_build_result [OF assms])
  then show ?thesis
    using emits_build_result [of to_json r version]
    by (intro exI [of _ "wire_build_result to_json version r"]) (simp add: emits_def decodes_def write_raw_def)
qed

lemma build_result_roundtrip_witness:
  "\<exists>bs. write_build_result rl_id \<lparr>br_status = 0, br_error_msg = ''done'', br_times_built = 1, br_is_non_deterministic = False,
        br_start_time = 5, br_stop_time = 9, br_cpu_user = Some 7, br_cpu_system = None,
        br_built_outputs = [(''sha256:0!out'', \<lparr>rl_id = ''x'', rl_out_path = ''x'', rl_signatures = [], rl_dependent = []\<rparr>)]\<rparr>
        0x125 \<lparr>sk_out = [], sk_room = None\<rparr> = (Inr (), \<lparr>sk_out = [] @ bs, sk_room = None\<rparr>)"
proof -
  let ?r = "\<lparr>br_status = 0, br_error_msg = ''done'', br_times_built = 1, br_is_non_deterministic = False,
        br_start_time = 5, br_stop_time = 9, br_cpu_user = Some 7, br_cpu_system = None,
        br_built_outputs = [(''sha256:0!out'', \<lparr>rl_id = ''x'', rl_out_path = ''x'', rl_signatures = [], rl_dependent = []\<rparr>)]\<rparr>"
  have "short_result rl_id ?r" by (simp add: short_result_def short_string_def)
  then show ?thesis
    using build_result_roundtrip [of rl_id ?r "\<lambda>s. Some \<lparr>rl_id = s, rl_out_path = s, rl_signatures = [], rl_dependent = []\<rparr>" "0x125" "[]"]
    by auto
qed

text \<open>
  \<open>writeATString\<close> escapes so that the text can be read again: for every string that is UTF-8, the
  parser that undoes the escapes gets the string back and stops right behind the closing quote.
\<close>

theorem aterm_string_roundtrip:
  assumes "valid_utf8 0 s"
  shows "at_parse (tl (at_string s) @ rest) = Some (s, rest)"
  using at_parse_at_escape [OF assms, of rest] by (simp add: at_string_def)

lemma aterm_string_roundtrip_witness:
  "at_parse (tl (at_string [CHR 34, CHR 92, CHR ''n'', CHR 10, CHR 0xC3, CHR 0xA9]) @ ''],'') =
     Some ([CHR 34, CHR 92, CHR ''n'', CHR 10, CHR 0xC3, CHR 0xA9], ''],'')"
  by (rule aterm_string_roundtrip) code_simp

text \<open>
  the text and so the hash of a derivation depend on its maps and sets only: derivations whose
  outputs, environment and input sources are the same up to the order of enumeration have the same
  ATerm and the same \<open>ComputeDerivationHash\<close>.
\<close>

theorem derivation_hash_canonical:
  assumes "distinct (map fst (bd_outputs d))" "distinct (map fst (bd_env d))"
    and "mset (bd_outputs d) = mset (bd_outputs d')" "mset (bd_env d) = mset (bd_env d')"
    and "mset (bd_input_srcs d) = mset (bd_input_srcs d')"
    and "bd_platform d = bd_platform d'" "bd_builder d = bd_builder d'" "bd_args d = bd_args d'"
  shows "serialize_to_aterm d = serialize_to_aterm d' \<and>
    compute_derivation_hash digest d = compute_derivation_hash digest d'"
proof -
  have names: "sort (map fst (bd_outputs d)) = sort (map fst (bd_outputs d'))"
    "sort (map fst (bd_env d)) = sort (map fst (bd_env d'))" "sort (bd_input_srcs d) = sort (bd_input_srcs d')"
    unfolding sort_eq_mset using assms(3-5) by (metis mset_map)+
  have "map_of (bd_outputs d) = map_of (bd_outputs d')" "map_of (bd_env d) = map_of (bd_env d')"
    using map_of_mset assms(1-4) by blast+
  then have "serialize_to_aterm d = serialize_to_aterm d'"
    unfolding serialize_to_aterm_def by (simp only: names assms(6-8))
  then show ?thesis by (simp only: compute_derivation_hash_def)
qed

lemma derivation_hash_canonical_witness:
  "serialize_to_aterm \<lparr>bd_outputs = [], bd_input_srcs = [''a'', ''b''], bd_platform = [], bd_builder = [],
       bd_args = [], bd_env = [(''x'', ''1''), (''y'', ''2'')]\<rparr> =
   serialize_to_aterm \<lparr>bd_outputs = [], bd_input_srcs = [''b'', ''a''], bd_platform = [], bd_builder = [],
       bd_args = [], bd_env = [(''y'', ''2''), (''x'', ''1'')]\<rparr>"
  by (rule conjunct1 [OF derivation_hash_canonical [where digest = "\<lambda>x. x"]]) simp_all

text \<open>
  the hash does not tell strings apart that are not UTF-8. Nix strings are bytes, but
  \<open>writeATString\<close> ranges over runes, and every byte from \<open>0x80\<close> on that starts no well-formed rune is
  written as U+FFFD: two derivations that differ only in such an environment value have one hash.
\<close>

theorem derivation_hash_collision:
  assumes "\<not> cont b 0 0x7F" and "\<not> cont c 0 0x7F"
  shows "compute_derivation_hash digest (drv\<lparr>bd_env := [(k, [b])]\<rparr>) =
    compute_derivation_hash digest (drv\<lparr>bd_env := [(k, [c])]\<rparr>)"
proof -
  have "at_string [x] = [CHR 34] @ replacement @ [CHR 34]" if "\<not> cont x 0 0x7F" for x
    using that by (simp add: at_string_def)
  then show ?thesis using assms by (simp add: compute_derivation_hash_def serialize_to_aterm_def)
qed

lemma derivation_hash_collision_witness:
  "compute_derivation_hash (\<lambda>x. x) (\<lparr>bd_outputs = [], bd_input_srcs = [], bd_platform = [], bd_builder = [],
       bd_args = [], bd_env = []\<rparr>\<lparr>bd_env := [(''v'', [CHR 0xFF])]\<rparr>) =
   compute_derivation_hash (\<lambda>x. x) (\<lparr>bd_outputs = [], bd_input_srcs = [], bd_platform = [], bd_builder = [],
       bd_args = [], bd_env = []\<rparr>\<lparr>bd_env := [(''v'', [CHR 0xFE])]\<rparr>)"
  by (rule derivation_hash_collision) (simp_all add: cont_def)

end
