(* ===== verification/Nix_Conn.thy ===== *)
theory Nix_Conn
  imports Nix_Derivation
begin

text \<open>
  A connection of the daemon protocol (\<open>nixproto/conn.go\<close>): its state, the server's half of the
  handshake, the framing of an operation's end, and the messages of the stderr stream that a server
  sends while an operation runs.
\<close>

section \<open>The connection\<close>

text \<open>
  \<open>c_in\<close> are the bytes the peer has yet to be read from: a peer is the stream it sends, and one that
  disconnects is a stream that ends. The writer is buffered: \<open>c_flushed\<close> counts the bytes of
  \<open>sk_out\<close> that are known to be on their way, and after a failed write (\<open>c_broken\<close>) the buffer
  reports the failure for good. \<open>c_held\<close> is not in the code: it is the largest number of unflushed
  bytes at any read so far, so that \<open>c_held c = 0\<close> says that the connection never waited for its
  peer while holding back what the peer may be waiting for. The context is not modelled: cancelling
  it closes the streams.
\<close>

record conn =
  c_in :: "byte list"
  c_sink :: sink
  c_flushed :: nat
  c_broken :: bool
  c_held :: nat
  c_version :: u64
  c_trusted :: bool

definition new_conn :: "byte list \<Rightarrow> sink \<Rightarrow> conn" where
  "new_conn inp snk = \<lparr>c_in = inp, c_sink = snk, c_flushed = length (sk_out snk), c_broken = False,
     c_held = 0, c_version = 0, c_trusted = False\<rparr>"

definition pending :: "conn \<Rightarrow> nat" where
  "pending c = length (sk_out (c_sink c)) - c_flushed c"

text \<open>Reading from \<open>c.Reader()\<close> and writing to \<open>c.Writer()\<close>.\<close>

definition get :: "'a reader \<Rightarrow> (conn, 'a) io" where
  "get r c = (case r (c_in c) of (res, inp) \<Rightarrow>
     (res, c\<lparr>c_in := inp, c_held := max (c_held c) (pending c)\<rparr>))"

definition put :: "writer \<Rightarrow> (conn, unit) io" where
  "put w c = (case w (c_sink c) of
       (Inl e, s) \<Rightarrow> (Inl e, c\<lparr>c_sink := s, c_broken := True\<rparr>)
     | (Inr v, s) \<Rightarrow> (Inr v, c\<lparr>c_sink := s\<rparr>))"

definition flush :: "(conn, unit) io" where
  "flush c = (if c_broken c then (Inl WriteFailed, c)
     else (Inr (), c\<lparr>c_flushed := length (sk_out (c_sink c))\<rparr>))"

definition asks :: "('s \<Rightarrow> 'a) \<Rightarrow> ('s, 'a) io" where
  "asks f s = (Inr (f s), s)"

definition modify :: "('s \<Rightarrow> 's) \<Rightarrow> ('s, unit) io" where
  "modify f s = (Inr (), f s)"

text \<open>
  \<open>x, _ := m\<close> and a call whose error is dropped: after a failure \<open>x\<close> has its zero value.
\<close>

definition attempt :: "'a \<Rightarrow> ('s, 'a) io \<Rightarrow> ('s, 'a) io" where
  "attempt dflt m s = (case m s of (Inl e, s') \<Rightarrow> (Inr dflt, s') | (Inr v, s') \<Rightarrow> (Inr v, s'))"

definition ignore :: "('s, 'a) io \<Rightarrow> ('s, unit) io" where
  "ignore m s = (Inr (), snd (m s))"

text \<open>Lower-case hexadecimal, the verb \<open>%x\<close>.\<close>

fun hex_rev :: "nat \<Rightarrow> string" where
  "hex_rev n = (if n < 16 then [hex_digit n] else hex_digit (n mod 16) # hex_rev (n div 16))"

declare hex_rev.simps [simp del]

definition hexnum :: "u64 \<Rightarrow> string" where
  "hexnum v = rev (hex_rev (unat v))"

section \<open>The server's handshake\<close>

definition bad_magic :: "string \<Rightarrow> u64 \<Rightarrow> u64 \<Rightarrow> io_error" where
  "bad_magic who got expected =
     Failed (''invalid '' @ who @ '' magic: got '' @ hexnum got @ '', expected '' @ hexnum expected)"

definition skip :: "('s, 'a) io \<Rightarrow> ('s, unit) io" where
  "skip m = andThen m (\<lambda>_. succeed ())"

text \<open>The obsolete fields of a client from minor version 14 on: an affinity mask behind a flag, and a reserve.\<close>

definition read_obsolete :: "(conn, unit) io" where
  "read_obsolete =
     andThen (wrap ''reading obsolete affinity'' (get read_uint64)) (\<lambda>affinity.
     andThen (if affinity \<noteq> 0
        then skip (wrap ''reading obsolete affinity mask'' (get read_uint64)) else succeed ()) (\<lambda>_.
     skip (wrap ''reading obsolete reserve (uint64)'' (get read_uint64))))"

definition handshake :: "(conn, unit) io" where
  "handshake =
     andThen (wrap ''reading client magic'' (get read_uint64)) (\<lambda>magic.
     if magic \<noteq> client_magic then throw (bad_magic ''client'' magic client_magic)
     else
     andThen (wrap ''writing server magic'' (put (write_uint64 server_magic))) (\<lambda>_.
     andThen (wrap ''writing protocol version'' (put (write_uint64 protocol_version))) (\<lambda>_.
     andThen (wrap ''flushing after version exchange'' flush) (\<lambda>_.
     andThen (wrap ''reading client version'' (get read_uint64)) (\<lambda>client_version.
     andThen (skip (wrap ''reading client features'' (get read_strings))) (\<lambda>_.
     andThen (modify (\<lambda>c. c\<lparr>c_version :=
        (if protocol_version < client_version then protocol_version else client_version)\<rparr>)) (\<lambda>_.
     andThen (wrap ''writing server features'' (put (write_strings []))) (\<lambda>_.
     andThen (wrap ''flushing after features'' flush) (\<lambda>_.
     andThen (asks c_version) (\<lambda>version.
     andThen (if minor_of version \<ge> 14 then read_obsolete else succeed ()) (\<lambda>_.
     wrap ''flushing after handshake'' flush)))))))))))"

definition daemon_version_string :: string where
  "daemon_version_string = ''nix-builder-proxy (Nix) 2.24.0''"

definition post_handshake :: "(conn, unit) io" where
  "post_handshake =
     andThen (asks (\<lambda>c. minor_of (c_version c))) (\<lambda>minor.
     andThen (if minor \<ge> 33
        then wrap ''writing daemon version'' (put (write_string daemon_version_string)) else succeed ()) (\<lambda>_.
     andThen (if minor \<ge> 35 then wrap ''writing trust status'' (put (write_uint64 1)) else succeed ()) (\<lambda>_.
     andThen (modify (\<lambda>c. c\<lparr>c_trusted := True\<rparr>)) (\<lambda>_.
     andThen (wrap ''writing StderrLast after handshake'' (put (write_uint64 stderr_last))) (\<lambda>_.
     wrap ''flushing after post-handshake'' flush)))))"

section \<open>Operations and their end\<close>

definition read_op :: "(conn, u64) io" where
  "read_op = get read_uint64"

definition write_op :: "u64 \<Rightarrow> (conn, unit) io" where
  "write_op op = put (write_uint64 op)"

definition stop_work :: "(conn, unit) io" where
  "stop_work = andThen (put (write_uint64 stderr_last)) (\<lambda>_. flush)"

text \<open>The body of an error message, by version: \<open>status\<close> is only sent in the old format.\<close>

definition write_error_body :: "string \<Rightarrow> u64 \<Rightarrow> u64 \<Rightarrow> writer" where
  "write_error_body msg status version =
     (if minor_of version \<ge> 26 then
        run_all [write_string ''Error'', write_uint64 0, write_string '''', write_string msg,
          write_uint64 0, write_uint64 0]
      else run_all [write_string msg, write_uint64 status])"

definition stop_work_with_error :: "string \<Rightarrow> u64 \<Rightarrow> (conn, unit) io" where
  "stop_work_with_error msg status =
     andThen (put (write_uint64 stderr_error)) (\<lambda>_.
     andThen (asks c_version) (\<lambda>version.
     andThen (put (write_error_body msg status version)) (\<lambda>_.
     flush)))"

section \<open>Messages of the stderr stream\<close>

record activity_field =
  af_type :: u64
  af_int :: u64
  af_str :: string

definition write_field :: "activity_field \<Rightarrow> writer" where
  "write_field f = andThen (write_uint64 (af_type f)) (\<lambda>_.
     if af_type f = 0 then write_uint64 (af_int f) else write_string (af_str f))"

definition write_fields :: "activity_field list \<Rightarrow> writer" where
  "write_fields fs = andThen (write_uint64 (of_nat (length fs))) (\<lambda>_. run_all (map write_field fs))"

definition write_stderr_next :: "string \<Rightarrow> (conn, unit) io" where
  "write_stderr_next msg = put (andThen (write_uint64 stderr_next) (\<lambda>_. write_string (msg @ [CHR 10])))"

definition write_stderr_log :: "string \<Rightarrow> (conn, unit) io" where
  "write_stderr_log msg = put (andThen (write_uint64 stderr_next) (\<lambda>_. write_string msg))"

definition write_stderr_start_activity ::
  "u64 \<Rightarrow> u64 \<Rightarrow> u64 \<Rightarrow> string \<Rightarrow> activity_field list \<Rightarrow> u64 \<Rightarrow> (conn, unit) io" where
  "write_stderr_start_activity act level kind txt fs parent =
     put (run_all [write_uint64 stderr_start_activity, write_uint64 act, write_uint64 level,
       write_uint64 kind, write_string txt, write_fields fs, write_uint64 parent])"

definition write_stderr_stop_activity :: "u64 \<Rightarrow> (conn, unit) io" where
  "write_stderr_stop_activity act =
     put (andThen (write_uint64 stderr_stop_activity) (\<lambda>_. write_uint64 act))"

definition write_stderr_result :: "u64 \<Rightarrow> u64 \<Rightarrow> activity_field list \<Rightarrow> (conn, unit) io" where
  "write_stderr_result act kind fs =
     put (run_all [write_uint64 stderr_result, write_uint64 act, write_uint64 kind, write_fields fs])"

section \<open>Loops that read\<close>

text \<open>
  \<open>for { ... }\<close> with a body that reads from a stream: the body returns \<open>True\<close> to leave the loop. The
  stream is finite and every round that goes on has read something, so the length of the stream
  bounds the rounds; the locale below shows that the bound is never reached.
\<close>

fun loop_upto :: "nat \<Rightarrow> ('s, bool) io \<Rightarrow> ('s, unit) io" where
  "loop_upto 0 step s = (Inl (Failed []), s)"
| "loop_upto (Suc n) step s = (case step s of
       (Inl e, s') \<Rightarrow> (Inl e, s')
     | (Inr True, s') \<Rightarrow> (Inr (), s')
     | (Inr False, s') \<Rightarrow> loop_upto n step s')"

definition loop_reading :: "('s \<Rightarrow> nat) \<Rightarrow> ('s, bool) io \<Rightarrow> ('s, unit) io" where
  "loop_reading sz step s = loop_upto (Suc (sz s)) step s"

section \<open>Passing a stderr stream on\<close>

text \<open>
  \<open>ProxyStderr\<close> works on a pair: the stream of the backend, and the connection of the client.
\<close>

type_synonym passing = "byte list \<times> conn"

definition from_backend :: "'a reader \<Rightarrow> (passing, 'a) io" where
  "from_backend r bc = (case r (fst bc) of (res, b) \<Rightarrow> (res, (b, snd bc)))"

definition to_client :: "writer \<Rightarrow> (passing, unit) io" where
  "to_client w bc = (case put w (snd bc) of (res, c) \<Rightarrow> (res, (fst bc, c)))"

text \<open>Read a number or a string and write it, dropping the errors of both.\<close>

definition pass_u64 :: "(passing, u64) io" where
  "pass_u64 =
     andThen (attempt 0 (from_backend read_uint64)) (\<lambda>v.
     andThen (ignore (to_client (write_uint64 v))) (\<lambda>_. succeed v))"

definition pass_string :: "(passing, unit) io" where
  "pass_string =
     andThen (attempt '''' (from_backend read_string)) (\<lambda>v. ignore (to_client (write_string v)))"

fun pass_fields :: "nat \<Rightarrow> (passing, unit) io" where
  "pass_fields 0 = succeed ()"
| "pass_fields (Suc k) =
     andThen pass_u64 (\<lambda>field_type.
     andThen (if field_type = 0 then skip pass_u64 else pass_string) (\<lambda>_.
     pass_fields k))"

definition pass_error :: "u64 \<Rightarrow> (passing, unit) io" where
  "pass_error version =
     (if minor_of version \<ge> 26 then
        run_all [pass_string, skip pass_u64, pass_string, pass_string, skip pass_u64, skip pass_u64]
      else run_all [pass_string, skip pass_u64])"

definition pass_activity :: "u64 \<Rightarrow> (passing, unit) io" where
  "pass_activity marker =
     andThen pass_u64 (\<lambda>act.
     if marker = stderr_start_activity then
       andThen pass_u64 (\<lambda>level.
       andThen pass_u64 (\<lambda>kind.
       andThen pass_string (\<lambda>_.
       andThen pass_u64 (\<lambda>count.
       andThen (pass_fields (unat count)) (\<lambda>_.
       skip pass_u64)))))
     else if marker = stderr_result then
       andThen pass_u64 (\<lambda>kind.
       andThen pass_u64 (\<lambda>count.
       pass_fields (unat count)))
     else succeed ())"

definition proxy_stderr_step :: "(passing, bool) io" where
  "proxy_stderr_step =
     andThen (wrap ''reading stderr marker'' (from_backend read_uint64)) (\<lambda>marker.
     andThen (to_client (write_uint64 marker)) (\<lambda>_.
     if marker = stderr_last then succeed True
     else if marker = stderr_next then
       andThen (from_backend read_string) (\<lambda>msg. andThen (to_client (write_string msg)) (\<lambda>_. succeed False))
     else if marker = stderr_error then
       andThen (asks (\<lambda>bc. c_version (snd bc))) (\<lambda>version.
       andThen (pass_error version) (\<lambda>_. throw (Failed ''backend returned error'')))
     else if marker = stderr_write then
       andThen (from_backend read_bytes) (\<lambda>d. andThen (to_client (write_bytes d)) (\<lambda>_. succeed False))
     else if marker = stderr_read then
       andThen (from_backend read_uint64) (\<lambda>len.
       andThen (to_client (write_uint64 len)) (\<lambda>_.
       throw (Failed ''StderrRead not yet supported in proxy'')))
     else if marker \<in> {stderr_start_activity, stderr_stop_activity, stderr_result} then
       andThen (pass_activity marker) (\<lambda>_. succeed False)
     else throw (Failed (''unknown stderr marker: '' @ hexnum marker))))"

definition proxy_stderr :: "(passing, unit) io" where
  "proxy_stderr = loop_reading (\<lambda>bc. length (fst bc)) proxy_stderr_step"

section \<open>Loops end\<close>

text \<open>
  \<open>shrinks sz m\<close>: \<open>m\<close> puts nothing back, whatever its result; \<open>consumes sz m\<close>: when it succeeds
  it has taken something.
\<close>

named_theorems shrinking \<open>which operations do not grow the input\<close>

definition shrinks :: "('s \<Rightarrow> nat) \<Rightarrow> ('s, 'a) io \<Rightarrow> bool" where
  "shrinks sz m \<longleftrightarrow> (\<forall>s. sz (snd (m s)) \<le> sz s)"

definition consumes :: "('s \<Rightarrow> nat) \<Rightarrow> ('s, 'a) io \<Rightarrow> bool" where
  "consumes sz m \<longleftrightarrow> shrinks sz m \<and> (\<forall>s v s'. m s = (Inr v, s') \<longrightarrow> sz s' < sz s)"

lemma shrinksD: "shrinks sz m \<Longrightarrow> m s = (r, s') \<Longrightarrow> sz s' \<le> sz s"
  unfolding shrinks_def by (metis snd_conv)

lemma consumesD: "consumes sz m \<Longrightarrow> m s = (Inr v, s') \<Longrightarrow> sz s' < sz s"
  by (simp add: consumes_def)

lemma shrinks_consumes: "consumes sz m \<Longrightarrow> shrinks sz m"
  by (simp add: consumes_def)

lemma shrinks_succeed [shrinking]: "shrinks sz (succeed v)"
  by (simp add: shrinks_def succeed_def)

lemma shrinks_throw [shrinking]: "shrinks sz (throw e)"
  by (simp add: shrinks_def throw_def)

lemma shrinks_andThen [shrinking]:
  "shrinks sz m \<Longrightarrow> (\<And>v. shrinks sz (f v)) \<Longrightarrow> shrinks sz (andThen m f)"
  unfolding shrinks_def andThen_def by (auto split: prod.splits sum.splits) (metis le_trans snd_conv)+

lemma shrinks_wrap [shrinking]: "shrinks sz m \<Longrightarrow> shrinks sz (wrap msg m)"
  unfolding shrinks_def wrap_def by (auto split: prod.splits sum.splits) (metis snd_conv)+

lemma shrinks_attempt [shrinking]: "shrinks sz m \<Longrightarrow> shrinks sz (attempt d m)"
  unfolding shrinks_def attempt_def by (auto split: prod.splits sum.splits) (metis snd_conv)+

lemma shrinks_ignore [shrinking]: "shrinks sz m \<Longrightarrow> shrinks sz (ignore m)"
  by (simp add: shrinks_def ignore_def)

lemma shrinks_skip [shrinking]: "shrinks sz m \<Longrightarrow> shrinks sz (skip m)"
  unfolding skip_def by (intro shrinking)

lemma shrinks_asks [shrinking]: "shrinks sz (asks f)"
  by (simp add: shrinks_def asks_def)

lemma shrinks_if [shrinking]: "shrinks sz m \<Longrightarrow> shrinks sz m' \<Longrightarrow> shrinks sz (if b then m else m')"
  by simp

lemma shrinks_run_all [shrinking]: "(\<And>m. m \<in> set ms \<Longrightarrow> shrinks sz m) \<Longrightarrow> shrinks sz (run_all ms)"
  by (induction ms) (auto intro: shrinking)

lemma shrinks_times [shrinking]: "shrinks sz m \<Longrightarrow> shrinks sz (read_times n m)"
  by (induction n) (auto intro!: shrinking)

lemma consumes_andThen: "consumes sz m \<Longrightarrow> (\<And>v. shrinks sz (f v)) \<Longrightarrow> consumes sz (andThen m f)"
  unfolding consumes_def
proof (intro conjI allI impI)
  assume m: "shrinks sz m \<and> (\<forall>s v s'. m s = (Inr v, s') \<longrightarrow> sz s' < sz s)" and f: "\<And>v. shrinks sz (f v)"
  show "shrinks sz (andThen m f)" using m f by (auto intro: shrinking)
  fix s v s' assume "andThen m f s = (Inr v, s')"
  then obtain x t where x: "m s = (Inr x, t)" "f x t = (Inr v, s')"
    by (auto simp: andThen_def split: prod.splits sum.splits)
  then have "sz t < sz s" "sz s' \<le> sz t" using m shrinksD [OF f] by auto
  then show "sz s' < sz s" by simp
qed

lemma consumes_wrap: "consumes sz m \<Longrightarrow> consumes sz (wrap msg m)"
  unfolding consumes_def by (auto intro: shrinking simp: wrap_def split: prod.splits sum.splits)

lemma shrinks_read_full [shrinking]: "shrinks length (read_full n)"
  by (auto simp: shrinks_def read_full_def)

lemma consumes_read_uint64: "consumes length read_uint64"
  unfolding read_uint64_def
  by (rule consumes_andThen) (auto simp: consumes_def read_full_def split: if_splits intro: shrinking)

lemmas shrinks_read_uint64 [shrinking] = shrinks_consumes [OF consumes_read_uint64]

lemma shrinks_read_bytes [shrinking]: "shrinks length read_bytes"
  unfolding read_bytes_def by (intro shrinking)

lemma shrinks_read_string [shrinking]: "shrinks length read_string"
  unfolding read_string_def by (intro shrinking)

lemma shrinks_read_strings [shrinking]: "shrinks length read_strings"
  unfolding read_strings_def by (intro shrinking)

lemma shrinks_read_bool [shrinking]: "shrinks length read_bool"
  unfolding read_bool_def by (intro shrinking)

text \<open>The input of a connection.\<close>

abbreviation unread :: "conn \<Rightarrow> nat" where
  "unread c \<equiv> length (c_in c)"

lemma shrinks_get [shrinking]: "shrinks length r \<Longrightarrow> shrinks unread (get r)"
  unfolding shrinks_def get_def by (auto split: prod.splits) (metis snd_conv)

lemma consumes_get: "consumes length r \<Longrightarrow> consumes unread (get r)"
  unfolding consumes_def by (auto intro: shrinking simp: get_def split: prod.splits)

lemma shrinks_put [shrinking]: "shrinks unread (put w)"
  by (auto simp: shrinks_def put_def split: prod.splits sum.splits)

lemma shrinks_flush [shrinking]: "shrinks unread flush"
  by (simp add: shrinks_def flush_def)

lemma shrinks_modify [shrinking]: "(\<And>s. sz (f s) \<le> sz s) \<Longrightarrow> shrinks sz (modify f)"
  by (simp add: shrinks_def modify_def)

locale reading_loop =
  fixes sz :: "'s \<Rightarrow> nat"
    and step :: "('s, bool) io"
  assumes progress: "step s = (Inr False, s') \<Longrightarrow> sz s' < sz s"
    and shrinks_step: "shrinks sz step"
begin

lemma bound_enough: "sz s < n \<Longrightarrow> sz s < m \<Longrightarrow> loop_upto n step s = loop_upto m step s"
proof (induction n arbitrary: m s)
  case 0
  then show ?case by simp
next
  case (Suc n)
  then obtain k where k: "m = Suc k" by (cases m) auto
  show ?case
  proof (cases "\<exists>s'. step s = (Inr False, s')")
    case True
    then obtain s' where s': "step s = (Inr False, s')" ..
    then have "loop_upto n step s' = loop_upto k step s'"
      using progress [OF s'] Suc.prems k by (intro Suc.IH) auto
    then show ?thesis using s' k by simp
  next
    case False
    then show ?thesis using k by (auto split: prod.splits sum.splits bool.splits)
  qed
qed

text \<open>The loop unrolls: the bound is not observable.\<close>

lemma unroll:
  "loop_reading sz step s = (case step s of
       (Inl e, s') \<Rightarrow> (Inl e, s')
     | (Inr True, s') \<Rightarrow> (Inr (), s')
     | (Inr False, s') \<Rightarrow> loop_reading sz step s')"
proof -
  have "loop_upto (sz s) step s' = loop_upto (Suc (sz s')) step s'" if "step s = (Inr False, s')" for s'
    using progress [OF that] by (intro bound_enough) auto
  then show ?thesis by (auto simp: loop_reading_def split: prod.splits sum.splits bool.splits)
qed

lemma unroll_more: "step s = (Inr False, s') \<Longrightarrow> loop_reading sz step s = loop_reading sz step s'"
  by (subst unroll) simp

lemma unroll_done: "step s = (Inr True, s') \<Longrightarrow> loop_reading sz step s = (Inr (), s')"
  by (subst unroll) simp

lemma unroll_error: "step s = (Inl e, s') \<Longrightarrow> loop_reading sz step s = (Inl e, s')"
  by (subst unroll) simp

lemma shrinks_upto: "shrinks sz (loop_upto n step)"
proof (induction n)
  case 0
  then show ?case by (simp add: shrinks_def)
next
  case (Suc n)
  show ?case unfolding shrinks_def
  proof
    fix s
    have "sz (snd (step s)) \<le> sz s" using shrinks_step by (simp add: shrinks_def)
    then show "sz (snd (loop_upto (Suc n) step s)) \<le> sz s"
      using Suc by (auto simp: shrinks_def split: prod.splits sum.splits bool.splits) (metis le_trans)
  qed
qed

lemma shrinks_loop: "shrinks sz (loop_reading sz step)"
  using shrinks_upto by (auto simp: shrinks_def loop_reading_def simp del: loop_upto.simps)

text \<open>An invariant of the rounds holds at the end, however the loop ends.\<close>

lemma invariant:
  assumes "\<And>s. P s \<Longrightarrow> P (snd (step s))"
  shows "P s \<Longrightarrow> P (snd (loop_reading sz step s))"
proof (induction "sz s" arbitrary: s rule: less_induct)
  case less
  have "P (snd (step s))" using assms less.prems .
  then show ?case
    using less.hyps progress [of s] by (subst unroll) (auto split: prod.splits sum.splits bool.splits)
qed

end

section \<open>Connections that work\<close>

text \<open>A connection whose writes do not fail; the laws below run an operation on it symbolically.\<close>

definition live :: "byte list \<Rightarrow> byte list \<Rightarrow> nat \<Rightarrow> nat \<Rightarrow> u64 \<Rightarrow> bool \<Rightarrow> conn" where
  "live inp out fl held ver tr =
     \<lparr>c_in = inp, c_sink = \<lparr>sk_out = out, sk_room = None\<rparr>, c_flushed = fl, c_broken = False,
      c_held = held, c_version = ver, c_trusted = tr\<rparr>"

abbreviation unbounded :: "byte list \<Rightarrow> sink" where
  "unbounded out \<equiv> \<lparr>sk_out = out, sk_room = None\<rparr>"

lemma new_conn_live: "new_conn inp (unbounded out) = live inp out (length out) 0 0 False"
  by (simp add: new_conn_def live_def)

lemma live_simps [nix_simps]:
  "c_in (live inp out fl h ver tr) = inp" "c_version (live inp out fl h ver tr) = ver"
  "c_sink (live inp out fl h ver tr) = unbounded out" "c_held (live inp out fl h ver tr) = h"
  "c_broken (live inp out fl h ver tr) = False" "c_trusted (live inp out fl h ver tr) = tr"
  "pending (live inp out fl h ver tr) = length out - fl"
  "(live inp out fl h ver tr)\<lparr>c_version := v\<rparr> = live inp out fl h v tr"
  "(live inp out fl h ver tr)\<lparr>c_trusted := b\<rparr> = live inp out fl h ver b"
  by (simp_all add: live_def pending_def)

lemma get_live:
  "decodes r bs v \<Longrightarrow>
     get r (live (bs @ rest) out fl h ver tr) = (Inr v, live rest out fl (max h (length out - fl)) ver tr)"
  by (simp add: get_def live_def pending_def decodesD)

lemma put_live:
  "emits w bs \<Longrightarrow> put w (live inp out fl h ver tr) = (Inr (), live inp (out @ bs) fl h ver tr)"
  by (simp add: put_def live_def emits_def write_raw_def)

lemma flush_live [nix_simps]:
  "flush (live inp out fl h ver tr) = (Inr (), live inp out (length out) h ver tr)"
  by (simp add: flush_def live_def)

lemma asks_eq [nix_simps]: "asks f s = (Inr (f s), s)"
  by (simp add: asks_def)

lemma modify_eq [nix_simps]: "modify f s = (Inr (), f s)"
  by (simp add: modify_def)

lemma wrap_Inr: "m s = (Inr v, s') \<Longrightarrow> wrap msg m s = (Inr v, s')"
  by (simp add: wrap_def)

lemma skip_Inr: "m s = (Inr v, s') \<Longrightarrow> skip m s = (Inr (), s')"
  by (simp add: skip_def andThen_def succeed_def)

text \<open>One step of a sequence: what the first operation does, then the rest.\<close>

lemma then_step: "m s = (Inr v, s') \<Longrightarrow> f v s' = r \<Longrightarrow> andThen m f s = r"
  by (simp add: andThen_def)

lemmas get_u64_live = get_live [OF decodes_u64]
lemmas put_u64_live = put_live [OF emits_u64]
lemmas put_string_live = put_live [OF emits_string]
lemmas put_strings_live = put_live [OF emits_strings]

lemma get_strings_live:
  "short_strings ss \<Longrightarrow> get read_strings (live (wire_strings ss @ rest) out fl h ver tr) =
     (Inr ss, live rest out fl (max h (length out - fl)) ver tr)"
  by (rule get_live) (rule decodes_strings)

lemmas live_runs = get_u64_live put_u64_live put_string_live put_strings_live get_strings_live wrap_Inr skip_Inr

section \<open>The handshake serves every client\<close>

text \<open>
  What a client of version \<open>cv\<close> sends: affinity and reserve are sent when the version both
  sides settle on, the smaller one, has a minor number of at least 14.
\<close>

definition settled :: "u64 \<Rightarrow> u64" where
  "settled v = min v protocol_version"

definition obsolete_fields :: "u64 \<Rightarrow> u64 \<Rightarrow> u64 \<Rightarrow> u64 \<Rightarrow> byte list" where
  "obsolete_fields version affinity cpu_mask reserve =
     (if minor_of version \<ge> 14
      then wire_u64 affinity @ (if affinity \<noteq> 0 then wire_u64 cpu_mask else []) @ wire_u64 reserve else [])"

definition client_hello :: "u64 \<Rightarrow> string list \<Rightarrow> u64 \<Rightarrow> u64 \<Rightarrow> u64 \<Rightarrow> byte list" where
  "client_hello cv features affinity cpu_mask reserve =
     wire_u64 client_magic @ wire_u64 cv @ wire_strings features @
     obsolete_fields (settled cv) affinity cpu_mask reserve"

definition server_hello :: "byte list" where
  "server_hello = wire_u64 server_magic @ wire_u64 protocol_version @ wire_strings []"

definition server_info :: "u64 \<Rightarrow> byte list" where
  "server_info version =
     (if minor_of version \<ge> 33 then wire_string daemon_version_string else []) @
     (if minor_of version \<ge> 35 then wire_u64 1 else []) @ wire_u64 stderr_last"

lemma settled_eq: "(if protocol_version < v then protocol_version else v) = settled v"
  by (auto simp: settled_def min_def word_less_nat_alt word_le_nat_alt)

lemma read_obsolete_live:
  assumes "fl = length out"
  shows "(if minor_of version \<ge> 14 then read_obsolete else succeed ())
      (live (obsolete_fields version a k r @ rest) out fl 0 ver tr) = (Inr (), live rest out fl 0 ver tr)"
  using assms unfolding read_obsolete_def obsolete_fields_def
  by (auto simp: nix_simps get_u64_live intro!: then_step wrap_Inr skip_Inr)

lemma asks_version_live:
  "asks c_version (live inp out fl h ver tr) = (Inr ver, live inp out fl h ver tr)"
  by (simp add: nix_simps)

lemma handshake_live:
  assumes "short_strings features"
  shows "handshake (live (client_hello cv features a k r @ rest) out (length out) 0 v0 tr) =
    (Inr (), live rest (out @ server_hello) (length (out @ server_hello)) 0 (settled cv) tr)"
  using assms unfolding handshake_def client_hello_def server_hello_def
  apply (simp only: append_assoc settled_eq)
  by (rule then_step live_runs flush_live modify_eq asks_version_live read_obsolete_live | simp add: nix_simps)+

lemma post_handshake_live:
  "post_handshake (live inp out fl 0 ver tr) =
    (Inr (), live inp (out @ server_info ver) (length (out @ server_info ver)) 0 ver True)"
  unfolding post_handshake_def server_info_def
  by (auto simp: nix_simps put_u64_live put_string_live wrap_def andThen_def)

section \<open>Streams pass through unchanged\<close>

text \<open>The messages of a stderr stream and their bytes.\<close>

datatype stderr_event =
    LogLine string
  | SinkData "byte list"
  | StartActivity u64 u64 u64 string "activity_field list" u64
  | StopActivity u64
  | ActivityResult u64 u64 "activity_field list"

definition wire_field :: "activity_field \<Rightarrow> byte list" where
  "wire_field f = wire_u64 (af_type f) @ (if af_type f = 0 then wire_u64 (af_int f) else wire_string (af_str f))"

definition wire_fields :: "activity_field list \<Rightarrow> byte list" where
  "wire_fields fs = wire_u64 (of_nat (length fs)) @ concat (map wire_field fs)"

fun wire_event :: "stderr_event \<Rightarrow> byte list" where
  "wire_event (LogLine msg) = wire_u64 stderr_next @ wire_string msg"
| "wire_event (SinkData d) = wire_u64 stderr_write @ wire_bytes d"
| "wire_event (StartActivity act level kind txt fs parent) =
     wire_u64 stderr_start_activity @ wire_u64 act @ wire_u64 level @ wire_u64 kind @ wire_string txt @
     wire_fields fs @ wire_u64 parent"
| "wire_event (StopActivity act) = wire_u64 stderr_stop_activity @ wire_u64 act"
| "wire_event (ActivityResult act kind fs) =
     wire_u64 stderr_result @ wire_u64 act @ wire_u64 kind @ wire_fields fs"

definition short_fields :: "activity_field list \<Rightarrow> bool" where
  "short_fields fs \<longleftrightarrow> length fs < 2 ^ 64 \<and> (\<forall>f \<in> set fs. short_string (af_str f))"

fun short_event :: "stderr_event \<Rightarrow> bool" where
  "short_event (LogLine msg) = short_string msg"
| "short_event (SinkData d) = (length d \<le> 64 * 1024 * 1024)"
| "short_event (StartActivity act level kind txt fs parent) = (short_string txt \<and> short_fields fs)"
| "short_event (StopActivity act) = True"
| "short_event (ActivityResult act kind fs) = short_fields fs"

lemma emits_field: "emits (write_field f) (wire_field f)"
  unfolding write_field_def wire_field_def by (auto intro!: emits_andThen emits_u64 emits_string)

lemma emits_fields: "emits (write_fields fs) (wire_fields fs)"
  unfolding write_fields_def wire_fields_def by (intro emits_andThen emits_u64 emits_run_all emits_field)

lemma emits_sequence: "list_all2 emits ws bss \<Longrightarrow> emits (run_all ws) (concat bss)"
  by (induction rule: list_all2_induct) (auto intro: emits_succeed emits_andThen)

lemma writes_events:
  "write_stderr_log msg (live inp out fl h ver tr) =
     (Inr (), live inp (out @ wire_event (LogLine msg)) fl h ver tr)"
  "write_stderr_start_activity act level kind txt fs parent (live inp out fl h ver tr) =
     (Inr (), live inp (out @ wire_event (StartActivity act level kind txt fs parent)) fl h ver tr)"
  "write_stderr_stop_activity act (live inp out fl h ver tr) =
     (Inr (), live inp (out @ wire_event (StopActivity act)) fl h ver tr)"
  "write_stderr_result act kind fs (live inp out fl h ver tr) =
     (Inr (), live inp (out @ wire_event (ActivityResult act kind fs)) fl h ver tr)"
proof -
  have "emits (run_all [write_uint64 stderr_start_activity, write_uint64 act, write_uint64 level,
       write_uint64 kind, write_string txt, write_fields fs, write_uint64 parent])
      (concat [wire_u64 stderr_start_activity, wire_u64 act, wire_u64 level, wire_u64 kind, wire_string txt,
         wire_fields fs, wire_u64 parent])"
    by (intro emits_sequence) (simp add: emits_u64 emits_string emits_fields)
  then show "write_stderr_start_activity act level kind txt fs parent (live inp out fl h ver tr) =
     (Inr (), live inp (out @ wire_event (StartActivity act level kind txt fs parent)) fl h ver tr)"
    unfolding write_stderr_start_activity_def by (simp add: put_live)
  have "emits (run_all [write_uint64 stderr_result, write_uint64 act, write_uint64 kind, write_fields fs])
      (concat [wire_u64 stderr_result, wire_u64 act, wire_u64 kind, wire_fields fs])"
    by (intro emits_sequence) (simp add: emits_u64 emits_string emits_fields)
  then show "write_stderr_result act kind fs (live inp out fl h ver tr) =
     (Inr (), live inp (out @ wire_event (ActivityResult act kind fs)) fl h ver tr)"
    unfolding write_stderr_result_def by (simp add: put_live)
qed (simp_all add: write_stderr_log_def write_stderr_stop_activity_def put_live emits_andThen emits_u64 emits_string)

text \<open>The loop of \<open>ProxyStderr\<close>: it ends because every round takes a marker.\<close>

abbreviation backend :: "passing \<Rightarrow> nat" where
  "backend bc \<equiv> length (fst bc)"

lemma shrinks_from_backend [shrinking]: "shrinks length r \<Longrightarrow> shrinks backend (from_backend r)"
  unfolding shrinks_def from_backend_def by (auto split: prod.splits) (metis snd_conv)

lemma consumes_from_backend: "consumes length r \<Longrightarrow> consumes backend (from_backend r)"
  unfolding consumes_def by (auto intro: shrinking simp: from_backend_def split: prod.splits)

lemma shrinks_to_client [shrinking]: "shrinks backend (to_client w)"
  by (auto simp: shrinks_def to_client_def split: prod.splits)

lemma shrinks_pass [shrinking]: "shrinks backend pass_u64" "shrinks backend pass_string"
  "shrinks backend (pass_fields k)"
proof -
  show u: "shrinks backend pass_u64" and s: "shrinks backend pass_string"
    unfolding pass_u64_def pass_string_def by (intro shrinking)+
  show "shrinks backend (pass_fields k)"
    by (induction k) (auto intro!: shrinking u s)
qed

lemma consumes_proxy_stderr_step: "consumes backend proxy_stderr_step"
  unfolding proxy_stderr_step_def pass_error_def pass_activity_def
  by (intro consumes_andThen consumes_wrap consumes_from_backend consumes_read_uint64 shrinking)
    (auto intro!: shrinking)

interpretation stderr_loop: reading_loop backend proxy_stderr_step
  by unfold_locales
    (use consumes_proxy_stderr_step in \<open>auto dest: consumesD simp: shrinks_consumes\<close>)

lemma from_backend_run:
  "decodes r bs v \<Longrightarrow> from_backend r (bs @ rest, c) = (Inr v, (rest, c))"
  by (simp add: from_backend_def decodesD)

lemma to_client_run:
  "emits w bs \<Longrightarrow> to_client w (b, live inp out fl h ver tr) = (Inr (), (b, live inp (out @ bs) fl h ver tr))"
  by (simp add: to_client_def put_live)

lemma pass_u64_run [nix_simps]:
  "pass_u64 (wire_u64 v @ rest, live inp out fl h ver tr) =
     (Inr v, (rest, live inp (out @ wire_u64 v) fl h ver tr))"
  by (simp add: pass_u64_def andThen_def attempt_def ignore_def succeed_def
      from_backend_run [OF decodes_u64] to_client_run [OF emits_u64])

lemma pass_u64_end [nix_simps]:
  "pass_u64 (wire_u64 v, live inp out fl h ver tr) = (Inr v, ([], live inp (out @ wire_u64 v) fl h ver tr))"
  using pass_u64_run [of v "[]"] by simp

lemma pass_string_run [nix_simps]:
  "short_string v \<Longrightarrow> pass_string (wire_string v @ rest, live inp out fl h ver tr) =
     (Inr (), (rest, live inp (out @ wire_string v) fl h ver tr))"
  by (simp add: pass_string_def andThen_def attempt_def ignore_def
      from_backend_run [OF decodes_string] to_client_run [OF emits_string])

lemma pass_fields_run:
  "\<forall>f \<in> set fs. short_string (af_str f) \<Longrightarrow>
     pass_fields (length fs) (concat (map wire_field fs) @ rest, live inp out fl h ver tr) =
       (Inr (), (rest, live inp (out @ concat (map wire_field fs)) fl h ver tr))"
proof (induction fs arbitrary: out)
  case Nil
  then show ?case by (simp add: succeed_def)
next
  case (Cons f fs)
  then show ?case
    by (simp add: wire_field_def andThen_def skip_def succeed_def nix_simps)
qed

lemma pass_fields_counted [nix_simps]:
  "short_fields fs \<Longrightarrow>
     andThen pass_u64 (\<lambda>count. pass_fields (unat count)) (wire_fields fs @ rest, live inp out fl h ver tr) =
       (Inr (), (rest, live inp (out @ wire_fields fs) fl h ver tr))"
  by (simp add: short_fields_def wire_fields_def andThen_def nix_simps pass_fields_run unat_of_nat)

lemma marker_run:
  "andThen (wrap msg (from_backend read_uint64)) (\<lambda>marker. andThen (to_client (write_uint64 marker)) (\<lambda>_. f marker))
     (wire_u64 v @ rest, live inp out fl h ver tr) = f v (rest, live inp (out @ wire_u64 v) fl h ver tr)"
  by (simp add: andThen_def wrap_def from_backend_run [OF decodes_u64] to_client_run [OF emits_u64])

lemma andThen_assoc: "andThen (andThen m f) g = andThen m (\<lambda>v. andThen (f v) g)"
  by (rule ext) (auto simp: andThen_def split: prod.splits sum.splits)

lemma pass_fields_then:
  "short_fields fs \<Longrightarrow>
     andThen pass_u64 (\<lambda>count. andThen (pass_fields (unat count)) g)
       (wire_fields fs @ rest, live inp out fl h ver tr) =
       g () (rest, live inp (out @ wire_fields fs) fl h ver tr)"
  using pass_fields_counted [of fs rest inp out fl h ver tr]
  by (simp add: andThen_assoc [symmetric]) (simp add: andThen_def)

lemma proxy_event:
  "short_event e \<Longrightarrow> proxy_stderr_step (wire_event e @ rest, live inp out fl h ver tr) =
     (Inr False, (rest, live inp (out @ wire_event e) fl h ver tr))"
  by (cases e)
    (simp_all add: proxy_stderr_step_def marker_run stderr_markers pass_activity_def short_string_def,
     simp_all add: andThen_assoc andThen_def skip_def nix_simps short_string_def
       pass_fields_then [unfolded andThen_def [of pass_u64]]
       from_backend_run [OF decodes_string] from_backend_run [OF decodes_bytes]
       to_client_run [OF emits_string] to_client_run [OF emits_bytes])

lemma proxy_last:
  "proxy_stderr_step (wire_u64 stderr_last @ rest, live inp out fl h ver tr) =
     (Inr True, (rest, live inp (out @ wire_u64 stderr_last) fl h ver tr))"
  by (simp add: proxy_stderr_step_def marker_run nix_simps)

text \<open>The body of an error, in the format of the version.\<close>

definition wire_error :: "u64 \<Rightarrow> string \<Rightarrow> u64 \<Rightarrow> byte list" where
  "wire_error version msg status =
     (if minor_of version \<ge> 26 then
        wire_string ''Error'' @ wire_u64 0 @ wire_string '''' @ wire_string msg @ wire_u64 0 @ wire_u64 0
      else wire_string msg @ wire_u64 status)"

lemma emits_error_body: "emits (write_error_body msg status version) (wire_error version msg status)"
proof -
  have "emits (run_all [write_string ''Error'', write_uint64 0, write_string '''', write_string msg,
      write_uint64 0, write_uint64 0])
    (concat [wire_string ''Error'', wire_u64 0, wire_string '''', wire_string msg, wire_u64 0, wire_u64 0])"
    "emits (run_all [write_string msg, write_uint64 status]) (concat [wire_string msg, wire_u64 status])"
    by (rule emits_sequence, simp add: emits_u64 emits_string)+
  then show ?thesis by (simp add: write_error_body_def wire_error_def)
qed

lemma stop_work_with_error_live [nix_simps]:
  "stop_work_with_error msg status (live inp out fl h ver tr) =
    (let out' = out @ wire_u64 stderr_error @ wire_error ver msg status
     in (Inr (), live inp out' (length out') h ver tr))"
  unfolding stop_work_with_error_def
  by (simp add: Let_def andThen_def put_u64_live nix_simps put_live [OF emits_error_body])

lemma stop_work_live [nix_simps]:
  "stop_work (live inp out fl h ver tr) =
    (let out' = out @ wire_u64 stderr_last in (Inr (), live inp out' (length out') h ver tr))"
  unfolding stop_work_def by (simp add: Let_def andThen_def put_u64_live nix_simps)

lemma proxy_error:
  assumes "short_string msg"
  shows "proxy_stderr_step (wire_u64 stderr_error @ wire_error ver msg status @ rest, live inp out fl h ver tr) =
     (Inl (Failed ''backend returned error''),
      (rest, live inp (out @ wire_u64 stderr_error @ wire_error ver msg status) fl h ver tr))"
proof -
  have "short_string ''Error''" "short_string ''''" by (simp_all add: short_string_def)
  with assms show ?thesis
    by (simp add: proxy_stderr_step_def marker_run stderr_markers)
      (simp add: pass_error_def wire_error_def andThen_def skip_def nix_simps)
qed

lemma proxy_events:
  "\<forall>e \<in> set evs. short_event e \<Longrightarrow>
     proxy_stderr (concat (map wire_event evs) @ rest, live inp out fl h ver tr) =
     proxy_stderr (rest, live inp (out @ concat (map wire_event evs)) fl h ver tr)"
proof (induction evs arbitrary: out)
  case Nil
  then show ?case by simp
next
  case (Cons e evs)
  then show ?case
    using stderr_loop.unroll_more [OF proxy_event [of e "concat (map wire_event evs) @ rest" inp out fl h ver tr]]
    by (simp add: proxy_stderr_def)
qed

section \<open>Properties of a connection\<close>



text \<open>
  a stream that does not start with the client magic is refused before anything is written: the
  8 bytes are taken, the error names them, and the connection has sent nothing.
\<close>

theorem handshake_bad_magic:
  assumes "v \<noteq> client_magic"
  shows "handshake (new_conn (wire_u64 v @ rest) snk) =
    (Inl (bad_magic ''client'' v client_magic), (new_conn (wire_u64 v @ rest) snk)\<lparr>c_in := rest\<rparr>)"
proof -
  have g: "wrap msg (get read_uint64) (new_conn (wire_u64 v @ rest) snk) =
      (Inr v, (new_conn (wire_u64 v @ rest) snk)\<lparr>c_in := rest\<rparr>)" for msg
    by (rule wrap_Inr) (simp add: get_def new_conn_def pending_def decodesD [OF decodes_u64])
  show ?thesis
    unfolding handshake_def by (rule then_step, rule g) (use assms in \<open>simp add: throw_def\<close>)
qed

lemma handshake_bad_magic_witness:
  "fst (handshake (new_conn (wire_u64 0x47455420 @ [1]) (unbounded []))) =
     Inl (Failed ''invalid client magic: got 47455420, expected 6e697863'')"
proof -
  have "(0x47455420 :: u64) \<noteq> client_magic" by (simp add: client_magic_def)
  moreover have "bad_magic ''client'' 0x47455420 client_magic =
      Failed ''invalid client magic: got 47455420, expected 6e697863''"
    by (simp add: bad_magic_def client_magic_def hexnum_def hex_rev.simps hex_digit_def)
  ultimately show ?thesis
    using handshake_bad_magic [of "0x47455420" "[1]" "unbounded []"] by simp
qed

text \<open>
  \<open>ProxyStderr\<close> is transparent. A well-formed stream of log lines, sink data and activity
  messages reaches the client byte for byte: up to \<open>StderrLast\<close>, where the loop returns without an
  error, or up to an error message of the connection's version, which is also passed on whole before the
  loop reports it. Nothing beyond the stream is taken from the backend.
\<close>

theorem proxy_stderr_transparent:
  assumes "\<forall>e \<in> set evs. short_event e" and "short_string msg"
    and "stream = concat (map wire_event evs)"
    and "done = stream @ wire_u64 stderr_last"
    and "fail = stream @ wire_u64 stderr_error @ wire_error ver msg status"
  shows "proxy_stderr (done @ rest, live inp out fl h ver tr) =
      (Inr (), (rest, live inp (out @ done) fl h ver tr)) \<and>
    proxy_stderr (fail @ rest, live inp out fl h ver tr) =
      (Inl (Failed ''backend returned error''), (rest, live inp (out @ fail) fl h ver tr))"
proof -
  have "proxy_stderr (wire_u64 stderr_last @ rest, live inp o' fl h ver tr) =
      (Inr (), (rest, live inp (o' @ wire_u64 stderr_last) fl h ver tr))" for o'
    unfolding proxy_stderr_def by (rule stderr_loop.unroll_done [OF proxy_last])
  moreover have "proxy_stderr (wire_u64 stderr_error @ wire_error ver msg status @ rest, live inp o' fl h ver tr) =
      (Inl (Failed ''backend returned error''),
       (rest, live inp (o' @ wire_u64 stderr_error @ wire_error ver msg status) fl h ver tr))" for o'
    unfolding proxy_stderr_def by (rule stderr_loop.unroll_error [OF proxy_error [OF assms(2)]])
  ultimately show ?thesis
    using assms(1) by (simp add: assms(3-5) proxy_events)
qed

lemma proxy_stderr_transparent_witness:
  "proxy_stderr ((wire_event (LogLine ''building'') @ wire_u64 stderr_last) @ [5],
      live [] [] 0 0 0x126 True) =
    (Inr (), ([5], live [] ([] @ wire_event (LogLine ''building'') @ wire_u64 stderr_last) 0 0 0x126 True))"
proof -
  have "\<forall>e \<in> set [LogLine ''building'']. short_event e" by (simp add: short_string_def)
  moreover have "short_string ''failed''" by (simp add: short_string_def)
  ultimately show ?thesis
    using proxy_stderr_transparent [of "[LogLine ''building'']" "''failed''" _ _ _ "0x126" 1 "[5]" "[]" "[]" 0 0 True]
    by (simp del: append_assoc)
qed

end
