(* ===== verification/Nix_Builder.thy ===== *)
theory Nix_Builder
  imports Nix_Conn
begin

text \<open>
  The proxy as a client of another daemon (\<open>nixproto/proxy.go\<close>): the handshake with a builder or the
  store host, the options, the loop that reads the stderr stream and reports it to a sink, the build
  itself, and the store queries. Both ends are streams, so the other daemon is any stream of bytes.
\<close>

section \<open>Sinks of a stderr stream\<close>

text \<open>
  The interface \<open>StderrSink\<close>: one function on the sink's own state, an event for each of its methods.
  \<open>nil\<close> is the sink that does nothing; a client connection writes each event on.
\<close>

type_synonym 'k stderr_sink = "stderr_event \<Rightarrow> ('k, unit) io"

definition nil_sink :: "'k stderr_sink" where
  "nil_sink e = succeed ()"

fun client_log_sink :: "conn stderr_sink" where
  "client_log_sink (LogLine msg) = write_stderr_log msg"
| "client_log_sink (StartActivity act level kind txt fs parent) =
     write_stderr_start_activity act level kind txt fs parent"
| "client_log_sink (StopActivity act) = write_stderr_stop_activity act"
| "client_log_sink (ActivityResult act kind fs) = write_stderr_result act kind fs"
| "client_log_sink (SinkData d) = succeed ()"

text \<open>
  The state while another daemon is at work: the connection to it and the sink. \<open>peer\<close> runs an
  operation on the connection, \<open>notify\<close> one of the sink, whose errors are dropped.
\<close>

type_synonym 'k link = "conn \<times> 'k"

definition peer :: "(conn, 'a) io \<Rightarrow> ('k link, 'a) io" where
  "peer m ck = (case m (fst ck) of (res, c) \<Rightarrow> (res, (c, snd ck)))"

definition notify :: "'k stderr_sink \<Rightarrow> stderr_event \<Rightarrow> ('k link, unit) io" where
  "notify sink e ck = (Inr (), (fst ck, snd (sink e (snd ck))))"

section \<open>The stderr stream\<close>

definition read_field :: "activity_field reader" where
  "read_field =
     andThen read_uint64 (\<lambda>field_type.
     if field_type = 0 then
       andThen read_uint64 (\<lambda>v. succeed \<lparr>af_type = field_type, af_int = v, af_str = ''''\<rparr>)
     else
       andThen read_string (\<lambda>s. succeed \<lparr>af_type = field_type, af_int = 0, af_str = s\<rparr>))"

text \<open>A position: file, line, column, with every error dropped.\<close>

definition drop_position :: "(conn, unit) io" where
  "drop_position =
     run_all [ignore (get read_string), ignore (get read_uint64), ignore (get read_uint64)]"

fun drop_traces :: "nat \<Rightarrow> (conn, unit) io" where
  "drop_traces 0 = succeed ()"
| "drop_traces (Suc k) =
     andThen (attempt 0 (get read_uint64)) (\<lambda>have_pos.
     andThen (if have_pos \<noteq> 0 then drop_position else succeed ()) (\<lambda>_.
     andThen (ignore (get read_string)) (\<lambda>_.
     drop_traces k)))"

definition read_builder_error :: "(conn, string) io" where
  "read_builder_error =
     andThen (asks (\<lambda>c. minor_of (c_version c))) (\<lambda>minor.
     if minor \<ge> 26 then
       andThen (attempt '''' (get read_string)) (\<lambda>err_type.
       andThen (ignore (get read_uint64)) (\<lambda>_.
       andThen (ignore (get read_string)) (\<lambda>_.
       andThen (attempt '''' (get read_string)) (\<lambda>msg.
       andThen (attempt 0 (get read_uint64)) (\<lambda>have_pos.
       andThen (if have_pos \<noteq> 0 then drop_position else succeed ()) (\<lambda>_.
       andThen (attempt 0 (get read_uint64)) (\<lambda>traces_count.
       andThen (drop_traces (unat traces_count)) (\<lambda>_.
       succeed (''builder error ('' @ err_type @ ''): '' @ msg)))))))))
     else
       andThen (attempt '''' (get read_string)) (\<lambda>msg.
       andThen (attempt 0 (get read_uint64)) (\<lambda>status.
       succeed (''builder error (status '' @ decimal (unat status) @ ''): '' @ msg))))"

definition read_start_activity :: "stderr_event reader" where
  "read_start_activity =
     andThen read_uint64 (\<lambda>act.
     andThen read_uint64 (\<lambda>lvl.
     andThen read_uint64 (\<lambda>kind.
     andThen read_string (\<lambda>txt.
     andThen read_uint64 (\<lambda>fields_count.
     andThen (read_times (unat fields_count) read_field) (\<lambda>fs.
     andThen read_uint64 (\<lambda>parent.
     succeed (StartActivity act lvl kind txt fs parent))))))))"

definition read_activity_result :: "stderr_event reader" where
  "read_activity_result =
     andThen read_uint64 (\<lambda>act.
     andThen read_uint64 (\<lambda>kind.
     andThen read_uint64 (\<lambda>fields_count.
     andThen (read_times (unat fields_count) read_field) (\<lambda>fs.
     succeed (ActivityResult act kind fs)))))"

definition read_stderr_step :: "'k stderr_sink \<Rightarrow> ('k link, bool) io" where
  "read_stderr_step sink =
     andThen (peer (wrap ''reading stderr marker'' (get read_uint64))) (\<lambda>marker.
     if marker = stderr_last then succeed True
     else if marker = stderr_next then
       andThen (peer (get read_string)) (\<lambda>msg. andThen (notify sink (LogLine msg)) (\<lambda>_. succeed False))
     else if marker = stderr_error then
       andThen (peer read_builder_error) (\<lambda>msg. throw (Failed msg))
     else if marker = stderr_write then
       andThen (peer (get read_bytes)) (\<lambda>_. succeed False)
     else if marker = stderr_read then throw (Failed ''unexpected StderrRead'')
     else if marker = stderr_start_activity then
       andThen (peer (get read_start_activity)) (\<lambda>e. andThen (notify sink e) (\<lambda>_. succeed False))
     else if marker = stderr_stop_activity then
       andThen (peer (get read_uint64)) (\<lambda>act. andThen (notify sink (StopActivity act)) (\<lambda>_. succeed False))
     else if marker = stderr_result then
       andThen (peer (get read_activity_result)) (\<lambda>e. andThen (notify sink e) (\<lambda>_. succeed False))
     else if marker = 0 then throw (Failed ''operation returned false/failure (marker=0)'')
     else if marker = 1 then succeed True
     else throw (Failed (''unknown stderr marker: 0x'' @ hexnum marker)))"

definition read_stderr_stream :: "'k stderr_sink \<Rightarrow> ('k link, unit) io" where
  "read_stderr_stream sink = loop_reading (\<lambda>ck. unread (fst ck)) (read_stderr_step sink)"

section \<open>Starting a session\<close>

definition handshake_with_builder :: "(conn, unit) io" where
  "handshake_with_builder =
     andThen (wrap ''writing client magic'' (put (write_uint64 client_magic))) (\<lambda>_.
     andThen (wrap ''writing client version'' (put (write_uint64 protocol_version))) (\<lambda>_.
     andThen (wrap ''flushing magic+version'' flush) (\<lambda>_.
     andThen (wrap ''reading server magic'' (get read_uint64)) (\<lambda>magic.
     if magic \<noteq> server_magic then throw (bad_magic ''server'' magic server_magic)
     else
     andThen (wrap ''reading server version'' (get read_uint64)) (\<lambda>server_version.
     andThen (modify (\<lambda>c. c\<lparr>c_version :=
        (if protocol_version < server_version then protocol_version else server_version)\<rparr>)) (\<lambda>_.
     andThen (asks c_version) (\<lambda>version.
     andThen (wrap ''writing client features'' (put (write_strings []))) (\<lambda>_.
     andThen (wrap ''flushing features'' flush) (\<lambda>_.
     andThen (skip (wrap ''reading server features'' (get read_strings))) (\<lambda>_.
     andThen (if minor_of version \<ge> 14 then
        run_all [put (write_uint64 0), put (write_uint64 0), wrap ''flushing affinity'' flush]
        else succeed ()) (\<lambda>_.
     andThen (if minor_of version \<ge> 33
        then skip (wrap ''reading daemon version'' (get read_string)) else succeed ()) (\<lambda>_.
     andThen (if minor_of version \<ge> 35 then
        andThen (wrap ''reading trust status'' (get read_uint64)) (\<lambda>trusted.
        modify (\<lambda>c. c\<lparr>c_trusted := (trusted \<noteq> 0)\<rparr>))
        else succeed ()) (\<lambda>_.
     andThen (wrap ''reading StderrLast'' (get read_uint64)) (\<lambda>marker.
     if marker \<noteq> stderr_last then
       throw (Failed (''expected StderrLast (0x'' @ hexnum stderr_last @ ''), got 0x'' @ hexnum marker))
     else succeed ()))))))))))))))"

text \<open>The options and the fields that depend on the minor version; the errors of the writes are dropped.\<close>

definition write_options :: "u64 \<Rightarrow> (conn, unit) io" where
  "write_options minor =
     run_all (map (\<lambda>w. ignore (put w))
       ([write_bool False, write_bool True, write_bool True, write_uint64 3, write_uint64 1, write_uint64 0] @
        (if minor \<ge> 2 then [write_bool False] else []) @
        (if minor \<ge> 4 then [write_uint64 0, write_uint64 0, write_uint64 0] else []) @
        (if minor \<ge> 6 then [write_uint64 0] else []) @
        (if minor \<ge> 10 then [write_bool True] else []) @
        (if minor \<ge> 12 then [write_uint64 0] else [])))"

definition send_set_options :: "'k stderr_sink \<Rightarrow> ('k link, unit) io" where
  "send_set_options sink =
     andThen (peer (write_op op_set_options)) (\<lambda>_.
     andThen (peer (asks (\<lambda>c. minor_of (c_version c)))) (\<lambda>minor.
     andThen (peer (write_options minor)) (\<lambda>_.
     andThen (peer (wrap ''flushing SetOptions'' flush)) (\<lambda>_.
     read_stderr_stream sink))))"

section \<open>A build on a builder\<close>

definition build_result_substituted :: u64 where "build_result_substituted = 1"
definition build_result_already_valid :: u64 where "build_result_already_valid = 2"

definition is_success :: "u64 \<Rightarrow> bool" where
  "is_success st \<longleftrightarrow> st \<in> {build_result_built, build_result_substituted, build_result_already_valid}"

text \<open>
  A successful result without outputs gets those of the derivation, under their \<open>DrvOutput\<close>
  identifiers. \<open>digest\<close> is SHA-256. A \<open>BuildMode\<close> is a \<open>uint8\<close>, sent as a \<open>uint64\<close>.
\<close>

definition synthesize :: "(byte list \<Rightarrow> byte list) \<Rightarrow> basic_derivation \<Rightarrow> (string \<times> realisation) list" where
  "synthesize digest drv =
     foldl (\<lambda>m (name, output).
        let ident = ''sha256:'' @ compute_derivation_hash digest drv @ ''!'' @ name
        in AList.update ident
             \<lparr>rl_id = ident, rl_out_path = no_path output, rl_signatures = [], rl_dependent = []\<rparr> m)
       [] (bd_outputs drv)"

definition populate_outputs ::
  "(byte list \<Rightarrow> byte list) \<Rightarrow> basic_derivation \<Rightarrow> build_result \<Rightarrow> build_result" where
  "populate_outputs digest drv r =
     (if is_success (br_status r) \<and> br_built_outputs r = []
      then r\<lparr>br_built_outputs := synthesize digest drv\<rparr> else r)"

definition build_on ::
  "(byte list \<Rightarrow> byte list) \<Rightarrow> (string \<Rightarrow> realisation option) \<Rightarrow> 'k stderr_sink \<Rightarrow>
   string \<Rightarrow> basic_derivation \<Rightarrow> u8 \<Rightarrow> ('k link, build_result) io" where
  "build_on digest of_json sink drv_path drv build_mode =
     andThen (wrap ''builder handshake failed'' (peer handshake_with_builder)) (\<lambda>_.
     andThen (wrap ''sending options'' (send_set_options sink)) (\<lambda>_.
     andThen (wrap ''writing BuildDerivation op'' (peer (write_op op_build_derivation))) (\<lambda>_.
     andThen (wrap ''writing drv path'' (peer (put (write_string drv_path)))) (\<lambda>_.
     andThen (wrap ''writing derivation'' (peer (put (write_basic_derivation drv)))) (\<lambda>_.
     andThen (wrap ''writing build mode'' (peer (put (write_uint64 (ucast build_mode))))) (\<lambda>_.
     andThen (wrap ''flushing BuildDerivation'' (peer flush)) (\<lambda>_.
     andThen (wrap ''reading stderr stream'' (read_stderr_stream sink)) (\<lambda>_.
     andThen (peer (asks c_version)) (\<lambda>version.
     andThen (wrap ''reading build result'' (peer (get (read_build_result of_json version)))) (\<lambda>result.
     succeed (populate_outputs digest drv result)))))))))))"

text \<open>
  Running a command on another host: every stage of opening the session may fail, and otherwise the
  process is the stream it writes and a sink for its input. \<open>daemon cmd\<close> is that outcome for the
  command \<open>cmd\<close>.
\<close>

datatype stage = Dialing | NewSession | StdinPipe | StdoutPipe | StderrPipe | Starting

type_synonym remote = "string \<Rightarrow> (stage \<times> io_error) + (byte list \<times> sink)"

definition build_stage_error :: "stage \<Rightarrow> string" where
  "build_stage_error st = (case st of
     NewSession \<Rightarrow> ''creating SSH session'' | StdinPipe \<Rightarrow> ''getting stdin pipe''
   | StdoutPipe \<Rightarrow> ''getting stdout pipe'' | _ \<Rightarrow> ''starting nix-daemon'')"

definition execute_build ::
  "remote \<Rightarrow> (byte list \<Rightarrow> byte list) \<Rightarrow> (string \<Rightarrow> realisation option) \<Rightarrow> 'k stderr_sink \<Rightarrow>
   string \<Rightarrow> basic_derivation \<Rightarrow> u8 \<Rightarrow> ('k, build_result) io" where
  "execute_build builder digest of_json sink drv_path drv build_mode k =
     (case builder ''exec nix-daemon --stdio'' of
        Inl (st, e) \<Rightarrow> (Inl (Wrapped (build_stage_error st) e), k)
      | Inr (inp, out) \<Rightarrow>
          (case build_on digest of_json sink drv_path drv build_mode (new_conn inp out, k) of
             (res, (c, k')) \<Rightarrow> (res, k')))"

section \<open>Queries to the store host\<close>

definition query_valid_paths_on_store_with_substitute ::
  "'k stderr_sink \<Rightarrow> string list \<Rightarrow> bool \<Rightarrow> ('k link, string list) io" where
  "query_valid_paths_on_store_with_substitute sink paths substitute =
     andThen (wrap ''writing op'' (peer (write_op op_query_valid_paths))) (\<lambda>_.
     andThen (wrap ''writing paths'' (peer (put (write_strings paths)))) (\<lambda>_.
     andThen (peer (asks (\<lambda>c. minor_of (c_version c)))) (\<lambda>minor.
     andThen (if minor \<ge> 27 then wrap ''writing substitute flag'' (peer (put (write_bool substitute)))
        else succeed ()) (\<lambda>_.
     andThen (wrap ''flushing'' (peer flush)) (\<lambda>_.
     andThen (wrap ''reading stderr'' (read_stderr_stream sink)) (\<lambda>_.
     wrap ''reading response'' (peer (get read_strings))))))))"

record path_info =
  pi_deriver :: string
  pi_nar_hash :: string
  pi_references :: "string list"
  pi_registration_time :: u64
  pi_nar_size :: u64
  pi_ultimate :: bool
  pi_sigs :: "string list"
  pi_ca :: string

definition read_path_info :: "u64 \<Rightarrow> path_info reader" where
  "read_path_info minor =
     andThen (wrap ''reading deriver'' read_string) (\<lambda>deriver.
     andThen (wrap ''reading narHash'' read_string) (\<lambda>nar_hash.
     andThen (wrap ''reading refs'' read_strings) (\<lambda>refs.
     andThen (wrap ''reading regTime'' read_uint64) (\<lambda>reg_time.
     andThen (wrap ''reading narSize'' read_uint64) (\<lambda>nar_size.
     andThen (when_minor (minor \<ge> 16) False (wrap ''reading ultimate'' read_bool)) (\<lambda>ultimate.
     andThen (when_minor (minor \<ge> 16) [] (wrap ''reading sigs'' read_strings)) (\<lambda>sigs.
     andThen (when_minor (minor \<ge> 16) '''' (wrap ''reading ca'' read_string)) (\<lambda>ca.
     succeed \<lparr>pi_deriver = deriver, pi_nar_hash = nar_hash, pi_references = refs,
       pi_registration_time = reg_time, pi_nar_size = nar_size, pi_ultimate = ultimate,
       pi_sigs = sigs, pi_ca = ca\<rparr>))))))))"

definition query_path_info_via_daemon :: "string \<Rightarrow> ('k link, path_info option) io" where
  "query_path_info_via_daemon path =
     andThen (peer (write_op op_query_path_info)) (\<lambda>_.
     andThen (peer (put (write_string path))) (\<lambda>_.
     andThen (peer flush) (\<lambda>_.
     andThen (read_stderr_stream nil_sink) (\<lambda>_.
     andThen (peer (asks (\<lambda>c. minor_of (c_version c)))) (\<lambda>minor.
     andThen (if minor \<ge> 17 then wrap ''reading found flag'' (peer (get read_bool)) else succeed True) (\<lambda>found.
     if \<not> found then succeed None
     else andThen (peer (get (read_path_info minor))) (\<lambda>i. succeed (Some i))))))))"

definition send_add_signatures :: "string \<Rightarrow> string list \<Rightarrow> ('k link, unit) io" where
  "send_add_signatures path sigs =
     andThen (peer (write_op op_add_signatures)) (\<lambda>_.
     andThen (peer (put (write_string path))) (\<lambda>_.
     andThen (peer (put (write_strings sigs))) (\<lambda>_.
     andThen (peer flush) (\<lambda>_.
     read_stderr_stream nil_sink))))"

definition query_realisation ::
  "(string \<Rightarrow> realisation option) \<Rightarrow> string \<Rightarrow> ('k link, realisation option) io" where
  "query_realisation of_json drv_output_id =
     andThen (wrap ''writing QueryRealisation op'' (peer (write_op op_query_realisation))) (\<lambda>_.
     andThen (wrap ''writing DrvOutput ID'' (peer (put (write_string drv_output_id)))) (\<lambda>_.
     andThen (wrap ''flushing QueryRealisation'' (peer flush)) (\<lambda>_.
     andThen (wrap ''reading stderr for QueryRealisation'' (read_stderr_stream nil_sink)) (\<lambda>_.
     andThen (wrap ''reading realisation count'' (peer (get read_uint64))) (\<lambda>count.
     if count = 0 then succeed None
     else
       andThen (wrap ''reading realisation JSON'' (peer (get read_string))) (\<lambda>json.
       case of_json json of
         None \<Rightarrow> throw (Failed ''unmarshaling realisation'')
       | Some real \<Rightarrow> succeed (Some real)))))))"

section \<open>Reading the messages\<close>

definition normal_field :: "activity_field \<Rightarrow> activity_field" where
  "normal_field f = (if af_type f = 0 then f\<lparr>af_str := ''''\<rparr> else f\<lparr>af_int := 0\<rparr>)"

text \<open>A message as it is read: the value a field's type does not select is zero.\<close>

fun normal_event :: "stderr_event \<Rightarrow> stderr_event" where
  "normal_event (StartActivity act level kind txt fs parent) =
     StartActivity act level kind txt (map normal_field fs) parent"
| "normal_event (ActivityResult act kind fs) = ActivityResult act kind (map normal_field fs)"
| "normal_event e = e"

fun is_message :: "stderr_event \<Rightarrow> bool" where
  "is_message (SinkData d) = False"
| "is_message e = True"

lemma wire_normal_field [simp]: "wire_field (normal_field f) = wire_field f"
  by (simp add: wire_field_def normal_field_def)

lemma wire_normal_event [simp]: "wire_event (normal_event e) = wire_event e"
proof -
  have "wire_field \<circ> normal_field = wire_field" by (simp add: fun_eq_iff)
  then show ?thesis by (cases e) (simp_all add: wire_fields_def)
qed

lemma decodes_field: "short_string (af_str f) \<Longrightarrow> decodes read_field (wire_field f) (normal_field f)"
  unfolding read_field_def wire_field_def normal_field_def
  by (intro decodes_andThen [OF decodes_u64])
    (auto intro!: decodes_last [OF decodes_u64] decodes_last [OF decodes_string] decodes_succeedI)

lemma decodes_times_map:
  "(\<And>x. x \<in> set xs \<Longrightarrow> decodes r (g x) (h x)) \<Longrightarrow>
     decodes (read_times (length xs) r) (concat (map g xs)) (map h xs)"
proof (induction xs)
  case Nil
  then show ?case by (simp add: decodes_succeed)
next
  case (Cons x xs)
  then have "decodes (andThen (read_times (length xs) r) (\<lambda>vs. succeed (h x # vs)))
      (concat (map g xs)) (h x # map h xs)"
    by (intro decodes_last [where v = "map h xs"]) (auto intro: decodes_succeed)
  then show ?case
    using Cons.prems by (auto intro!: decodes_andThen [where v = "h x"])
qed

lemma decodes_field_list:
  "short_fields fs \<Longrightarrow>
     decodes (read_times (unat (of_nat (length fs) :: u64)) read_field) (concat (map wire_field fs))
       (map normal_field fs)"
  by (simp add: short_fields_def unat_of_nat) (auto intro: decodes_times_map decodes_field)

lemma decodes_fields_then:
  assumes "short_fields fs" and "decodes (g (map normal_field fs)) cs w"
  shows "decodes (andThen read_uint64 (\<lambda>count. andThen (read_times (unat count) read_field) g))
    (wire_fields fs @ cs) w"
  unfolding wire_fields_def append_assoc
  by (intro decodes_andThen [OF decodes_u64] decodes_andThen [OF decodes_field_list] assms)

lemma decodes_start_activity:
  assumes "short_string txt" and "short_fields fs"
  shows "decodes read_start_activity
    (wire_u64 act @ wire_u64 level @ wire_u64 kind @ wire_string txt @ wire_fields fs @ wire_u64 parent)
    (normal_event (StartActivity act level kind txt fs parent))"
  unfolding read_start_activity_def
  by (intro decodes_andThen [OF decodes_u64] decodes_andThen [OF decodes_string] decodes_fields_then
      decodes_last [OF decodes_u64] decodes_succeedI assms) simp

lemma decodes_activity_result:
  assumes "short_fields fs"
  shows "decodes read_activity_result (wire_u64 act @ wire_u64 kind @ wire_fields fs)
    (normal_event (ActivityResult act kind fs))"
proof -
  have "decodes (andThen read_uint64 (\<lambda>count. andThen (read_times (unat count) read_field)
      (\<lambda>fs. succeed (ActivityResult act kind fs)))) (wire_fields fs @ [])
      (normal_event (ActivityResult act kind fs))"
    by (intro decodes_fields_then assms decodes_succeedI) simp
  then show ?thesis
    unfolding read_activity_result_def by (intro decodes_andThen [OF decodes_u64]) simp
qed

section \<open>A connection between requests\<close>

text \<open>An unbroken connection that holds nothing back.\<close>

abbreviation idle :: "byte list \<Rightarrow> byte list \<Rightarrow> u64 \<Rightarrow> bool \<Rightarrow> conn" where
  "idle inp out ver tr \<equiv> live inp out (length out) 0 ver tr"

lemma peer_Inr: "m c = (Inr v, c') \<Longrightarrow> peer m (c, k) = (Inr v, (c', k))"
  by (simp add: peer_def)

lemma peer_get:
  "decodes r bs v \<Longrightarrow> peer (get r) (idle (bs @ rest) out ver tr, k) = (Inr v, (idle rest out ver tr, k))"
  by (rule peer_Inr) (simp add: get_live)

lemma peer_get_u64:
  "peer (get read_uint64) (idle (wire_u64 v @ rest) out ver tr, k) = (Inr v, (idle rest out ver tr, k))"
  by (rule peer_get) (rule decodes_u64)

lemma shrinks_peer [shrinking]: "shrinks unread m \<Longrightarrow> shrinks (\<lambda>ck. unread (fst ck)) (peer m)"
  unfolding shrinks_def peer_def by (auto split: prod.splits) (metis snd_conv)

lemma consumes_peer: "consumes unread m \<Longrightarrow> consumes (\<lambda>ck. unread (fst ck)) (peer m)"
  unfolding consumes_def by (auto intro: shrinking simp: peer_def split: prod.splits)

lemma shrinks_notify [shrinking]: "shrinks (\<lambda>ck. unread (fst ck)) (notify sink e)"
  by (simp add: shrinks_def notify_def)

lemma shrinks_read_field [shrinking]: "shrinks length read_field"
  unfolding read_field_def by (intro shrinking)

lemma shrinks_drop_position [shrinking]: "shrinks unread drop_position"
  unfolding drop_position_def by (auto intro!: shrinking)

lemma shrinks_drop_traces [shrinking]: "shrinks unread (drop_traces n)"
  by (induction n) (auto intro!: shrinking)

lemma shrinks_read_builder_error [shrinking]: "shrinks unread read_builder_error"
  unfolding read_builder_error_def by (intro shrinking)

lemma consumes_read_stderr_step: "consumes (\<lambda>ck. unread (fst ck)) (read_stderr_step sink)"
  unfolding read_stderr_step_def read_start_activity_def read_activity_result_def
  by (intro consumes_andThen consumes_peer consumes_wrap consumes_get consumes_read_uint64 shrinking)

interpretation stderr_stream: reading_loop "\<lambda>ck. unread (fst ck)" "read_stderr_step sink" for sink
  by unfold_locales
    (erule consumesD [OF consumes_read_stderr_step], rule shrinks_consumes [OF consumes_read_stderr_step])

lemma shrinks_read_stderr_stream [shrinking]: "shrinks (\<lambda>ck. unread (fst ck)) (read_stderr_stream sink)"
  unfolding read_stderr_stream_def by (rule stderr_stream.shrinks_loop)

definition deliver :: "'k stderr_sink \<Rightarrow> stderr_event list \<Rightarrow> 'k \<Rightarrow> 'k" where
  "deliver sink evs k = fold (\<lambda>e k. snd (sink e k)) evs k"

lemma step_marker:
  "andThen (peer (wrap msg (get read_uint64))) f (idle (wire_u64 v @ rest) out ver tr, k) =
     f v (idle rest out ver tr, k)"
  by (simp add: andThen_def peer_def wrap_def get_u64_live)

lemma read_event:
  assumes "short_event e"
  shows "read_stderr_step sink (idle (wire_event e @ rest) out ver tr, k) =
    (Inr False, (idle rest out ver tr, if is_message e then snd (sink (normal_event e) k) else k))"
  using assms
  by (cases e)
    (simp_all add: read_stderr_step_def step_marker stderr_markers,
     simp_all add: andThen_def notify_def succeed_eq peer_get_u64
       peer_get [OF decodes_string] peer_get [OF decodes_bytes] short_string_def
       peer_get [OF decodes_start_activity, simplified] peer_get [OF decodes_activity_result, simplified])

lemma read_events:
  "\<forall>e \<in> set evs. short_event e \<Longrightarrow>
     read_stderr_stream sink (idle (concat (map wire_event evs) @ rest) out ver tr, k) =
     read_stderr_stream sink
       (idle rest out ver tr, deliver sink (map normal_event (filter is_message evs)) k)"
proof (induction evs arbitrary: k)
  case Nil
  then show ?case by (simp add: deliver_def)
next
  case (Cons e evs)
  then show ?case
    using stderr_stream.unroll_more [OF read_event [of e sink "concat (map wire_event evs) @ rest" out ver tr k]]
    by (simp add: read_stderr_stream_def deliver_def)
qed

lemma read_last:
  "read_stderr_stream sink (idle (wire_u64 stderr_last @ rest) out ver tr, k) =
     (Inr (), (idle rest out ver tr, k))"
  unfolding read_stderr_stream_def
  by (rule stderr_stream.unroll_done) (simp add: read_stderr_step_def step_marker succeed_eq)

text \<open>What the reader makes of an error of the two formats.\<close>

definition reported :: "u64 \<Rightarrow> string \<Rightarrow> u64 \<Rightarrow> string" where
  "reported version msg status =
     (if minor_of version \<ge> 26 then ''builder error (Error): '' @ msg
      else ''builder error (status '' @ decimal (unat status) @ ''): '' @ msg)"

lemma attempt_Inr: "m s = (Inr v, s') \<Longrightarrow> attempt d m s = (Inr v, s')"
  by (simp add: attempt_def)

lemma ignore_Inr: "m s = (Inr v, s') \<Longrightarrow> ignore m s = (Inr (), s')"
  by (simp add: ignore_def)

lemma read_builder_error_idle:
  assumes "short_string msg"
  shows "read_builder_error (idle (wire_error ver msg status @ rest) out ver tr) =
    (Inr (reported ver msg status), idle rest out ver tr)"
proof -
  have "short_string ''Error''" "short_string ''''" by (simp_all add: short_string_def)
  note strings = get_live [OF decodes_string [OF this(1)]] get_live [OF decodes_string [OF this(2)]]
    get_live [OF decodes_string [OF assms]]
  show ?thesis
    unfolding read_builder_error_def wire_error_def reported_def
    by (cases "minor_of ver \<ge> 26")
      (simp_all add: andThen_def nix_simps attempt_def ignore_def get_u64_live strings)
qed

lemma read_error:
  assumes "short_string msg"
  shows "read_stderr_stream sink (idle (wire_u64 stderr_error @ wire_error ver msg status @ rest) out ver tr, k) =
    (Inl (Failed (reported ver msg status)), (idle rest out ver tr, k))"
  unfolding read_stderr_stream_def
  by (rule stderr_stream.unroll_error)
    (simp add: read_stderr_step_def step_marker stderr_markers,
     simp add: andThen_def throw_def peer_def read_builder_error_idle [OF assms])

section \<open>The contract of a sink\<close>

text \<open>
  A sink shows each event it is given: \<open>seen\<close> is what it has put out, \<open>shape e\<close> what an event adds.
  \<open>works\<close> is the state in which it does, which every event keeps.
\<close>

locale event_sink =
  fixes sink :: "'k stderr_sink"
    and works :: "'k \<Rightarrow> bool"
    and seen :: "'k \<Rightarrow> 'o list"
    and shape :: "stderr_event \<Rightarrow> 'o list"
  assumes stays: "works k \<Longrightarrow> works (snd (sink e k))"
    and shows_event: "works k \<Longrightarrow> seen (snd (sink e k)) = seen k @ shape e"
begin

lemma delivered:
  "works k \<Longrightarrow> works (deliver sink evs k) \<and> seen (deliver sink evs k) = seen k @ concat (map shape evs)"
  by (induction evs arbitrary: k) (simp_all add: deliver_def stays shows_event)

text \<open>Whatever the other daemon sends before the end, the sink has shown all of it, in order.\<close>

lemma stream_shown:
  assumes "works k" and "\<forall>e \<in> set evs. short_event e"
  shows "\<exists>k'. read_stderr_stream sink
      (idle (concat (map wire_event evs) @ wire_u64 stderr_last @ rest) out ver tr, k) =
        (Inr (), (idle rest out ver tr, k')) \<and>
    works k' \<and> seen k' = seen k @ concat (map (shape \<circ> normal_event) (filter is_message evs))"
  using delivered [OF assms(1), of "map normal_event (filter is_message evs)"]
  by (simp add: read_events [OF assms(2)] read_last)

end

text \<open>The bytes a client is sent for an event.\<close>

definition client_bytes :: "stderr_event \<Rightarrow> byte list" where
  "client_bytes e = (if is_message e then wire_event e else [])"

lemma client_log_sink_live:
  "client_log_sink e (live inp out fl h ver tr) =
     (Inr (), live inp (out @ client_bytes e) fl h ver tr)"
  by (cases e) (simp_all add: client_bytes_def writes_events succeed_eq del: wire_event.simps)

interpretation discarding: event_sink nil_sink "\<lambda>_. True" "\<lambda>_. []" "\<lambda>_. []"
  by unfold_locales simp_all

interpretation client_sink: event_sink client_log_sink
    "\<lambda>c. \<exists>out. c = live inp out fl h ver tr" "\<lambda>c. sk_out (c_sink c)" client_bytes
  for inp fl h ver tr
  by unfold_locales (auto simp: client_log_sink_live nix_simps)

lemma deliver_client:
  "deliver client_log_sink evs (live inp out fl h ver tr) =
     live inp (out @ concat (map client_bytes evs)) fl h ver tr"
  by (induction evs arbitrary: out) (simp_all add: deliver_def client_log_sink_live)

lemma deliver_nil: "deliver nil_sink evs k = k"
  by (induction evs) (simp_all add: deliver_def nil_sink_def succeed_eq)

lemma is_message_normal [simp]: "is_message (normal_event e) = is_message e"
  by (cases e) simp_all

lemma client_bytes_normal [simp]: "client_bytes (normal_event e) = client_bytes e"
  by (simp add: client_bytes_def)

lemma client_bytes_messages:
  "concat (map (client_bytes \<circ> normal_event) (filter is_message evs)) = concat (map client_bytes evs)"
  by (induction evs) (auto simp: client_bytes_def)

section \<open>Both sides of the handshake\<close>

definition builder_hello :: "u64 \<Rightarrow> byte list" where
  "builder_hello version =
     wire_u64 client_magic @ wire_u64 protocol_version @ wire_strings [] @
     (if minor_of version \<ge> 14 then wire_u64 0 @ wire_u64 0 else [])"

text \<open>What a daemon of version \<open>sv\<close> sends.\<close>

definition daemon_info :: "u64 \<Rightarrow> string \<Rightarrow> u64 \<Rightarrow> byte list" where
  "daemon_info version name trusted =
     (if minor_of version \<ge> 33 then wire_string name else []) @
     (if minor_of version \<ge> 35 then wire_u64 trusted else []) @ wire_u64 stderr_last"

definition daemon_hello :: "u64 \<Rightarrow> string list \<Rightarrow> string \<Rightarrow> u64 \<Rightarrow> byte list" where
  "daemon_hello sv features name trusted =
     wire_u64 server_magic @ wire_u64 sv @ wire_strings features @ daemon_info (settled sv) name trusted"

lemma affinity_live:
  assumes "fl = length out"
  shows "(if minor_of ver \<ge> 14 then
      run_all [put (write_uint64 0), put (write_uint64 0), wrap msg flush] else succeed ())
    (live inp out fl 0 ver tr) =
   (Inr (), idle inp (out @ (if minor_of ver \<ge> 14 then wire_u64 0 @ wire_u64 0 else [])) ver tr)"
  using assms by (simp add: andThen_def put_u64_live wrap_def nix_simps)

lemma daemon_info_live:
  assumes "short_string name" and "fl = length out"
  shows "andThen (if minor_of ver \<ge> 33 then skip (wrap m1 (get read_string)) else succeed ()) (\<lambda>_.
      andThen (if minor_of ver \<ge> 35 then
        andThen (wrap m2 (get read_uint64)) (\<lambda>trusted. modify (\<lambda>c. c\<lparr>c_trusted := (trusted \<noteq> 0)\<rparr>))
        else succeed ()) (\<lambda>_.
      andThen (wrap m3 (get read_uint64)) (\<lambda>marker.
      if marker \<noteq> stderr_last then throw (err marker) else succeed ())))
    (live (daemon_info ver name t @ rest) out fl 0 ver tr) =
    (Inr (), idle rest out ver (if minor_of ver \<ge> 35 then t \<noteq> 0 else tr))"
  by (cases "minor_of ver \<ge> 33"; cases "minor_of ver \<ge> 35")
    (simp_all add: daemon_info_def andThen_def skip_def wrap_def nix_simps get_u64_live
      get_live [OF decodes_string [OF assms(1)]] assms(2))

lemma handshake_with_builder_idle:
  assumes features: "short_strings features" and name: "short_string name"
  shows "handshake_with_builder (idle (daemon_hello sv features name t @ rest) out v0 tr) =
    (Inr (), idle rest (out @ builder_hello (settled sv)) (settled sv)
       (if minor_of (settled sv) \<ge> 35 then t \<noteq> 0 else tr))"
proof -
  obtain r where r: "r = (Inr () :: io_error + unit, idle rest (out @ builder_hello (settled sv)) (settled sv)
       (if minor_of (settled sv) \<ge> 35 then t \<noteq> 0 else tr))" by simp
  have "handshake_with_builder (idle (daemon_hello sv features name t @ rest) out v0 tr) = r"
    unfolding handshake_with_builder_def daemon_hello_def append_assoc settled_eq
    by (rule trans [OF daemon_info_live [OF name]] then_step live_runs flush_live modify_eq
        asks_version_live affinity_live
        | simp add: nix_simps features del: run_all.simps split del: if_split
        | simp add: r builder_hello_def)+
  then show ?thesis by (simp only: r)
qed

section \<open>Requests to another daemon\<close>

definition wire_bool :: "bool \<Rightarrow> byte list" where
  "wire_bool b = wire_u64 (if b then 1 else 0)"

lemma emits_wire_bool: "emits (write_bool b) (wire_bool b)"
  unfolding wire_bool_def by (rule emits_bool)

lemma decodes_wire_bool: "decodes read_bool (wire_bool b) b"
  unfolding wire_bool_def by (rule decodes_bool)

definition wire_options :: "u64 \<Rightarrow> byte list" where
  "wire_options minor =
     concat ([wire_bool False, wire_bool True, wire_bool True, wire_u64 3, wire_u64 1, wire_u64 0] @
       (if minor \<ge> 2 then [wire_bool False] else []) @
       (if minor \<ge> 4 then [wire_u64 0, wire_u64 0, wire_u64 0] else []) @
       (if minor \<ge> 6 then [wire_u64 0] else []) @
       (if minor \<ge> 10 then [wire_bool True] else []) @
       (if minor \<ge> 12 then [wire_u64 0] else []))"

lemma write_all_live:
  "list_all2 emits ws bss \<Longrightarrow>
     run_all (map (\<lambda>w. ignore (put w)) ws) (live inp out fl h ver tr) =
       (Inr (), live inp (out @ concat bss) fl h ver tr)"
  by (induction arbitrary: out rule: list_all2_induct)
    (simp_all add: succeed_eq andThen_def ignore_def put_live)

lemma write_options_live:
  "write_options minor (live inp out fl h ver tr) = (Inr (), live inp (out @ wire_options minor) fl h ver tr)"
  unfolding write_options_def wire_options_def
  by (rule write_all_live) (auto simp: emits_wire_bool emits_u64 intro!: list_all2_appendI)

lemma asks_minor_live:
  "asks (\<lambda>c. minor_of (c_version c)) (live inp out fl h ver tr) = (Inr (minor_of ver), live inp out fl h ver tr)"
  by (simp add: nix_simps)

lemmas put_derivation_live = put_live [OF emits_derivation]

text \<open>The rules that run a request on a live connection, in the order of its steps.\<close>

lemmas request_runs = then_step wrap_Inr peer_Inr put_u64_live put_string_live put_strings_live
  put_derivation_live flush_live asks_version_live asks_minor_live write_options_live

lemma read_stream:
  assumes "\<forall>e \<in> set evs. short_event e"
  shows "read_stderr_stream sink
      (idle (concat (map wire_event evs) @ wire_u64 stderr_last @ rest) out ver tr, k) =
    (Inr (), (idle rest out ver tr, deliver sink (map normal_event (filter is_message evs)) k))"
  by (simp add: read_events [OF assms] read_last)

lemma send_set_options_idle:
  assumes "\<forall>e \<in> set evs. short_event e"
  shows "send_set_options sink
      (idle (concat (map wire_event evs) @ wire_u64 stderr_last @ rest) out ver tr, k) =
    (Inr (), (idle rest (out @ wire_u64 op_set_options @ wire_options (minor_of ver)) ver tr,
       deliver sink (map normal_event (filter is_message evs)) k))"
  unfolding send_set_options_def write_op_def
  by (rule request_runs trans [OF read_stream [OF assms]] | simp)+

text \<open>What a build sends, and what a daemon of version \<open>sv\<close> answers.\<close>

definition build_request :: "u64 \<Rightarrow> string \<Rightarrow> basic_derivation \<Rightarrow> u8 \<Rightarrow> byte list" where
  "build_request version drv_path drv build_mode =
     builder_hello version @ wire_u64 op_set_options @ wire_options (minor_of version) @
     wire_u64 op_build_derivation @ wire_string drv_path @ wire_derivation drv @ wire_u64 (ucast build_mode)"

definition build_reply ::
  "(realisation \<Rightarrow> string) \<Rightarrow> u64 \<Rightarrow> string list \<Rightarrow> string \<Rightarrow> u64 \<Rightarrow> stderr_event list \<Rightarrow>
   stderr_event list \<Rightarrow> build_result \<Rightarrow> byte list" where
  "build_reply to_json sv features name trusted evs0 evs r =
     daemon_hello sv features name trusted @
     concat (map wire_event evs0) @ wire_u64 stderr_last @
     concat (map wire_event evs) @ wire_u64 stderr_last @
     wire_build_result to_json (settled sv) r"

lemma build_on_idle:
  assumes "short_strings features" and "short_string name"
    and evs0: "\<forall>e \<in> set evs0. short_event e" and evs: "\<forall>e \<in> set evs. short_event e"
    and r: "short_result to_json r"
    and json: "\<And>i real. (i, real) \<in> set (br_built_outputs r) \<Longrightarrow> of_json (to_json real) = Some real"
  shows "build_on digest of_json sink drv_path drv build_mode
      (idle (build_reply to_json sv features name t evs0 evs r @ rest) [] v0 False, k) =
    (Inr (populate_outputs digest drv (carried (settled sv) r)),
     (idle rest (build_request (settled sv) drv_path drv build_mode) (settled sv)
        (minor_of (settled sv) \<ge> 35 \<and> t \<noteq> 0),
      deliver sink (map normal_event (filter is_message (evs0 @ evs))) k))"
proof -
  obtain tr where tr: "tr = (if minor_of (settled sv) \<ge> 35 then t \<noteq> 0 else False)" by simp
  have hs: "handshake_with_builder (idle (daemon_hello sv features name t @ rest') [] v0 False) =
      (Inr (), idle rest' (builder_hello (settled sv)) (settled sv) tr)" for rest'
    using handshake_with_builder_idle [OF assms(1,2), of sv t rest' "[]" v0 False] tr by simp
  have result: "get (read_build_result of_json (settled sv))
      (idle (wire_build_result to_json (settled sv) r @ rest) out (settled sv) tr) =
     (Inr (carried (settled sv) r), idle rest out (settled sv) tr)" for out
    using get_live [OF decodes_build_result [OF r json, where v = "settled sv"]] by simp
  have k: "deliver sink (map normal_event (filter is_message (evs0 @ evs))) k =
      deliver sink (map normal_event (filter is_message evs))
        (deliver sink (map normal_event (filter is_message evs0)) k)"
    by (simp add: deliver_def)
  have tr': "(minor_of (settled sv) \<ge> 35 \<and> t \<noteq> 0) = tr" by (simp add: tr)
  show ?thesis
    unfolding build_on_def write_op_def build_reply_def build_request_def append_assoc tr' k
    by (rule then_step wrap_Inr hs peer_Inr send_set_options_idle [OF evs0] read_stream [OF evs] result
          put_u64_live put_string_live put_derivation_live flush_live asks_version_live
        | simp add: succeed_eq)+
qed

section \<open>Properties\<close>

text \<open>
  C16: the two halves of the handshake fit. The bytes the proxy sends as a client are those its own
  server half serves, and the bytes the server sends back are those the client half accepts: run on
  each other's output, with nothing left over on either side, both succeed, with the same version,
  trusting each other, and at no point did either side wait while holding back output.
\<close>

theorem handshakes_agree:
  "\<exists>c s. handshake_with_builder (new_conn (sk_out (c_sink s)) (unbounded [])) = (Inr (), c) \<and>
    andThen handshake (\<lambda>_. post_handshake) (new_conn (sk_out (c_sink c)) (unbounded [])) = (Inr (), s) \<and>
    c_version c = c_version s \<and> c_version s = protocol_version \<and> c_trusted c \<and> c_trusted s \<and>
    c_in c = [] \<and> c_in s = [] \<and> c_held c = 0 \<and> c_held s = 0"
proof -
  let ?v = protocol_version
  have settled: "settled ?v = ?v" by (simp add: settled_def)
  have minor: "minor_of ?v = 38"
    by (simp add: minor_of_def protocol_version_def protocol_version_major_def protocol_version_minor_def)
  have "short_strings []" "short_string daemon_version_string"
    by (simp_all add: short_strings_def short_string_def daemon_version_string_def)
  note short = this
  have hello: "daemon_hello ?v [] daemon_version_string 1 = server_hello @ server_info ?v"
    by (simp add: daemon_hello_def server_hello_def daemon_info_def server_info_def settled minor)
  have client: "client_hello ?v [] 0 0 0 = builder_hello ?v"
    by (simp add: client_hello_def builder_hello_def obsolete_fields_def settled minor)
  let ?c = "idle [] (builder_hello ?v) ?v True" and ?s = "idle [] (server_hello @ server_info ?v) ?v True"
  have "handshake_with_builder (new_conn (server_hello @ server_info ?v) (unbounded [])) = (Inr (), ?c)"
    using handshake_with_builder_idle [OF short, of ?v 1 "[]" "[]" 0 False]
    by (simp add: new_conn_live hello settled minor)
  moreover have "andThen handshake (\<lambda>_. post_handshake) (new_conn (builder_hello ?v) (unbounded [])) = (Inr (), ?s)"
    using handshake_live [OF short(1), of ?v 0 0 0 "[]" "[]" 0 False]
    by (simp add: new_conn_live client settled andThen_def post_handshake_live)
  ultimately show ?thesis
    by (intro exI [of _ ?c] exI [of _ ?s]) (simp add: nix_simps)
qed

text \<open>
  C18: the client sees everything the builder says. For every well-formed stream of messages up to
  \<open>StderrLast\<close>, \<open>readStderrStream\<close> takes exactly the stream and writes to the client byte for byte
  the log lines and activity messages in their order (sink data is dropped); when the stream ends in an
  error of the connection's version, the same has been written and the error carries the message,
  in both formats.
\<close>

theorem stderr_stream_forwarded:
  assumes "\<forall>e \<in> set evs. short_event e" and "short_string msg"
    and "stream = concat (map wire_event evs)"
    and "client' = live inp (co @ concat (map client_bytes evs)) cf ch cv ct"
  shows "read_stderr_stream client_log_sink
      (idle (stream @ wire_u64 stderr_last @ rest) out ver tr, live inp co cf ch cv ct) =
        (Inr (), (idle rest out ver tr, client')) \<and>
    read_stderr_stream client_log_sink
      (idle (stream @ wire_u64 stderr_error @ wire_error ver msg status @ rest) out ver tr,
       live inp co cf ch cv ct) =
        (Inl (Failed (reported ver msg status)), (idle rest out ver tr, client'))"
  by (simp add: assms(3,4) read_events [OF assms(1)] read_last read_error [OF assms(2)] deliver_client
      client_bytes_messages)

lemma stderr_stream_forwarded_witness:
  "read_stderr_stream client_log_sink
      (idle (concat (map wire_event [LogLine ''a'', SinkData [1], StopActivity 3]) @
        wire_u64 stderr_last @ [9]) [] 0x126 True, live [] [] 0 0 0x126 True) =
    (Inr (), (idle [9] [] 0x126 True,
       live [] ([] @ concat (map client_bytes [LogLine ''a'', SinkData [1], StopActivity 3])) 0 0 0x126 True))"
proof -
  have "\<forall>e \<in> set [LogLine ''a'', SinkData [1], StopActivity 3]. short_event e" "short_string ''b''"
    by (simp_all add: short_string_def)
  from stderr_stream_forwarded [OF this refl refl] show ?thesis by blast
qed



end
