(* ===== verification/Nix_Proxy.thy ===== *)
theory Nix_Proxy
  imports Nix_Builder
begin

text \<open>
  The proxy's handlers (\<open>nixproto/proxy.go\<close>): one definition for each operation a client may ask for,
  on the client's connection, and the loop that serves a connection. What the handlers use outside
  the connection - the store host, the provider of builders, the metrics recorder - is a \<open>world\<close>
  they read, and a list of the effects they had on it.
\<close>

section \<open>Configuration and world\<close>

text \<open>A key that is not nil is \<open>True\<close>; the SSH parameters are otherwise opaque.\<close>

record proxy_config =
  pc_store_host_addr :: string
  pc_store_host_key :: bool
  pc_metrics :: bool
  pc_signer :: "store_signer option"
  pc_user_store_enabled :: bool
  pc_user_fingerprint :: string
  pc_user_store_root :: string

definition store_configured :: "proxy_config \<Rightarrow> bool" where
  "store_configured cfg \<longleftrightarrow> pc_store_host_addr cfg \<noteq> '''' \<and> pc_store_host_key cfg"

text \<open>A command run to its end on another host: no connection, no session, or its status and output.\<close>

datatype command_result =
    NotConnected io_error
  | NoSession io_error
  | Exited bool string

text \<open>A command whose output is streamed: its bytes, how the stream ends, how the command ends.\<close>

type_synonym streamed = "byte list \<times> io_error option \<times> io_error option"

record path_lookup =
  pl_list :: "string \<Rightarrow> path_info list option"
  pl_map :: "string \<Rightarrow> path_info list option"
  pl_object :: "string \<Rightarrow> path_info option"

text \<open>
  The world of one operation. \<open>w_daemon\<close> opens a daemon on the store host, \<open>w_run\<close> runs a command
  there, \<open>w_dump\<close> one whose output is streamed. \<open>w_builder path platform\<close> is \<open>GetBuilder\<close>: an error
  text, or an identifier, the sessions of that builder, and the outcome of its memory query. The
  decoders of \<open>encoding/json\<close>, SHA-256 and ed25519 are functions; \<open>w_quote\<close> is what \<open>%q\<close> makes of a
  multi-byte character. \<open>w_ready i\<close> says whether the store host has answered by the time frame \<open>i\<close> of
  an upload is about to be read, \<open>w_answers\<close> whether it does within the five minutes after the last.
\<close>

record world =
  w_daemon :: remote
  w_run :: "string \<Rightarrow> command_result"
  w_dump :: "string \<Rightarrow> (stage \<times> io_error) + streamed"
  w_builder :: "string \<Rightarrow> string \<Rightarrow> string + (string \<times> remote \<times> command_result)"
  w_lookup :: path_lookup
  w_of_json :: "string \<Rightarrow> realisation option"
  w_to_json :: "realisation \<Rightarrow> string"
  w_digest :: "byte list \<Rightarrow> byte list"
  w_sign :: "byte list \<Rightarrow> byte list"
  w_quote :: "string \<Rightarrow> string"
  w_ready :: "nat \<Rightarrow> bool"
  w_answers :: bool

text \<open>What a handler did outside its connection, in order.\<close>

datatype effect =
    TookBuilder string string string
  | ReturnedBuilder string
  | RanOnStore string
  | RecordedBuild string "(string \<times> string) list" string string build_result "u64 option"

type_synonym session = "conn \<times> effect list"

definition client :: "(conn, 'a) io \<Rightarrow> (session, 'a) io" where
  "client m cd = (case m (fst cd) of (res, c) \<Rightarrow> (res, (c, snd cd)))"

definition did :: "effect \<Rightarrow> (session, unit) io" where
  "did e cd = (Inr (), (fst cd, snd cd @ [e]))"

text \<open>\<open>defer\<close>: \<open>fin\<close> runs when \<open>m\<close> is over, whatever its result.\<close>

definition deferring :: "('s, unit) io \<Rightarrow> ('s, 'a) io \<Rightarrow> ('s, 'a) io" where
  "deferring fin m s = (case m s of (res, s') \<Rightarrow> (res, snd (fin s')))"

text \<open>A session with another daemon while \<open>k\<close> is the state of the sink.\<close>

definition with_daemon :: "byte list \<times> sink \<Rightarrow> ('k link, 'a) io \<Rightarrow> ('k, 'a) io" where
  "with_daemon io m k = (case m (new_conn (fst io) (snd io), k) of (res, (c, k')) \<Rightarrow> (res, k'))"

section \<open>Texts\<close>

text \<open>
  The text of an error, as \<open>%v\<close> prints it. The text of a failed write is the transport's and does
  not matter here.
\<close>

fun err_text :: "io_error \<Rightarrow> string" where
  "err_text EndOfFile = ''EOF''"
| "err_text UnexpectedEOF = ''unexpected EOF''"
| "err_text (TooLong n) = ''refusing to allocate '' @ decimal (unat n) @
     '' bytes for length-prefixed field (max '' @ decimal (unat max_read_bytes_length) @
     '') - stream likely desynced''"
| "err_text (TooMany n) = ''refusing to allocate '' @ decimal (unat n) @
     '' string entries (max '' @ decimal (unat max_read_strings_count) @ '') - stream likely desynced''"
| "err_text WriteFailed = ''write failed''"
| "err_text (Failed msg) = msg"
| "err_text (Wrapped msg e) = msg @ '': '' @ err_text e"

text \<open>
  The verb \<open>%q\<close> (\<open>strconv.Quote\<close>): a Go string literal. ASCII is spelled out here; a multi-byte
  character is left to \<open>uni\<close>, and a byte that is not UTF-8 is escaped.
\<close>

definition quote_ascii :: "char \<Rightarrow> string" where
  "quote_ascii c =
     (if c = CHR 34 \<or> c = CHR 92 then [CHR 92, c]
      else if 32 \<le> (of_char c :: nat) \<and> (of_char c :: nat) < 127 then [c]
      else if c = CHR 7 then [CHR 92, CHR ''a''] else if c = CHR 8 then [CHR 92, CHR ''b'']
      else if c = CHR 12 then [CHR 92, CHR ''f''] else if c = CHR 10 then [CHR 92, CHR ''n'']
      else if c = CHR 13 then [CHR 92, CHR ''r''] else if c = CHR 9 then [CHR 92, CHR ''t'']
      else if c = CHR 11 then [CHR 92, CHR ''v'']
      else [CHR 92, CHR ''x'', hex_digit (of_char c div 16), hex_digit (of_char c mod 16)])"

fun quote_from :: "(string \<Rightarrow> string) \<Rightarrow> nat \<Rightarrow> string \<Rightarrow> string" where
  "quote_from uni passing [] = []"
| "quote_from uni (Suc k) (c # s) = quote_from uni k s"
| "quote_from uni 0 (c # s) = (case rune_len (c # s) of
     None \<Rightarrow> [CHR 92, CHR ''x'', hex_digit (of_char c div 16), hex_digit (of_char c mod 16)] @ quote_from uni 0 s
   | Some n \<Rightarrow> (if n \<le> 1 then quote_ascii c else uni (take n (c # s))) @ quote_from uni (n - 1) s)"

definition go_quote :: "(string \<Rightarrow> string) \<Rightarrow> string \<Rightarrow> string" where
  "go_quote uni s = [CHR 34] @ quote_from uni 0 s @ [CHR 34]"

section \<open>Options and store queries\<close>

definition ask_minor :: "(conn, u64) io" where
  "ask_minor = asks (\<lambda>c. minor_of (c_version c))"

text \<open>Read a value and drop it.\<close>

definition drop_u64 :: "(conn, unit) io" where "drop_u64 = skip (get read_uint64)"
definition drop_bool :: "(conn, unit) io" where "drop_bool = skip (get read_bool)"
definition drop_string :: "(conn, unit) io" where "drop_string = skip (get read_string)"
definition drop_strings :: "(conn, unit) io" where "drop_strings = skip (get read_strings)"

definition only_if :: "bool \<Rightarrow> ('s, unit) io \<Rightarrow> ('s, unit) io" where
  "only_if b m = (if b then m else succeed ())"

definition handle_set_options :: "(conn, unit) io" where
  "handle_set_options =
     andThen (run_all [drop_bool, drop_bool, drop_bool, drop_u64, drop_u64, drop_u64]) (\<lambda>_.
     andThen ask_minor (\<lambda>minor.
     andThen (only_if (minor \<ge> 2) drop_bool) (\<lambda>_.
     andThen (only_if (minor \<ge> 4) (run_all [drop_u64, drop_u64, drop_u64])) (\<lambda>_.
     andThen (only_if (minor \<ge> 6) drop_u64) (\<lambda>_.
     andThen (only_if (minor \<ge> 10) drop_bool) (\<lambda>_.
     andThen (only_if (minor \<ge> 12)
        (andThen (get read_uint64) (\<lambda>count.
         skip (get (read_times (unat count) (read_pair_with read_string read_string)))))) (\<lambda>_.
     stop_work)))))))"

text \<open>The JSON of \<open>nix path-info\<close> is a list, or a map by path, or one object.\<close>

definition parse_path_infos :: "path_lookup \<Rightarrow> string \<Rightarrow> path_info list option" where
  "parse_path_infos pl output = (case pl_list pl output of
       Some infos \<Rightarrow> Some infos
     | None \<Rightarrow> (case pl_map pl output of
         Some infos \<Rightarrow> Some infos
       | None \<Rightarrow> map_option (\<lambda>i. [i]) (pl_object pl output)))"

definition path_info_command :: "(string \<Rightarrow> string) \<Rightarrow> string \<Rightarrow> string" where
  "path_info_command uni path = ''nix path-info --json '' @ go_quote uni path @ '' 2>/dev/null''"

definition query_store_host_path_info :: "world \<Rightarrow> string \<Rightarrow> io_error + path_info option" where
  "query_store_host_path_info w path =
     (case w_run w (path_info_command (w_quote w) path) of
        NotConnected e \<Rightarrow> Inl (Wrapped ''connecting to Store Host'' e)
      | NoSession e \<Rightarrow> Inl (Wrapped ''creating SSH session'' e)
      | Exited ok output \<Rightarrow>
          if \<not> ok then Inr None
          else (case parse_path_infos (w_lookup w) output of
              None \<Rightarrow> Inl (Failed (''parsing path-info JSON failed (tried list, map, object). Raw: '' @ output))
            | Some [] \<Rightarrow> Inr None
            | Some (info # _) \<Rightarrow> Inr (Some info)))"

definition handle_is_valid_path :: "proxy_config \<Rightarrow> world \<Rightarrow> (conn, unit) io" where
  "handle_is_valid_path cfg w =
     andThen (get read_string) (\<lambda>path.
     let valid = (store_configured cfg \<and>
       (case query_store_host_path_info w path of Inr (Some _) \<Rightarrow> True | _ \<Rightarrow> False))
     in andThen stop_work (\<lambda>_. put (write_bool valid)))"

definition answer_paths :: "string list \<Rightarrow> (conn, unit) io" where
  "answer_paths paths = andThen stop_work (\<lambda>_. put (write_strings paths))"

definition ask_store_valid_paths :: "string list \<Rightarrow> bool \<Rightarrow> (conn link, string list) io" where
  "ask_store_valid_paths paths substitute =
     andThen (peer handshake_with_builder) (\<lambda>_.
     andThen (send_set_options client_log_sink) (\<lambda>_.
     query_valid_paths_on_store_with_substitute client_log_sink paths substitute))"

text \<open>Whatever fails with the store host, the answer is that no path is valid.\<close>

definition handle_query_valid_paths :: "proxy_config \<Rightarrow> world \<Rightarrow> (conn, unit) io" where
  "handle_query_valid_paths cfg w =
     andThen (get read_strings) (\<lambda>paths.
     andThen ask_minor (\<lambda>minor.
     andThen (if minor \<ge> 27 then get read_bool else succeed False) (\<lambda>substitute.
     if \<not> store_configured cfg then answer_paths []
     else (case w_daemon w ''nix-daemon --stdio'' of
         Inl _ \<Rightarrow> answer_paths []
       | Inr io \<Rightarrow>
           andThen (attempt [] (with_daemon io (ask_store_valid_paths paths substitute))) answer_paths))))"

definition write_path_info :: "u64 \<Rightarrow> path_info \<Rightarrow> writer" where
  "write_path_info minor info =
     run_all ((if minor \<ge> 17 then [write_bool True] else []) @
       [write_string (pi_deriver info), write_string (pi_nar_hash info), write_strings (pi_references info),
        write_uint64 (pi_registration_time info), write_uint64 (pi_nar_size info)] @
       (if minor \<ge> 16 then
          [write_bool (pi_ultimate info), write_strings (pi_sigs info), write_string (pi_ca info)] else []))"

definition path_not_found :: "u64 \<Rightarrow> (conn, unit) io" where
  "path_not_found minor =
     andThen (ignore stop_work) (\<lambda>_.
     if minor \<ge> 17 then put (write_bool False) else stop_work_with_error ''path not found'' 1)"

definition handle_query_path_info :: "proxy_config \<Rightarrow> world \<Rightarrow> (conn, unit) io" where
  "handle_query_path_info cfg w =
     andThen (get read_string) (\<lambda>path.
     andThen ask_minor (\<lambda>minor.
     if \<not> store_configured cfg then path_not_found minor
     else (case query_store_host_path_info w path of
         Inr (Some info) \<Rightarrow> andThen (ignore stop_work) (\<lambda>_. put (write_path_info minor info))
       | _ \<Rightarrow> path_not_found minor)))"

section \<open>Per-user stores\<close>

text \<open>\<open>strings.NewReplacer("/", "_", "+", "-", "=", "")\<close>.\<close>

fun replace_fingerprint :: "string \<Rightarrow> string" where
  "replace_fingerprint [] = []"
| "replace_fingerprint (c # s) =
     (if c = CHR ''/'' then [CHR ''_''] else if c = CHR ''+'' then [CHR ''-'']
      else if c = CHR ''='' then [] else [c]) @ replace_fingerprint s"

definition trim_prefix :: "string \<Rightarrow> string \<Rightarrow> string" where
  "trim_prefix p s = (if prefix p s then drop (length p) s else s)"

definition sanitize_fingerprint :: "string \<Rightarrow> string" where
  "sanitize_fingerprint fp = replace_fingerprint (trim_prefix ''SHA256:'' fp)"

definition user_store_root :: "proxy_config \<Rightarrow> string" where
  "user_store_root cfg =
     (if pc_user_store_root cfg = '''' then ''/nix/user-inputs'' else pc_user_store_root cfg) @ ''/'' @
     sanitize_fingerprint (pc_user_fingerprint cfg)"

definition import_command :: "(string \<Rightarrow> string) \<Rightarrow> string \<Rightarrow> string" where
  "import_command uni root =
     ''test -d '' @ go_quote uni root @ ''/nix/store && nix copy --no-check-sigs --all --from '' @
     [CHR 39] @ ''local?root='' @ root @ [CHR 39] @ '' --to daemon 2>&1 || true''"

definition import_user_inputs_to_shared_store :: "proxy_config \<Rightarrow> world \<Rightarrow> (session, unit) io" where
  "import_user_inputs_to_shared_store cfg w =
     (if \<not> pc_user_store_enabled cfg \<or> pc_user_fingerprint cfg = '''' then succeed ()
      else if \<not> store_configured cfg then succeed ()
      else let cmd = import_command (w_quote w) (user_store_root cfg)
        in (case w_run w cmd of
            Exited ok out \<Rightarrow> did (RanOnStore cmd)
          | _ \<Rightarrow> succeed ()))"

section \<open>Signing\<close>

definition add_signature :: "string \<Rightarrow> string \<Rightarrow> build_result \<Rightarrow> build_result" where
  "add_signature ident sig r =
     (case map_of (br_built_outputs r) ident of
        Some real \<Rightarrow> r\<lparr>br_built_outputs :=
          AList.update ident (real\<lparr>rl_signatures := rl_signatures real @ [sig]\<rparr>) (br_built_outputs r)\<rparr>
      | None \<Rightarrow> r)"

text \<open>One round of the loop; its state is the connection to the store host and the result.\<close>

definition sign_output ::
  "(byte list \<Rightarrow> byte list) \<Rightarrow> store_signer \<Rightarrow> string \<times> string \<Rightarrow> (build_result link, unit) io" where
  "sign_output sign signer out =
     andThen (query_path_info_via_daemon (snd out)) (\<lambda>found.
     case found of
       None \<Rightarrow> throw (Failed ''path not found on store'')
     | Some info \<Rightarrow>
         (case sign_path sign signer (snd out) (pi_nar_hash info) (pi_nar_size info) (pi_references info) of
            Inl e \<Rightarrow> throw (Failed ''failed to sign'')
          | Inr sig \<Rightarrow>
              andThen (send_add_signatures (snd out) [sig]) (\<lambda>_.
              modify (\<lambda>(c, r). (c, add_signature (fst out) sig r)))))"

definition outputs_to_sign :: "build_result \<Rightarrow> (string \<times> string) list" where
  "outputs_to_sign r =
     map (\<lambda>(ident, real). (ident, rl_out_path real)) (filter (\<lambda>(_, real). rl_out_path real \<noteq> '''') (br_built_outputs r))"

text \<open>Best effort: every failure leaves the result as it is so far.\<close>

definition sign_and_register_outputs :: "proxy_config \<Rightarrow> world \<Rightarrow> build_result \<Rightarrow> build_result" where
  "sign_and_register_outputs cfg w r =
     (case pc_signer cfg of
        None \<Rightarrow> r
      | Some signer \<Rightarrow>
          if \<not> store_configured cfg \<or> \<not> is_success (br_status r) \<or> outputs_to_sign r = [] then r
          else (case w_daemon w ''nix-daemon --stdio'' of
              Inl _ \<Rightarrow> r
            | Inr io \<Rightarrow>
                snd (with_daemon io
                  (andThen (peer handshake_with_builder) (\<lambda>_.
                   andThen (send_set_options nil_sink) (\<lambda>_.
                   run_all (map (\<lambda>out. ignore (sign_output (w_sign w) signer out)) (outputs_to_sign r))))) r)))"

section \<open>Builds\<close>

text \<open>
  \<open>fmt.Sscanf(s, "%d", &val)\<close> into a \<open>uint64\<close>, on text without white space at its ends: the digits
  at the front, if there are any and their value fits.
\<close>

definition is_digit :: "char \<Rightarrow> bool" where
  "is_digit c \<longleftrightarrow> CHR ''0'' \<le> c \<and> c \<le> CHR ''9''"

definition digits_value :: "string \<Rightarrow> nat" where
  "digits_value ds = foldl (\<lambda>n c. 10 * n + (of_char c - 48)) 0 ds"

definition scan_u64 :: "string \<Rightarrow> u64 option" where
  "scan_u64 s =
     (let ds = takeWhile is_digit s
      in if ds \<noteq> [] \<and> digits_value ds < 2 ^ 64 then Some (of_nat (digits_value ds)) else None)"

definition is_space :: "char \<Rightarrow> bool" where
  "is_space c \<longleftrightarrow> c \<in> {CHR 9, CHR 10, CHR 11, CHR 12, CHR 13, CHR 32}"

definition trim_space :: "string \<Rightarrow> string" where
  "trim_space s = rev (dropWhile is_space (rev (dropWhile is_space s)))"

definition collect_peak_memory :: "command_result \<Rightarrow> u64 option" where
  "collect_peak_memory res = (case res of Exited True out \<Rightarrow> scan_u64 (trim_space out) | _ \<Rightarrow> None)"

definition record_build ::
  "proxy_config \<Rightarrow> string \<Rightarrow> basic_derivation \<Rightarrow> string \<Rightarrow> build_result \<Rightarrow> command_result \<Rightarrow> (session, unit) io" where
  "record_build cfg drv_path drv builder_id result mem =
     (if pc_metrics cfg
      then did (RecordedBuild drv_path (bd_env drv) (bd_platform drv) builder_id result (collect_peak_memory mem))
      else succeed ())"

text \<open>The result is sent with no separator after the end of the log stream.\<close>

definition send_build_result :: "world \<Rightarrow> build_result \<Rightarrow> (conn, unit) io" where
  "send_build_result w result =
     andThen (wrap ''StopWork failed'' stop_work) (\<lambda>_.
     andThen (asks c_version) (\<lambda>version.
     andThen (wrap ''WriteBuildResult failed'' (put (write_build_result (w_to_json w) result version))) (\<lambda>_.
     wrap ''flush after BuildResult failed'' flush)))"

text \<open>With a builder in hand.\<close>

definition build_with ::
  "proxy_config \<Rightarrow> world \<Rightarrow> string \<Rightarrow> basic_derivation \<Rightarrow> u8 \<Rightarrow> string \<Rightarrow> remote \<Rightarrow> command_result \<Rightarrow>
   (session, unit) io" where
  "build_with cfg w drv_path drv build_mode builder_id builder mem cd =
     (case client (execute_build builder (w_digest w) (w_of_json w) client_log_sink drv_path drv build_mode) cd of
        (Inl e, cd') \<Rightarrow>
          andThen (ignore (client (stop_work_with_error (''build failed: '' @ err_text e) 1))) (\<lambda>_. throw e) cd'
      | (Inr built, cd') \<Rightarrow>
          (let result = sign_and_register_outputs cfg w built in
           andThen (record_build cfg drv_path drv builder_id result mem) (\<lambda>_.
           client (send_build_result w result)) cd'))"

definition handle_build_derivation :: "proxy_config \<Rightarrow> world \<Rightarrow> (session, unit) io" where
  "handle_build_derivation cfg w =
     andThen (client (wrap ''reading drv path'' (get read_string))) (\<lambda>drv_path.
     andThen (client (wrap ''reading derivation'' (get read_basic_derivation))) (\<lambda>drv.
     andThen (client (wrap ''reading build mode'' (get read_uint64))) (\<lambda>mode_val.
     case w_builder w drv_path (bd_platform drv) of
       Inl msg \<Rightarrow>
         andThen (ignore (client (stop_work_with_error (''failed to get builder: '' @ msg) 1))) (\<lambda>_.
         throw (Failed msg))
     | Inr (builder_id, builder, mem) \<Rightarrow>
         andThen (did (TookBuilder drv_path (bd_platform drv) builder_id)) (\<lambda>_.
         deferring (did (ReturnedBuilder builder_id))
           (andThen (import_user_inputs_to_shared_store cfg w) (\<lambda>_.
            build_with cfg w drv_path drv (ucast mode_val) builder_id builder mem))))))"

section \<open>Adding paths\<close>

definition handle_add_to_store :: "(conn, unit) io" where
  "handle_add_to_store =
     andThen ask_minor (\<lambda>minor.
     if minor \<ge> 25 then
       andThen (run_all [drop_string, drop_string, drop_strings, drop_bool]) (\<lambda>_.
       stop_work_with_error ''AddToStore not implemented'' 1)
     else
       andThen (run_all [drop_string, drop_bool, drop_u64, drop_string]) (\<lambda>_.
       stop_work_with_error ''AddToStore not implemented'' 1))"

text \<open>\<open>n\<close> bytes, in chunks of 32 KiB.\<close>

definition chunk_size :: nat where "chunk_size = 32 * 1024"

function discard_raw_bytes :: "nat \<Rightarrow> unit reader" where
  "discard_raw_bytes n =
     (if n = 0 then succeed ()
      else andThen (read_full (min n chunk_size)) (\<lambda>_. discard_raw_bytes (n - min n chunk_size)))"
  by auto

termination by (relation "measure id") (auto simp: chunk_size_def)

declare discard_raw_bytes.simps [simp del]

definition discard_frame :: "(conn, bool) io" where
  "discard_frame =
     andThen (wrap ''reading frame length'' (get read_uint64)) (\<lambda>frame_len.
     if frame_len = 0 then succeed True
     else andThen (wrap ''reading frame data'' (get (discard_raw_bytes (unat frame_len)))) (\<lambda>_. succeed False))"

definition discard_framed_source_body :: "(conn, unit) io" where
  "discard_framed_source_body = loop_reading unread discard_frame"

definition consume_and_discard_framed_source :: "(conn, unit) io" where
  "consume_and_discard_framed_source = andThen discard_framed_source_body (\<lambda>_. stop_work)"

definition fail_with_drain :: "string \<Rightarrow> (conn, unit) io" where
  "fail_with_drain msg = andThen (ignore discard_framed_source_body) (\<lambda>_. stop_work_with_error msg 1)"

definition fail_mid_upload :: "nat \<Rightarrow> string \<Rightarrow> (conn, unit) io" where
  "fail_mid_upload remaining msg c =
     (case (if remaining > 0 then get (discard_raw_bytes remaining) else succeed ()) c of
        (Inl e, c') \<Rightarrow> stop_work_with_error msg 1 c'
      | (Inr _, c') \<Rightarrow> andThen (ignore discard_framed_source_body) (\<lambda>_. stop_work_with_error msg 1) c')"

text \<open>
  The upload: the connections to the store host and to the client, the number of frames so far,
  whether the reader goroutine's result has been taken from its channel, and the handler's result when
  the loop returned it.
\<close>

record upload =
  up_store :: conn
  up_client :: conn
  up_frames :: nat
  up_received :: bool
  up_returned :: "(io_error + unit) option"

definition returning :: "(conn, unit) io \<Rightarrow> upload \<Rightarrow> upload" where
  "returning m u = (case m (up_client u) of (res, c) \<Rightarrow> u\<lparr>up_client := c, up_returned := Some res\<rparr>)"

text \<open>The data of a frame, \<open>to_read\<close> bytes of it to come; it returns whether to go on.\<close>

function forward_frame :: "nat \<Rightarrow> upload \<Rightarrow> bool \<times> upload" where
  "forward_frame to_read u =
     (if to_read = 0 then (True, u)
      else let n = min to_read chunk_size in
        (case get (read_full n) (up_client u) of
           (Inl e, c) \<Rightarrow> (False, u\<lparr>up_client := c, up_returned := Some (Inl (Wrapped ''reading frame data'' e))\<rparr>)
         | (Inr buf, c) \<Rightarrow>
             (case put (write_raw buf) (up_store u) of
                (Inl e, s) \<Rightarrow>
                  (False, returning (fail_mid_upload (to_read - n)
                     (''writing frame data to store: '' @ err_text e)) (u\<lparr>up_client := c, up_store := s\<rparr>))
              | (Inr _, s) \<Rightarrow> forward_frame (to_read - n) (u\<lparr>up_client := c, up_store := s\<rparr>))))"
  by auto

termination by (relation "measure fst") (auto simp: chunk_size_def)

declare forward_frame.simps [simp del]

text \<open>\<open>answer\<close> is what the reader goroutine finds in the store host's stderr stream.\<close>

definition upload_step :: "(nat \<Rightarrow> bool) \<Rightarrow> io_error + unit \<Rightarrow> (upload, bool) io" where
  "upload_step ready answer u =
     (if ready (up_frames u) then
        (case answer of
           Inl e \<Rightarrow> (Inr True, returning (fail_mid_upload 0
             (''store host returned error during upload: '' @ err_text e)) (u\<lparr>up_received := True\<rparr>))
         | Inr _ \<Rightarrow> (Inr True, u\<lparr>up_received := True\<rparr>))
      else (case get read_uint64 (up_client u) of
          (Inl e, c) \<Rightarrow> (Inr True, u\<lparr>up_client := c, up_returned := Some (Inl (Wrapped ''reading frame length'' e))\<rparr>)
        | (Inr frame_len, c) \<Rightarrow>
            let u' = u\<lparr>up_client := c, up_frames := up_frames u + 1\<rparr> in
            (case put (write_uint64 frame_len) (up_store u') of
               (Inl e, s) \<Rightarrow>
                 (Inr True, returning (fail_mid_upload (unat frame_len)
                    (''writing frame length to store: '' @ err_text e)) (u'\<lparr>up_store := s\<rparr>))
             | (Inr _, s) \<Rightarrow>
                 if frame_len = 0 then (Inr True, u'\<lparr>up_store := s\<rparr>)
                 else (case forward_frame (unat frame_len) (u'\<lparr>up_store := s\<rparr>) of
                     (going_on, u'') \<Rightarrow> (Inr (\<not> going_on), u'')))))"

definition upload_loop :: "(nat \<Rightarrow> bool) \<Rightarrow> io_error + unit \<Rightarrow> upload \<Rightarrow> upload" where
  "upload_loop ready answer u =
     snd (loop_reading (\<lambda>u. unread (up_client u)) (upload_step ready answer) u)"

text \<open>The wait after the last frame: a result that was already taken never comes again.\<close>

definition await_store :: "bool \<Rightarrow> io_error + unit \<Rightarrow> bool \<Rightarrow> (conn, unit) io" where
  "await_store answers answer received =
     (if received \<or> \<not> answers then stop_work_with_error ''store host timeout'' 1
      else (case answer of
          Inl e \<Rightarrow> stop_work_with_error (''store host error: '' @ err_text e) 1
        | Inr _ \<Rightarrow> wrap ''AddMultipleToStore StopWork failed'' stop_work))"

definition upload_to :: "world \<Rightarrow> conn \<Rightarrow> (conn, unit) io" where
  "upload_to w store c =
     (let answer = fst (read_stderr_stream nil_sink (store, ()));
          u = upload_loop (w_ready w) answer
            \<lparr>up_store = store, up_client = c, up_frames = 0, up_received = False, up_returned = None\<rparr>
      in (case up_returned u of
          Some res \<Rightarrow> (res, up_client u)
        | None \<Rightarrow>
            (case flush (up_store u) of
               (Inl e, _) \<Rightarrow> (Inl (Wrapped ''flushing to store host'' e), up_client u)
             | (Inr _, _) \<Rightarrow> await_store (w_answers w) answer (up_received u) (up_client u))))"

definition store_command :: "proxy_config \<Rightarrow> world \<Rightarrow> string" where
  "store_command cfg w =
     (if pc_user_store_enabled cfg \<and> pc_user_fingerprint cfg \<noteq> '''' then
        ''mkdir -p '' @ go_quote (w_quote w) (user_store_root cfg) @
        '' && exec nix-daemon --stdio --store '' @ [CHR 39] @ ''local?root='' @ user_store_root cfg @ [CHR 39]
      else ''nix-daemon --stdio'')"

definition store_stage_error :: "stage \<Rightarrow> string" where
  "store_stage_error st = (case st of
     Dialing \<Rightarrow> ''failed to connect to Store Host: '' | NewSession \<Rightarrow> ''failed to create SSH session: ''
   | StdinPipe \<Rightarrow> ''failed to get stdin pipe: '' | StdoutPipe \<Rightarrow> ''failed to get stdout pipe: ''
   | StderrPipe \<Rightarrow> ''failed to get stderr pipe: '' | Starting \<Rightarrow> ''failed to start nix-daemon: '')"

text \<open>From the handshake to the flags; the first error has its own message.\<close>

definition open_upload :: "bool \<Rightarrow> bool \<Rightarrow> (unit link, unit) io" where
  "open_upload repair dont_check_sigs =
     run_all [wrap ''store host handshake failed'' (peer handshake_with_builder),
       wrap ''store host SetOptions failed'' (send_set_options nil_sink),
       wrap ''writing AddMultipleToStore op'' (peer (write_op op_add_multiple_to_store)),
       wrap ''writing repair'' (peer (put (write_bool repair))),
       wrap ''writing dontCheckSigs'' (peer (put (write_bool dont_check_sigs))),
       wrap ''flushing op and flags'' (peer flush)]"

definition handle_add_multiple_to_store :: "proxy_config \<Rightarrow> world \<Rightarrow> (conn, unit) io" where
  "handle_add_multiple_to_store cfg w =
     andThen (wrap ''reading repair flag'' (get read_bool)) (\<lambda>repair.
     andThen (wrap ''reading dontCheckSigs flag'' (get read_bool)) (\<lambda>dont_check_sigs.
     if \<not> store_configured cfg then consume_and_discard_framed_source
     else (case w_daemon w (store_command cfg w) of
         Inl (st, e) \<Rightarrow> fail_with_drain (store_stage_error st @ err_text e)
       | Inr (inp, out) \<Rightarrow>
           (case open_upload repair dont_check_sigs (new_conn inp out, ()) of
              (Inl e, _) \<Rightarrow> fail_with_drain (err_text e)
            | (Inr _, (store, _)) \<Rightarrow> upload_to w store))))"

section \<open>The remaining operations\<close>

definition dump_stage_error :: "stage \<Rightarrow> string" where
  "dump_stage_error st = (case st of
     Dialing \<Rightarrow> ''failed to connect to Store Host: '' | NewSession \<Rightarrow> ''failed to create SSH session: ''
   | Starting \<Rightarrow> ''failed to start nix-store --dump: '' | _ \<Rightarrow> ''failed to get stdout pipe: '')"

text \<open>The chunks of the dump are written as they come; together they are the bytes of the dump.\<close>

definition handle_nar_from_path :: "proxy_config \<Rightarrow> world \<Rightarrow> (conn, unit) io" where
  "handle_nar_from_path cfg w =
     andThen (get read_string) (\<lambda>path.
     if \<not> store_configured cfg then stop_work_with_error ''NarFromPath: Store Host not configured'' 1
     else (case w_dump w (''nix-store --dump '' @ go_quote (w_quote w) path) of
         Inl (st, e) \<Rightarrow> stop_work_with_error (dump_stage_error st @ err_text e) 1
       | Inr (data, read_error, exit_error) \<Rightarrow>
           andThen (wrap ''NarFromPath StopWork'' stop_work) (\<lambda>_.
           andThen (wrap ''writing NAR chunk'' (put (write_raw data))) (\<lambda>_.
           case read_error of
             Some e \<Rightarrow> throw (Wrapped ''reading NAR data'' e)
           | None \<Rightarrow>
               (case exit_error of
                  Some e \<Rightarrow> throw (Wrapped ''nix-store --dump failed'' e)
                | None \<Rightarrow> wrap ''flushing NAR stream'' flush)))))"

definition handle_query_referrers :: "(conn, unit) io" where
  "handle_query_referrers =
     andThen drop_string (\<lambda>_. andThen (ignore stop_work) (\<lambda>_. put (write_strings [])))"

definition handle_add_temp_root :: "(conn, unit) io" where
  "handle_add_temp_root = andThen drop_string (\<lambda>_. wrap ''AddTempRoot StopWork'' stop_work)"

definition read_derived_path :: "unit reader" where
  "read_derived_path =
     andThen read_uint64 (\<lambda>path_type.
     andThen read_string (\<lambda>_.
     if path_type = 1 then andThen read_strings (\<lambda>_. succeed ()) else succeed ()))"

definition handle_query_missing :: "(conn, unit) io" where
  "handle_query_missing =
     andThen (get read_uint64) (\<lambda>count.
     andThen (skip (get (read_times (unat count) read_derived_path))) (\<lambda>_.
     andThen (ignore stop_work) (\<lambda>_.
     run_all (map (\<lambda>w. ignore (put w))
       [write_strings [], write_strings [], write_strings [], write_uint64 0, write_uint64 0]))))"

section \<open>Serving a connection\<close>

definition handle_operation :: "proxy_config \<Rightarrow> world \<Rightarrow> u64 \<Rightarrow> (session, unit) io" where
  "handle_operation cfg w op =
     (if op = op_set_options then client handle_set_options
      else if op = op_is_valid_path then client (handle_is_valid_path cfg w)
      else if op = op_query_valid_paths then client (handle_query_valid_paths cfg w)
      else if op = op_query_path_info then client (handle_query_path_info cfg w)
      else if op = op_build_derivation then handle_build_derivation cfg w
      else if op = op_add_to_store then client handle_add_to_store
      else if op = op_add_multiple_to_store then client (handle_add_multiple_to_store cfg w)
      else if op = op_nar_from_path then client (handle_nar_from_path cfg w)
      else if op = op_query_referrers then client handle_query_referrers
      else if op = op_add_temp_root then client handle_add_temp_root
      else if op = op_query_missing then client handle_query_missing
      else client (stop_work_with_error (''operation '' @ op_string op @ '' not implemented'') 1))"

text \<open>
  One round of the loop; \<open>ws i\<close> is the world of operation \<open>i\<close>. The end of the stream before an
  operation ends the loop without an error; a failed operation does not end it.
\<close>

type_synonym serving = "nat \<times> session"

definition serving :: "(session, 'a) io \<Rightarrow> (serving, 'a) io" where
  "serving m ns = (case m (snd ns) of (res, s) \<Rightarrow> (res, (fst ns, s)))"

definition serve_step :: "proxy_config \<Rightarrow> (nat \<Rightarrow> world) \<Rightarrow> (serving, bool) io" where
  "serve_step cfg ws ns =
     (let n = fst ns + 1 in
      (case serving (client read_op) (n, snd ns) of
         (Inl EndOfFile, ns') \<Rightarrow> (Inr True, ns')
       | (Inl e, ns') \<Rightarrow> (Inl (Wrapped (''reading operation #'' @ decimal n) e), ns')
       | (Inr op, ns') \<Rightarrow>
           andThen (ignore (serving (handle_operation cfg (ws n) op))) (\<lambda>_.
           andThen (wrap (''flushing after operation #'' @ decimal n) (serving (client flush))) (\<lambda>_.
           succeed False)) ns'))"

definition serve :: "proxy_config \<Rightarrow> (nat \<Rightarrow> world) \<Rightarrow> (serving, unit) io" where
  "serve cfg ws = loop_reading (\<lambda>ns. unread (fst (snd ns))) (serve_step cfg ws)"

definition handle_connection :: "proxy_config \<Rightarrow> (nat \<Rightarrow> world) \<Rightarrow> (serving, unit) io" where
  "handle_connection cfg ws =
     andThen (wrap ''handshake failed'' (serving (client handshake))) (\<lambda>_.
     andThen (wrap ''post-handshake failed'' (serving (client post_handshake))) (\<lambda>_.
     serve cfg ws))"

end
