(* ===== verification/Gradient_Store.thy ===== *)
theory Gradient_Store
  imports Nix_Proxy Client_Messages Server_Messages
begin

text \<open>
  What a worker of the Gradient server reads from a Nix store before and after a build
  (\<open>gradientproto/derivation.go\<close>, \<open>pathinfo.go\<close>, \<open>sshexec.go\<close>) and the tokens it presents to its
  peers (\<open>peers.go\<close>). A host is the outcome of the commands run on it; the JSON decoder is a
  parameter that returns the decoded struct or its error.
\<close>

section \<open>Commands on a host\<close>

text \<open>
  The interface \<open>Execer\<close>: \<open>ex_output cmd\<close> is what \<open>Output\<close> returns, \<open>ex_stream cmd\<close> what
  \<open>StreamOutput\<close> returns - the bytes of the stream, the error that ends it if it does not end by
  \<open>EOF\<close>, and the error of \<open>wait\<close>.
\<close>

record execer =
  ex_output :: "string \<Rightarrow> io_error + string"
  ex_stream :: "string \<Rightarrow> io_error + streamed"

text \<open>
  The implementation over SSH (\<open>sshexec.go\<close>). The library's part is the outcome of a command: no
  session, a run with its error, its output and its stderr, or a context that is done first; for a
  stream also a missing pipe or a command that does not start, and otherwise the stream, how it ends,
  and how the command ends.
\<close>

datatype ssh_run =
    RunNoSession io_error
  | Ran "io_error option" string string
  | RunCancelled io_error

datatype ssh_start =
    StreamNoSession io_error
  | StreamNoPipe io_error
  | StreamNotStarted io_error
  | Streaming "byte list" "io_error option" "io_error option" string

definition command_failed :: "(string \<Rightarrow> string) \<Rightarrow> string \<Rightarrow> io_error \<Rightarrow> string \<Rightarrow> io_error" where
  "command_failed uni cmd e stderr = Failed (''gradientproto: command '' @ go_quote uni cmd @ '' failed: '' @
     err_text e @ '' (stderr: '' @ stderr @ '')'')"

definition ssh_output :: "(string \<Rightarrow> string) \<Rightarrow> (string \<Rightarrow> ssh_run) \<Rightarrow> string \<Rightarrow> io_error + string" where
  "ssh_output uni run cmd = (case run cmd of
       RunNoSession e \<Rightarrow> Inl (Wrapped ''gradientproto: creating SSH session'' e)
     | Ran (Some e) stdout stderr \<Rightarrow> Inl (command_failed uni cmd e stderr)
     | Ran None stdout stderr \<Rightarrow> Inr stdout
     | RunCancelled e \<Rightarrow> Inl e)"

definition ssh_stream :: "(string \<Rightarrow> string) \<Rightarrow> (string \<Rightarrow> ssh_start) \<Rightarrow> string \<Rightarrow> io_error + streamed" where
  "ssh_stream uni start cmd = (case start cmd of
       StreamNoSession e \<Rightarrow> Inl (Wrapped ''gradientproto: creating SSH session'' e)
     | StreamNoPipe e \<Rightarrow> Inl (Wrapped ''gradientproto: getting stdout pipe'' e)
     | StreamNotStarted e \<Rightarrow> Inl (Wrapped (''gradientproto: starting command '' @ go_quote uni cmd) e)
     | Streaming data read_err wait_err stderr \<Rightarrow>
         Inr (data, read_err, map_option (\<lambda>e. command_failed uni cmd e stderr) wait_err))"

definition ssh_execer :: "(string \<Rightarrow> string) \<Rightarrow> (string \<Rightarrow> ssh_run) \<Rightarrow> (string \<Rightarrow> ssh_start) \<Rightarrow> execer" where
  "ssh_execer uni run start = \<lparr>ex_output = ssh_output uni run, ex_stream = ssh_stream uni start\<rparr>"

text \<open>A command is one argument of a shell; \<open>shell_quote\<close> makes a text one word of it.\<close>

abbreviation quote_char :: char where "quote_char \<equiv> CHR 39"

definition shell_quote :: "string \<Rightarrow> string" where
  "shell_quote s = [quote_char] @
     concat (map (\<lambda>c. if c = quote_char then [quote_char, CHR 92, quote_char, quote_char] else [c]) s) @
     [quote_char]"

definition run_json :: "execer \<Rightarrow> (string \<Rightarrow> string) \<Rightarrow> (string \<Rightarrow> io_error + 'a) \<Rightarrow> string \<Rightarrow> io_error + 'a" where
  "run_json ex uni decode cmd = (case ex_output ex cmd of
       Inl e \<Rightarrow> Inl e
     | Inr out \<Rightarrow> (case decode out of
         Inl e \<Rightarrow> Inl (Wrapped (''gradientproto: parsing JSON output of '' @ go_quote uni cmd) e)
       | Inr v \<Rightarrow> Inr v))"

text \<open>The loop that calls \<open>f\<close> on each element and returns at its first error.\<close>

fun each :: "('a \<Rightarrow> 'e + 'b) \<Rightarrow> 'a list \<Rightarrow> 'e + 'b list" where
  "each f [] = Inr []"
| "each f (x # xs) = (case f x of
     Inl e \<Rightarrow> Inl e
   | Inr y \<Rightarrow> (case each f xs of Inl e \<Rightarrow> Inl e | Inr ys \<Rightarrow> Inr (y # ys)))"

text \<open>\<open>strings.Cut(s, sep)\<close> for a separator of one byte.\<close>

definition cut :: "char \<Rightarrow> string \<Rightarrow> (string \<times> string) option" where
  "cut sep s = (case dropWhile (\<lambda>c. c \<noteq> sep) s of
     [] \<Rightarrow> None | _ # rest \<Rightarrow> Some (takeWhile (\<lambda>c. c \<noteq> sep) s, rest))"

text \<open>\<open>path.Base\<close>: the last element of a slash-separated path.\<close>

definition path_base :: "string \<Rightarrow> string" where
  "path_base p = (if p = '''' then ''.''
     else (let q = dropWhile (\<lambda>c. c = CHR ''/'') (rev p)
           in if q = [] then ''/'' else rev (takeWhile (\<lambda>c. c \<noteq> CHR ''/'') q)))"

section \<open>Derivations\<close>

text \<open>
  The structs the JSON of \<open>nix derivation show\<close> is decoded into. A Go map is a list of pairs with
  distinct keys, in the order in which a \<open>range\<close> loop enumerates it.
\<close>

record json_output =
  jo_path :: string
  jo_hash :: string
  jo_method :: string

record json_derivation =
  jd_args :: "string list"
  jd_builder :: string
  jd_env :: "(string \<times> string) list"
  jd_drvs :: "(string \<times> string list) list"
  jd_srcs :: "string list"
  jd_outputs :: "(string \<times> json_output) list"
  jd_system :: string

type_synonym derivation_show = "(string \<times> json_derivation) list"

definition store_dir :: string where "store_dir = ''/nix/store''"

definition parse_sri_hash :: "string \<Rightarrow> (string \<times> string) option" where
  "parse_sri_hash sri = (case cut (CHR ''-'') sri of
       None \<Rightarrow> None
     | Some (algo, hash) \<Rightarrow> if algo = '''' \<or> hash = '''' then None else Some (algo, hash))"

text \<open>One round of the loop over the derivation's own outputs.\<close>

definition own_output ::
  "(string \<Rightarrow> string) \<Rightarrow> string \<Rightarrow> string \<times> json_output \<Rightarrow> io_error + (string \<times> nix_output)" where
  "own_output uni drv_path entry = (case entry of (name, out) \<Rightarrow>
     if jo_path out \<noteq> ''''
     then Inr (name, \<lparr>no_path = store_dir @ ''/'' @ jo_path out, no_hash_algo = '''', no_hash = ''''\<rparr>)
     else (case parse_sri_hash (jo_hash out) of
         None \<Rightarrow> Inl (Failed (''gradientproto: output '' @ name @ '' of '' @ drv_path @
           '' has unparseable hash '' @ go_quote uni (jo_hash out)))
       | Some (algo, hash) \<Rightarrow>
           Inr (name, \<lparr>no_path = '''',
             no_hash_algo = (if jo_method out = ''nar'' then ''r:'' @ algo else algo), no_hash = hash\<rparr>)))"

text \<open>The two loops over the inputs: the store path of one output of one input, then of all.\<close>

definition input_path ::
  "(string \<Rightarrow> string) \<Rightarrow> string \<Rightarrow> string \<Rightarrow> json_derivation \<Rightarrow> string \<Rightarrow> io_error + string" where
  "input_path uni drv_path base inp out_name = (case map_of (jd_outputs inp) out_name of
       None \<Rightarrow> Inl (Failed (''gradientproto: input '' @ base @ '' of '' @ drv_path @ '' has no output '' @
         go_quote uni out_name))
     | Some out \<Rightarrow>
         if jo_path out = ''''
         then Inl (Failed (''gradientproto: input '' @ base @ '' of '' @ drv_path @
           '' requests content-addressed output '' @ go_quote uni out_name @
           '', which this worker cannot resolve to a store path yet (see readDerivation's doc)''))
         else Inr (store_dir @ ''/'' @ jo_path out))"

definition input_paths ::
  "(string \<Rightarrow> string) \<Rightarrow> string \<Rightarrow> derivation_show \<Rightarrow> string \<times> string list \<Rightarrow> io_error + string list" where
  "input_paths uni drv_path shown inp = (case map_of shown (fst inp) of
       None \<Rightarrow> Inl (Failed (''gradientproto: nix derivation show --recursive did not include input '' @
         fst inp @ '' of '' @ drv_path))
     | Some entry \<Rightarrow> each (input_path uni drv_path (fst inp) entry) (snd inp))"

definition derivation_command :: "string \<Rightarrow> string" where
  "derivation_command drv_path = ''nix derivation show --recursive '' @ shell_quote drv_path"

definition read_derivation ::
  "execer \<Rightarrow> (string \<Rightarrow> string) \<Rightarrow> (string \<Rightarrow> io_error + derivation_show) \<Rightarrow> string \<Rightarrow>
   io_error + (basic_derivation \<times> string)" where
  "read_derivation ex uni decode drv_path =
     (case run_json ex uni decode (derivation_command drv_path) of
        Inl e \<Rightarrow> Inl (Wrapped (''gradientproto: reading derivation '' @ drv_path) e)
      | Inr shown \<Rightarrow> (case map_of shown (path_base drv_path) of
          None \<Rightarrow> Inl (Failed (''gradientproto: nix derivation show did not include '' @ drv_path @
            '' in its output''))
        | Some entry \<Rightarrow> (case each (own_output uni drv_path) (jd_outputs entry) of
            Inl e \<Rightarrow> Inl e
          | Inr outputs \<Rightarrow> (case each (input_paths uni drv_path shown) (jd_drvs entry) of
              Inl e \<Rightarrow> Inl e
            | Inr paths \<Rightarrow> Inr (\<lparr>bd_outputs = outputs, bd_input_srcs = jd_srcs entry @ concat paths,
                bd_platform = jd_system entry, bd_builder = jd_builder entry, bd_args = jd_args entry,
                bd_env = jd_env entry\<rparr>, jd_system entry)))))"

section \<open>Path information\<close>

text \<open>The third command of the worker, by which \<open>narupload.go\<close> streams a path's archive.\<close>

definition dump_command :: "string \<Rightarrow> string" where
  "dump_command path = ''nix-store --dump '' @ shell_quote path"

record json_path_info =
  jp_ca :: "string option"
  jp_deriver :: "string option"
  jp_nar_hash :: string
  jp_nar_size :: u64
  jp_references :: "string list"

text \<open>\<open>pathInfo\<close> has the same fields, with the references reduced to base names.\<close>

definition path_info_of :: "json_path_info \<Rightarrow> json_path_info" where
  "path_info_of e = e\<lparr>jp_references := map (trim_prefix (store_dir @ ''/'')) (jp_references e)\<rparr>"

definition path_command :: "string \<Rightarrow> string" where
  "path_command path = ''nix path-info --json '' @ shell_quote path"

text \<open>In the decoded map the value of a path may be \<open>nil\<close>.\<close>

definition query_path_info ::
  "execer \<Rightarrow> (string \<Rightarrow> string) \<Rightarrow> (string \<Rightarrow> io_error + (string \<times> json_path_info option) list) \<Rightarrow> string \<Rightarrow>
   io_error + json_path_info" where
  "query_path_info ex uni decode path = (case run_json ex uni decode (path_command path) of
       Inl e \<Rightarrow> Inl (Wrapped (''gradientproto: querying path info for '' @ path) e)
     | Inr found \<Rightarrow> (case map_of found path of
         Some (Some entry) \<Rightarrow> Inr (path_info_of entry)
       | _ \<Rightarrow> Inl (Failed (''gradientproto: nix path-info reported '' @ path @ '' as missing from the store''))))"

section \<open>Loops that stop at an error\<close>

lemma each_succeeds_iff: "(\<exists>ys. each f xs = Inr ys) \<longleftrightarrow> (\<forall>x \<in> set xs. \<exists>y. f x = Inr y)"
  by (induction xs) (auto split: sum.splits)

lemma each_values: "each f xs = Inr ys \<Longrightarrow> set ys = {y. \<exists>x \<in> set xs. f x = Inr y}"
  by (induction xs arbitrary: ys) (auto split: sum.splits)

lemma each_concat:
  "each f xs = Inr yss \<Longrightarrow> v \<in> set (concat yss) \<longleftrightarrow> (\<exists>x \<in> set xs. \<exists>ys. f x = Inr ys \<and> v \<in> set ys)"
  by (induction xs arbitrary: yss) (auto split: sum.splits)

section \<open>Quoting\<close>

text \<open>
  How a POSIX shell splits a simple command into words, for the part of its grammar that needs no
  expansion: blanks separate, single quotes keep everything, a backslash keeps the next character.
  Any other special character, a newline, a zero byte or an open quote makes the result \<open>None\<close>, so
  \<open>Some ws\<close> says that the shell runs the first word with exactly the others as its arguments.
  \<open>w\<close> is the word that has been started, if any.
\<close>

definition shell_special :: "char set" where
  "shell_special = set ''|&;<>()$`*?[]#~=%{}!'' \<union> {CHR 0x00, CHR 10, CHR 34}"

fun shell_words :: "bool \<Rightarrow> string option \<Rightarrow> string \<Rightarrow> string list option" where
  "shell_words quoted w [] = (if quoted then None else Some (case w of None \<Rightarrow> [] | Some v \<Rightarrow> [v]))"
| "shell_words True w (c # s) =
     (if c = CHR 0x00 then None
      else if c = quote_char then shell_words False w s
      else shell_words True (Some ((case w of None \<Rightarrow> [] | Some v \<Rightarrow> v) @ [c])) s)"
| "shell_words False w (c # s) =
     (let v = (case w of None \<Rightarrow> [] | Some v \<Rightarrow> v) in
      if c = quote_char then shell_words True (Some v) s
      else if c = CHR 32 \<or> c = CHR 9
        then map_option (\<lambda>ws. (case w of None \<Rightarrow> [] | Some v \<Rightarrow> [v]) @ ws) (shell_words False None s)
      else if c = CHR 92 then (case s of
          [] \<Rightarrow> None
        | d # s' \<Rightarrow> if d = CHR 0x00 \<or> d = CHR 10 then None else shell_words False (Some (v @ [d])) s')
      else if c \<in> shell_special then None
      else shell_words False (Some (v @ [c])) s)"

lemma shell_words_inside:
  "CHR 0x00 \<notin> set s \<Longrightarrow>
     shell_words True (Some v) (concat (map (\<lambda>c. if c = quote_char then [quote_char, CHR 92, quote_char, quote_char] else [c]) s) @
       quote_char # rest) = shell_words False (Some (v @ s)) rest"
  by (induction s arbitrary: v) auto

lemma shell_words_quoted:
  "CHR 0x00 \<notin> set s \<Longrightarrow> shell_words False None (shell_quote s) = Some [s]"
  using shell_words_inside [of s "[]" "[]"] by (simp add: shell_quote_def Let_def)

lemmas shell_plain = shell_special_def Let_def

text \<open>
  C25: a path cannot break out of the commands the worker runs with it. For every path without a zero
  byte - quotes, blanks, \<open>$(...)\<close>, newlines and semicolons included - the shell splits each of the three
  commands into the words of the command and the path itself as its one last argument.
\<close>

theorem worker_commands_quoted:
  assumes "CHR 0x00 \<notin> set path"
  shows "shell_words False None (derivation_command path) =
      Some [''nix'', ''derivation'', ''show'', ''--recursive'', path] \<and>
    shell_words False None (path_command path) = Some [''nix'', ''path-info'', ''--json'', path] \<and>
    shell_words False None (dump_command path) = Some [''nix-store'', ''--dump'', path]"
  by (simp add: derivation_command_def path_command_def dump_command_def shell_plain
      shell_words_quoted [OF assms])

lemma worker_commands_quoted_witness:
  "shell_words False None (dump_command (''/nix/store/x'' @ [CHR 39] @ ''; rm -rf $(pwd)'')) =
     Some [''nix-store'', ''--dump'', ''/nix/store/x'' @ [CHR 39] @ ''; rm -rf $(pwd)'']"
  using worker_commands_quoted [of "''/nix/store/x'' @ [CHR 39] @ ''; rm -rf $(pwd)''"] by simp

section \<open>The inputs of a derivation\<close>

definition own_outputs_known :: "json_derivation \<Rightarrow> bool" where
  "own_outputs_known entry \<longleftrightarrow>
     (\<forall>(name, out) \<in> set (jd_outputs entry). jo_path out \<noteq> '''' \<or> parse_sri_hash (jo_hash out) \<noteq> None)"

text \<open>The base name of the output \<open>name\<close> of the input derivation \<open>base\<close>, if the store knows it.\<close>

definition known_output :: "derivation_show \<Rightarrow> string \<Rightarrow> string \<Rightarrow> string \<Rightarrow> bool" where
  "known_output shown base name p \<longleftrightarrow>
     (\<exists>inp out. map_of shown base = Some inp \<and> map_of (jd_outputs inp) name = Some out \<and>
       jo_path out = p \<and> p \<noteq> '''')"

lemma own_output_ok_iff:
  "(\<exists>v. own_output uni drv_path x = Inr v) \<longleftrightarrow>
     (case x of (name, out) \<Rightarrow> jo_path out \<noteq> '''' \<or> parse_sri_hash (jo_hash out) \<noteq> None)"
  by (cases x) (auto simp: own_output_def split: option.splits)

lemma own_output_names: "each (own_output uni drv_path) os = Inr outs \<Longrightarrow> map fst outs = map fst os"
  by (induction os arbitrary: outs)
    (auto simp: own_output_def split: sum.splits option.splits if_splits prod.splits)

lemma input_path_iff:
  "input_path uni drv_path base inp name = Inr v \<longleftrightarrow>
     (\<exists>out. map_of (jd_outputs inp) name = Some out \<and> jo_path out \<noteq> '''' \<and> v = store_dir @ ''/'' @ jo_path out)"
  by (auto simp: input_path_def split: option.splits)

lemma input_paths_ok_iff:
  "(\<exists>vs. input_paths uni drv_path shown x = Inr vs) \<longleftrightarrow> (case x of (base, names) \<Rightarrow>
     map_of shown base \<noteq> None \<and> (\<forall>name \<in> set names. \<exists>p. known_output shown base name p))"
  by (cases x) (auto simp: input_paths_def each_succeeds_iff input_path_iff known_output_def split: option.splits)

lemma input_paths_values:
  assumes "input_paths uni drv_path shown (base, names) = Inr vs"
  shows "set vs = {store_dir @ ''/'' @ p | p. \<exists>name \<in> set names. known_output shown base name p}"
proof -
  obtain inp where inp: "map_of shown base = Some inp" "each (input_path uni drv_path base inp) names = Inr vs"
    using assms by (auto simp: input_paths_def split: option.splits)
  have "set vs = {v. \<exists>name \<in> set names. input_path uni drv_path base inp name = Inr v}"
    using inp(2) by (rule each_values)
  moreover have "(\<exists>name \<in> set names. input_path uni drv_path base inp name = Inr v) \<longleftrightarrow>
      (\<exists>p. v = store_dir @ ''/'' @ p \<and> (\<exists>name \<in> set names. known_output shown base name p))" for v
    unfolding input_path_iff known_output_def inp(1) option.inject by blast
  ultimately show ?thesis by simp
qed

definition inputs_known :: "derivation_show \<Rightarrow> json_derivation \<Rightarrow> bool" where
  "inputs_known shown entry \<longleftrightarrow>
     (\<forall>(base, names) \<in> set (jd_drvs entry).
        map_of shown base \<noteq> None \<and> (\<forall>name \<in> set names. \<exists>p. known_output shown base name p))"

definition input_set :: "derivation_show \<Rightarrow> json_derivation \<Rightarrow> string set" where
  "input_set shown entry = set (jd_srcs entry) \<union>
     {store_dir @ ''/'' @ p | p. \<exists>(base, names) \<in> set (jd_drvs entry). \<exists>name \<in> set names. known_output shown base name p}"

lemma own_outputs_ok: "(\<exists>os. each (own_output uni drv_path) (jd_outputs entry) = Inr os) \<longleftrightarrow> own_outputs_known entry"
  unfolding each_succeeds_iff own_outputs_known_def
  by (simp only: own_output_ok_iff)

lemma inputs_ok:
  "(\<exists>ps. each (input_paths uni drv_path shown) (jd_drvs entry) = Inr ps) \<longleftrightarrow> inputs_known shown entry"
  unfolding each_succeeds_iff inputs_known_def
  by (simp only: input_paths_ok_iff)

lemma inputs_values:
  assumes "each (input_paths uni drv_path shown) (jd_drvs entry) = Inr ps"
  shows "set (jd_srcs entry @ concat ps) = input_set shown entry"
proof -
  have "v \<in> set (concat ps) \<longleftrightarrow> v \<in> {store_dir @ ''/'' @ p | p.
      \<exists>x \<in> set (jd_drvs entry). \<exists>name \<in> set (snd x). known_output shown (fst x) name p}" for v
  proof -
    have "v \<in> set (concat ps) \<longleftrightarrow>
        (\<exists>x \<in> set (jd_drvs entry). \<exists>vs. input_paths uni drv_path shown x = Inr vs \<and> v \<in> set vs)"
      by (rule each_concat [OF assms])
    also have "\<dots> \<longleftrightarrow> (\<exists>x \<in> set (jd_drvs entry).
        v \<in> {store_dir @ ''/'' @ p | p. \<exists>name \<in> set (snd x). known_output shown (fst x) name p})"
    proof (rule bex_cong [OF refl])
      fix x assume "x \<in> set (jd_drvs entry)"
      then obtain vs where vs: "input_paths uni drv_path shown x = Inr vs"
        using assms each_succeeds_iff [of "input_paths uni drv_path shown" "jd_drvs entry"] by auto
      then show "(\<exists>vs. input_paths uni drv_path shown x = Inr vs \<and> v \<in> set vs) \<longleftrightarrow>
          v \<in> {store_dir @ ''/'' @ p | p. \<exists>name \<in> set (snd x). known_output shown (fst x) name p}"
        using input_paths_values [of uni drv_path shown "fst x" "snd x" vs] by simp
    qed
    finally show ?thesis by blast
  qed
  then show ?thesis unfolding input_set_def case_prod_unfold set_append by blast
qed

text \<open>
  C22: what \<open>readDerivation\<close> makes of the store's answer. It succeeds exactly when every own output has
  a path or a hash of the form \<open>algo-digest\<close> and every requested output of every input derivation is
  in the answer with a path; then the inputs of the build are exactly the source inputs as listed
  and the store paths of the requested outputs - none is left out silently - and platform, builder,
  arguments and environment are the derivation's.
\<close>

theorem read_derivation_complete:
  assumes "ex_output ex (derivation_command drv_path) = Inr out" and "decode out = Inr shown"
    and "map_of shown (path_base drv_path) = Some entry"
  shows "((\<exists>r. read_derivation ex uni decode drv_path = Inr r) \<longleftrightarrow>
      own_outputs_known entry \<and> inputs_known shown entry) \<and>
    (\<forall>drv system. read_derivation ex uni decode drv_path = Inr (drv, system) \<longrightarrow>
      set (bd_input_srcs drv) = input_set shown entry \<and> map fst (bd_outputs drv) = map fst (jd_outputs entry) \<and>
      system = jd_system entry \<and> bd_platform drv = system \<and> bd_builder drv = jd_builder entry \<and>
      bd_args drv = jd_args entry \<and> bd_env drv = jd_env entry)"
    (is "?succeeds \<and> ?result")
proof
  have asked: "run_json ex uni decode (derivation_command drv_path) = Inr shown"
    using assms(1,2) by (simp add: run_json_def)
  show ?succeeds
    using own_outputs_ok [of uni drv_path entry] inputs_ok [of uni drv_path shown entry]
    by (cases "each (own_output uni drv_path) (jd_outputs entry)";
        cases "each (input_paths uni drv_path shown) (jd_drvs entry)")
      (simp_all add: read_derivation_def asked assms(3))
  show ?result
    by (auto simp: read_derivation_def asked assms(3) own_output_names simp flip: inputs_values split: sum.splits)
qed

definition shown_dep :: derivation_show where
  "shown_dep =
     [(''a-test.drv'', \<lparr>jd_args = [''-c''], jd_builder = ''/bin/sh'', jd_env = [(''name'', ''test'')],
        jd_drvs = [(''b-dep.drv'', [''out''])], jd_srcs = [''c-builder.sh''],
        jd_outputs = [(''out'', \<lparr>jo_path = ''d-test'', jo_hash = [], jo_method = []\<rparr>)],
        jd_system = ''x86_64-linux''\<rparr>),
      (''b-dep.drv'', \<lparr>jd_args = [], jd_builder = ''/bin/sh'', jd_env = [], jd_drvs = [], jd_srcs = [],
        jd_outputs = [(''out'', \<lparr>jo_path = ''e-dep'', jo_hash = [], jo_method = []\<rparr>)],
        jd_system = ''x86_64-linux''\<rparr>)]"

definition store_host :: execer where
  "store_host = \<lparr>ex_output = (\<lambda>_. Inr ''{}''), ex_stream = (\<lambda>_. Inl EndOfFile)\<rparr>"

lemma read_derivation_complete_witness:
  "\<exists>drv. read_derivation store_host (\<lambda>u. u) (\<lambda>_. Inr shown_dep) ''/nix/store/a-test.drv'' =
      Inr (drv, ''x86_64-linux'') \<and>
    set (bd_input_srcs drv) = {''c-builder.sh'', ''/nix/store/e-dep''}"
proof -
  have "map_of shown_dep (path_base ''/nix/store/a-test.drv'') = Some (snd (hd shown_dep))"
    by (simp add: shown_dep_def path_base_def Let_def)
  note complete = read_derivation_complete [where ex = store_host and uni = "\<lambda>u. u" and decode = "\<lambda>_. Inr shown_dep"
      and drv_path = "''/nix/store/a-test.drv''" and entry = "snd (hd shown_dep)" and shown = shown_dep
      and out = "''{}''", OF _ _ this]
  have "own_outputs_known (snd (hd shown_dep)) \<and> inputs_known shown_dep (snd (hd shown_dep))"
    by (simp add: shown_dep_def own_outputs_known_def inputs_known_def known_output_def)
  moreover have "input_set shown_dep (snd (hd shown_dep)) = {''c-builder.sh'', ''/nix/store/e-dep''}"
    by (auto simp: shown_dep_def input_set_def known_output_def store_dir_def)
  moreover have "jd_system (snd (hd shown_dep)) = ''x86_64-linux''" by (simp add: shown_dep_def)
  ultimately show ?thesis using complete by (fastforce simp: store_host_def)
qed

end
