(* ===== verification/Gradient_Peers.thy ===== *)
theory Gradient_Peers
  imports Gradient_Store
begin

text \<open>
  The worker's side of a session with the Gradient server up to its first job: the WebSocket
  connection (\<open>gradientproto/conn.go\<close>), the file of peer tokens (\<open>peers.go\<close>) and the handshake
  (\<open>handshake.go\<close>).
\<close>

section \<open>The WebSocket connection\<close>

text \<open>
  What a read of the socket returns: a frame, binary or not, or the error of the transport; when
  nothing is left the peer is gone. \<open>ws_fails i\<close> is the error of write number \<open>i\<close>. The messages that
  were written are kept as they were before \<open>encode_client\<close> made bytes of them. \<open>ws_panicked\<close> records
  a panic of the decoder, which no code recovers.
\<close>

type_synonym frame = "bool \<times> byte list"

record websocket =
  ws_in :: "(io_error + frame) list"
  ws_fails :: "nat \<Rightarrow> io_error option"
  ws_tries :: nat
  ws_sent :: "client_message list"
  ws_panicked :: bool

definition new_websocket :: "(io_error + frame) list \<Rightarrow> (nat \<Rightarrow> io_error option) \<Rightarrow> websocket" where
  "new_websocket inp fails = \<lparr>ws_in = inp, ws_fails = fails, ws_tries = 0, ws_sent = [], ws_panicked = False\<rparr>"

definition send_message :: "client_message \<Rightarrow> ('w websocket_scheme, unit) io" where
  "send_message m ws = (case ws_fails ws (ws_tries ws) of
       None \<Rightarrow> (Inr (), ws\<lparr>ws_tries := Suc (ws_tries ws), ws_sent := ws_sent ws @ [m]\<rparr>)
     | Some e \<Rightarrow> (Inl (Wrapped ''gradientproto: sending message'' e), ws\<lparr>ws_tries := Suc (ws_tries ws)\<rparr>))"

definition read_frame :: "('w websocket_scheme, frame) io" where
  "read_frame ws = (case ws_in ws of
       [] \<Rightarrow> (Inl (Wrapped ''gradientproto: reading message'' EndOfFile), ws)
     | Inl e # rest \<Rightarrow> (Inl (Wrapped ''gradientproto: reading message'' e), ws\<lparr>ws_in := rest\<rparr>)
     | Inr f # rest \<Rightarrow> (Inr f, ws\<lparr>ws_in := rest\<rparr>))"

fun decode_error_text :: "decode_error \<Rightarrow> io_error" where
  "decode_error_text FlakeJob = Failed
     ''gradientproto: received Job::Flake, but this worker only implements the build capability''"
| "decode_error_text (UnknownJobTag n) =
     Failed (''gradientproto: unknown Job variant tag '' @ decimal (unat n))"
| "decode_error_text (BufferTooShort n) = Failed (''gradientproto: buffer too short for ServerMessage: '' @
     decimal n @ '' bytes, want at least '' @ decimal server_message_size)"
| "decode_error_text (DecodingAssignJob e) = Wrapped ''gradientproto: decoding AssignJob'' (decode_error_text e)"

definition recv_server_message :: "('w websocket_scheme, server_message) io" where
  "recv_server_message = andThen read_frame (\<lambda>(binary, data).
     if \<not> binary then
       throw (Failed ''gradientproto: unexpected WebSocket message type MessageText, want binary'')
     else (case decode_server_message data of
         None \<Rightarrow> andThen (modify (\<lambda>ws. ws\<lparr>ws_panicked := True\<rparr>)) (\<lambda>_. throw (Failed ''panic''))
       | Some (Inl e) \<Rightarrow> throw (Wrapped ''gradientproto: decoding message'' (decode_error_text e))
       | Some (Inr m) \<Rightarrow> succeed m))"

section \<open>Peer tokens\<close>

text \<open>
  \<open>bufio.Scanner\<close> over the content of the file: the lines without their ends, and whether it stopped
  at one of 64 KiB or more.
\<close>

definition max_scan_token :: nat where "max_scan_token = 64 * 1024"

definition drop_cr :: "string \<Rightarrow> string" where
  "drop_cr line = (if line \<noteq> [] \<and> last line = CHR 13 then butlast line else line)"

function scan_lines :: "string \<Rightarrow> string list \<times> bool" where
  "scan_lines s =
     (if s = [] then ([], False)
      else let line = takeWhile (\<lambda>c. c \<noteq> CHR 10) s; rest = drop (Suc (length line)) s
        in if length line \<ge> max_scan_token then ([], True)
           else (case scan_lines rest of (ls, long) \<Rightarrow> (drop_cr line # ls, long)))"
  by pat_completeness auto

termination by (relation "measure length") auto

declare scan_lines.simps [simp del]

text \<open>\<open>strings.TrimSpace\<close>: the characters of Unicode's \<open>White_Space\<close>, as they are encoded.\<close>

definition space_runes :: "string list" where
  "space_runes = map (\<lambda>c. [c]) [CHR 9, CHR 10, CHR 11, CHR 12, CHR 13, CHR 32] @
     [[CHR 0xC2, CHR 0x85], [CHR 0xC2, CHR 0xA0], [CHR 0xE1, CHR 0x9A, CHR 0x80]] @
     map (\<lambda>n. [CHR 0xE2, CHR 0x80, char_of n]) ([0x80..<0x8B] @ [0xA8, 0xA9, 0xAF :: nat]) @
     [[CHR 0xE2, CHR 0x81, CHR 0x9F], [CHR 0xE3, CHR 0x80, CHR 0x80]]"

function trim_left :: "string list \<Rightarrow> string \<Rightarrow> string" where
  "trim_left spaces s = (case find (\<lambda>r. r \<noteq> [] \<and> prefix r s) spaces of
     None \<Rightarrow> s | Some r \<Rightarrow> trim_left spaces (drop (length r) s))"
  by pat_completeness auto

termination
  by (relation "measure (length \<circ> snd)") (auto simp: find_Some_iff prefix_def)

declare trim_left.simps [simp del]

definition trim_line :: "string \<Rightarrow> string" where
  "trim_line s = rev (trim_left (map rev space_runes) (rev (trim_left space_runes s)))"

type_synonym peer_credentials = "(string \<times> string) list"

text \<open>The body of the loop over the lines; \<open>creds\<close> is the map so far, \<open>n\<close> the number of the line.\<close>

fun load_lines ::
  "(string \<Rightarrow> string) \<Rightarrow> string \<Rightarrow> nat \<Rightarrow> peer_credentials \<Rightarrow> string list \<Rightarrow> io_error + peer_credentials" where
  "load_lines uni path n creds [] = Inr creds"
| "load_lines uni path n creds (l # ls) = (let line = trim_line l in
     if line = '''' \<or> prefix ''#'' line then load_lines uni path (Suc n) creds ls
     else (case cut (CHR '':'') line of
         None \<Rightarrow> Inl (Failed (''gradientproto: peers file '' @ path @ '' line '' @ decimal (Suc n) @
           '': expected '' @ go_quote uni ''peer_id:token'' @ '', got '' @ go_quote uni line))
       | Some (peer_id, token) \<Rightarrow> load_lines uni path (Suc n) (AList.update peer_id token creds) ls))"

definition load_peers_file :: "(string \<Rightarrow> string) \<Rightarrow> string \<Rightarrow> io_error + string \<Rightarrow> io_error + peer_credentials" where
  "load_peers_file uni path opened = (case opened of
       Inl e \<Rightarrow> Inl (Wrapped ''gradientproto: opening peers file'' e)
     | Inr content \<Rightarrow> (case scan_lines content of (ls, long) \<Rightarrow>
         (case load_lines uni path 0 [] ls of
            Inl e \<Rightarrow> Inl e
          | Inr creds \<Rightarrow> if long
              then Inl (Wrapped ''gradientproto: reading peers file'' (Failed ''bufio.Scanner: token too long''))
              else Inr creds)))"

definition token_for :: "peer_credentials \<Rightarrow> string \<Rightarrow> (string \<times> string) option" where
  "token_for creds peer_id = (case map_of creds peer_id of
       Some tok \<Rightarrow> Some (peer_id, tok)
     | None \<Rightarrow> (case map_of creds ''*'' of
         Some tok \<Rightarrow> Some (peer_id, tok)
       | None \<Rightarrow> None))"

definition tokens_for :: "peer_credentials \<Rightarrow> string list \<Rightarrow> (string \<times> string) list" where
  "tokens_for creds challenged = List.map_filter (token_for creds) challenged"

section \<open>The handshake\<close>

definition proto_version :: u16 where "proto_version = 7"

record handshake_result =
  hr_negotiated :: gradient_capabilities
  hr_authorized_peers :: "string list"
  hr_failed_peers :: "failed_peer list"
  hr_server_version :: u16

text \<open>\<open>%v\<close> prints a message kind as its number.\<close>

fun kind_number :: "server_message_kind \<Rightarrow> nat" where
  "kind_number MsgUnknown = 0" | "kind_number MsgAuthChallenge = 1" | "kind_number MsgInitAck = 2"
| "kind_number MsgReject = 3" | "kind_number MsgError = 4" | "kind_number MsgDraining = 5"
| "kind_number MsgAssignJob = 6" | "kind_number MsgAbortJob = 7" | "kind_number MsgNarPushResume = 8"
| "kind_number MsgCacheStatus = 9" | "kind_number MsgCacheError = 10"

definition unexpected_answer :: "string \<Rightarrow> server_message \<Rightarrow> io_error" where
  "unexpected_answer expected m =
     (if sm_kind m = MsgReject
      then Failed (''gradientproto: handshake: server rejected connection (code '' @
        decimal (unat (sm_code m)) @ ''): '' @ sm_reason m)
      else Failed (''gradientproto: handshake: expected '' @ expected @ '', got message kind '' @
        decimal (kind_number (sm_kind m))))"

definition worker_handshake ::
  "string \<Rightarrow> gradient_capabilities \<Rightarrow> peer_credentials \<Rightarrow> ('w websocket_scheme, handshake_result) io" where
  "worker_handshake peer_id caps creds =
     andThen (send_message (InitConnection proto_version caps peer_id)) (\<lambda>_.
     andThen (wrap ''gradientproto: handshake: receiving AuthChallenge'' recv_server_message) (\<lambda>challenge.
     if sm_kind challenge \<noteq> MsgAuthChallenge then throw (unexpected_answer ''AuthChallenge'' challenge)
     else
     andThen (send_message (AuthResponse (tokens_for creds (sm_peers challenge)))) (\<lambda>_.
     andThen (wrap ''gradientproto: handshake: receiving InitAck'' recv_server_message) (\<lambda>ack.
     if sm_kind ack \<noteq> MsgInitAck then throw (unexpected_answer ''InitAck'' ack)
     else succeed \<lparr>hr_negotiated = sm_capabilities ack, hr_authorized_peers = sm_authorized_peers ack,
       hr_failed_peers = sm_failed_peers ack, hr_server_version = sm_version ack\<rparr>))))"

section \<open>Reading a peers file\<close>

text \<open>A line of a peers file: an entry, a comment, or nothing.\<close>

datatype peer_line = Entry string string | Comment string | Blank

fun line_text :: "peer_line \<Rightarrow> string" where
  "line_text (Entry p tok) = p @ CHR '':'' # tok"
| "line_text (Comment s) = CHR ''#'' # s"
| "line_text Blank = ''''"

definition file_text :: "peer_line list \<Rightarrow> string" where
  "file_text ls = concat (map (\<lambda>l. line_text l @ [CHR 10]) ls)"

fun entry_of :: "peer_line \<Rightarrow> (string \<times> string) option" where
  "entry_of (Entry p tok) = Some (p, tok)"
| "entry_of l = None"

definition well_formed_line :: "peer_line \<Rightarrow> bool" where
  "well_formed_line l \<longleftrightarrow> CHR 10 \<notin> set (line_text l) \<and> length (line_text l) < max_scan_token \<and>
     trim_line (line_text l) = line_text l \<and>
     (\<forall>p tok. l = Entry p tok \<longrightarrow> CHR '':'' \<notin> set p \<and> \<not> prefix ''#'' p)"

lemma takeWhile_line: "x \<notin> set xs \<Longrightarrow> takeWhile (\<lambda>c. c \<noteq> x) (xs @ x # ys) = xs"
  by (induction xs) auto

lemma dropWhile_line: "x \<notin> set xs \<Longrightarrow> dropWhile (\<lambda>c. c \<noteq> x) (xs @ x # ys) = x # ys"
  by (induction xs) auto

lemma cut_entry: "CHR '':'' \<notin> set p \<Longrightarrow> cut (CHR '':'') (p @ CHR '':'' # tok) = Some (p, tok)"
  by (simp add: cut_def takeWhile_line dropWhile_line)

lemma suffix_trim_left: "suffix (trim_left spaces s) s"
proof (induction spaces s rule: trim_left.induct)
  case (1 spaces s)
  then show ?case
    by (subst trim_left.simps) (auto split: option.splits intro: suffix_order.trans suffix_drop)
qed

lemma trim_left_stuck:
  assumes "trim_left spaces s = s" and "r \<in> set spaces" and "r \<noteq> []"
  shows "\<not> prefix r s"
proof
  assume "prefix r s"
  then obtain q where q: "find (\<lambda>r. r \<noteq> [] \<and> prefix r s) spaces = Some q" "q \<noteq> []" "prefix q s"
    using assms(2,3) by (cases "find (\<lambda>r. r \<noteq> [] \<and> prefix r s) spaces") (auto simp: find_None_iff find_Some_iff)
  have "length (trim_left spaces (drop (length q) s)) < length s"
    using q suffix_length_le [OF suffix_trim_left [of spaces "drop (length q) s"]]
    by (cases q; cases s) auto
  moreover have "trim_left spaces s = trim_left spaces (drop (length q) s)"
    by (subst trim_left.simps) (simp add: q(1))
  ultimately show False using assms(1) by simp
qed

lemma trim_line_no_cr:
  assumes "trim_line s = s"
  shows "drop_cr s = s"
proof -
  let ?u = "trim_left space_runes s"
  have "length s \<le> length ?u"
    using assms suffix_length_le [OF suffix_trim_left [of "map rev space_runes" "rev ?u"]]
    by (metis length_rev trim_line_def)
  then have "?u = s" using suffix_trim_left [of space_runes s] by (metis suffix_length_le suffix_order.order_iff_strict
        strict_suffix_def le_antisym suffix_def append_eq_append_conv append_self_conv2)
  then have "trim_left (map rev space_runes) (rev s) = rev s"
    using assms by (metis rev_swap trim_line_def)
  then have "\<not> prefix [CHR 13] (rev s)"
    by (rule trim_left_stuck) (simp_all add: space_runes_def)
  then show ?thesis by (cases s rule: rev_cases) (auto simp: drop_cr_def)
qed

lemma scan_line:
  assumes "CHR 10 \<notin> set l" and "length l < max_scan_token"
  shows "scan_lines (l @ CHR 10 # rest) = (drop_cr l # fst (scan_lines rest), snd (scan_lines rest))"
  using assms by (subst scan_lines.simps) (simp add: takeWhile_line Let_def split_beta)

lemma scan_file:
  "\<forall>l \<in> set ls. well_formed_line l \<Longrightarrow> scan_lines (file_text ls) = (map line_text ls, False)"
proof (induction ls)
  case Nil
  then show ?case by (simp add: file_text_def scan_lines.simps)
next
  case (Cons l ls)
  have "file_text (l # ls) = line_text l @ CHR 10 # file_text ls" by (simp add: file_text_def)
  then show ?case
    using Cons scan_line [of "line_text l" "file_text ls"] by (simp add: well_formed_line_def trim_line_no_cr)
qed

lemma load_file:
  "\<forall>l \<in> set ls. well_formed_line l \<Longrightarrow>
     load_lines uni path n creds (map line_text ls) =
       Inr (foldl (\<lambda>m (p, tok). AList.update p tok m) creds (List.map_filter entry_of ls))"
proof (induction ls arbitrary: n creds)
  case Nil
  then show ?case by (simp add: List.map_filter_def)
next
  case (Cons l ls)
  then have l: "well_formed_line l" "trim_line (line_text l) = line_text l"
    by (simp_all add: well_formed_line_def)
  then have "\<not> prefix ''#'' (p @ CHR '':'' # tok)" if "l = Entry p tok" for p tok
    using that by (cases p) (auto simp: well_formed_line_def)
  then show ?case
    using Cons l cut_entry
    by (cases l) (auto simp: List.map_filter_def well_formed_line_def)
qed

lemma updates_of_distinct:
  "distinct (map fst (m @ es)) \<Longrightarrow> foldl (\<lambda>m (p, tok). AList.update p tok m) m es = m @ es"
proof (induction es arbitrary: m)
  case Nil
  then show ?case by simp
next
  case (Cons e es)
  have "AList.update (fst e) (snd e) m = m @ [e]"
    using Cons.prems by (induction m) auto
  then show ?case using Cons.IH [of "m @ [e]"] Cons.prems by (simp add: split_beta)
qed

text \<open>
  Reading a peers file gives the tokens it was written with. A file of any mix of entries,
  comments and empty lines, with distinct identifiers, loads without an error into exactly its
  entries, colons in tokens included.
\<close>

theorem peers_file_roundtrip:
  assumes "\<forall>l \<in> set ls. well_formed_line l" and "distinct (map fst (List.map_filter entry_of ls))"
  shows "load_peers_file uni path (Inr (file_text ls)) = Inr (List.map_filter entry_of ls)"
  using assms(2)
  by (simp add: load_peers_file_def scan_file [OF assms(1)] load_file [OF assms(1)] updates_of_distinct)

lemma peers_file_roundtrip_witness:
  "load_peers_file (\<lambda>u. u) ''/etc/peers''
     (Inr (file_text [Comment '' peers'', Blank, Entry ''peer-1'' ''tok:en'', Entry ''*'' ''any''])) =
   Inr [(''peer-1'', ''tok:en''), (''*'', ''any'')]"
  using peers_file_roundtrip [of "[Comment '' peers'', Blank, Entry ''peer-1'' ''tok:en'', Entry ''*'' ''any'']"]
  by (simp add: well_formed_line_def max_scan_token_def trim_line_def trim_left.simps space_runes_def
      List.map_filter_def)

section \<open>The handshake with a server\<close>

text \<open>The frame \<open>f\<close> is the server's encoding of \<open>e\<close>, within the limit that \<open>Dial\<close> sets on a message.\<close>

definition max_message_size :: nat where "max_message_size = 8 * 1024 * 1024"

definition carries :: "io_error + frame \<Rightarrow> server_event \<Rightarrow> bool" where
  "carries f e \<longleftrightarrow> safe_server e \<and>
     (\<exists>buf. f = Inr (True, buf) \<and> fake_server e = Some buf \<and> length buf \<le> max_message_size)"

lemma recv_carried:
  assumes "carries f e" and "ws_in ws = f # rest"
  shows "recv_server_message ws = (Inr (as_message e), ws\<lparr>ws_in := rest\<rparr>)"
proof -
  obtain buf where buf: "f = Inr (True, buf)" "fake_server e = Some buf" "length buf \<le> max_message_size"
      "safe_server e"
    using assms(1) by (auto simp: carries_def)
  then have "decode_server_message buf = Some (Inr (as_message e))"
    using fake_server_delivered [of e] by (auto simp: delivered_def max_arena_def max_message_size_def)
  then show ?thesis
    using assms(2) buf(1) by (simp add: recv_server_message_def read_frame_def andThen_def succeed_def)
qed

lemma send_works: "ws_fails ws (ws_tries ws) = None \<Longrightarrow> send_message m ws =
    (Inr (), ws\<lparr>ws_tries := Suc (ws_tries ws), ws_sent := ws_sent ws @ [m]\<rparr>)"
  by (simp add: send_message_def)

lemma wrap_step: "m s = (Inr v, s') \<Longrightarrow> wrap msg m s = (Inr v, s')"
  by (simp add: wrap_def)

lemma tokens_for_challenged:
  "map fst (tokens_for creds ps) = filter (\<lambda>p. map_of creds p \<noteq> None \<or> map_of creds ''*'' \<noteq> None) ps"
  by (induction ps) (auto simp: tokens_for_def token_for_def List.map_filter_def split: option.splits)

lemma tokens_for_entry:
  "(p, tok) \<in> set (tokens_for creds ps) \<longleftrightarrow> p \<in> set ps \<and>
     (map_of creds p = Some tok \<or> map_of creds p = None \<and> map_of creds ''*'' = Some tok)"
  by (induction ps) (auto simp: tokens_for_def token_for_def List.map_filter_def split: option.splits)

text \<open>
  C23: the handshake with a server that challenges and acknowledges, over the bytes of its messages.
  The worker announces itself with protocol version 7 and its capabilities, answers the challenge
  with one token for each challenged peer it has one for - the peer's own, else that of \<open>*\<close> - in the
  order of the challenge and no token for anybody else, and ends with the capabilities, peers and
  version of the acknowledgement, the rest of the stream unread.
\<close>

theorem gradient_handshake:
  assumes "carries f (AuthChallenge ps)" and "carries g (InitAck v negotiated authorized failed)"
  shows "\<exists>ts ws. worker_handshake peer_id caps creds (new_websocket (f # g # rest) (\<lambda>_. None)) =
      (Inr \<lparr>hr_negotiated = negotiated, hr_authorized_peers = authorized, hr_failed_peers = failed,
         hr_server_version = v\<rparr>, ws) \<and>
    ws_sent ws = [InitConnection 7 caps peer_id, AuthResponse ts] \<and> ws_in ws = rest \<and>
    map fst ts = filter (\<lambda>p. map_of creds p \<noteq> None \<or> map_of creds ''*'' \<noteq> None) ps \<and>
    (\<forall>(p, tok) \<in> set ts. map_of creds p = Some tok \<or> map_of creds p = None \<and> map_of creds ''*'' = Some tok)"
proof -
  let ?ts = "tokens_for creds ps"
  define ws where "ws = new_websocket (f # g # rest) (\<lambda>_. None)"
  define announced where "announced = ws\<lparr>ws_tries := 1, ws_sent := [InitConnection 7 caps peer_id]\<rparr>"
  define challenged where "challenged = announced\<lparr>ws_in := g # rest\<rparr>"
  define answered where "answered = challenged\<lparr>ws_tries := 2, ws_sent := [InitConnection 7 caps peer_id, AuthResponse ?ts]\<rparr>"
  have announce: "send_message (InitConnection proto_version caps peer_id) ws = (Inr (), announced)"
    by (simp add: send_message_def new_websocket_def proto_version_def ws_def announced_def)
  have challenge: "wrap msg recv_server_message announced = (Inr (as_message (AuthChallenge ps)), challenged)" for msg
    unfolding challenged_def
    by (rule wrap_step, rule recv_carried [OF assms(1)]) (simp add: announced_def ws_def new_websocket_def)
  have answer: "send_message (AuthResponse ?ts) challenged = (Inr (), answered)"
    by (simp add: send_message_def new_websocket_def ws_def announced_def challenged_def answered_def)
  have ack: "wrap msg recv_server_message answered =
      (Inr (as_message (InitAck v negotiated authorized failed)), answered\<lparr>ws_in := rest\<rparr>)" for msg
    by (rule wrap_step, rule recv_carried [OF assms(2)]) (simp add: answered_def challenged_def)
  have "worker_handshake peer_id caps creds ws =
      (Inr \<lparr>hr_negotiated = negotiated, hr_authorized_peers = authorized, hr_failed_peers = failed,
         hr_server_version = v\<rparr>, answered\<lparr>ws_in := rest\<rparr>)"
    by (simp add: worker_handshake_def andThen_def announce challenge answer ack succeed_def server_msg_def)
  moreover have "\<forall>(p, tok) \<in> set ?ts. map_of creds p = Some tok \<or> map_of creds p = None \<and> map_of creds ''*'' = Some tok"
    using tokens_for_entry by fastforce
  ultimately show ?thesis
    by (intro exI [where x = ?ts] exI [where x = "answered\<lparr>ws_in := rest\<rparr>"])
      (simp add: tokens_for_challenged ws_def answered_def challenged_def)
qed

lemma gradient_handshake_witness:
  "\<exists>f g ws. worker_handshake ''me'' no_capabilities [(''*'', ''any'')] (new_websocket [f, g] (\<lambda>_. None)) =
      (Inr \<lparr>hr_negotiated = no_capabilities\<lparr>cap_build := True\<rparr>, hr_authorized_peers = [''org''],
         hr_failed_peers = [], hr_server_version = 7\<rparr>, ws) \<and>
    ws_sent ws = [InitConnection 7 no_capabilities ''me'', AuthResponse [(''org'', ''any'')]]"
proof -
  let ?e = "AuthChallenge [''org'']" and ?a = "InitAck 7 (no_capabilities\<lparr>cap_build := True\<rparr>) [''org''] []"
  have "\<exists>f. carries f e" if "e \<in> {?e, ?a}" for e
  proof -
    have "safe_server e" using that by (auto simp: sso_safe_def)
    moreover have "map_option length (fake_server ?e) = Some 120" "map_option length (fake_server ?a) = Some 120"
      by code_simp+
    then have "\<exists>buf. fake_server e = Some buf \<and> length buf \<le> max_message_size"
      using that by (auto simp: max_message_size_def)
    ultimately show ?thesis by (auto simp: carries_def)
  qed
  then obtain f g where "carries f ?e" "carries g ?a" by blast
  from gradient_handshake [OF this, of "''me''" no_capabilities "[(''*'', ''any'')]" "[]"]
  show ?thesis by (intro exI [of _ f] exI [of _ g]) auto
qed

end
