(* ===== verification/Provisioners.thy ===== *)
theory Provisioners
  imports Gradient_Peers
begin

text \<open>
  The two providers of builders behind the pool: pods of a Kubernetes cluster
  (\<open>provisioner/kubernetes/provisioner.go\<close>) and servers that OpenTofu makes at Hetzner
  (\<open>provisioner/hetzner-ubuntu/provisioner.go\<close>). The API of the cluster, the \<open>tofu\<close> command, the network
  and the files are parameters, functions on a state \<open>'c\<close> of their own. A context that has a deadline is
  the number of times it is still checked before it is done; the calls that take it fail through the
  parameters.
\<close>

section \<open>What a provider is given\<close>

record provisioner_config =
  pv_store_host :: string
  pv_store_port :: int
  pv_store_user :: string
  pv_store_host_key :: string
  pv_proxy_public_key :: string
  pv_store_private_key :: string

text \<open>\<open>fmt.Sprintf("%d", n)\<close> of an \<open>int\<close>.\<close>

definition signed_decimal :: "int \<Rightarrow> string" where
  "signed_decimal n = (if n < 0 then CHR ''-'' # decimal (nat (- n)) else decimal (nat n))"

text \<open>The errors of a context that is done: \<open>ctx.Err()\<close>.\<close>

definition context_done :: io_error where
  "context_done = Failed ''context deadline exceeded''"

section \<open>Kubernetes\<close>

record kube_config =
  kc_namespace :: string
  kc_builder_image :: string
  kc_cpu_request :: string
  kc_memory_request :: string
  kc_cpu_limit :: string
  kc_memory_limit :: string
  kc_image_pull_secret :: string

text \<open>The part of \<open>New\<close> that fills in what is not configured.\<close>

definition or_default :: "string \<Rightarrow> string \<Rightarrow> string" where
  "or_default d s = (if s = '''' then d else s)"

definition kube_defaults :: "kube_config \<Rightarrow> io_error + kube_config" where
  "kube_defaults cfg = (if kc_builder_image cfg = '''' then Inl (Failed ''BuilderImage is required'')
     else Inr (cfg\<lparr>kc_namespace := or_default ''nix-builders'' (kc_namespace cfg),
       kc_cpu_request := or_default ''2'' (kc_cpu_request cfg), kc_memory_request := or_default ''4Gi'' (kc_memory_request cfg),
       kc_cpu_limit := or_default ''4'' (kc_cpu_limit cfg), kc_memory_limit := or_default ''8Gi'' (kc_memory_limit cfg)\<rparr>))"

record secret =
  sc_name :: string
  sc_namespace :: string
  sc_labels :: "(string \<times> string) list"
  sc_data :: "(string \<times> string) list"

text \<open>A pod as \<open>buildPod\<close> makes it; quantities are kept as their text.\<close>

record pod =
  po_name :: string
  po_namespace :: string
  po_labels :: "(string \<times> string) list"
  po_node_selector :: "(string \<times> string) list"
  po_restart :: string
  po_secret_name :: string
  po_secret_mode :: nat
  po_mount_path :: string
  po_image :: string
  po_port :: nat
  po_requests :: "(string \<times> string) list"
  po_limits :: "(string \<times> string) list"
  po_pull_secrets :: "string list"

datatype pod_phase = PodRunning | PodFailed | OtherPhase

text \<open>
  The client of the cluster: objects are named by their namespace and name; \<open>ka_get_pod\<close> is the phase and
  the address of a pod, \<open>ka_dial\<close> opens a TCP connection and closes it.
\<close>

record 'c kube_api =
  ka_create_secret :: "secret \<Rightarrow> ('c, unit) io"
  ka_create_pod :: "pod \<Rightarrow> ('c, unit) io"
  ka_delete_secret :: "string \<times> string \<Rightarrow> ('c, unit) io"
  ka_delete_pod :: "string \<times> string \<Rightarrow> ('c, unit) io"
  ka_get_pod :: "string \<times> string \<Rightarrow> ('c, pod_phase \<times> string) io"
  ka_dial :: "string \<Rightarrow> ('c, unit) io"
  ka_not_found :: "io_error \<Rightarrow> bool"

definition arch_to_k8s_arch :: "string \<Rightarrow> io_error + string" where
  "arch_to_k8s_arch arch = (if arch = ''aarch64'' then Inr ''arm64'' else if arch = ''x86_64'' then Inr ''amd64''
     else Inl (Failed (''unsupported arch for kubernetes provisioner: '' @ arch)))"

definition resource_name :: "string \<Rightarrow> string" where
  "resource_name i = ''nix-builder-'' @ i"

definition builder_labels :: "string \<Rightarrow> (string \<times> string) list" where
  "builder_labels i = [(''app'', ''nix-builder''), (''builder-id'', i)]"

definition build_secret :: "string \<Rightarrow> string \<Rightarrow> string \<Rightarrow> provisioner_config \<Rightarrow> secret" where
  "build_secret name namespace i config = \<lparr>sc_name = name, sc_namespace = namespace, sc_labels = builder_labels i,
     sc_data = [(''authorized_keys'', pv_proxy_public_key config), (''store_key'', pv_store_private_key config),
       (''store_host'', pv_store_host config), (''store_host_port'', signed_decimal (pv_store_port config)),
       (''store_host_user'', pv_store_user config), (''store_host_key'', pv_store_host_key config)]\<rparr>"

definition build_pod :: "kube_config \<Rightarrow> string \<Rightarrow> string \<Rightarrow> pod" where
  "build_pod cfg name k8s_arch = \<lparr>po_name = name, po_namespace = kc_namespace cfg, po_labels = builder_labels name,
     po_node_selector = [(''kubernetes.io/arch'', k8s_arch)], po_restart = ''Never'',
     po_secret_name = name, po_secret_mode = 256, po_mount_path = ''/secrets'',
     po_image = kc_builder_image cfg, po_port = 22,
     po_requests = [(''cpu'', kc_cpu_request cfg), (''memory'', kc_memory_request cfg)],
     po_limits = [(''cpu'', kc_cpu_limit cfg), (''memory'', kc_memory_limit cfg)],
     po_pull_secrets = (if kc_image_pull_secret cfg \<noteq> '''' then [kc_image_pull_secret cfg] else [])\<rparr>"

text \<open>The state of the provider: the cluster, and the map of the builders' architectures.\<close>

type_synonym 'c kube = "'c \<times> (string \<times> string) list"

definition cluster :: "('c, 'a) io \<Rightarrow> ('c kube, 'a) io" where
  "cluster m ck = (case m (fst ck) of (res, c) \<Rightarrow> (res, (c, snd ck)))"

definition set_arch :: "string \<Rightarrow> string \<Rightarrow> ('c kube, unit) io" where
  "set_arch i arch = modify (\<lambda>(c, archs). (c, AList.update i arch archs))"

definition forget_arch :: "string \<Rightarrow> ('c kube, unit) io" where
  "forget_arch i = modify (\<lambda>(c, archs). (c, AList.delete i archs))"

text \<open>An error that says that the object is gone is none.\<close>

definition or_gone :: "'c kube_api \<Rightarrow> ('c, unit) io \<Rightarrow> ('c, unit) io" where
  "or_gone api m c = (case m c of
       (Inl e, c') \<Rightarrow> (if ka_not_found api e then Inr () else Inl e, c')
     | (Inr _, c') \<Rightarrow> (Inr (), c'))"

definition delete_pod :: "'c kube_api \<Rightarrow> kube_config \<Rightarrow> string \<Rightarrow> ('c, unit) io" where
  "delete_pod api cfg name = or_gone api (ka_delete_pod api (kc_namespace cfg, name))"

definition delete_secret :: "'c kube_api \<Rightarrow> kube_config \<Rightarrow> string \<Rightarrow> ('c, unit) io" where
  "delete_secret api cfg name = or_gone api (ka_delete_secret api (kc_namespace cfg, name))"

text \<open>
  \<open>waitForSSH\<close> with \<open>n\<close> checks of the context and \<open>k\<close> attempts left, and \<open>waitForBuilder\<close>, whose only bound
  is the context.
\<close>

fun wait_for_ssh :: "'c kube_api \<Rightarrow> nat \<Rightarrow> nat \<Rightarrow> string \<Rightarrow> ('c, unit) io" where
  "wait_for_ssh api n 0 addr = throw (Failed (''SSH did not become available at '' @ addr @ '' within 60s''))"
| "wait_for_ssh api 0 (Suc k) addr = throw context_done"
| "wait_for_ssh api (Suc n) (Suc k) addr = (\<lambda>c. case ka_dial api addr c of
       (Inr _, c') \<Rightarrow> (Inr (), c')
     | (Inl _, c') \<Rightarrow> wait_for_ssh api n k addr c')"

fun kube_wait_for_builder :: "'c kube_api \<Rightarrow> kube_config \<Rightarrow> nat \<Rightarrow> string \<Rightarrow> ('c, string) io" where
  "kube_wait_for_builder api cfg 0 name = throw context_done"
| "kube_wait_for_builder api cfg (Suc n) name =
     andThen (wrap ''getting pod'' (ka_get_pod api (kc_namespace cfg, name))) (\<lambda>(phase, ip).
     if phase = PodFailed then throw (Failed (''pod '' @ name @ '' entered Failed state''))
     else if phase = PodRunning \<and> ip \<noteq> '''' then andThen (wait_for_ssh api n 60 (ip @ '':22'')) (\<lambda>_. succeed ip)
     else kube_wait_for_builder api cfg n name)"

text \<open>\<open>m\<close>, and \<open>fin\<close> when it fails.\<close>

definition on_failure :: "('s, unit) io \<Rightarrow> ('s, 'a) io \<Rightarrow> ('s, 'a) io" where
  "on_failure fin m s = (case m s of (Inl e, s') \<Rightarrow> (Inl e, snd (fin s')) | (Inr v, s') \<Rightarrow> (Inr v, s'))"

definition kube_create ::
  "'c kube_api \<Rightarrow> kube_config \<Rightarrow> nat \<Rightarrow> string \<Rightarrow> provisioner_config \<Rightarrow> string \<Rightarrow> ('c kube, string) io" where
  "kube_create api cfg n i config arch = (case arch_to_k8s_arch arch of
       Inl e \<Rightarrow> throw e
     | Inr k8s_arch \<Rightarrow>
         let name = resource_name i in
         andThen (set_arch i arch) (\<lambda>_.
         andThen (wrap (''creating secret for builder '' @ i)
           (cluster (ka_create_secret api (build_secret name (kc_namespace cfg) i config)))) (\<lambda>_.
         andThen (wrap (''creating pod for builder '' @ i)
           (on_failure (cluster (delete_secret api cfg name))
             (cluster (ka_create_pod api (build_pod cfg name k8s_arch))))) (\<lambda>_.
         wrap (''waiting for builder '' @ i)
           (on_failure
             (andThen (ignore (cluster (delete_pod api cfg name))) (\<lambda>_.
              andThen (ignore (cluster (delete_secret api cfg name))) (\<lambda>_.
              forget_arch i)))
             (cluster (kube_wait_for_builder api cfg n name)))))))"

text \<open>Both deletions are tried, and their errors joined.\<close>

definition kube_destroy :: "'c kube_api \<Rightarrow> kube_config \<Rightarrow> string \<Rightarrow> ('c kube, unit) io" where
  "kube_destroy api cfg i = (let name = resource_name i in
     andThen (forget_arch i) (\<lambda>_ s.
     case cluster (delete_pod api cfg name) s of (pod_res, s') \<Rightarrow>
     case cluster (delete_secret api cfg name) s' of (secret_res, s'') \<Rightarrow>
     let errs = (case pod_res of Inl e \<Rightarrow> [''delete pod: '' @ err_text e] | Inr _ \<Rightarrow> []) @
       (case secret_res of Inl e \<Rightarrow> [''delete secret: '' @ err_text e] | Inr _ \<Rightarrow> [])
     in (if errs = [] then Inr () else Inl (Failed (''destroy builder '' @ i @ '': '' @ join ''; '' errs)), s'')))"

text \<open>
  What the client of the cluster does, \<open>pods\<close> and \<open>secrets\<close> being the objects there are: a creation
  succeeds for a new name only and adds it, a deletion removes the object or says that it is gone,
  and a request that failed in another way has no effect.
\<close>

type_synonym 'c objects = "'c \<Rightarrow> (string \<times> string) set"

definition adds :: "('x \<Rightarrow> ('c, unit) io) \<Rightarrow> ('x \<Rightarrow> string \<times> string) \<Rightarrow> 'c objects \<Rightarrow> 'c objects \<Rightarrow> bool" where
  "adds create key mine others \<longleftrightarrow> (\<forall>x c r c'. create x c = (r, c') \<longrightarrow> others c' = others c \<and>
     (if r = Inr () then key x \<notin> mine c \<and> mine c' = insert (key x) (mine c) else mine c' = mine c))"

definition removes :: "(string \<times> string \<Rightarrow> ('c, unit) io) \<Rightarrow> (io_error \<Rightarrow> bool) \<Rightarrow> 'c objects \<Rightarrow> 'c objects \<Rightarrow> bool" where
  "removes delete gone mine others \<longleftrightarrow> (\<forall>k c r c'. delete k c = (r, c') \<longrightarrow> others c' = others c \<and>
     (case r of Inr _ \<Rightarrow> mine c' = mine c - {k} | Inl e \<Rightarrow> mine c' = mine c \<and> (gone e \<longrightarrow> k \<notin> mine c)))"

definition only_looks :: "('x \<Rightarrow> ('c, 'a) io) \<Rightarrow> 'c objects \<Rightarrow> bool" where
  "only_looks m objects \<longleftrightarrow> (\<forall>x c. objects (snd (m x c)) = objects c)"

definition cluster_laws :: "'c kube_api \<Rightarrow> 'c objects \<Rightarrow> 'c objects \<Rightarrow> bool" where
  "cluster_laws api pods secrets \<longleftrightarrow>
     adds (ka_create_secret api) (\<lambda>s. (sc_namespace s, sc_name s)) secrets pods \<and>
     adds (ka_create_pod api) (\<lambda>p. (po_namespace p, po_name p)) pods secrets \<and>
     removes (ka_delete_secret api) (ka_not_found api) secrets pods \<and>
     removes (ka_delete_pod api) (ka_not_found api) pods secrets \<and>
     only_looks (ka_get_pod api) pods \<and> only_looks (ka_get_pod api) secrets \<and>
     only_looks (ka_dial api) pods \<and> only_looks (ka_dial api) secrets"

text \<open>Deletions that reach the cluster: no other error than that the object is gone.\<close>

definition deletions_reach :: "'c kube_api \<Rightarrow> bool" where
  "deletions_reach api \<longleftrightarrow> (\<forall>k c e. fst (ka_delete_pod api k c) = Inl e \<or> fst (ka_delete_secret api k c) = Inl e \<longrightarrow>
     ka_not_found api e)"

lemma or_gone_removes:
  assumes "removes delete (ka_not_found api) mine others" and "or_gone api (delete k) c = (r, c')"
  shows "others c' = others c" and "mine c' \<subseteq> mine c" and "r = Inr () \<Longrightarrow> mine c' = mine c - {k}"
    and "mine c - {k} \<subseteq> mine c'"
    and "(\<And>e. fst (delete k c) = Inl e \<Longrightarrow> ka_not_found api e) \<Longrightarrow> r = Inr ()"
proof -
  obtain r0 c0 where d: "delete k c = (r0, c0)" by fastforce
  have law: "others c0 = others c"
    "case r0 of Inr _ \<Rightarrow> mine c0 = mine c - {k} | Inl e \<Rightarrow> mine c0 = mine c \<and> (ka_not_found api e \<longrightarrow> k \<notin> mine c)"
    using assms(1) [unfolded removes_def, rule_format, OF d] by simp_all
  have c: "c' = c0" "r = (case r0 of Inl e \<Rightarrow> if ka_not_found api e then Inr () else Inl e | Inr _ \<Rightarrow> Inr ())"
    using assms(2) d by (auto simp: or_gone_def split: sum.splits)
  show "others c' = others c" "mine c' \<subseteq> mine c" "r = Inr () \<Longrightarrow> mine c' = mine c - {k}" "mine c - {k} \<subseteq> mine c'"
    using law c by (auto split: sum.splits if_splits)
  show "r = Inr ()" if "\<And>e. fst (delete k c) = Inl e \<Longrightarrow> ka_not_found api e"
    using that d c(2) by (cases r0) simp_all
qed

lemma wait_only_looks:
  assumes "only_looks (ka_get_pod api) objects" and "only_looks (ka_dial api) objects"
  shows "objects (snd (wait_for_ssh api n k addr c)) = objects c"
    and "objects (snd (kube_wait_for_builder api cfg m name c)) = objects c"
proof -
  have look: "ka_get_pod api x c = (r, c') \<Longrightarrow> objects c' = objects c"
    and dial: "ka_dial api a c = (r', c') \<Longrightarrow> objects c' = objects c" for x a c c' r r'
    using assms [unfolded only_looks_def, rule_format] by (metis snd_conv)+
  have ssh: "objects (snd (wait_for_ssh api n k addr c)) = objects c" for n k addr c
  proof (induction k arbitrary: n c)
    case (Suc k)
    then show ?case
      by (cases n) (auto simp: throw_def split: prod.split sum.split dest: dial)
  qed (simp add: throw_def)
  show "objects (snd (wait_for_ssh api n k addr c)) = objects c" by (rule ssh)
  show "objects (snd (kube_wait_for_builder api cfg m name c)) = objects c"
  proof (induction m arbitrary: c)
    case (Suc m)
    obtain r c0 where g: "ka_get_pod api (kc_namespace cfg, name) c = (r, c0)" by fastforce
    have after_ssh: "objects (snd (andThen (wait_for_ssh api m 60 addr) (\<lambda>_. succeed ip) c0)) = objects c0" for addr ip
    proof (cases "wait_for_ssh api m 60 addr c0")
      case (Pair r' c1)
      then show ?thesis
        using ssh [of m 60 addr c0] by (cases r') (simp_all add: andThen_def succeed_def)
    qed
    have same: "objects c0 = objects c" by (rule look [OF g])
    show ?case
    proof (cases r)
      case (Inl e)
      then show ?thesis by (simp add: andThen_def wrap_def g same)
    next
      case (Inr answer)
      obtain phase ip where "answer = (phase, ip)" by fastforce
      then show ?thesis
        using Suc.IH [of c0] after_ssh [of "ip @ '':22''" ip]
        by (simp add: andThen_def [of "wrap msg x" for msg x] wrap_def g Inr same throw_def)
    qed
  qed (simp add: throw_def)
qed

lemma address_of_builder: "fst (kube_wait_for_builder api cfg m name c) = Inr ip \<Longrightarrow> ip \<noteq> ''''"
proof (induction m arbitrary: c)
  case (Suc m)
  obtain r c0 where g: "ka_get_pod api (kc_namespace cfg, name) c = (r, c0)" by fastforce
  then obtain phase ip' where r: "r = Inr (phase, ip')"
    using Suc.prems by (cases r) (auto simp: andThen_def wrap_def)
  obtain r' c1 where s: "wait_for_ssh api m 60 (ip' @ '':22'') c0 = (r', c1)" by fastforce
  show ?case
    using Suc.prems Suc.IH [of c0]
    by (cases r') (auto simp: andThen_def wrap_def g r s throw_def succeed_def split: if_splits)
qed (simp add: throw_def)

text \<open>The objects before and after each of the calls of \<open>Create\<close> and \<open>Destroy\<close>.\<close>

lemma made_secret:
  assumes "cluster_laws api pods secrets" and "ka_create_secret api (build_secret name (kc_namespace cfg) i config) c = (r, c')"
  shows "pods c' = pods c" and "r = Inl e \<Longrightarrow> secrets c' = secrets c"
    and "r = Inr u \<Longrightarrow> (kc_namespace cfg, name) \<notin> secrets c \<and> secrets c' = insert (kc_namespace cfg, name) (secrets c)"
proof -
  have "adds (ka_create_secret api) (\<lambda>s. (sc_namespace s, sc_name s)) secrets pods"
    using assms(1) by (simp add: cluster_laws_def)
  from this [unfolded adds_def, rule_format, OF assms(2)]
  show "pods c' = pods c" "r = Inl e \<Longrightarrow> secrets c' = secrets c"
    "r = Inr u \<Longrightarrow> (kc_namespace cfg, name) \<notin> secrets c \<and> secrets c' = insert (kc_namespace cfg, name) (secrets c)"
    by (simp_all add: build_secret_def split: if_splits)
qed

lemma made_pod:
  assumes "cluster_laws api pods secrets" and "ka_create_pod api (build_pod cfg name k8s_arch) c = (r, c')"
  shows "secrets c' = secrets c" and "r = Inl e \<Longrightarrow> pods c' = pods c"
    and "r = Inr u \<Longrightarrow> (kc_namespace cfg, name) \<notin> pods c \<and> pods c' = insert (kc_namespace cfg, name) (pods c)"
proof -
  have "adds (ka_create_pod api) (\<lambda>p. (po_namespace p, po_name p)) pods secrets"
    using assms(1) by (simp add: cluster_laws_def)
  from this [unfolded adds_def, rule_format, OF assms(2)]
  show "secrets c' = secrets c" "r = Inl e \<Longrightarrow> pods c' = pods c"
    "r = Inr u \<Longrightarrow> (kc_namespace cfg, name) \<notin> pods c \<and> pods c' = insert (kc_namespace cfg, name) (pods c)"
    by (simp_all add: build_pod_def split: if_splits)
qed

lemma deleted_pod:
  assumes "cluster_laws api pods secrets" and "delete_pod api cfg name c = (r, c')"
  shows "secrets c' = secrets c" and "deletions_reach api \<or> r = Inr () \<Longrightarrow> pods c' = pods c - {(kc_namespace cfg, name)}"
    and "pods c' \<subseteq> pods c" and "pods c - {(kc_namespace cfg, name)} \<subseteq> pods c'"
proof -
  have law: "removes (ka_delete_pod api) (ka_not_found api) pods secrets" using assms(1) by (simp add: cluster_laws_def)
  note gone = or_gone_removes [OF law assms(2) [unfolded delete_pod_def]]
  show "secrets c' = secrets c" "pods c' \<subseteq> pods c" "pods c - {(kc_namespace cfg, name)} \<subseteq> pods c'" by (rule gone(1,2,4))+
  show "pods c' = pods c - {(kc_namespace cfg, name)}" if "deletions_reach api \<or> r = Inr ()"
    using that gone(3,5) by (auto simp: deletions_reach_def)
qed

lemma deleted_secret:
  assumes "cluster_laws api pods secrets" and "delete_secret api cfg name c = (r, c')"
  shows "pods c' = pods c" and "deletions_reach api \<or> r = Inr () \<Longrightarrow> secrets c' = secrets c - {(kc_namespace cfg, name)}"
proof -
  have law: "removes (ka_delete_secret api) (ka_not_found api) secrets pods" using assms(1) by (simp add: cluster_laws_def)
  note gone = or_gone_removes [OF law assms(2) [unfolded delete_secret_def]]
  show "pods c' = pods c" by (rule gone(1))
  show "secrets c' = secrets c - {(kc_namespace cfg, name)}" if "deletions_reach api \<or> r = Inr ()"
    using that gone(3,5) by (auto simp: deletions_reach_def)
qed

lemma waited:
  assumes "cluster_laws api pods secrets" and "kube_wait_for_builder api cfg m name c = (r, c')"
  shows "pods c' = pods c" and "secrets c' = secrets c"
proof -
  have "only_looks (ka_get_pod api) pods" "only_looks (ka_dial api) pods"
    "only_looks (ka_get_pod api) secrets" "only_looks (ka_dial api) secrets"
    using assms(1) by (simp_all only: cluster_laws_def)
  from wait_only_looks(2) [OF this(1,2)] wait_only_looks(2) [OF this(3,4)]
  show "pods c' = pods c" "secrets c' = secrets c" using assms(2) by (metis snd_conv)+
qed

lemma kube_create_objects:
  assumes laws: "cluster_laws api pods secrets"
    and create: "kube_create api cfg n i config arch (c, archs) = (res, (c', archs'))"
  shows "case res of
      Inr ip \<Rightarrow> ip \<noteq> '''' \<and> (kc_namespace cfg, resource_name i) \<notin> pods c \<union> secrets c \<and>
        pods c' = insert (kc_namespace cfg, resource_name i) (pods c) \<and>
        secrets c' = insert (kc_namespace cfg, resource_name i) (secrets c)
    | Inl e \<Rightarrow> (deletions_reach api \<longrightarrow> pods c' = pods c \<and> secrets c' = secrets c) \<and>
        pods c \<subseteq> pods c' \<and> pods c' \<subseteq> insert (kc_namespace cfg, resource_name i) (pods c)"
proof (cases "arch_to_k8s_arch arch")
  case (Inl e)
  then have "res = Inl e" "c' = c" using create by (simp_all add: kube_create_def throw_def)
  then show ?thesis by (simp add: subset_insertI)
next
  case (Inr k8s_arch)
  let ?name = "resource_name i"
  define archs1 where "archs1 = AList.update i arch archs"
  obtain r1 c1 where s1: "ka_create_secret api (build_secret ?name (kc_namespace cfg) i config) c = (r1, c1)" by fastforce
  obtain r2 c2 where s2: "ka_create_pod api (build_pod cfg ?name k8s_arch) c1 = (r2, c2)" by fastforce
  obtain r2' c2' where s2': "delete_secret api cfg ?name c2 = (r2', c2')" by fastforce
  obtain r3 c3 where s3: "kube_wait_for_builder api cfg n ?name c2 = (r3, c3)" by fastforce
  obtain r4 c4 where s4: "delete_pod api cfg ?name c3 = (r4, c4)" by fastforce
  obtain r5 c5 where s5: "delete_secret api cfg ?name c4 = (r5, c5)" by fastforce
  note run = create [unfolded kube_create_def Inr sum.case Let_def set_arch_def modify_def andThen_def [of "modify f" for f]]
  note secret = made_secret [OF laws s1] and made = made_pod [OF laws s2] and undone = deleted_secret [OF laws s2']
    and looked = waited [OF laws s3] and gone = deleted_pod [OF laws s4] deleted_secret [OF laws s5]
  show ?thesis
  proof (cases r1)
    case (Inl e)
    then show ?thesis using run secret by (auto simp: andThen_def modify_def wrap_def cluster_def s1)
  next
    case (Inr u1)
    show ?thesis
    proof (cases r2)
      case (Inl e)
      have "res = Inl (Wrapped (''creating pod for builder '' @ i) e)" "c' = c2'"
        using run \<open>r1 = Inr u1\<close> by (simp_all add: andThen_def modify_def wrap_def cluster_def s1 s2 s2' Inl on_failure_def)
      then show ?thesis using secret(1,3) made(1,2) undone \<open>r1 = Inr u1\<close> Inl by auto
    next
      case (Inr u2)
      show ?thesis
      proof (cases r3)
        case (Inl e)
        have "res = Inl (Wrapped (''waiting for builder '' @ i) e)" "c' = c5"
          using run \<open>r1 = Inr u1\<close> \<open>r2 = Inr u2\<close>
          by (simp_all add: andThen_def modify_def wrap_def cluster_def s1 s2 s3 s4 s5 Inl on_failure_def ignore_def forget_arch_def)
        then show ?thesis using secret(1,3) made(1,3) looked gone \<open>r1 = Inr u1\<close> \<open>r2 = Inr u2\<close> by auto
      next
        case (Inr ip)
        have "res = Inr ip" "c' = c3"
          using run \<open>r1 = Inr u1\<close> \<open>r2 = Inr u2\<close>
          by (simp_all add: andThen_def modify_def wrap_def cluster_def s1 s2 s3 Inr on_failure_def)
        moreover have "ip \<noteq> ''''" using address_of_builder [of api cfg n ?name c2 ip] by (simp add: s3 Inr)
        ultimately show ?thesis using secret(1,3) made(1,3) looked \<open>r1 = Inr u1\<close> \<open>r2 = Inr u2\<close> by auto
      qed
    qed
  qed
qed

lemma kube_destroy_objects:
  assumes laws: "cluster_laws api pods secrets" and destroy: "kube_destroy api cfg j (d, archs) = (Inr (), (d', archs'))"
  shows "pods d' = pods d - {(kc_namespace cfg, resource_name j)}" and "secrets d' = secrets d - {(kc_namespace cfg, resource_name j)}"
proof -
  obtain r1 d1 where s1: "delete_pod api cfg (resource_name j) d = (r1, d1)" by fastforce
  obtain r2 d2 where s2: "delete_secret api cfg (resource_name j) d1 = (r2, d2)" by fastforce
  have "r1 = Inr ()" "r2 = Inr ()" "d' = d2"
    using destroy
    by (auto simp: kube_destroy_def Let_def andThen_def forget_arch_def modify_def cluster_def s1 s2 split: sum.splits if_splits)
  then show "pods d' = pods d - {(kc_namespace cfg, resource_name j)}" "secrets d' = secrets d - {(kc_namespace cfg, resource_name j)}"
    using deleted_pod [OF laws s1] deleted_secret [OF laws s2] by auto
qed

lemma kube_destroy_pods:
  assumes laws: "cluster_laws api pods secrets" and destroy: "kube_destroy api cfg j (d, archs) = (res, (d', archs'))"
  shows "pods d' \<subseteq> pods d" and "pods d - {(kc_namespace cfg, resource_name j)} \<subseteq> pods d'"
    and "deletions_reach api \<Longrightarrow> pods d' = pods d - {(kc_namespace cfg, resource_name j)}"
proof -
  obtain r1 d1 where s1: "delete_pod api cfg (resource_name j) d = (r1, d1)" by fastforce
  obtain r2 d2 where s2: "delete_secret api cfg (resource_name j) d1 = (r2, d2)" by fastforce
  have "d' = d2"
    using destroy by (auto simp: kube_destroy_def Let_def andThen_def forget_arch_def modify_def cluster_def s1 s2)
  then show "pods d' \<subseteq> pods d" "pods d - {(kc_namespace cfg, resource_name j)} \<subseteq> pods d'"
    "deletions_reach api \<Longrightarrow> pods d' = pods d - {(kc_namespace cfg, resource_name j)}"
    using deleted_pod [OF laws s1] deleted_secret(1) [OF laws s2] by auto
qed


text \<open>A cluster that keeps its objects in two lists, for the concrete runs.\<close>

type_synonym two_lists = "(string \<times> string) list \<times> (string \<times> string) list"

definition listing_api :: "two_lists kube_api" where
  "listing_api = \<lparr>
     ka_create_secret = (\<lambda>s (ps, ss). let k = (sc_namespace s, sc_name s) in
       if k \<in> set ss then (Inl (Failed ''already exists''), (ps, ss)) else (Inr (), (ps, k # ss))),
     ka_create_pod = (\<lambda>p (ps, ss). let k = (po_namespace p, po_name p) in
       if k \<in> set ps then (Inl (Failed ''already exists''), (ps, ss)) else (Inr (), (k # ps, ss))),
     ka_delete_secret = (\<lambda>k (ps, ss). if k \<in> set ss then (Inr (), (ps, removeAll k ss)) else (Inl EndOfFile, (ps, ss))),
     ka_delete_pod = (\<lambda>k (ps, ss). if k \<in> set ps then (Inr (), (removeAll k ps, ss)) else (Inl EndOfFile, (ps, ss))),
     ka_get_pod = (\<lambda>k (ps, ss). (if k \<in> set ps then Inr (PodRunning, ''10.0.0.7'') else Inl EndOfFile, (ps, ss))),
     ka_dial = (\<lambda>a (ps, ss). (Inr (), (ps, ss))),
     ka_not_found = (\<lambda>e. e = EndOfFile)\<rparr>"

lemma listing_laws: "cluster_laws listing_api (\<lambda>c. set (fst c)) (\<lambda>c. set (snd c))"
  unfolding cluster_laws_def
  by (intro conjI; auto simp: listing_api_def adds_def removes_def only_looks_def Let_def)

abbreviation demo_kube :: kube_config where
  "demo_kube \<equiv> \<lparr>kc_namespace = ''ns'', kc_builder_image = ''img'', kc_cpu_request = ''2'', kc_memory_request = ''4Gi'',
     kc_cpu_limit = ''4'', kc_memory_limit = ''8Gi'', kc_image_pull_secret = ''''\<rparr>"

abbreviation demo_provider :: provisioner_config where
  "demo_provider \<equiv> \<lparr>pv_store_host = ''store'', pv_store_port = 22, pv_store_user = ''nix'', pv_store_host_key = ''hk'',
     pv_proxy_public_key = ''pk'', pv_store_private_key = ''sk''\<rparr>"


section \<open>Servers at Hetzner\<close>

text \<open>
  The world of that provider: the directories and files, the \<open>tofu\<close> command with its arguments and
  environment, the network, the probe of a new server over SSH, and how \<open>%q\<close> writes the runes that are
  not ASCII.
\<close>

datatype probe = NotReached | NoSessionYet | Printed string

record 'c tofu_world =
  tw_make_state_dir :: "('c, unit) io"
  tw_tofu :: "string list \<Rightarrow> string list \<Rightarrow> 'c \<Rightarrow> (io_error option \<times> string) \<times> 'c"
  tw_output :: "string list \<Rightarrow> ('c, string) io"
  tw_log :: "string \<Rightarrow> 'c \<Rightarrow> string"
  tw_remove :: "string \<Rightarrow> 'c \<Rightarrow> 'c"
  tw_environ :: "string list"
  tw_read_key :: "('c, string) io"
  tw_parse_key :: "string \<Rightarrow> io_error option"
  tw_dial :: "string \<Rightarrow> ('c, unit) io"
  tw_probe :: "string \<Rightarrow> 'c \<Rightarrow> probe \<times> 'c"
  tw_runes :: "string \<Rightarrow> string"

record hetzner_config =
  hc_server_types :: "(string \<times> string) list"
  hc_location :: string

text \<open>The fields of \<open>Provisioner\<close> that change, and its world.\<close>

record 'c hetzner =
  hz_config :: "provisioner_config option"
  hz_archs :: "(string \<times> string) list"
  hz_world :: 'c

definition state_file :: "string \<Rightarrow> string" where
  "state_file i = ''state/'' @ i @ ''.tfstate''"

text \<open>The variables that both commands are given.\<close>

definition tofu_vars :: "string \<Rightarrow> string \<Rightarrow> provisioner_config \<Rightarrow> string list" where
  "tofu_vars i server_type config =
     [''-var=builder_name=nix-builder-'' @ i, ''-var=server_type='' @ server_type,
      ''-var=store_host='' @ pv_store_host config, ''-var=store_host_ssh_port='' @ signed_decimal (pv_store_port config),
      ''-var=store_host_user='' @ pv_store_user config, ''-var=store_host_public_key='' @ pv_store_host_key config,
      ''-var=proxy_public_key='' @ trim_space (pv_proxy_public_key config),
      ''-var=builder_store_private_key='' @ pv_store_private_key config]"

definition apply_args :: "hetzner_config \<Rightarrow> string \<Rightarrow> string \<Rightarrow> provisioner_config \<Rightarrow> string list" where
  "apply_args cfg i server_type config = [''apply'', ''-auto-approve''] @ tofu_vars i server_type config @
     (if hc_location cfg \<noteq> '''' then [''-var=location='' @ hc_location cfg] else []) @ [''-state'', state_file i]"

definition destroy_args :: "string \<Rightarrow> string \<Rightarrow> provisioner_config \<Rightarrow> string list" where
  "destroy_args i server_type config =
     [''destroy'', ''-auto-approve''] @ tofu_vars i server_type config @ [''-state'', state_file i]"

definition without_tmpdir :: "string list \<Rightarrow> string list" where
  "without_tmpdir env = filter (\<lambda>e. \<not> prefix ''TMPDIR='' e) env"

text \<open>\<open>strings.Split\<close> by one character, \<open>strings.ToLower\<close> on ASCII, and \<open>strings.Contains\<close>.\<close>

fun split_on :: "char \<Rightarrow> string \<Rightarrow> string list" where
  "split_on c [] = [[]]"
| "split_on c (x # xs) = (if x = c then [] # split_on c xs
     else (case split_on c xs of [] \<Rightarrow> [[x]] | w # ws \<Rightarrow> (x # w) # ws))"

definition lower :: "char \<Rightarrow> char" where
  "lower c = (if CHR ''A'' \<le> c \<and> c \<le> CHR ''Z'' then char_of (of_char c + 32 :: nat) else c)"

definition contains :: "string \<Rightarrow> string \<Rightarrow> bool" where
  "contains sub s = (\<exists>t \<in> set (suffixes s). prefix sub t)"

definition extract_plugin_lines :: "string \<Rightarrow> string" where
  "extract_plugin_lines log =
     (let ls = filter (\<lambda>l. let low = map lower l in contains ''plugin'' low \<or> contains ''provider'' low \<or> contains ''cookie'' low)
           (split_on (CHR 10) log)
      in join [CHR 10] (drop (length ls - 100) ls))"

text \<open>
  The two loops of \<open>waitForBuilder\<close>, with \<open>n\<close> checks of the context and \<open>k\<close> attempts left. The first one
  ends without an error when the port never opens; it returns the checks that are left.
\<close>

fun wait_for_port :: "'c tofu_world \<Rightarrow> nat \<Rightarrow> nat \<Rightarrow> string \<Rightarrow> ('c, nat) io" where
  "wait_for_port w n 0 ip = succeed n"
| "wait_for_port w 0 (Suc k) ip = throw context_done"
| "wait_for_port w (Suc n) (Suc k) ip = (\<lambda>c. case tw_dial w (ip @ '':22'') c of
       (Inr _, c') \<Rightarrow> (Inr n, c')
     | (Inl _, c') \<Rightarrow> wait_for_port w n k ip c')"

fun wait_for_cloud_init :: "'c tofu_world \<Rightarrow> nat \<Rightarrow> nat \<Rightarrow> string \<Rightarrow> ('c, unit) io" where
  "wait_for_cloud_init w n 0 ip = throw (Failed ''builder timed out on cloud-init'')"
| "wait_for_cloud_init w 0 (Suc k) ip = throw context_done"
| "wait_for_cloud_init w (Suc n) (Suc k) ip = (\<lambda>c. case tw_probe w (ip @ '':22'') c of
       (Printed out, c') \<Rightarrow> if trim_space out = ''ready'' then (Inr (), c') else wait_for_cloud_init w n k ip c'
     | (_, c') \<Rightarrow> wait_for_cloud_init w n k ip c')"

definition hetzner_wait_for_builder :: "'c tofu_world \<Rightarrow> nat \<Rightarrow> string \<Rightarrow> ('c, unit) io" where
  "hetzner_wait_for_builder w n ip =
     andThen (wait_for_port w n 30 ip) (\<lambda>n.
     andThen (wrap ''reading proxy private key'' (tw_read_key w)) (\<lambda>key.
     case tw_parse_key w key of
       Some e \<Rightarrow> throw (Wrapped ''parsing proxy private key'' e)
     | None \<Rightarrow> wait_for_cloud_init w n 60 ip))"

definition log_path :: "string \<Rightarrow> string" where
  "log_path i = ''/tmp/tofu-apply-'' @ i @ ''.log''"

definition tofu_apply :: "'c tofu_world \<Rightarrow> hetzner_config \<Rightarrow> string \<Rightarrow> string \<Rightarrow> provisioner_config \<Rightarrow> ('c, unit) io" where
  "tofu_apply w cfg i server_type config c =
     (case tw_tofu w (apply_args cfg i server_type config)
         (without_tmpdir (tw_environ w) @ [''TMPDIR=/tmp'', ''TF_LOG=TRACE'', ''TF_LOG_PATH='' @ log_path i]) c of
       ((Some e, out), c') \<Rightarrow> (Inl (Failed (''tofu apply failed: '' @ err_text e @ [CHR 10] @ ''Output: '' @ out @ [CHR 10] @
         ''Plugin trace:'' @ [CHR 10] @ extract_plugin_lines (tw_log w (log_path i) c'))), c')
     | ((None, out), c') \<Rightarrow> (Inr (), tw_remove w (log_path i) c'))"

definition world_of :: "('c, 'a) io \<Rightarrow> ('c hetzner, 'a) io" where
  "world_of m h = (case m (hz_world h) of (res, c) \<Rightarrow> (res, h\<lparr>hz_world := c\<rparr>))"

definition hetzner_create ::
  "'c tofu_world \<Rightarrow> hetzner_config \<Rightarrow> nat \<Rightarrow> string \<Rightarrow> provisioner_config \<Rightarrow> string \<Rightarrow> ('c hetzner, string) io" where
  "hetzner_create w cfg n i config arch = (case map_of (hc_server_types cfg) arch of
       None \<Rightarrow> throw (Failed (''no Hetzner server type configured for arch '' @ go_quote (tw_runes w) arch))
     | Some server_type \<Rightarrow>
         andThen (modify (\<lambda>h. h\<lparr>hz_config := Some config, hz_archs := AList.update i arch (hz_archs h)\<rparr>)) (\<lambda>_.
         world_of (andThen (wrap ''creating state directory'' (tw_make_state_dir w)) (\<lambda>_.
           andThen (tofu_apply w cfg i server_type config) (\<lambda>_.
           andThen (wrap ''failed to get IP''
             (tw_output w [''output'', ''-raw'', ''-state'', state_file i, ''ipv4_address''])) (\<lambda>out.
           let ip = trim_space out in
           andThen (hetzner_wait_for_builder w n ip) (\<lambda>_. succeed ip)))))))"

definition tofu_destroy :: "'c tofu_world \<Rightarrow> string \<Rightarrow> string \<Rightarrow> provisioner_config \<Rightarrow> ('c, unit) io" where
  "tofu_destroy w i server_type config c =
     (case tw_tofu w (destroy_args i server_type config) (without_tmpdir (tw_environ w) @ [''TMPDIR=/tmp'']) c of
       ((Some e, out), c') \<Rightarrow> (Inl (Wrapped (''tofu destroy failed for builder '' @ i) e), c')
     | ((None, out), c') \<Rightarrow> (Inr (), tw_remove w (state_file i) c'))"

definition hetzner_destroy :: "'c tofu_world \<Rightarrow> hetzner_config \<Rightarrow> string \<Rightarrow> ('c hetzner, unit) io" where
  "hetzner_destroy w cfg i h =
     (let arch = (case map_of (hz_archs h) i of None \<Rightarrow> '''' | Some a \<Rightarrow> a);
          h' = h\<lparr>hz_archs := AList.delete i (hz_archs h)\<rparr>
      in (case hz_config h of
           None \<Rightarrow> (Inl (Failed (''no config/arch recorded for builder '' @ i @ '', cannot destroy'')), h')
         | Some config \<Rightarrow>
             if arch = '''' then (Inl (Failed (''no config/arch recorded for builder '' @ i @ '', cannot destroy'')), h')
             else (case map_of (hc_server_types cfg) arch of
                 None \<Rightarrow> (Inl (Failed (''no server type for arch '' @ go_quote (tw_runes w) arch)), h')
               | Some server_type \<Rightarrow> world_of (tofu_destroy w i server_type config) h')))"

lemma world_of_fields: "world_of m h = (res, h') \<Longrightarrow> hz_config h' = hz_config h \<and> hz_archs h' = hz_archs h"
  by (auto simp: world_of_def split: prod.splits)

text \<open>
  C29: a server is destroyed at most once. The first \<open>Destroy\<close> of a builder after its \<open>Create\<close> - whatever
  came of that - runs exactly one command, with the server type and the configuration of the creation
  and the state file of that builder; from then on, and also when the command has failed,
  \<open>Destroy\<close> of that builder only returns an error and runs nothing: a server whose destruction failed
  once is never destroyed.
\<close>

theorem hetzner_destroy_once:
  assumes "map_of (hc_server_types cfg) arch = Some server_type" and "arch \<noteq> ''''"
    and "hetzner_create w cfg n i config arch h = (res, h1)" and "hetzner_destroy w cfg i h1 = (ended, h2)"
  shows "(ended, hz_world h2) = tofu_destroy w i server_type config (hz_world h1) \<and>
    hetzner_destroy w cfg i h2 = (Inl (Failed (''no config/arch recorded for builder '' @ i @ '', cannot destroy'')), h2) \<and>
    (\<forall>j. j \<noteq> i \<longrightarrow> map_of (hz_archs h2) j = map_of (hz_archs h) j)"
proof -
  have known: "hz_config h1 = Some config" "hz_archs h1 = AList.update i arch (hz_archs h)"
    using assms(1,3) by (auto simp: hetzner_create_def andThen_def [of "modify f" for f] modify_def dest: world_of_fields)
  then have h2: "(ended, h2) = world_of (tofu_destroy w i server_type config) (h1\<lparr>hz_archs := AList.delete i (hz_archs h1)\<rparr>)"
    using assms(1,2,4) by (simp add: hetzner_destroy_def update_conv')
  then have "(ended, hz_world h2) = tofu_destroy w i server_type config (hz_world h1)"
    and archs: "hz_archs h2 = AList.delete i (AList.update i arch (hz_archs h))"
    by (auto simp: world_of_def known split: prod.splits)
  moreover have "map_of (hz_archs h2) i = None" by (simp add: archs delete_conv')
  moreover have "AList.delete i (hz_archs h2) = hz_archs h2" by (simp add: archs delete_idem)
  ultimately show ?thesis
    by (simp add: hetzner_destroy_def Let_def archs delete_conv' update_conv' split: option.split)
qed

text \<open>A world that keeps the first argument of every command, where a destruction fails.\<close>

definition logging_world :: "string list tofu_world" where
  "logging_world = \<lparr>tw_make_state_dir = (\<lambda>c. (Inr (), c)),
     tw_tofu = (\<lambda>args env c. ((if hd args = ''destroy'' then Some EndOfFile else None, ''''), c @ [hd args])),
     tw_output = (\<lambda>args c. (Inr ''10.0.0.9'', c)), tw_log = (\<lambda>p c. ''''), tw_remove = (\<lambda>p c. c), tw_environ = [],
     tw_read_key = (\<lambda>c. (Inr '''', c)), tw_parse_key = (\<lambda>k. None), tw_dial = (\<lambda>a c. (Inr (), c)),
     tw_probe = (\<lambda>a c. (NotReached, c)), tw_runes = id\<rparr>"

text \<open>The server is made, its \<open>Create\<close> fails, its destruction fails, and then nothing is run any more.\<close>

lemma hetzner_destroy_once_witness:
  "\<exists>res h1 ended h2. hetzner_create logging_world \<lparr>hc_server_types = [(''x86_64'', ''cx33'')], hc_location = ''''\<rparr> 9 ''b1''
       demo_provider ''x86_64'' \<lparr>hz_config = None, hz_archs = [], hz_world = []\<rparr> = (res, h1) \<and> hz_world h1 = [''apply''] \<and>
     res = Inl context_done \<and>
     hetzner_destroy logging_world \<lparr>hc_server_types = [(''x86_64'', ''cx33'')], hc_location = ''''\<rparr> ''b1'' h1 = (ended, h2) \<and>
     ended = Inl (Wrapped ''tofu destroy failed for builder b1'' EndOfFile) \<and>
     snd (hetzner_destroy logging_world \<lparr>hc_server_types = [(''x86_64'', ''cx33'')], hc_location = ''''\<rparr> ''b1'' h2) = h2"
proof -
  let ?cfg = "\<lparr>hc_server_types = [(''x86_64'', ''cx33'')], hc_location = ''''\<rparr>"
  let ?h = "\<lparr>hz_config = None, hz_archs = [], hz_world = []\<rparr> :: string list hetzner"
  let ?h1 = "\<lparr>hz_config = Some demo_provider, hz_archs = [(''b1'', ''x86_64'')], hz_world = [''apply'']\<rparr> :: string list hetzner"
  have create: "hetzner_create logging_world ?cfg 9 ''b1'' demo_provider ''x86_64'' ?h = (Inl context_done, ?h1)"
    by code_simp
  obtain ended h2 where destroy: "hetzner_destroy logging_world ?cfg ''b1'' ?h1 = (ended, h2)"
    by (metis prod.collapse)
  have "map_of (hc_server_types ?cfg) ''x86_64'' = Some ''cx33''" by simp
  moreover have "fst (tofu_destroy logging_world ''b1'' ''cx33'' demo_provider [''apply'']) =
      Inl (Wrapped ''tofu destroy failed for builder b1'' EndOfFile)"
    by (simp add: tofu_destroy_def logging_world_def destroy_args_def)
  ultimately have "ended = Inl (Wrapped ''tofu destroy failed for builder b1'' EndOfFile)"
    and "snd (hetzner_destroy logging_world ?cfg ''b1'' h2) = h2"
    using hetzner_destroy_once [OF _ _ create destroy] by (auto dest: arg_cong [of _ _ fst])
  then show ?thesis
    using create destroy by (intro exI [of _ "Inl context_done"] exI [of _ ?h1] exI [of _ ended] exI [of _ h2]) simp
qed

end
