(* ===== verification/Fleet.thy ===== *)
theory Fleet
  imports Pool_Leases Provisioners
begin

text \<open>
  The pool together with its provider (\<open>pool.go\<close> calls \<open>Create\<close> and \<open>Destroy\<close> of
  \<open>provisioner/kubernetes\<close> or \<open>provisioner/hetzner-ubuntu\<close>): which machines are running. In \<open>Pool\<close> the
  results of the provider are part of the events; here they are those of the provider's own code. A
  call of the provider takes effect in one step, in any order with the steps of the pool: \<open>Create\<close> when
  its goroutine goes on, \<open>Destroy\<close> at any time after the section that decided on it.
\<close>

section \<open>The composed system\<close>

text \<open>
  \<open>fl_calls\<close> are the builders whose \<open>Destroy\<close> is still to run, in goroutines of \<open>scheduleDestruction\<close>, of
  the clean-up and of \<open>DestroyAll\<close>; \<open>fl_failed\<close> and \<open>fl_undestroyed\<close> are those whose \<open>Create\<close> and whose
  \<open>Destroy\<close> returned an error.
\<close>

record 's fleet =
  fl_pool :: pool
  fl_provider :: 's
  fl_calls :: "string list"
  fl_failed :: "string list"
  fl_undestroyed :: "string list"

text \<open>
  A step of the pool that is not the return of a \<open>Create\<close>; the return of the \<open>Create\<close> of worker \<open>i\<close>, whose
  context is checked \<open>n\<close> times before its deadline; the \<open>j\<close>-th call of \<open>Destroy\<close>.
\<close>

datatype fleet_event = Section event | CreateReturns nat nat | DestroyReturns nat

fun creation_result :: "event \<Rightarrow> bool" where
  "creation_result (Fail i) = True"
| "creation_result (Publish i ip) = True"
| "creation_result _ = False"

definition advance :: "'s fleet \<Rightarrow> pool \<Rightarrow> 's fleet" where
  "advance f p = f\<lparr>fl_pool := p, fl_calls := fl_calls f @ drop (length (p_destroyed (fl_pool f))) (p_destroyed p)\<rparr>"

text \<open>The goroutine of \<open>provisionBackground\<close> when its \<open>Create\<close> returns.\<close>

definition create_returned :: "pool_config \<Rightarrow> nat \<Rightarrow> string \<Rightarrow> (io_error + string) \<times> 's \<Rightarrow> 's fleet \<Rightarrow> 's fleet option" where
  "create_returned cfg i x result f = (case result of
       (Inl e, s) \<Rightarrow> map_option (\<lambda>p. (advance f p)\<lparr>fl_provider := s, fl_failed := x # fl_failed f\<rparr>) (step cfg (Fail i) (fl_pool f))
     | (Inr ip, s) \<Rightarrow> map_option (\<lambda>p. (advance f p)\<lparr>fl_provider := s\<rparr>) (step cfg (Publish i ip) (fl_pool f)))"

text \<open>A goroutine that calls \<open>Destroy\<close>: an error is logged or ignored.\<close>

definition destroy_returned :: "nat \<Rightarrow> (io_error + unit) \<times> 's \<Rightarrow> 's fleet \<Rightarrow> 's fleet" where
  "destroy_returned j result f = (case result of (res, s) \<Rightarrow>
     f\<lparr>fl_provider := s, fl_calls := take j (fl_calls f) @ drop (Suc j) (fl_calls f),
       fl_undestroyed := (case res of Inl e \<Rightarrow> fl_calls f ! j # fl_undestroyed f | Inr _ \<Rightarrow> fl_undestroyed f)\<rparr>)"

fun fleet_step ::
  "(nat \<Rightarrow> string \<Rightarrow> string \<Rightarrow> ('s, string) io) \<Rightarrow> (string \<Rightarrow> ('s, unit) io) \<Rightarrow> pool_config \<Rightarrow> fleet_event \<Rightarrow>
     's fleet \<Rightarrow> 's fleet option" where
  "fleet_step create destroy cfg (Section e) f =
     (if creation_result e then None else map_option (advance f) (step cfg e (fl_pool f)))"
| "fleet_step create destroy cfg (CreateReturns i n) f =
     (if i < length (p_workers (fl_pool f))
      then (case p_workers (fl_pool f) ! i of
          Creating a x \<Rightarrow> create_returned cfg i x (create n x a (fl_provider f)) f
        | _ \<Rightarrow> None) else None)"
| "fleet_step create destroy cfg (DestroyReturns j) f =
     (if j < length (fl_calls f) then Some (destroy_returned j (destroy (fl_calls f ! j) (fl_provider f)) f) else None)"

definition new_fleet :: "time \<Rightarrow> 's \<Rightarrow> 's fleet" where
  "new_fleet now s = \<lparr>fl_pool = new_pool now, fl_provider = s, fl_calls = [], fl_failed = [], fl_undestroyed = []\<rparr>"

text \<open>Identifiers are drawn anew, also with respect to the builders that were never made.\<close>

fun fleet_fresh :: "fleet_event \<Rightarrow> 's fleet \<Rightarrow> bool" where
  "fleet_fresh (Section (Draw i x)) f \<longleftrightarrow> x \<notin> ids_in_use (fl_pool f) \<union> set (fl_failed f)"
| "fleet_fresh _ f \<longleftrightarrow> True"

inductive fleet_run ::
  "(nat \<Rightarrow> string \<Rightarrow> string \<Rightarrow> ('s, string) io) \<Rightarrow> (string \<Rightarrow> ('s, unit) io) \<Rightarrow> pool_config \<Rightarrow> 's fleet \<Rightarrow>
     fleet_event list \<Rightarrow> 's fleet \<Rightarrow> bool" for create destroy cfg f0 where
  fleet_start: "fleet_run create destroy cfg f0 [] f0"
| fleet_next: "fleet_run create destroy cfg f0 es f \<Longrightarrow> fleet_step create destroy cfg e f = Some f' \<Longrightarrow>
    fleet_fresh e f \<Longrightarrow> fleet_run create destroy cfg f0 (es @ [e]) f'"

text \<open>The same as a function, for concrete runs.\<close>

fun fleet_exec ::
  "(nat \<Rightarrow> string \<Rightarrow> string \<Rightarrow> ('s, string) io) \<Rightarrow> (string \<Rightarrow> ('s, unit) io) \<Rightarrow> pool_config \<Rightarrow> fleet_event list \<Rightarrow>
     's fleet \<Rightarrow> 's fleet option" where
  "fleet_exec create destroy cfg [] f = Some f"
| "fleet_exec create destroy cfg (e # es) f =
     (if fleet_fresh e f then (case fleet_step create destroy cfg e f of
          None \<Rightarrow> None | Some f' \<Rightarrow> fleet_exec create destroy cfg es f') else None)"

lemma fleet_exec_run:
  "fleet_run create destroy cfg f0 es f \<Longrightarrow> fleet_exec create destroy cfg es' f = Some f' \<Longrightarrow>
     fleet_run create destroy cfg f0 (es @ es') f'"
proof (induction es' arbitrary: es f)
  case (Cons e es')
  then obtain g where g: "fleet_fresh e f" "fleet_step create destroy cfg e f = Some g" "fleet_exec create destroy cfg es' g = Some f'"
    by (auto split: if_splits option.splits)
  from Cons.IH [OF fleet_next [OF Cons.prems(1) g(2,1)] g(3)] show ?case by simp
qed simp

section \<open>What a step of the pool does to the builders it knows\<close>

definition tracked :: "pool \<Rightarrow> string set" where
  "tracked p = set (map fst (p_builders p))"

text \<open>
  From \<open>p\<close> to \<open>q\<close> the builders \<open>ds\<close> are handed to \<open>Destroy\<close>, and those are the ones that are no longer in
  the pool's map.
\<close>

definition drops :: "pool \<Rightarrow> pool \<Rightarrow> string list \<Rightarrow> bool" where
  "drops p q ds \<longleftrightarrow> p_destroyed q = p_destroyed p @ ds \<and> tracked q = tracked p - set ds \<and> names q = names p \<and>
     set ds \<subseteq> set (names p)"

lemma drops_none:
  "p_destroyed q = p_destroyed p \<Longrightarrow> p_builders q = p_builders p \<Longrightarrow> names q = names p \<Longrightarrow> drops p q []"
  by (simp add: drops_def tracked_def)

lemma drops_trans: "drops p q ds \<Longrightarrow> drops q r es \<Longrightarrow> drops p r (ds @ es)"
  by (auto simp: drops_def)

lemma tracked_delete: "set (map fst (AList.delete x al)) = set (map fst al) - {x}"
  by (simp add: delete_keys)

lemma drops_retire:
  assumes "k < length (p_heap p)" shows "drops p (retire_builder k p) [bl_id (p_heap p ! k)]"
proof -
  have "names (retire_builder k p) = names p"
    using names_on_builder [of "\<lambda>b. b\<lparr>bl_status := Destroying\<rparr>" k p] by (simp add: names_def pool_simps)
  then show ?thesis
    using assms by (simp add: drops_def pool_simps tracked_def tracked_delete delete_keys names_def)
qed

lemma drops_cleanup: "custody p \<Longrightarrow> \<exists>ds. drops p (cleanup_old_builders cfg p) ds"
proof -
  assume p: "custody p"
  have pool: "\<exists>ds. drops p (set_pooled a l q) ds" if "\<exists>ds. drops p q ds" for q a l
  proof -
    have "drops q (set_pooled a l q) []" by (rule drops_none) (simp_all add: pool_simps names_def)
    with that show ?thesis by (blast dest: drops_trans)
  qed
  have retire: "\<exists>ds. drops p (retire_builder k q) ds" if "\<exists>ds. drops p q ds" "loose q k" for q k
    using that drops_retire [of k q] looseD(1) [of q k] by (blast dest: drops_trans)
  have "\<exists>ds. drops p p ds" using drops_none [of p p] by blast
  from cleanup_keeps [of "\<lambda>q. \<exists>ds. drops p q ds" p cfg, OF this p] pool retire show ?thesis by blast
qed

text \<open>The sections that leave the pool's map alone.\<close>

definition known :: "pool \<Rightarrow> (string \<times> nat) list \<times> string list \<times> string list" where
  "known p = (p_builders p, p_destroyed p, names p)"

lemma drops_known: "known q = known p \<Longrightarrow> drops p q []"
  by (rule drops_none) (simp_all add: known_def)

lemma known_updates [pool_simps]:
  "known (on_request r g p) = known p" "known (set_pooled a l p) = known p" "known (set_worker i w p) = known p"
  "known (p\<lparr>p_active := u\<rparr>) = known p" "known (p\<lparr>p_users := v\<rparr>) = known p" "known (p\<lparr>p_waiters := t\<rparr>) = known p"
  "known (p\<lparr>p_requests := w'\<rparr>) = known p" "known (p\<lparr>p_reapers := s\<rparr>) = known p" "known (p\<lparr>p_signals := m\<rparr>) = known p"
  "known (p\<lparr>p_ticking := b\<rparr>) = known p" "known (p\<lparr>p_clock := c\<rparr>) = known p" "known (p\<lparr>p_provisioning := d\<rparr>) = known p"
  "known (p\<lparr>p_workers := ws\<rparr>) = known p"
  by (simp_all add: known_def names_def pool_simps)

lemma known_on_builder: "(\<And>b. bl_id (f b) = bl_id b) \<Longrightarrow> known (on_builder k f p) = known p"
  using names_on_builder [of f k p] by (simp add: known_def pool_simps)

lemma known_hand_off: "hand_off k a p = Some p' \<Longrightarrow> known p' = known p"
  by (elim hand_offE) (simp add: pool_simps)

lemma known_sections [pool_simps]:
  "known (assign_builder k d p) = known p" "known (acquire_builder d a p) = known p"
  "known (receive_builder r k p) = known p" "known (take_builder r k p) = known p" "known (withdraw_request r p) = known p"
  "known (signal_provisioning r p) = known p"
  "known (pool_or_destroy cfg k p) = known p" "known (release_builder cfg x p) = known p"
  "known (check_and_scale p) = known p" "known (end_provisioning a p) = known p"
proof -
  show assign: "known (assign_builder k d p) = known p" for k d p
    by (simp add: assign_builder_def Let_def pool_simps known_on_builder)
  show "known (acquire_builder d a p) = known p"
    by (simp add: acquire_builder_def assign pool_simps split: list.splits)
  show "known (receive_builder r k p) = known p" by (simp add: receive_builder_def pool_simps)
  show "known (take_builder r k p) = known p" by (simp add: take_builder_def assign pool_simps)
  show "known (withdraw_request r p) = known p" by (simp add: withdraw_request_def pool_simps)
  show "known (signal_provisioning r p) = known p" by (simp add: signal_provisioning_def pool_simps)
  show pool: "known (pool_or_destroy cfg k p) = known p" for k p
    by (simp add: pool_or_destroy_def Let_def pool_simps known_on_builder)
  show "known (release_builder cfg x p) = known p"
    by (auto simp: release_builder_def Let_def pool pool_simps known_on_builder dest!: known_hand_off split: option.splits)
  show "known (check_and_scale p) = known p" by (simp add: check_and_scale_def pool_simps)
  show "known (end_provisioning a p) = known p" by (simp add: end_provisioning_def pool_simps)
qed

lemma drops_finish: "tracked_ok p \<Longrightarrow> \<exists>ds. drops p (finish_destruction x p) ds"
proof (cases "map_of (p_builders p) x")
  case None
  then show ?thesis using drops_known [of p p] by (auto simp: finish_destruction_def)
next
  case (Some k)
  moreover assume "tracked_ok p"
  ultimately have "x \<in> set (names p)" by (force simp: tracked_ok_def names_def)
  then have "drops p (p\<lparr>p_builders := AList.delete x (p_builders p), p_destroyed := p_destroyed p @ [x]\<rparr>) [x]"
    by (simp add: drops_def tracked_def delete_keys names_def)
  then show ?thesis using Some drops_known [of p p] by (auto simp: finish_destruction_def)
qed

lemma drops_destroy_all: "tracked_ok p \<Longrightarrow> drops p (destroy_all p) (map fst (p_builders p))"
proof -
  assume p: "tracked_ok p"
  have "x \<in> set (names p)" if x: "x \<in> set (map fst (p_builders p))" for x
  proof -
    obtain k where "map_of (p_builders p) x = Some k" using x map_of_eq_None_iff [of "p_builders p" x] by fastforce
    then show ?thesis using p by (force simp: tracked_ok_def names_def)
  qed
  then show ?thesis by (auto simp: drops_def destroy_all_def tracked_def names_def)
qed

lemma tracked_names: "pool_ok p \<Longrightarrow> tracked p \<subseteq> set (names p)"
  using drops_destroy_all [OF pool_okD(4)] by (auto simp: drops_def tracked_def)

text \<open>A builder enters the map when it has been made, and leaves it only towards \<open>Destroy\<close>.\<close>

lemma step_drops:
  assumes p: "pool_ok p" and s: "step cfg e p = Some p'" and c: "\<not> creation_result e"
  shows "\<exists>ds. drops p p' ds"
proof (cases e)
  case Cleanup
  let ?q = "p\<lparr>p_ticking := False\<rparr>"
  have q: "custody ?q" using pool_okD(1) [OF p] custody_cong [of ?q p] by simp
  have "p' = cleanup_old_builders cfg ?q" using s Cleanup by (simp split: if_splits)
  then show ?thesis using drops_trans [OF drops_known [of ?q p] ] drops_cleanup [OF q, of cfg] by (auto simp: pool_simps)
next
  case (Reap j)
  define q where "q = p\<lparr>p_reapers := take j (p_reapers p) @ drop (Suc j) (p_reapers p)\<rparr>"
  have "fst ` set (p_reapers q) \<subseteq> fst ` set (p_reapers p)" by (auto simp: q_def dest: in_set_takeD in_set_dropD)
  moreover have "gone p (fst ` set (p_reapers p))" using pool_okD(4) [OF p] by (simp add: tracked_ok_def)
  ultimately have "gone q (fst ` set (p_reapers q))" using gone_mono gone_cong [of q p] by (auto simp: q_def)
  then have "tracked_ok q" using pool_okD(4) [OF p] by (simp add: tracked_ok_def q_def)
  moreover have "p' = finish_destruction (fst (p_reapers p ! j)) q" using s Reap by (simp add: q_def split: if_splits)
  moreover have "drops p q []" by (rule drops_known) (simp add: q_def pool_simps)
  ultimately show ?thesis using drops_finish drops_trans by blast
next
  case DestroyAll
  then show ?thesis using s drops_destroy_all [OF pool_okD(4) [OF p]] by auto
qed (use s c in \<open>auto simp: pool_simps intro!: exI [of _ "[]"] drops_known split: if_splits phase.splits worker.splits option.splits\<close>)

lemma publish_tracked:
  "tracked (publish_builder x ip a p) = insert x (tracked p)" "p_destroyed (publish_builder x ip a p) = p_destroyed p"
proof -
  have "hand_off k b q = Some q' \<Longrightarrow> p_builders q' = p_builders q \<and> p_destroyed q' = p_destroyed q" for k b q q'
    using known_hand_off [of k b q q'] by (simp add: known_def)
  then show "tracked (publish_builder x ip a p) = insert x (tracked p)" "p_destroyed (publish_builder x ip a p) = p_destroyed p"
    by (auto simp: publish_builder_def Let_def tracked_def pool_simps dom_update split: option.splits dest!: known_hand_off)
qed

section \<open>The machines behind the pool\<close>

text \<open>
  The books agree: the builders that the pool knows are machines; a machine is known to the pool, or its
  \<open>Destroy\<close> is to run, or a call of the provider for it has failed, or it was there before. \<open>mine\<close> are the
  machines of a state of the provider, \<open>before\<close> those that were there at the start.
\<close>

definition fleet_ok :: "('s \<Rightarrow> string set) \<Rightarrow> string set \<Rightarrow> 's fleet \<Rightarrow> bool" where
  "fleet_ok mine before f \<longleftrightarrow> pool_ok (fl_pool f) \<and>
     tracked (fl_pool f) \<subseteq> mine (fl_provider f) \<and>
     mine (fl_provider f) \<subseteq> before \<union> tracked (fl_pool f) \<union> set (fl_calls f) \<union> set (fl_failed f) \<union> set (fl_undestroyed f) \<and>
     set (fl_calls f) \<subseteq> set (names (fl_pool f)) \<and> set (fl_calls f) \<inter> tracked (fl_pool f) = {} \<and>
     set (fl_failed f) \<inter> ids_in_use (fl_pool f) = {}"

lemma fleet_okD:
  assumes "fleet_ok mine before f"
  shows "pool_ok (fl_pool f)" "tracked (fl_pool f) \<subseteq> mine (fl_provider f)"
    "mine (fl_provider f) \<subseteq> before \<union> tracked (fl_pool f) \<union> set (fl_calls f) \<union> set (fl_failed f) \<union> set (fl_undestroyed f)"
    "set (fl_calls f) \<subseteq> set (names (fl_pool f))" "set (fl_calls f) \<inter> tracked (fl_pool f) = {}"
    "set (fl_failed f) \<inter> ids_in_use (fl_pool f) = {}"
  using assms by (auto simp: fleet_ok_def)

lemma ids_by_workers: "ids_in_use p = set (names p) \<union> {x. \<exists>a. Creating a x \<in> set (p_workers p)}"
  by (simp add: ids_in_use_def names_def)

lemma step_ids:
  assumes p: "pool_ok p" and s: "step cfg e p = Some p'" and c: "\<not> creation_result e" and x: "x \<in> ids_in_use p'"
  shows "x \<in> ids_in_use p \<or> (\<exists>i. e = Draw i x)"
proof -
  have names: "names p' = names p" using step_drops [OF p s c] by (auto simp: drops_def)
  have same: "work p' = work p \<Longrightarrow> p_workers p' = p_workers p" by (simp add: work_def)
  have "Creating a x \<in> set (p_workers p) \<or> (\<exists>i. e = Draw i x)" if w: "Creating a x \<in> set (p_workers p')" for a
  proof (cases e)
    case Cleanup
    then show ?thesis using s w by (auto simp: cleanup_same split: if_splits)
  next
    case ScaleOnSignal
    then show ?thesis using s w by (auto simp: check_and_scale_def split: if_splits)
  next
    case ScaleOnTick
    then show ?thesis using s w by (auto simp: check_and_scale_def split: if_splits)
  next
    case (Draw i y)
    then show ?thesis using s w by (auto simp: pool_simps split: if_splits worker.splits dest!: set_update_subset_insert [THEN subsetD])
  next
    case (Finish i)
    then show ?thesis using s w by (auto simp: pool_simps end_provisioning_def split: if_splits worker.splits dest!: set_update_subset_insert [THEN subsetD])
  next
    case (Signal r)
    then show ?thesis using s w by (auto simp: pool_simps signal_provisioning_def split: if_splits)
  next
    case (Return k)
    then have "work p' = work p" using s by (auto simp: pool_simps split: if_splits) (simp add: work_def)
    then show ?thesis using w same by simp
  next
    case (Reap j)
    then have "work p' = work p" using s by (auto simp: pool_simps split: if_splits) (simp add: work_def)
    then show ?thesis using w same by simp
  next
    case (Take r)
    then have "work p' = work p" using s by (auto simp: pool_simps split: if_splits phase.splits)
    then show ?thesis using w same by simp
  qed (use s c w same in \<open>auto simp: pool_simps split: if_splits\<close>)
  then show ?thesis using x names by (auto simp: ids_by_workers)
qed

text \<open>What a return of \<open>Create\<close> does to the pool.\<close>

lemma create_fails:
  assumes p: "pool_ok p" and i: "i < length (p_workers p)" "p_workers p ! i = Creating a x"
  shows "\<exists>p'. step cfg (Fail i) p = Some p' \<and> drops p p' [] \<and> pool_ok p' \<and>
    ids_in_use p' = ids_in_use p - {x}"
proof -
  let ?p = "set_worker i (Finishing a) p"
  have s: "step cfg (Fail i) p = Some ?p" using i by simp
  have m: "mset (ids p) = mset (x # ids ?p)" using mset_ids_set_worker [OF i(1), of "Finishing a"] i(2) by simp
  have "distinct (ids p)" using pool_okD(3) [OF p] by (simp add: ids_ok_ids)
  then have "x \<notin> set (ids ?p)" "set (ids p) = insert x (set (ids ?p))"
    using mset_eq_imp_distinct_iff [OF m] mset_eq_setD [OF m] by simp_all
  then have "ids_in_use ?p = ids_in_use p - {x}" by (simp add: set_ids)
  moreover have "drops p ?p []" by (rule drops_known) (simp add: pool_simps)
  moreover have "pool_ok ?p" using pool_ok_step [OF p s] by simp
  ultimately show ?thesis using s by blast
qed

lemma create_succeeds:
  assumes p: "pool_ok p" and i: "i < length (p_workers p)" "p_workers p ! i = Creating a x"
  shows "\<exists>p'. step cfg (Publish i ip) p = Some p' \<and> pool_ok p' \<and> p_destroyed p' = p_destroyed p \<and>
    tracked p' = insert x (tracked p) \<and> names p' = names p @ [x] \<and> x \<notin> set (names p) \<and> ids_in_use p' = ids_in_use p"
proof -
  let ?q = "publish_builder x ip a p" and ?p = "set_worker i (Finishing a) (publish_builder x ip a p)"
  have s: "step cfg (Publish i ip) p = Some ?p" using i by simp
  have workers: "p_workers ?q = p_workers p" using work_sections(8) [of x ip a p] by (simp add: work_def)
  have "mset (ids ?p) + {#x#} = mset (ids ?q)"
    using mset_ids_set_worker [of i ?q "Finishing a"] i workers by simp
  moreover have "mset (ids ?q) = mset (ids p) + {#x#}" by (simp add: ids_def names_publish workers)
  ultimately have "mset (ids ?p) = mset (ids p)" by simp
  then have "set (ids ?p) = set (ids p)" by (rule mset_eq_setD)
  moreover have "x \<notin> set (names p)"
  proof -
    have "Creating a x \<in> set (p_workers p)" using i nth_mem by fastforce
    then have "x \<in> set (concat (map drawn (p_workers p)))" by force
    then show ?thesis using pool_okD(3) [OF p] by (auto simp: ids_ok_ids ids_def)
  qed
  moreover have "names ?p = names p @ [x]" using names_same [of ?p ?q] by (simp add: pool_simps names_publish)
  ultimately show ?thesis
    using s pool_ok_step [OF p s] publish_tracked [of x ip a p] by (simp add: set_ids pool_simps tracked_def)
qed

text \<open>
  The contract of a provider: a \<open>Create\<close> that succeeds makes the machine, one that fails leaves at most that
  machine behind, and \<open>Destroy\<close> touches only its machine, which is gone when it succeeds.
\<close>

locale machine_provider =
  fixes create :: "nat \<Rightarrow> string \<Rightarrow> string \<Rightarrow> ('s, string) io"
    and destroy :: "string \<Rightarrow> ('s, unit) io"
    and mine :: "'s \<Rightarrow> string set"
  assumes made: "create n x a s = (Inr ip, s') \<Longrightarrow> mine s' = insert x (mine s)"
    and not_made: "create n x a s = (Inl e, s') \<Longrightarrow> mine s \<subseteq> mine s' \<and> mine s' \<subseteq> insert x (mine s)"
    and unmade: "destroy x s = (res, s') \<Longrightarrow> mine s - {x} \<subseteq> mine s' \<and> mine s' \<subseteq> mine s"
    and unmade_ok: "destroy x s = (Inr (), s') \<Longrightarrow> x \<notin> mine s'"
begin

lemma section_keeps:
  assumes f: "fleet_ok mine before f" and s: "step cfg e (fl_pool f) = Some p'"
    and c: "\<not> creation_result e" and fresh: "fleet_fresh (Section e) f"
  shows "fleet_ok mine before (advance f p')"
proof -
  note ok = fleet_okD [OF f]
  obtain ds where ds: "drops (fl_pool f) p' ds" using step_drops [OF ok(1) s c] by blast
  have "drawn_anew e (fl_pool f)" using fresh by (cases e) auto
  then have "pool_ok p'" using pool_ok_step [OF ok(1) s] by blast
  moreover have "set (fl_failed f) \<inter> ids_in_use p' = {}"
  proof -
    have "x \<notin> set (fl_failed f)" if "x \<in> ids_in_use p'" for x
      using step_ids [OF ok(1) s c that] ok(6) fresh by auto
    then show ?thesis by blast
  qed
  ultimately show ?thesis using ok ds by (auto simp: fleet_ok_def advance_def drops_def)
qed

lemma creation_keeps:
  assumes f: "fleet_ok mine before f" and i: "i < length (p_workers (fl_pool f))" "p_workers (fl_pool f) ! i = Creating a x"
    and s: "create_returned cfg i x (create n x a (fl_provider f)) f = Some f'"
  shows "fleet_ok mine before f'"
proof -
  note ok = fleet_okD [OF f]
  have used: "x \<in> ids_in_use (fl_pool f)" using i nth_mem [OF i(1)] by (force simp: ids_in_use_def)
  obtain r s' where r: "create n x a (fl_provider f) = (r, s')" by fastforce
  show ?thesis
  proof (cases r)
    case (Inl e)
    obtain p' where p': "step cfg (Fail i) (fl_pool f) = Some p'" "drops (fl_pool f) p' []" "pool_ok p'"
      "ids_in_use p' = ids_in_use (fl_pool f) - {x}"
      using create_fails [OF ok(1) i, of cfg] by blast
    have "f' = (advance f p')\<lparr>fl_provider := s', fl_failed := x # fl_failed f\<rparr>"
      using s p'(1) by (simp add: create_returned_def r Inl)
    then show ?thesis
      using ok p'(2-4) not_made [OF r [unfolded Inl]] by (auto simp: fleet_ok_def advance_def drops_def)
  next
    case (Inr ip)
    obtain p' where p': "step cfg (Publish i ip) (fl_pool f) = Some p'" "pool_ok p'" "p_destroyed p' = p_destroyed (fl_pool f)"
      "tracked p' = insert x (tracked (fl_pool f))" "names p' = names (fl_pool f) @ [x]" "x \<notin> set (names (fl_pool f))"
      "ids_in_use p' = ids_in_use (fl_pool f)"
      using create_succeeds [OF ok(1) i, of cfg ip] by blast
    have "f' = (advance f p')\<lparr>fl_provider := s'\<rparr>"
      using s p'(1) by (simp add: create_returned_def r Inr)
    then show ?thesis
      using ok p'(2-7) made [OF r [unfolded Inr]] used by (auto simp: fleet_ok_def advance_def)
  qed
qed

lemma destruction_keeps:
  assumes f: "fleet_ok mine before f" and j: "j < length (fl_calls f)"
  shows "fleet_ok mine before (destroy_returned j (destroy (fl_calls f ! j) (fl_provider f)) f)"
proof -
  note ok = fleet_okD [OF f]
  let ?x = "fl_calls f ! j" and ?rest = "take j (fl_calls f) @ drop (Suc j) (fl_calls f)"
  obtain r s' where r: "destroy ?x (fl_provider f) = (r, s')" by fastforce
  have call: "set (fl_calls f) = insert ?x (set ?rest)" using id_take_nth_drop [OF j] by (metis Un_insert_right list.simps(15) set_append)
  note keeps = unmade [OF r]
  show ?thesis
  proof (cases r)
    case (Inl e)
    then show ?thesis using ok keeps call by (auto simp: fleet_ok_def destroy_returned_def r)
  next
    case (Inr u)
    then have "?x \<notin> mine s'" using unmade_ok r by simp
    then show ?thesis using ok keeps call by (auto simp: fleet_ok_def destroy_returned_def r Inr)
  qed
qed

lemma fleet_ok_step:
  assumes "fleet_ok mine before f" "fleet_step create destroy cfg e f = Some f'" "fleet_fresh e f"
  shows "fleet_ok mine before f'"
  using assms section_keeps creation_keeps destruction_keeps
  by (cases e) (auto split: if_splits worker.splits)

lemma fleet_ok_run:
  assumes "fleet_run create destroy cfg (new_fleet now s) es f" shows "fleet_ok mine (mine s) f"
  using assms
proof (induction rule: fleet_run.induct)
  case fleet_start
  show ?case
    using pool_ok_new [of now]
    by (simp add: fleet_ok_def new_fleet_def tracked_def) (simp add: new_pool_def ids_in_use_def)
qed (blast intro: fleet_ok_step)

text \<open>A machine that a failed \<open>Create\<close> left behind stays: its builder is not in the pool's books.\<close>

lemma left_behind_step:
  assumes f: "fleet_ok mine before f" and s: "fleet_step create destroy cfg e f = Some f'"
    and x: "x \<in> set (fl_failed f)" "x \<in> mine (fl_provider f)"
  shows "x \<in> set (fl_failed f') \<and> x \<in> mine (fl_provider f')"
proof (cases e)
  case (Section e')
  then show ?thesis using s x by (auto simp: advance_def split: if_splits)
next
  case (CreateReturns i n)
  then obtain a y where y: "create_returned cfg i y (create n y a (fl_provider f)) f = Some f'"
    using s by (auto split: if_splits worker.splits)
  obtain r s' where r: "create n y a (fl_provider f) = (r, s')" by fastforce
  then have "mine (fl_provider f) \<subseteq> mine s'" using made not_made by (cases r) blast+
  then show ?thesis using y x by (auto simp: create_returned_def r advance_def split: sum.splits)
next
  case (DestroyReturns j)
  then have j: "j < length (fl_calls f)" and f': "f' = destroy_returned j (destroy (fl_calls f ! j) (fl_provider f)) f"
    using s by (auto split: if_splits)
  have "fl_calls f ! j \<noteq> x"
    using fleet_okD(4,6) [OF f] nth_mem [OF j] x(1) by (auto simp: ids_by_workers)
  then show ?thesis
    using x unmade [of "fl_calls f ! j" "fl_provider f"] by (auto simp: f' destroy_returned_def split: prod.splits)
qed

lemma left_behind:
  assumes "fleet_run create destroy cfg (new_fleet now s) es f" "x \<in> set (fl_failed f)" "x \<in> mine (fl_provider f)"
    and "fleet_exec create destroy cfg es' f = Some f'"
  shows "x \<in> set (fl_failed f') \<and> x \<in> mine (fl_provider f') \<and> x \<notin> tracked (fl_pool f') \<union> set (fl_calls f') \<union> set (names (fl_pool f'))"
  using assms
proof (induction es' arbitrary: es f)
  case Nil
  have "set (fl_failed f) \<inter> ids_in_use (fl_pool f) = {}" "set (fl_calls f) \<subseteq> set (names (fl_pool f))"
    "tracked (fl_pool f) \<subseteq> set (names (fl_pool f))"
    using fleet_okD [OF fleet_ok_run [OF Nil.prems(1)]] tracked_names by blast+
  then show ?case using Nil.prems by (auto simp: ids_by_workers)
next
  case (Cons e es')
  then obtain g where g: "fleet_fresh e f" "fleet_step create destroy cfg e f = Some g" "fleet_exec create destroy cfg es' g = Some f'"
    by (auto split: if_splits option.splits)
  have "x \<in> set (fl_failed g)" "x \<in> mine (fl_provider g)"
    using left_behind_step [OF fleet_ok_run [OF Cons.prems(1)] g(2) Cons.prems(2,3)] by simp_all
  from Cons.IH [OF fleet_next [OF Cons.prems(1) g(2,1)] this g(3)] show ?case .
qed

end

text \<open>A provider that leaves nothing behind.\<close>

locale tidy_provider = machine_provider +
  assumes nothing_left: "create n x a s = (Inl e, s') \<Longrightarrow> mine s' = mine s"
    and removed: "destroy x s = (res, s') \<Longrightarrow> x \<notin> mine s'"
begin

lemma tidy_step:
  assumes f: "fleet_ok mine before f" and m: "mine (fl_provider f) \<subseteq> before \<union> tracked (fl_pool f) \<union> set (fl_calls f)"
    and s: "fleet_step create destroy cfg e f = Some f'"
  shows "mine (fl_provider f') \<subseteq> before \<union> tracked (fl_pool f') \<union> set (fl_calls f')"
proof (cases e)
  case (Section e')
  then obtain p' where p': "\<not> creation_result e'" "step cfg e' (fl_pool f) = Some p'" "f' = advance f p'"
    using s by (auto split: if_splits)
  then show ?thesis using m step_drops [OF fleet_okD(1) [OF f] p'(2,1)] by (auto simp: advance_def drops_def)
next
  case (CreateReturns i n)
  then obtain a x where i: "i < length (p_workers (fl_pool f))" "p_workers (fl_pool f) ! i = Creating a x"
    and c: "create_returned cfg i x (create n x a (fl_provider f)) f = Some f'"
    using s by (auto split: if_splits worker.splits)
  obtain r s' where r: "create n x a (fl_provider f) = (r, s')" by fastforce
  show ?thesis
  proof (cases r)
    case (Inl e)
    then show ?thesis
      using c m nothing_left [OF r [unfolded Inl]] create_fails [OF fleet_okD(1) [OF f] i, of cfg]
      by (auto simp: create_returned_def r advance_def drops_def)
  next
    case (Inr ip)
    then show ?thesis
      using c m made [OF r [unfolded Inr]] create_succeeds [OF fleet_okD(1) [OF f] i, of cfg ip]
      by (auto simp: create_returned_def r advance_def)
  qed
next
  case (DestroyReturns j)
  then have j: "j < length (fl_calls f)" and f': "f' = destroy_returned j (destroy (fl_calls f ! j) (fl_provider f)) f"
    using s by (auto split: if_splits)
  obtain r s' where r: "destroy (fl_calls f ! j) (fl_provider f) = (r, s')" by fastforce
  have "set (fl_calls f) = insert (fl_calls f ! j) (set (take j (fl_calls f) @ drop (Suc j) (fl_calls f)))"
    using id_take_nth_drop [OF j] by (metis Un_insert_right list.simps(15) set_append)
  then show ?thesis using m removed [OF r] unmade [OF r] by (auto simp: f' destroy_returned_def r)
qed

lemma tidy_run:
  assumes "fleet_run create destroy cfg (new_fleet now s) es f"
  shows "mine (fl_provider f) \<subseteq> mine s \<union> tracked (fl_pool f) \<union> set (fl_calls f)"
  using assms
proof (induction rule: fleet_run.induct)
  case fleet_start
  then show ?case by (simp add: new_fleet_def)
next
  case (fleet_next es f e f')
  then show ?case using tidy_step [OF fleet_ok_run] by blast
qed

text \<open>\<open>DestroyAll\<close>, and the calls that are then left.\<close>

lemma calls_return:
  "length (fl_calls f) = n \<Longrightarrow> \<exists>f'. fleet_exec create destroy cfg (replicate n (DestroyReturns 0)) f = Some f' \<and>
     fl_calls f' = [] \<and> fl_pool f' = fl_pool f"
proof (induction n arbitrary: f)
  case (Suc n)
  let ?g = "destroy_returned 0 (destroy (fl_calls f ! 0) (fl_provider f)) f"
  have "fl_calls ?g = tl (fl_calls f)" "fl_pool ?g = fl_pool f"
    by (simp_all add: destroy_returned_def drop_Suc split: prod.split)
  then show ?case using Suc.IH [of ?g] Suc.prems by auto
qed simp

lemma shut_down:
  assumes run: "fleet_run create destroy cfg (new_fleet now s) es f"
    and n: "n = length (fl_calls f) + length (p_builders (fl_pool f))"
  shows "\<exists>f'. fleet_exec create destroy cfg (Section DestroyAll # replicate n (DestroyReturns 0)) f = Some f' \<and>
    mine (fl_provider f') \<subseteq> mine s"
proof -
  let ?g = "advance f (destroy_all (fl_pool f))"
  have "length (fl_calls ?g) = n" by (simp add: n advance_def destroy_all_def)
  then obtain f' where f': "fleet_exec create destroy cfg (replicate n (DestroyReturns 0)) ?g = Some f'" "fl_calls f' = []"
    "fl_pool f' = destroy_all (fl_pool f)"
    using calls_return [of ?g n cfg] by (auto simp: advance_def)
  have e: "fleet_exec create destroy cfg (Section DestroyAll # replicate n (DestroyReturns 0)) f = Some f'"
    using f'(1) by simp
  have "tracked (fl_pool f') = {}" by (simp add: f'(3) tracked_def destroy_all_def)
  then show ?thesis using tidy_run [OF fleet_exec_run [OF run e]] e f'(2) by auto
qed

end
section \<open>The two providers\<close>

text \<open>The pods of builders.\<close>

definition kube_machines :: "kube_config \<Rightarrow> 'c objects \<Rightarrow> 'c kube \<Rightarrow> string set" where
  "kube_machines cfg pods s = {x. (kc_namespace cfg, resource_name x) \<in> pods (fst s)}"

lemma resource_name_inject: "resource_name x = resource_name y \<longleftrightarrow> x = y"
  by (simp add: resource_name_def)

lemma kube_provider:
  fixes api :: "'c kube_api"
  assumes laws: "cluster_laws api pods secrets"
  shows "machine_provider (\<lambda>n x a. kube_create api cfg n x config a) (kube_destroy api cfg) (kube_machines cfg pods)"
proof
  fix n x a ip e res and s s' :: "'c kube"
  obtain c archs c' archs' where s: "s = (c, archs)" "s' = (c', archs')" by fastforce
  show "kube_machines cfg pods s' = insert x (kube_machines cfg pods s)"
    if "kube_create api cfg n x config a s = (Inr ip, s')"
    using kube_create_objects [OF laws, of cfg n x config a c archs "Inr ip" c' archs'] that s
    by (auto simp: kube_machines_def resource_name_inject)
  show "kube_machines cfg pods s \<subseteq> kube_machines cfg pods s' \<and> kube_machines cfg pods s' \<subseteq> insert x (kube_machines cfg pods s)"
    if "kube_create api cfg n x config a s = (Inl e, s')"
    using kube_create_objects [OF laws, of cfg n x config a c archs "Inl e" c' archs'] that s
    by (auto simp: kube_machines_def resource_name_inject)
  show "kube_machines cfg pods s - {x} \<subseteq> kube_machines cfg pods s' \<and> kube_machines cfg pods s' \<subseteq> kube_machines cfg pods s"
    if "kube_destroy api cfg x s = (res, s')"
    using kube_destroy_pods [OF laws, of cfg x c archs res c' archs'] that s
    by (auto simp: kube_machines_def resource_name_inject)
  show "x \<notin> kube_machines cfg pods s'" if "kube_destroy api cfg x s = (Inr (), s')"
    using kube_destroy_objects [OF laws, of cfg x c archs c' archs'] that s
    by (auto simp: kube_machines_def)
qed

lemma kube_tidy:
  fixes api :: "'c kube_api"
  assumes laws: "cluster_laws api pods secrets" and reach: "deletions_reach api"
  shows "tidy_provider (\<lambda>n x a. kube_create api cfg n x config a) (kube_destroy api cfg) (kube_machines cfg pods)"
proof (rule tidy_provider.intro [OF kube_provider [OF laws]], rule tidy_provider_axioms.intro)
  fix n x a e res and s s' :: "'c kube"
  obtain c archs c' archs' where s: "s = (c, archs)" "s' = (c', archs')" by fastforce
  show "kube_machines cfg pods s' = kube_machines cfg pods s" if "kube_create api cfg n x config a s = (Inl e, s')"
    using kube_create_objects [OF laws, of cfg n x config a c archs "Inl e" c' archs'] that s reach
    by (simp add: kube_machines_def)
  show "x \<notin> kube_machines cfg pods s'" if "kube_destroy api cfg x s = (res, s')"
    using kube_destroy_pods(3) [OF laws, of cfg x c archs res c' archs'] that s reach
    by (simp add: kube_machines_def)
qed

text \<open>
  What \<open>tofu\<close> does, \<open>servers\<close> being the builders whose servers are running: \<open>apply\<close> makes at most the server
  of its state file, and does so when it succeeds; \<open>destroy\<close> removes at most that of its state file, and
  does so when it succeeds; nothing else makes or removes one.
\<close>

definition leaves :: "('c, 'a) io \<Rightarrow> ('c \<Rightarrow> string set) \<Rightarrow> bool" where
  "leaves m servers \<longleftrightarrow> (\<forall>c. servers (snd (m c)) = servers c)"

definition tofu_laws :: "'c tofu_world \<Rightarrow> ('c \<Rightarrow> string set) \<Rightarrow> bool" where
  "tofu_laws w servers \<longleftrightarrow>
     (\<forall>cfg i t config env c e out c'. tw_tofu w (apply_args cfg i t config) env c = ((e, out), c') \<longrightarrow>
        servers c \<subseteq> servers c' \<and> servers c' \<subseteq> insert i (servers c) \<and> (e = None \<longrightarrow> i \<in> servers c')) \<and>
     (\<forall>i t config env c e out c'. tw_tofu w (destroy_args i t config) env c = ((e, out), c') \<longrightarrow>
        servers c - {i} \<subseteq> servers c' \<and> servers c' \<subseteq> servers c \<and> (e = None \<longrightarrow> i \<notin> servers c')) \<and>
     leaves (tw_make_state_dir w) servers \<and> (\<forall>args. leaves (tw_output w args) servers) \<and>
     (\<forall>p c. servers (tw_remove w p c) = servers c) \<and> leaves (tw_read_key w) servers \<and>
     (\<forall>a. leaves (tw_dial w a) servers) \<and> (\<forall>a c. servers (snd (tw_probe w a c)) = servers c)"

lemma tofu_lawsD:
  assumes "tofu_laws w servers"
  shows "tw_tofu w (apply_args cfg i t config) env c = ((e, out), c') \<Longrightarrow>
      servers c \<subseteq> servers c' \<and> servers c' \<subseteq> insert i (servers c) \<and> (e = None \<longrightarrow> i \<in> servers c')"
    "tw_tofu w (destroy_args i t config) env c = ((e, out), c') \<Longrightarrow>
      servers c - {i} \<subseteq> servers c' \<and> servers c' \<subseteq> servers c \<and> (e = None \<longrightarrow> i \<notin> servers c')"
    "leaves (tw_make_state_dir w) servers" "leaves (tw_output w args) servers" "servers (tw_remove w p c) = servers c"
    "leaves (tw_read_key w) servers" "leaves (tw_dial w a) servers" "servers (snd (tw_probe w a c)) = servers c"
proof -
  note laws = assms [unfolded tofu_laws_def]
  show "tw_tofu w (apply_args cfg i t config) env c = ((e, out), c') \<Longrightarrow>
      servers c \<subseteq> servers c' \<and> servers c' \<subseteq> insert i (servers c) \<and> (e = None \<longrightarrow> i \<in> servers c')"
    by (rule laws [THEN conjunct1, rule_format])
  show "tw_tofu w (destroy_args i t config) env c = ((e, out), c') \<Longrightarrow>
      servers c - {i} \<subseteq> servers c' \<and> servers c' \<subseteq> servers c \<and> (e = None \<longrightarrow> i \<notin> servers c')"
    by (rule laws [THEN conjunct2, THEN conjunct1, rule_format])
qed (use assms in \<open>simp_all add: tofu_laws_def\<close>)

lemma leavesI: "(\<And>c. servers (snd (m c)) = servers c) \<Longrightarrow> leaves m servers"
  by (simp add: leaves_def)

lemma leavesD: "leaves m servers \<Longrightarrow> m c = (r, c') \<Longrightarrow> servers c' = servers c"
  by (metis leaves_def snd_conv)

lemma leaves_basic: "leaves (throw e) servers" "leaves (succeed v) servers"
  by (simp_all add: leaves_def throw_def succeed_def)

lemma leaves_wrap: "leaves m servers \<Longrightarrow> leaves (wrap msg m) servers"
  by (auto simp: leaves_def wrap_def split: prod.split sum.split) (metis snd_conv)+

lemma leaves_andThen:
  assumes "leaves m servers" "\<And>v. leaves (k v) servers" shows "leaves (andThen m k) servers"
proof (rule leavesI)
  fix c
  obtain r c' where m: "m c = (r, c')" by fastforce
  then show "servers (snd (andThen m k c)) = servers c"
    using leavesD [OF assms(1) m] assms(2) by (cases r) (simp_all add: andThen_def leaves_def)
qed

lemma wait_leaves:
  assumes laws: "tofu_laws w servers" shows "leaves (hetzner_wait_for_builder w n ip) servers"
proof -
  note dial = leavesD [OF tofu_lawsD(7) [OF laws]]
  have port: "leaves (wait_for_port w n k ip) servers" for n k
  proof (induction k arbitrary: n)
    case (Suc k)
    then show ?case
      by (cases n) (auto simp: leaves_def throw_def split: prod.split sum.split dest: dial)
  qed (simp add: leaves_basic)
  have probe: "servers c' = servers c" if "tw_probe w a c = (r, c')" for a c r c'
    using tofu_lawsD(8) [OF laws, of a c] that by simp
  have init: "leaves (wait_for_cloud_init w n k ip) servers" for n k
  proof (induction k arbitrary: n)
    case (Suc k)
    then show ?case
      by (cases n) (auto simp: leaves_def throw_def split: prod.split probe.split dest: probe)
  qed (simp add: leaves_basic)
  show ?thesis
    unfolding hetzner_wait_for_builder_def
    by (intro leaves_andThen leaves_wrap port tofu_lawsD(6) [OF laws])
      (simp add: leaves_basic init split: option.split)
qed
lemma hetzner_create_servers:
  assumes laws: "tofu_laws w servers" and create: "hetzner_create w cfg n i config arch h = (res, h')"
  shows "servers (hz_world h) \<subseteq> servers (hz_world h')" and "servers (hz_world h') \<subseteq> insert i (servers (hz_world h))"
    and "res = Inr ip \<Longrightarrow> i \<in> servers (hz_world h')"
proof -
  have "servers (hz_world h) \<subseteq> servers (hz_world h') \<and> servers (hz_world h') \<subseteq> insert i (servers (hz_world h)) \<and>
    ((\<exists>ip. res = Inr ip) \<longrightarrow> i \<in> servers (hz_world h'))"
  proof (cases "map_of (hc_server_types cfg) arch")
    case None
    then show ?thesis using create by (auto simp: hetzner_create_def throw_def)
  next
    case (Some t)
    define rest where "rest = andThen (wrap ''failed to get IP''
        (tw_output w [''output'', ''-raw'', ''-state'', state_file i, ''ipv4_address''])) (\<lambda>out.
      let ip = trim_space out in andThen (hetzner_wait_for_builder w n ip) (\<lambda>_. succeed ip))"
    have rest: "leaves rest servers"
      unfolding rest_def Let_def
      by (intro leaves_andThen leaves_wrap wait_leaves [OF laws] tofu_lawsD(4) [OF laws] leaves_basic)
    obtain r1 c1 where s1: "wrap ''creating state directory'' (tw_make_state_dir w) (hz_world h) = (r1, c1)" by fastforce
    obtain r2 c2 where s2: "tofu_apply w cfg i t config c1 = (r2, c2)" by fastforce
    obtain r3 c3 where s3: "rest c2 = (r3, c3)" by fastforce
    have run: "(res, hz_world h') = andThen (wrap ''creating state directory'' (tw_make_state_dir w))
        (\<lambda>_. andThen (tofu_apply w cfg i t config) (\<lambda>_. rest)) (hz_world h)"
      using create Some
      by (auto simp: hetzner_create_def andThen_def [of "modify f" for f] modify_def world_of_def rest_def split: prod.splits)
    have one: "servers c1 = servers (hz_world h)"
      by (rule leavesD [OF leaves_wrap [OF tofu_lawsD(3) [OF laws]] s1])
    obtain e out c where t: "tw_tofu w (apply_args cfg i t config)
        (without_tmpdir (tw_environ w) @ [''TMPDIR=/tmp'', ''TF_LOG=TRACE'', ''TF_LOG_PATH='' @ log_path i]) c1 = ((e, out), c)"
      by (metis prod.collapse)
    have two: "servers c2 = servers c" "(\<exists>u. r2 = Inr u) \<longleftrightarrow> e = None"
      using s2 [unfolded tofu_apply_def t] tofu_lawsD(5) [OF laws] by (auto split: option.splits)
    note made = tofu_lawsD(1) [OF laws t]
    show ?thesis
      using run s1 s2 s3 one two made leavesD [OF rest s3] by (cases r1; cases r2; cases r3) (auto simp: andThen_def)
  qed
  then show "servers (hz_world h) \<subseteq> servers (hz_world h')" "servers (hz_world h') \<subseteq> insert i (servers (hz_world h))"
    "res = Inr ip \<Longrightarrow> i \<in> servers (hz_world h')" by blast+
qed

lemma hetzner_destroy_servers:
  assumes laws: "tofu_laws w servers" and destroy: "hetzner_destroy w cfg i h = (res, h')"
  shows "servers (hz_world h) - {i} \<subseteq> servers (hz_world h')" and "servers (hz_world h') \<subseteq> servers (hz_world h)"
    and "res = Inr () \<Longrightarrow> i \<notin> servers (hz_world h')"
proof -
  have tofu: "servers c - {i} \<subseteq> servers c' \<and> servers c' \<subseteq> servers c \<and> (r = Inr () \<longrightarrow> i \<notin> servers c')"
    if "tofu_destroy w i t config c = (r, c')" for t config c r c'
  proof -
    obtain e out c0 where t: "tw_tofu w (destroy_args i t config) (without_tmpdir (tw_environ w) @ [''TMPDIR=/tmp'']) c = ((e, out), c0)"
      by (metis prod.collapse)
    show ?thesis
      using that [unfolded tofu_destroy_def t] tofu_lawsD(2) [OF laws t] tofu_lawsD(5) [OF laws] by (auto split: option.splits)
  qed
  have "servers (hz_world h) - {i} \<subseteq> servers (hz_world h') \<and> servers (hz_world h') \<subseteq> servers (hz_world h) \<and>
      (res = Inr () \<longrightarrow> i \<notin> servers (hz_world h'))"
    using destroy tofu
    by (auto simp: hetzner_destroy_def Let_def world_of_def split: option.splits if_splits prod.splits) blast+
  then show "servers (hz_world h) - {i} \<subseteq> servers (hz_world h')" "servers (hz_world h') \<subseteq> servers (hz_world h)"
    "res = Inr () \<Longrightarrow> i \<notin> servers (hz_world h')" by blast+
qed

lemma hetzner_provider:
  fixes w :: "'c tofu_world"
  assumes laws: "tofu_laws w servers"
  shows "machine_provider (\<lambda>n x a. hetzner_create w cfg n x config a) (hetzner_destroy w cfg) (\<lambda>h. servers (hz_world h))"
proof
  fix n x a ip e res and s s' :: "'c hetzner"
  show "servers (hz_world s') = insert x (servers (hz_world s))" if "hetzner_create w cfg n x config a s = (Inr ip, s')"
    using hetzner_create_servers [OF laws that] by blast
  show "servers (hz_world s) \<subseteq> servers (hz_world s') \<and> servers (hz_world s') \<subseteq> insert x (servers (hz_world s))"
    if "hetzner_create w cfg n x config a s = (Inl e, s')"
    using hetzner_create_servers(1,2) [OF laws that] by blast
  show "servers (hz_world s) - {x} \<subseteq> servers (hz_world s') \<and> servers (hz_world s') \<subseteq> servers (hz_world s)"
    if "hetzner_destroy w cfg x s = (res, s')"
    using hetzner_destroy_servers(1,2) [OF laws that] by blast
  show "x \<notin> servers (hz_world s')" if "hetzner_destroy w cfg x s = (Inr (), s')"
    using hetzner_destroy_servers(3) [OF laws that] by blast
qed
section \<open>Concrete providers\<close>

lemma listing_reach: "deletions_reach listing_api"
  by (auto simp: deletions_reach_def listing_api_def split: if_splits)

interpretation listed_pods: tidy_provider "\<lambda>n x a. kube_create listing_api demo_kube n x demo_provider a"
  "kube_destroy listing_api demo_kube" "kube_machines demo_kube (\<lambda>c. set (fst c))"
  by (rule kube_tidy [OF listing_laws listing_reach])

text \<open>A \<open>tofu\<close> that keeps the list of its state files, and servers that never get ready.\<close>

definition stuck_world :: "string list tofu_world" where
  "stuck_world = \<lparr>tw_make_state_dir = (\<lambda>c. (Inr (), c)),
     tw_tofu = (\<lambda>args env c. ((None, ''''), if hd args = ''apply'' then last args # c else removeAll (last args) c)),
     tw_output = (\<lambda>args c. (Inr ''10.0.0.9'', c)), tw_log = (\<lambda>p c. ''''), tw_remove = (\<lambda>p c. c), tw_environ = [],
     tw_read_key = (\<lambda>c. (Inr '''', c)), tw_parse_key = (\<lambda>k. None), tw_dial = (\<lambda>a c. (Inr (), c)),
     tw_probe = (\<lambda>a c. (NotReached, c)), tw_runes = id\<rparr>"

definition servers_of :: "string list \<Rightarrow> string set" where
  "servers_of c = {i. state_file i \<in> set c}"

lemma stuck_laws: "tofu_laws stuck_world servers_of"
  by (auto simp: tofu_laws_def stuck_world_def leaves_def servers_of_def apply_args_def destroy_args_def state_file_def)

abbreviation demo_hetzner :: hetzner_config where
  "demo_hetzner \<equiv> \<lparr>hc_server_types = [(''x86_64'', ''cx33'')], hc_location = ''''\<rparr>"

interpretation stuck_servers: machine_provider "\<lambda>n x a. hetzner_create stuck_world demo_hetzner n x demo_provider a"
  "hetzner_destroy stuck_world demo_hetzner" "\<lambda>h. servers_of (hz_world h)"
  by (rule hetzner_provider [OF stuck_laws])

section \<open>Properties\<close>

lemma fleet_pool_run:
  assumes "fleet_run create destroy cfg (new_fleet now s) es f"
  shows "\<exists>es'. pool_run cfg now es' (fl_pool f) \<and> (DestroyAll \<in> set es' \<longrightarrow> Section DestroyAll \<in> set es)"
  using assms
proof (induction rule: fleet_run.induct)
  case fleet_start
  show ?case using pool_run.start [of cfg now] by (auto simp: new_fleet_def intro!: exI [of _ "[]"])
next
  case (fleet_next es f e f')
  then obtain es' where run: "pool_run cfg now es' (fl_pool f)" "DestroyAll \<in> set es' \<longrightarrow> Section DestroyAll \<in> set es" by blast
  have ext: ?case if "step cfg e' (fl_pool f) = Some (fl_pool f')" "drawn_anew e' (fl_pool f)" "e' = DestroyAll \<longrightarrow> e = Section DestroyAll" for e'
    using pool_run.step [OF run(1) that(1,2)] run(2) that(3) by (intro exI [of _ "es' @ [e']"]) auto
  show ?case
  proof (cases e)
    case (Section e')
    have "drawn_anew e' (fl_pool f)" using fleet_next.hyps(3) Section by (cases e') auto
    then show ?thesis using ext [of e'] fleet_next.hyps(2) Section by (auto simp: advance_def split: if_splits)
  next
    case (CreateReturns i n)
    then obtain a x where "create_returned cfg i x (create n x a (fl_provider f)) f = Some f'"
      using fleet_next.hyps(2) by (auto split: if_splits worker.splits)
    then show ?thesis
      using ext [of "Fail i"] ext [of "Publish i ip" for ip]
      by (cases "create n x a (fl_provider f)") (auto simp: create_returned_def advance_def split: sum.splits)
  next
    case (DestroyReturns j)
    then have "fl_pool f' = fl_pool f" using fleet_next.hyps(2) by (auto simp: destroy_returned_def split: if_splits prod.splits)
    then show ?thesis using run by auto
  qed
qed

lemma owned_tracked:
  assumes "pool_run cfg now es p" "DestroyAll \<notin> set es" "owns p w k"
  shows "bl_id (p_heap p ! k) \<in> tracked p"
proof -
  note ok = pool_okD(1) [OF pool_ok_run [OF assms(1)]]
  have "k < length (p_heap p) \<and> status_of p k \<noteq> Destroying"
    using assms(3) custodyD(1) [OF ok] heldD(1,2) [OF ok, of _ k] pooledD(1,2) [OF ok, of k] by (cases w) (auto simp: users_ok_def)
  then have "map_of (p_builders p) (bl_id (p_heap p ! k)) = Some k"
    using kept_run [OF assms(1,2)] listedD(1) by (auto simp: kept_def)
  from map_of_SomeD [OF this] show ?thesis by (force simp: tracked_def)
qed



text \<open>
  C28: a server whose \<open>Create\<close> failed is forgotten. If OpenTofu has made a server and \<open>Create\<close> fails
  afterwards - the address cannot be read, the server does not get ready in time -, then the server runs in every later
  state, also after \<open>DestroyAll\<close>: the pool does not know the builder, and never calls \<open>Destroy\<close> for it.
\<close>

theorem failed_builder_runs_on:
  assumes "tofu_laws w servers"
    and "fleet_run (\<lambda>n x a. hetzner_create w hcfg n x config a) (hetzner_destroy w hcfg) cfg (new_fleet now h) es f"
    and "x \<in> set (fl_failed f)" and "x \<in> servers (hz_world (fl_provider f))"
    and "fleet_exec (\<lambda>n x a. hetzner_create w hcfg n x config a) (hetzner_destroy w hcfg) cfg es' f = Some f'"
  shows "x \<in> servers (hz_world (fl_provider f')) \<and> map_of (p_builders (fl_pool f')) x = None \<and> x \<notin> set (fl_calls f')"
  using machine_provider.left_behind [OF hetzner_provider [OF assms(1)] assms(2-5)]
  by (simp add: tracked_def map_of_eq_None_iff)
section \<open>Concrete runs\<close>

text \<open>A caller waits, a pod is made for it, and it gets the builder; a server is made that never gets ready.\<close>

definition asking :: "fleet_event list" where
  "asking = [Section (Ask ''/nix/store/a.drv'' ''x86_64-linux''), Section (Signal 0), Section ScaleOnSignal, Section (Draw 0 ''b1'')]"

lemmas fleet_simps = exec_simps new_fleet_def advance_def create_returned_def destroy_returned_def asking_def demo_config_def

lemma pod_made: "kube_create listing_api demo_kube 3 ''b1'' demo_provider ''x86_64'' (([], []), []) =
    (Inr ''10.0.0.7'', (([(''ns'', ''nix-builder-b1'')], [(''ns'', ''nix-builder-b1'')]), [(''b1'', ''x86_64'')]))"
  by code_simp

definition pod_fleet :: "two_lists kube fleet" where
  "pod_fleet = the (fleet_exec (\<lambda>n x a. kube_create listing_api demo_kube n x demo_provider a) (kube_destroy listing_api demo_kube)
     demo_config (asking @ [CreateReturns 0 3, Section (Receive 0), Section (Take 0)]) (new_fleet 0 (([], []), [])))"

lemma pod_fleet_run:
  "fleet_exec (\<lambda>n x a. kube_create listing_api demo_kube n x demo_provider a) (kube_destroy listing_api demo_kube)
     demo_config (asking @ [CreateReturns 0 3, Section (Receive 0), Section (Take 0)]) (new_fleet 0 (([], []), [])) = Some pod_fleet"
  "p_users (fl_pool pod_fleet) = [0]" "bl_id (p_heap (fl_pool pod_fleet) ! 0) = ''b1''"
  "length (p_builders (fl_pool pod_fleet)) = 1" "fl_calls pod_fleet = []"
  by (simp_all add: pod_fleet_def fleet_simps pod_made)



lemma server_made: "hetzner_create stuck_world demo_hetzner 9 ''b1'' demo_provider ''x86_64'' \<lparr>hz_config = None, hz_archs = [], hz_world = []\<rparr> =
    (Inl context_done, \<lparr>hz_config = Some demo_provider, hz_archs = [(''b1'', ''x86_64'')], hz_world = [''state/b1.tfstate'']\<rparr>)"
  by code_simp

definition stuck_fleet :: "string list hetzner fleet" where
  "stuck_fleet = the (fleet_exec (\<lambda>n x a. hetzner_create stuck_world demo_hetzner n x demo_provider a) (hetzner_destroy stuck_world demo_hetzner)
     demo_config (asking @ [CreateReturns 0 9]) (new_fleet 0 \<lparr>hz_config = None, hz_archs = [], hz_world = []\<rparr>))"

lemma stuck_fleet_run:
  "fleet_exec (\<lambda>n x a. hetzner_create stuck_world demo_hetzner n x demo_provider a) (hetzner_destroy stuck_world demo_hetzner)
     demo_config (asking @ [CreateReturns 0 9]) (new_fleet 0 \<lparr>hz_config = None, hz_archs = [], hz_world = []\<rparr>) = Some stuck_fleet"
  "fl_failed stuck_fleet = [''b1'']" "hz_world (fl_provider stuck_fleet) = [''state/b1.tfstate'']"
  "fleet_exec (\<lambda>n x a. hetzner_create stuck_world demo_hetzner n x demo_provider a) (hetzner_destroy stuck_world demo_hetzner)
     demo_config [Section (Finish 0), Section DestroyAll] stuck_fleet \<noteq> None"
  by (simp_all add: stuck_fleet_def fleet_simps server_made)

lemma failed_builder_runs_on_witness:
  "\<exists>f'. fleet_exec (\<lambda>n x a. hetzner_create stuck_world demo_hetzner n x demo_provider a) (hetzner_destroy stuck_world demo_hetzner)
     demo_config [Section (Finish 0), Section DestroyAll] stuck_fleet = Some f' \<and> ''b1'' \<in> servers_of (hz_world (fl_provider f'))"
proof -
  have "''b1'' \<in> set (fl_failed stuck_fleet)" "''b1'' \<in> servers_of (hz_world (fl_provider stuck_fleet))"
    by (simp_all add: stuck_fleet_run servers_of_def state_file_def)
  note runs_on = failed_builder_runs_on [OF stuck_laws fleet_exec_run [OF fleet_start stuck_fleet_run(1)] this]
  from stuck_fleet_run(4) show ?thesis
    unfolding not_None_eq using runs_on by (elim exE) (intro exI conjI, assumption, blast)
qed

end
