(* ===== verification/Metrics.thy ===== *)
theory Metrics
  imports Complex_Main Nix_Proxy
begin

text \<open>
  The build metrics (\<open>metrics/store.go\<close>) and the web interface that shows them (\<open>webui.go\<close>): the
  table of builds, what a finished build adds to it, and the queries. The database is what its SQL
  says: a table is the list of its rows in the order of their keys, a query a function of it. An
  insertion may be refused by the database, which is a parameter; \<open>Record\<close> only logs that.
\<close>

section \<open>The table\<close>

text \<open>A \<open>time.Time\<close> in whole seconds since 1970; the zero value is the first second of year 1.\<close>

definition zero_time :: int where "zero_time = -62135596800"

record build_record =
  rec_drv_path :: string
  rec_pname :: string
  rec_version :: string
  rec_system :: string
  rec_builder :: string
  rec_status :: u64
  rec_error_msg :: string
  rec_start_time :: int
  rec_stop_time :: int
  rec_cpu_user :: "u64 option"
  rec_cpu_system :: "u64 option"
  rec_peak_memory :: "u64 option"

text \<open>The columns of the table \<open>builds\<close> that a query reads or a build fills.\<close>

record build_entry =
  be_id :: nat
  be_drv_path :: string
  be_pname :: string
  be_version :: string
  be_system :: string
  be_builder_id :: string
  be_status :: u64
  be_error_msg :: string
  be_start_time :: int
  be_stop_time :: int
  be_cpu_user :: "u64 option"
  be_cpu_system :: "u64 option"
  be_peak_memory :: "u64 option"

text \<open>The rows and the key that \<open>AUTOINCREMENT\<close> gives next; no row is ever deleted.\<close>

record metrics_store =
  ms_rows :: "build_entry list"
  ms_next_id :: nat

definition new_metrics_store :: metrics_store where
  "new_metrics_store = \<lparr>ms_rows = [], ms_next_id = 1\<rparr>"

section \<open>Recording\<close>

definition unix_or_zero :: "int \<Rightarrow> int" where
  "unix_or_zero t = (if t = zero_time then 0 else t)"

definition entry_of_record :: "nat \<Rightarrow> build_record \<Rightarrow> build_entry" where
  "entry_of_record i r = \<lparr>be_id = i, be_drv_path = rec_drv_path r, be_pname = rec_pname r, be_version = rec_version r,
     be_system = rec_system r, be_builder_id = rec_builder r, be_status = rec_status r, be_error_msg = rec_error_msg r,
     be_start_time = unix_or_zero (rec_start_time r), be_stop_time = unix_or_zero (rec_stop_time r),
     be_cpu_user = rec_cpu_user r, be_cpu_system = rec_cpu_system r, be_peak_memory = rec_peak_memory r\<rparr>"

definition insert_record :: "(build_record \<Rightarrow> bool) \<Rightarrow> build_record \<Rightarrow> metrics_store \<Rightarrow> metrics_store" where
  "insert_record refused r s = (if refused r then s
     else s\<lparr>ms_rows := ms_rows s @ [entry_of_record (ms_next_id s) r], ms_next_id := Suc (ms_next_id s)\<rparr>)"

text \<open>\<open>strings.LastIndex(base, "/")\<close> and what follows it.\<close>

definition drv_base :: "string \<Rightarrow> string" where
  "drv_base p = rev (takeWhile (\<lambda>c. c \<noteq> CHR ''/'') (rev p))"

definition trim_suffix :: "string \<Rightarrow> string \<Rightarrow> string" where
  "trim_suffix suf s = (if suffix suf s then take (length s - length suf) s else s)"

text \<open>The loop of \<open>ExtractPName\<close> from the last index down: \<open>i\<close> indices are left.\<close>

fun cut_version :: "nat \<Rightarrow> string \<Rightarrow> string" where
  "cut_version 0 base = base"
| "cut_version (Suc i) base =
     (if base ! i = CHR ''-'' \<and> Suc i < length base \<and> is_digit (base ! Suc i) then take i base
      else cut_version i base)"

definition extract_pname :: "(string \<times> string) list \<Rightarrow> string \<Rightarrow> string" where
  "extract_pname env drv_path = (case map_of env ''pname'' of
       Some (c # pname) \<Rightarrow> c # pname
     | _ \<Rightarrow>
         let base = trim_suffix ''.drv'' (drv_base drv_path);
             base = (if length base > 33 \<and> base ! 32 = CHR ''-'' then drop 33 base else base)
         in cut_version (length base) base)"

definition time_of_seconds :: "u64 \<Rightarrow> int" where
  "time_of_seconds t = (if t > 0 then sint t else zero_time)"

text \<open>\<open>RecordBuild\<close>; a missing variable of the environment reads as the empty string.\<close>

definition metrics_record_build ::
  "(build_record \<Rightarrow> bool) \<Rightarrow> string \<Rightarrow> (string \<times> string) list \<Rightarrow> string \<Rightarrow> string \<Rightarrow> build_result \<Rightarrow> u64 option \<Rightarrow>
   metrics_store \<Rightarrow> metrics_store" where
  "metrics_record_build refused drv_path env platform builder_id result peak =
     insert_record refused
      \<lparr>rec_drv_path = drv_path, rec_pname = extract_pname env drv_path,
       rec_version = (case map_of env ''version'' of None \<Rightarrow> '''' | Some v \<Rightarrow> v),
       rec_system = platform, rec_builder = builder_id, rec_status = br_status result, rec_error_msg = br_error_msg result,
       rec_start_time = time_of_seconds (br_start_time result), rec_stop_time = time_of_seconds (br_stop_time result),
       rec_cpu_user = br_cpu_user result, rec_cpu_system = br_cpu_system result, rec_peak_memory = peak\<rparr>"

text \<open>The store after the effects of a session of the proxy.\<close>

fun recorded :: "(build_record \<Rightarrow> bool) \<Rightarrow> effect \<Rightarrow> metrics_store \<Rightarrow> metrics_store" where
  "recorded refused (RecordedBuild drv_path env platform builder_id result peak) s =
     metrics_record_build refused drv_path env platform builder_id result peak s"
| "recorded refused e s = s"

section \<open>The queries\<close>

text \<open>\<open>status IN (0, 1, 2)\<close> and \<open>status IN (0,1,2,13)\<close>, and \<open>stop_time > start_time\<close>.\<close>

definition package_success :: "build_entry \<Rightarrow> bool" where
  "package_success r \<longleftrightarrow> be_status r \<in> {0, 1, 2}"

definition summary_success :: "build_entry \<Rightarrow> bool" where
  "summary_success r \<longleftrightarrow> be_status r \<in> {0, 1, 2, 13}"

definition durations :: "(build_entry \<Rightarrow> bool) \<Rightarrow> build_entry list \<Rightarrow> int list" where
  "durations ok rows = map (\<lambda>r. be_stop_time r - be_start_time r)
     (filter (\<lambda>r. ok r \<and> be_stop_time r > be_start_time r) rows)"

text \<open>\<open>COALESCE(AVG(...), 0)\<close>. Averages are rational here.\<close>

definition average :: "int list \<Rightarrow> rat" where
  "average xs = (if xs = [] then 0 else of_int (sum_list xs) / of_nat (length xs))"

text \<open>
  \<open>ORDER BY duration ASC LIMIT 1 OFFSET CAST(COUNT(*) * 0.9 AS INTEGER)\<close>, and \<open>sql.ErrNoRows\<close> as 0. The
  product is exact enough that the offset is the integer part of nine tenths of the count.
\<close>

definition p90 :: "int list \<Rightarrow> int" where
  "p90 xs = (case drop (9 * length xs div 10) (sort xs) of [] \<Rightarrow> 0 | d # _ \<Rightarrow> d)"

record build_stats =
  bs_pname :: string
  bs_build_count :: nat
  bs_success_count :: nat
  bs_avg_duration :: rat
  bs_p90_duration :: int
  bs_avg_cpu_user :: "rat option"
  bs_avg_cpu_system :: "rat option"

definition micros :: "(build_entry \<Rightarrow> u64 option) \<Rightarrow> build_entry list \<Rightarrow> int list" where
  "micros field rows = List.map_filter (\<lambda>r. if package_success r then map_option uint (field r) else None) rows"

definition stats_for_package :: "string \<Rightarrow> metrics_store \<Rightarrow> build_stats" where
  "stats_for_package pname s = (let rows = filter (\<lambda>r. be_pname r = pname) (ms_rows s) in
     \<lparr>bs_pname = pname, bs_build_count = length rows, bs_success_count = length (filter package_success rows),
      bs_avg_duration = average (durations package_success rows), bs_p90_duration = p90 (durations package_success rows),
      bs_avg_cpu_user = Some (average (micros be_cpu_user rows) / 1000000),
      bs_avg_cpu_system = Some (average (micros be_cpu_system rows) / 1000000)\<rparr>)"

record store_summary =
  ss_total_builds :: nat
  ss_successful_builds :: nat
  ss_failed_builds :: nat
  ss_avg_duration :: rat
  ss_p90_duration :: int

definition summary :: "metrics_store \<Rightarrow> store_summary" where
  "summary s = (let rows = ms_rows s in
     \<lparr>ss_total_builds = length rows, ss_successful_builds = length (filter summary_success rows),
      ss_failed_builds = length (filter (\<lambda>r. \<not> summary_success r) rows),
      ss_avg_duration = average (durations summary_success rows), ss_p90_duration = p90 (durations summary_success rows)\<rparr>)"

record build_row =
  bw_id :: nat
  bw_drv_path :: string
  bw_pname :: string
  bw_version :: string
  bw_system :: string
  bw_builder_id :: string
  bw_status :: u64
  bw_status_text :: string
  bw_error_msg :: string
  bw_start_time :: int
  bw_stop_time :: int
  bw_duration :: int

record build_list =
  bl_total :: nat
  bl_builds :: "build_row list"

definition build_status_text :: "(u64 \<times> string) list" where
  "build_status_text = [(0, ''built''), (1, ''substituted''), (2, ''already valid''), (3, ''permanent failure''),
     (4, ''input rejected''), (5, ''output rejected''), (6, ''transient failure''), (7, ''cached failure''),
     (8, ''timed out''), (9, ''misc failure''), (10, ''dependency failed''), (11, ''log limit exceeded''),
     (12, ''not deterministic''), (13, ''resolves to already valid''), (14, ''no substituters'')]"

definition row_of_entry :: "build_entry \<Rightarrow> build_row" where
  "row_of_entry e = \<lparr>bw_id = be_id e, bw_drv_path = be_drv_path e, bw_pname = be_pname e, bw_version = be_version e,
     bw_system = be_system e, bw_builder_id = be_builder_id e, bw_status = be_status e,
     bw_status_text = (case map_of build_status_text (be_status e) of
         Some t \<Rightarrow> t | None \<Rightarrow> ''status('' @ decimal (unat (be_status e)) @ '')''),
     bw_error_msg = be_error_msg e, bw_start_time = be_start_time e, bw_stop_time = be_stop_time e,
     bw_duration = (if be_stop_time e > be_start_time e then be_stop_time e - be_start_time e else 0)\<rparr>"

text \<open>\<open>LIMIT ? OFFSET ?\<close>: a negative limit is no limit, a negative offset none.\<close>

definition limited :: "int \<Rightarrow> int \<Rightarrow> 'a list \<Rightarrow> 'a list" where
  "limited limit offset rows =
     (let rest = drop (nat offset) rows in if limit < 0 then rest else take (nat limit) rest)"

definition list_builds :: "int \<Rightarrow> int \<Rightarrow> metrics_store \<Rightarrow> build_list" where
  "list_builds limit offset s = \<lparr>bl_total = length (ms_rows s),
     bl_builds = map row_of_entry (limited limit offset (rev (sort_key be_id (ms_rows s))))\<rparr>"

section \<open>The web interface\<close>

text \<open>\<open>strconv.Atoi\<close>: a sign, if there is one, and digits, within 64 bits.\<close>

definition atoi :: "string \<Rightarrow> int option" where
  "atoi s = (let neg = prefix ''-'' s; ds = (if prefix ''-'' s \<or> prefix ''+'' s then drop 1 s else s);
       v = (if neg then - int (digits_value ds) else int (digits_value ds))
     in if ds \<noteq> [] \<and> list_all is_digit ds \<and> - (2 ^ 63) \<le> v \<and> v < 2 ^ 63 then Some v else None)"

text \<open>The query \<open>r.URL.Query().Get\<close>, which is empty for a parameter that is not given.\<close>

definition page_limit :: "string \<Rightarrow> int" where
  "page_limit v = (case atoi v of Some n \<Rightarrow> if n > 0 \<and> n \<le> 500 then n else 50 | None \<Rightarrow> 50)"

definition page_offset :: "string \<Rightarrow> int" where
  "page_offset v = (case atoi v of Some n \<Rightarrow> if n \<ge> 0 then n else 0 | None \<Rightarrow> 0)"

definition api_builds :: "(string \<Rightarrow> string) \<Rightarrow> metrics_store \<Rightarrow> build_list" where
  "api_builds query s = list_builds (page_limit (query ''limit'')) (page_offset (query ''offset'')) s"

definition api_stats :: "metrics_store \<Rightarrow> store_summary" where
  "api_stats s = summary s"

section \<open>Pages of builds\<close>

definition metrics_ok :: "metrics_store \<Rightarrow> bool" where
  "metrics_ok s \<longleftrightarrow> map be_id (ms_rows s) = [1..<ms_next_id s] \<and> 1 \<le> ms_next_id s"

lemma new_metrics_ok: "metrics_ok new_metrics_store"
  by (simp add: metrics_ok_def new_metrics_store_def)

lemma insert_ok: "metrics_ok s \<Longrightarrow> metrics_ok (insert_record refused r s)"
  by (simp add: metrics_ok_def insert_record_def entry_of_record_def)

lemma recorded_ok: "metrics_ok s \<Longrightarrow> metrics_ok (recorded refused e s)"
  by (cases e) (simp_all add: metrics_record_build_def insert_ok)

lemma recorded_all_ok: "metrics_ok s \<Longrightarrow> metrics_ok (fold (recorded refused) es s)"
  by (induction es arbitrary: s) (simp_all add: recorded_ok)

text \<open>The rows are in the order of their keys, so that the query lists them from the last to the first.\<close>

lemma rows_in_order: "metrics_ok s \<Longrightarrow> sort_key be_id (ms_rows s) = ms_rows s"
  by (rule sort_key_id_if_sorted) (simp add: metrics_ok_def)

lemma pages_of_list: "concat (map (\<lambda>k. take n (drop (k * n) xs)) [0..<m]) = take (m * n) xs"
  by (induction m) (simp_all add: take_add [symmetric] add.commute)

lemma list_builds_page:
  assumes "metrics_ok s"
  shows "bl_builds (list_builds (int n) (int k) s) = take n (drop k (rev (map row_of_entry (ms_rows s))))"
  by (simp add: list_builds_def limited_def rows_in_order [OF assms] take_map drop_map rev_map)

text \<open>The builds that a session records, and what a row shows of them.\<close>

fun build_done :: "effect \<Rightarrow> (string \<times> string \<times> string \<times> u64) option" where
  "build_done (RecordedBuild drv_path env platform builder_id result peak) =
     Some (drv_path, platform, builder_id, br_status result)"
| "build_done e = None"

definition shown_build :: "build_row \<Rightarrow> string \<times> string \<times> string \<times> u64" where
  "shown_build b = (bw_drv_path b, bw_system b, bw_builder_id b, bw_status b)"

lemma recorded_rows:
  "map shown_build (map row_of_entry (ms_rows (fold (recorded (\<lambda>_. False)) es s))) =
     map shown_build (map row_of_entry (ms_rows s)) @ List.map_filter build_done es"
proof (induction es arbitrary: s)
  case (Cons e es)
  show ?case
    unfolding fold_Cons comp_apply Cons.IH
    by (cases e) (simp_all add: List.map_filter_def metrics_record_build_def insert_record_def shown_build_def
        row_of_entry_def entry_of_record_def)
qed (simp add: List.map_filter_def)

text \<open>
  C36: the list of builds, page by page. After any sessions whose builds the database took, the pages
  of any size, put one behind the other, show every build that was recorded exactly once, the newest
  first, under the keys from the number of builds down to 1; and each page carries that number.
\<close>

theorem builds_paged:
  assumes "s = fold (recorded (\<lambda>_. False)) es new_metrics_store"
    and "bs = concat (map (\<lambda>k. bl_builds (list_builds (int n) (int (k * n)) s)) [0..<m])"
    and "length (List.map_filter build_done es) \<le> m * n"
  shows "map shown_build bs = rev (List.map_filter build_done es) \<and> map bw_id bs = rev [1..<Suc (length bs)] \<and>
    bl_total (list_builds limit offset s) = length bs"
proof -
  have ok: "metrics_ok s" unfolding assms(1) by (intro recorded_all_ok new_metrics_ok)
  have rows: "map shown_build (map row_of_entry (ms_rows s)) = List.map_filter build_done es"
    unfolding assms(1) recorded_rows by (simp add: new_metrics_store_def)
  then have "length (ms_rows s) \<le> m * n" using assms(3) by (metis length_map)
  then have bs: "bs = rev (map row_of_entry (ms_rows s))"
    unfolding assms(2) list_builds_page [OF ok] pages_of_list by simp
  have "ms_next_id s = Suc (length (ms_rows s))"
  proof -
    have "map be_id (ms_rows s) = [1..<ms_next_id s]" "1 \<le> ms_next_id s" using ok by (simp_all add: metrics_ok_def)
    then have "length (ms_rows s) = length [1..<ms_next_id s]" by (metis length_map)
    then show ?thesis using \<open>1 \<le> ms_next_id s\<close> by simp
  qed
  then have "map bw_id bs = rev [1..<Suc (length bs)]"
    using ok by (simp add: bs rev_map [symmetric] metrics_ok_def row_of_entry_def comp_def)
  then show ?thesis using rows by (simp add: bs rev_map [symmetric] list_builds_def)
qed

section \<open>The aggregates\<close>

text \<open>At least nine tenths of the durations are at most \<open>d\<close>, and no smaller one of them has that.\<close>

definition nine_tenths :: "int \<Rightarrow> int list \<Rightarrow> bool" where
  "nine_tenths d ds \<longleftrightarrow> (if ds = [] then d = 0
     else d \<in> set ds \<and> d > 0 \<and> 9 * length ds < 10 * length (filter (\<lambda>x. x \<le> d) ds) \<and>
       10 * length (filter (\<lambda>x. x < d) ds) \<le> 9 * length ds)"

lemma sorted_filter_le: "sorted xs \<Longrightarrow> i < length xs \<Longrightarrow> Suc i \<le> length (filter (\<lambda>x. x \<le> xs ! i) xs)"
proof -
  assume "sorted xs" "i < length xs"
  then have "filter (\<lambda>x. x \<le> xs ! i) (take (Suc i) xs) = take (Suc i) xs"
    by (auto simp: filter_id_conv in_set_conv_nth sorted_iff_nth_mono)
  then have "length (take (Suc i) xs) \<le> length (filter (\<lambda>x. x \<le> xs ! i) (take (Suc i) xs @ drop (Suc i) xs))"
    unfolding filter_append by simp
  then show ?thesis using \<open>i < length xs\<close> by simp
qed

lemma sorted_filter_less: "sorted xs \<Longrightarrow> i < length xs \<Longrightarrow> length (filter (\<lambda>x. x < xs ! i) xs) \<le> i"
proof -
  assume "sorted xs" "i < length xs"
  then have "filter (\<lambda>x. x < xs ! i) (drop i xs) = []"
    by (auto simp: filter_empty_conv in_set_conv_nth sorted_iff_nth_mono not_less)
  then have "filter (\<lambda>x. x < xs ! i) (take i xs @ drop i xs) = filter (\<lambda>x. x < xs ! i) (take i xs)"
    unfolding filter_append by simp
  then show ?thesis
    using length_filter_le [of "\<lambda>x. x < xs ! i" "take i xs"] by (simp add: le_trans)
qed

lemma nine_tenths_p90: "\<forall>d \<in> set ds. d > 0 \<Longrightarrow> nine_tenths (p90 ds) ds"
proof (cases "ds = []")
  case False
  assume pos: "\<forall>d \<in> set ds. d > 0"
  let ?i = "9 * length ds div 10" and ?xs = "sort ds"
  have i: "?i < length ?xs" using False by (cases ds) (simp_all add: div_less_iff_less_mult)
  then have p: "p90 ds = ?xs ! ?i" by (simp add: p90_def Cons_nth_drop_Suc [symmetric])
  then have member: "p90 ds \<in> set ds" using nth_mem [OF i] by simp
  have count: "length (filter P ds) = length (filter P ?xs)" for P
    by (metis mset_filter mset_sort size_mset)
  have "Suc ?i \<le> length (filter (\<lambda>x. x \<le> p90 ds) ds)" "length (filter (\<lambda>x. x < p90 ds) ds) \<le> ?i"
    unfolding count p by (intro sorted_filter_le sorted_filter_less sorted_sort i)+
  then show ?thesis using False member pos by (auto simp: nine_tenths_def)
qed (simp add: nine_tenths_def p90_def)

lemma durations_pos: "\<forall>d \<in> set (durations ok rows). d > 0"
  by (auto simp: durations_def)

lemma average_of: "xs \<noteq> [] \<Longrightarrow> average xs * of_nat (length xs) = of_int (sum_list xs)"
  by (simp add: average_def)


lemma builds_paged_witness:
  "\<exists>r bs. bs = concat (map (\<lambda>k. bl_builds (list_builds 2 (int (k * 2))
        (fold (recorded (\<lambda>_. False)) (map (\<lambda>p. RecordedBuild p [] ''x86_64-linux'' ''b1'' r None) [''a'', ''b'', ''c'']) new_metrics_store)))
      [0..<2]) \<and> map bw_id bs = [3, 2, 1] \<and> map bw_drv_path bs = [''c'', ''b'', ''a'']"
proof -
  let ?r = "\<lparr>br_status = 0, br_error_msg = '''', br_times_built = 1, br_is_non_deterministic = False,
         br_start_time = 1, br_stop_time = 5, br_cpu_user = None, br_cpu_system = None,
         br_built_outputs = []\<rparr> :: build_result"
  let ?es = "map (\<lambda>p. RecordedBuild p [] ''x86_64-linux'' ''b1'' ?r None) [''a'', ''b'', ''c'']"
  let ?s = "fold (recorded (\<lambda>_. False)) ?es new_metrics_store"
  define bs where "bs = concat (map (\<lambda>k. bl_builds (list_builds (int 2) (int (k * 2)) ?s)) [0..<2])"
  have "map shown_build bs = rev (List.map_filter build_done ?es) \<and> map bw_id bs = rev [1..<Suc (length bs)] \<and>
      bl_total (list_builds 2 0 ?s) = length bs"
    by (rule builds_paged [OF refl bs_def]) (simp add: List.map_filter_def)
  then have shown: "map shown_build bs =
      [(''c'', ''x86_64-linux'', ''b1'', 0), (''b'', ''x86_64-linux'', ''b1'', 0), (''a'', ''x86_64-linux'', ''b1'', 0)]"
    and ids: "map bw_id bs = rev [1..<Suc (length bs)]"
    by (simp_all add: List.map_filter_def)
  have "length bs = 3" using arg_cong [OF shown, of length] by simp
  moreover have "map bw_drv_path bs = map fst (map shown_build bs)" by (simp add: shown_build_def)
  ultimately have "map bw_id bs = [3, 2, 1] \<and> map bw_drv_path bs = [''c'', ''b'', ''a'']"
    using ids shown by (simp add: upt_rec)
  then show ?thesis using bs_def by (intro exI [of _ ?r] exI [of _ bs]) simp
qed

section \<open>Names of packages\<close>

text \<open>A dash that a digit follows.\<close>

definition version_dash :: "string \<Rightarrow> nat \<Rightarrow> bool" where
  "version_dash s i \<longleftrightarrow> Suc i < length s \<and> s ! i = CHR ''-'' \<and> is_digit (s ! Suc i)"

lemma cut_version_at:
  "k < i \<Longrightarrow> version_dash base k \<Longrightarrow> (\<And>j. k < j \<Longrightarrow> j < i \<Longrightarrow> \<not> version_dash base j) \<Longrightarrow> cut_version i base = take k base"
proof (induction i)
  case (Suc i)
  then show ?case
  proof (cases "k = i")
    case True
    then show ?thesis using Suc.prems(2) by (simp add: version_dash_def)
  next
    case False
    then have "\<not> version_dash base i" "cut_version i base = take k base"
      using Suc by simp_all
    then show ?thesis by (auto simp: version_dash_def)
  qed
qed simp

lemma drv_base_append: "CHR ''/'' \<notin> set name \<Longrightarrow> drv_base (dir @ CHR ''/'' # name) = name"
  by (simp add: drv_base_def takeWhile_append)

lemma trim_suffix_append: "trim_suffix suf (s @ suf) = s"
  by (simp add: trim_suffix_def suffixI)

lemma version_dash_shift: "version_dash (pname @ rest) (length pname + i) \<longleftrightarrow> version_dash rest i"
  by (simp add: version_dash_def nth_append)

text \<open>
  The name a build is filed under. For the path of a derivation as Nix makes it - a directory, a
  hash of 32 characters, the name, a dash and the version, which starts with a digit - it is the name,
  dashes and digits in it included, unless a dash with a digit behind it is left in the version; a
  \<open>pname\<close> of the derivation that is not empty wins in any case.
\<close>

theorem pname_of_derivation:
  assumes "length hash = 32" and "is_digit d" and "CHR ''/'' \<notin> set (hash @ pname @ d # version)"
    and "\<And>i. \<not> version_dash (d # version) i" and "pname \<noteq> []"
    and "drv_path = dir @ ''/'' @ hash @ ''-'' @ pname @ ''-'' @ (d # version) @ ''.drv''"
  shows "extract_pname env drv_path =
    (case map_of env ''pname'' of Some (c # given) \<Rightarrow> c # given | _ \<Rightarrow> pname)"
proof -
  let ?name = "pname @ CHR ''-'' # d # version"
  have base: "trim_suffix ''.drv'' (drv_base drv_path) = hash @ CHR ''-'' # ?name"
    using assms(3) drv_base_append [of "hash @ CHR ''-'' # ?name @ ''.drv''" dir]
      trim_suffix_append [of "''.drv''" "hash @ CHR ''-'' # ?name"]
    by (simp add: assms(6))
  have dash: "version_dash ?name (length pname)" using assms(2) by (simp add: version_dash_def nth_append)
  have rest: "\<not> version_dash ?name j" if "length pname < j" for j
  proof -
    have j: "j = length (pname @ ''-'') + (j - Suc (length pname))" using that by simp
    show ?thesis using version_dash_shift [of "pname @ ''-''" "d # version" "j - Suc (length pname)"] assms(4) j by simp
  qed
  have "cut_version (length ?name) ?name = pname"
    using cut_version_at [OF _ dash, of "length ?name"] rest by simp
  then show ?thesis
    using assms(1,5)
    by (auto simp: extract_pname_def base nth_append Let_def split: option.split list.split)
qed

lemma pname_of_derivation_witness:
  "extract_pname [] (''/nix/store/abcdefghijklmnopqrstuvwxyz012345-gtk+-2-engine-2.20.2.drv'') = ''gtk+-2-engine''"
  using pname_of_derivation [of "''abcdefghijklmnopqrstuvwxyz012345''" "CHR ''2''" "''gtk+-2-engine''" "''.20.2''"
      "''/nix/store/abcdefghijklmnopqrstuvwxyz012345-gtk+-2-engine-2.20.2.drv''" "''/nix/store''" "[]"]
  by (simp add: is_digit_def version_dash_def nth_Cons split: nat.split)

lemma version_left_in_name:
  "extract_pname [] ''/nix/store/abcdefghijklmnopqrstuvwxyz012345-vim-9.0-2024.drv'' = ''vim-9.0''"
  by code_simp

section \<open>What the interface asks for\<close>

lemma page_bounds: "page_limit v \<in> {1..500}" "0 \<le> page_offset v"
  by (auto simp: page_limit_def page_offset_def split: option.split)

text \<open>Status 13 is a success in the summary and none in the statistics of the package.\<close>

lemma status_13:
  assumes "be_status e = 13"
  shows "summary_success e \<and> \<not> package_success e"
  using assms by (simp add: summary_success_def package_success_def)

section \<open>Opening the database\<close>

text \<open>
  \<open>NewStore\<close> and \<open>migrate\<close>: the statements they run, in their order, over \<open>exec\<close>, which runs one. The last
  one adds a column to tables of an older version, and its error is ignored, because it is an error to
  add a column that is there. When a statement fails, the database is closed.
\<close>

datatype statement = UseWal | CreateBuilds | IndexPname | AddPeakMemory

definition migrate :: "(statement \<Rightarrow> ('c, unit) io) \<Rightarrow> ('c, unit) io" where
  "migrate exec = andThen (exec CreateBuilds) (\<lambda>_. andThen (exec IndexPname) (\<lambda>_. ignore (exec AddPeakMemory)))"

definition closing :: "('c \<Rightarrow> 'c) \<Rightarrow> ('c, unit) io \<Rightarrow> ('c, unit) io" where
  "closing close m c = (case m c of (Inl e, c') \<Rightarrow> (Inl e, close c') | (Inr u, c') \<Rightarrow> (Inr u, c'))"

definition new_store :: "('c, unit) io \<Rightarrow> (statement \<Rightarrow> ('c, unit) io) \<Rightarrow> ('c \<Rightarrow> 'c) \<Rightarrow> ('c, unit) io" where
  "new_store opening exec close =
     andThen (wrap ''opening metrics db'' opening) (\<lambda>_.
     closing close
       (andThen (wrap ''setting WAL mode'' (exec UseWal)) (\<lambda>_.
        wrap ''migrating metrics db'' (migrate exec))))"

text \<open>
  What the statements do to the schema of a database: whether it is open, has the table, its column for
  the peak memory, and the index. \<open>CREATE ... IF NOT EXISTS\<close> leaves what is there.
\<close>

record schema =
  db_open :: bool
  db_table :: bool
  db_peak :: bool
  db_index :: bool

fun sql_schema :: "statement \<Rightarrow> (schema, unit) io" where
  "sql_schema UseWal s = (Inr (), s)"
| "sql_schema CreateBuilds s = (Inr (), if db_table s then s else s\<lparr>db_table := True, db_peak := True\<rparr>)"
| "sql_schema IndexPname s = (if db_table s then (Inr (), s\<lparr>db_index := True\<rparr>) else (Inl (Failed ''no such table: builds''), s))"
| "sql_schema AddPeakMemory s = (if \<not> db_table s then (Inl (Failed ''no such table: builds''), s)
     else if db_peak s then (Inl (Failed ''duplicate column name: peak_memory_bytes''), s) else (Inr (), s\<lparr>db_peak := True\<rparr>))"

text \<open>
  Whatever is in the file - nothing, a database of an older version, or of this one -, it opens with the
  table, the column and the index, and opening it again changes nothing.
\<close>

lemma new_store_migrates:
  "new_store (modify (\<lambda>s. s\<lparr>db_open := True\<rparr>)) sql_schema (\<lambda>s. s\<lparr>db_open := False\<rparr>) s =
     (Inr (), s\<lparr>db_open := True, db_table := True, db_peak := True, db_index := True\<rparr>)"
  by (cases s) (simp add: new_store_def migrate_def closing_def andThen_def wrap_def ignore_def modify_def)

end
