(* ===== verification/Gradient_Upload.thy ===== *)
theory Gradient_Upload
  imports Gradient_Peers
begin

text \<open>
  The upload of a build output (\<open>gradientproto/narupload.go\<close>): the compressed archive as a stream,
  its two ways to the server - in chunks over the WebSocket or by one request to a presigned URL -
  and the exchange around them.
\<close>

section \<open>The state of a job\<close>

text \<open>
  A job's handler writes to the connection it shares with the other jobs (\<open>ws_fails\<close> and \<open>ws_tries\<close>
  count its own writes) and does not read from it: \<open>wk_replies i\<close> is what \<open>Client.QueryCache\<close> returns
  for its query number \<open>i\<close> once it was sent. \<open>wk_random i\<close> are the 16 random bytes of that query's
  identifier. \<open>wk_effects\<close> is what the handler did outside the connection.
\<close>

record work = websocket +
  wk_replies :: "nat \<Rightarrow> io_error + server_message"
  wk_random :: "nat \<Rightarrow> byte list"
  wk_queries :: nat
  wk_effects :: "effect list"

definition new_query_id :: "(work, string) io" where
  "new_query_id = asks (\<lambda>wk. hex (wk_random wk (wk_queries wk)))"

definition query_cache :: "string \<Rightarrow> string \<Rightarrow> string list \<Rightarrow> u8 \<Rightarrow> (work, server_message) io" where
  "query_cache job_id query_id paths mode =
     andThen (send_message (CacheQuery job_id query_id paths mode)) (\<lambda>_ wk.
     (wk_replies wk (wk_queries wk), wk\<lparr>wk_queries := Suc (wk_queries wk)\<rparr>))"

section \<open>The compressed archive\<close>

text \<open>
  The reader's end of a pipe: the bytes that come out of it, and the error that ends it unless it
  ends by \<open>EOF\<close>. The zstd encoder is a parameter: \<open>zstd.NewWriter\<close> may fail; otherwise the encoder
  turns what was copied into it, once closed, into its output and the error of closing it.
\<close>

type_synonym pipe = "byte list \<times> io_error option"

type_synonym zstd = "io_error + (byte list \<Rightarrow> byte list \<times> io_error option)"

definition compress_nar :: "execer \<Rightarrow> zstd \<Rightarrow> string \<Rightarrow> pipe" where
  "compress_nar ex z path = (case ex_stream ex (dump_command path) of
       Inl e \<Rightarrow> ([], Some (Wrapped (''gradientproto: starting nix-store --dump for '' @ path) e))
     | Inr (data, copy_err, wait_err) \<Rightarrow> (case z of
         Inl e \<Rightarrow> ([], Some (Wrapped ''gradientproto: creating zstd encoder'' e))
       | Inr enc \<Rightarrow> (case enc data of (out, close_err) \<Rightarrow> (out,
           (case copy_err of
              Some e \<Rightarrow> Some (Wrapped (''gradientproto: compressing NAR for '' @ path) e)
            | None \<Rightarrow> (case close_err of
                Some e \<Rightarrow> Some (Wrapped (''gradientproto: finalizing zstd stream for '' @ path) e)
              | None \<Rightarrow> (case wait_err of
                  Some e \<Rightarrow> Some (Wrapped (''gradientproto: nix-store --dump for '' @ path @ '' failed'') e)
                | None \<Rightarrow> None)))))))"

section \<open>Over the WebSocket\<close>

definition nar_push_chunk_size :: nat where "nar_push_chunk_size = 4 * 1024 * 1024"

record upload_result =
  ur_file_hash :: string
  ur_file_size :: u64

text \<open>The closure \<open>flush\<close>: sends \<open>held\<close> and returns the new offset.\<close>

definition flush_chunk ::
  "string \<Rightarrow> string \<Rightarrow> byte list \<Rightarrow> u64 \<Rightarrow> bool \<Rightarrow> ('w websocket_scheme, u64) io" where
  "flush_chunk job_id path chunk offset final =
     andThen (wrap (''gradientproto: sending NarPush chunk at offset '' @ decimal (unat offset))
       (send_message (NarPush job_id path chunk offset final))) (\<lambda>_.
     succeed (offset + of_nat (length chunk)))"

definition flush_pending ::
  "string \<Rightarrow> string \<Rightarrow> byte list option \<Rightarrow> u64 \<Rightarrow> ('w websocket_scheme, u64) io" where
  "flush_pending job_id path held offset = (case held of
       None \<Rightarrow> succeed offset
     | Some chunk \<Rightarrow> flush_chunk job_id path chunk offset False)"

text \<open>
  The loop and the flush after it, for chunks of \<open>n\<close> bytes. \<open>held\<close> is the chunk read before,
  \<open>data\<close> what the pipe still holds and \<open>end\<close> how it ends: \<open>io.ReadFull\<close> fills the buffer while it can,
  and returns what is left together with the end otherwise. An error of the stream is returned
  before anything that is held back is sent.
\<close>

function push_chunks ::
  "nat \<Rightarrow> string \<Rightarrow> string \<Rightarrow> io_error option \<Rightarrow> byte list option \<Rightarrow> u64 \<Rightarrow> byte list \<Rightarrow>
   ('w websocket_scheme, u64) io" where
  "push_chunks n job_id path fin held offset data =
     (if 0 < n \<and> n \<le> length data then
        andThen (flush_pending job_id path held offset) (\<lambda>offset'.
        push_chunks n job_id path fin (Some (take n data)) offset' (drop n data))
      else (case fin of
          Some e \<Rightarrow> throw (Wrapped (''gradientproto: reading compressed NAR for '' @ path) e)
        | None \<Rightarrow>
            if data = [] then
              flush_chunk job_id path (case held of None \<Rightarrow> [] | Some chunk \<Rightarrow> chunk) offset True
            else
              andThen (flush_pending job_id path held offset) (\<lambda>offset'.
              flush_chunk job_id path data offset' True)))"
  by pat_completeness auto

termination
  by (relation "measure (\<lambda>(n, job_id, path, fin, held, offset, data). length data)") auto

declare push_chunks.simps [simp del]

definition push_over_websocket ::
  "(byte list \<Rightarrow> byte list) \<Rightarrow> pipe \<Rightarrow> string \<Rightarrow> string \<Rightarrow> ('w websocket_scheme, upload_result) io" where
  "push_over_websocket digest r job_id path =
     andThen (push_chunks nar_push_chunk_size job_id path (snd r) None 0 (fst r)) (\<lambda>offset.
     succeed \<lparr>ur_file_hash = ''sha256:'' @ hex (digest (fst r)), ur_file_size = offset\<rparr>)"

section \<open>To a presigned URL\<close>

text \<open>
  What the HTTP client makes of a \<open>PUT\<close> of a body with a declared length: the request cannot be built,
  or fails, or is answered with a status after \<open>k\<close> bytes of the body were read.
\<close>

datatype put_outcome = BadRequest io_error | PutFailed io_error | PutAnswered int nat

type_synonym http_client = "string \<Rightarrow> pipe \<Rightarrow> int option \<Rightarrow> put_outcome"

definition put_presigned ::
  "(byte list \<Rightarrow> byte list) \<Rightarrow> http_client \<Rightarrow> string \<Rightarrow> pipe \<Rightarrow> int \<Rightarrow> io_error + upload_result" where
  "put_presigned digest http url r len =
     (case http url r (if len \<ge> 0 then Some len else None) of
        BadRequest e \<Rightarrow> Inl (Wrapped ''gradientproto: building presigned PUT request'' e)
      | PutFailed e \<Rightarrow> Inl (Wrapped ''gradientproto: presigned PUT failed'' e)
      | PutAnswered status k \<Rightarrow>
          if status < 200 \<or> status \<ge> 300
          then Inl (Failed (''gradientproto: presigned PUT returned status '' @ decimal (nat status)))
          else Inr \<lparr>ur_file_hash = ''sha256:'' @ hex (digest (take k (fst r))),
                    ur_file_size = of_nat (length (take k (fst r)))\<rparr>)"

section \<open>One output\<close>

text \<open>
  What the worker uses besides its connection, while it works on one task: the store host, the pool
  of builders (an error text, or an identifier, the sessions of that builder and the commands run on
  it), the JSON decoders, SHA-256, the encoder, the HTTP client, and \<open>%q\<close> for multi-byte characters.
\<close>

record worker_world =
  ww_store :: "execer option"
  ww_builder :: "string \<Rightarrow> string \<Rightarrow> string + (string \<times> remote \<times> execer)"
  ww_show :: "string \<Rightarrow> io_error + derivation_show"
  ww_paths :: "string \<Rightarrow> io_error + (string \<times> json_path_info option) list"
  ww_of_json :: "string \<Rightarrow> realisation option"
  ww_digest :: "byte list \<Rightarrow> byte list"
  ww_zstd :: zstd
  ww_http :: http_client
  ww_quote :: "string \<Rightarrow> string"

definition lift_result :: "io_error + 'a \<Rightarrow> ('s, 'a) io" where
  "lift_result r s = (r, s)"

definition upload_archive :: "worker_world \<Rightarrow> execer \<Rightarrow> string \<Rightarrow> string \<Rightarrow> cached_path \<Rightarrow> (work, upload_result) io" where
  "upload_archive w ex job_id path status =
     (let r = compress_nar ex (ww_zstd w) path in
      case cp_url status of
        Some url \<Rightarrow> lift_result (put_presigned (ww_digest w) (ww_http w) url r (- 1))
      | None \<Rightarrow> push_over_websocket (ww_digest w) r job_id path)"

definition upload_output :: "worker_world \<Rightarrow> execer \<Rightarrow> string \<Rightarrow> string \<Rightarrow> (work, json_path_info) io" where
  "upload_output w ex job_id path =
     andThen (lift_result (query_path_info ex (ww_quote w) (ww_paths w) path)) (\<lambda>info.
     andThen new_query_id (\<lambda>query_id.
     andThen (wrap (''gradientproto: querying cache for '' @ path)
       (query_cache job_id query_id [path] query_mode_push)) (\<lambda>resp.
     if sm_kind resp = MsgCacheError then
       throw (Failed (''gradientproto: server reported a cache-query error for '' @ path @ '': '' @ sm_message resp))
     else if sm_kind resp \<noteq> MsgCacheStatus then
       throw (Failed (''gradientproto: unexpected response to CacheQuery for '' @ path @ '': kind '' @
         decimal (kind_number (sm_kind resp))))
     else (case sm_cached resp of
         [status] \<Rightarrow>
           if cp_cached status then succeed info
           else
           andThen (upload_archive w ex job_id path status) (\<lambda>result.
           andThen (wrap (''gradientproto: sending NarUploaded for '' @ path)
             (send_message (NarUploaded job_id path (ur_file_hash result) (ur_file_size result)
                (jp_nar_size info) (jp_nar_hash info) (jp_references info) (jp_deriver info) (jp_ca info)))) (\<lambda>_.
           succeed info))
       | cached \<Rightarrow> throw (Failed (''gradientproto: CacheStatus for '' @ path @ '' returned '' @
           decimal (length cached) @ '' entries, want 1''))))))"

section \<open>What the server receives\<close>

text \<open>
  The server's side: the chunks of one path of one job, each at the offset where the last one ended,
  up to the one that is final. \<open>acc\<close> is what it has already.
\<close>

fun assemble :: "string \<Rightarrow> string \<Rightarrow> byte list \<Rightarrow> client_message list \<Rightarrow> byte list option" where
  "assemble job_id path acc (NarPush j p chunk offset final # ms) =
     (if j \<noteq> job_id \<or> p \<noteq> path \<or> unat offset \<noteq> length acc then None
      else if final then (if ms = [] then Some (acc @ chunk) else None)
      else assemble job_id path (acc @ chunk) ms)"
| "assemble job_id path acc ms = None"

text \<open>A chunk that is not the last of its archive, and the size of a message's chunk.\<close>

fun not_final :: "client_message \<Rightarrow> bool" where
  "not_final (NarPush j p chunk offset final) = (\<not> final)"
| "not_final m = False"

fun chunk_length :: "client_message \<Rightarrow> nat" where
  "chunk_length (NarPush j p chunk offset final) = length chunk"
| "chunk_length m = 0"

definition sends_work :: "'w websocket_scheme \<Rightarrow> bool" where
  "sends_work ws \<longleftrightarrow> ws_fails ws = (\<lambda>_. None)"

text \<open>What an operation does to the connection: it adds messages, and its result is as \<open>P\<close> says.\<close>

definition talks :: "('w websocket_scheme, 'a) io \<Rightarrow> (io_error + 'a \<Rightarrow> client_message list \<Rightarrow> bool) \<Rightarrow>
    'w websocket_scheme \<Rightarrow> bool" where
  "talks m P ws \<longleftrightarrow> (case m ws of (res, ws') \<Rightarrow>
     \<exists>ms. ws_sent ws' = ws_sent ws @ ms \<and> ws_fails ws' = ws_fails ws \<and> P res ms)"

lemma talks_weaken: "talks m Q ws \<Longrightarrow> (\<And>res ms. Q res ms \<Longrightarrow> P res ms) \<Longrightarrow> talks m P ws"
  by (fastforce simp: talks_def split: prod.splits)

lemma talks_send:
  assumes "\<And>e. \<not> sends_work ws \<Longrightarrow> P (Inl e) []" and "P (Inr ()) [m]"
  shows "talks (send_message m) P ws"
proof (cases "ws_fails ws (ws_tries ws)")
  case None
  then show ?thesis using assms(2) by (simp add: talks_def send_message_def)
next
  case (Some e)
  then have "\<not> sends_work ws" by (auto simp: sends_work_def)
  then show ?thesis using assms(1) Some by (simp add: talks_def send_message_def)
qed

lemma talks_succeed: "P (Inr v) [] \<Longrightarrow> talks (succeed v) P ws"
  by (simp add: talks_def succeed_def)

lemma talks_throw: "P (Inl e) [] \<Longrightarrow> talks (throw e) P ws"
  by (simp add: talks_def throw_def)

lemma talks_wrap:
  "talks m (\<lambda>res ms. P (case res of Inl e \<Rightarrow> Inl (Wrapped msg e) | Inr v \<Rightarrow> Inr v) ms) ws \<Longrightarrow>
     talks (wrap msg m) P ws"
  by (auto simp: talks_def wrap_def split: sum.splits prod.splits)

lemma talks_then:
  assumes "talks m Q ws"
    and "\<And>e ms. Q (Inl e) ms \<Longrightarrow> P (Inl e) ms"
    and "\<And>v ms ws'. Q (Inr v) ms \<Longrightarrow> ws_fails ws' = ws_fails ws \<Longrightarrow> talks (f v) (\<lambda>res ms'. P res (ms @ ms')) ws'"
  shows "talks (andThen m f) P ws"
proof -
  obtain res ws' where m: "m ws = (res, ws')" by fastforce
  then obtain ms where ms: "ws_sent ws' = ws_sent ws @ ms" "ws_fails ws' = ws_fails ws" "Q res ms"
    using assms(1) by (auto simp: talks_def)
  show ?thesis
  proof (cases res)
    case (Inl e)
    then show ?thesis using m ms assms(2) by (auto simp: talks_def andThen_def)
  next
    case (Inr v)
    then show ?thesis using m ms assms(3) [of v ms ws'] by (fastforce simp: talks_def andThen_def split: prod.splits)
  qed
qed

lemma talks_flush:
  assumes "\<And>e. \<not> sends_work ws \<Longrightarrow> P (Inl e) []"
    and "P (Inr (offset + of_nat (length chunk))) [NarPush job_id path chunk offset final]"
  shows "talks (flush_chunk job_id path chunk offset final) P ws"
  unfolding flush_chunk_def
  by (rule talks_then [where Q = "\<lambda>res ms. case res of
        Inl e \<Rightarrow> \<not> sends_work ws \<and> ms = [] | Inr v \<Rightarrow> ms = [NarPush job_id path chunk offset final]"])
    (auto intro!: talks_wrap talks_send talks_succeed assms)

text \<open>The outcome of a push: \<open>full\<close> was \<open>acc\<close> and all that was still to come.\<close>

definition pushed :: "nat \<Rightarrow> string \<Rightarrow> string \<Rightarrow> bool \<Rightarrow> bool \<Rightarrow> byte list \<Rightarrow> byte list \<Rightarrow>
    io_error + u64 \<Rightarrow> client_message list \<Rightarrow> bool" where
  "pushed n job_id path ends works acc full res ms \<longleftrightarrow>
     (\<forall>m \<in> set ms. chunk_length m \<le> n) \<and>
     (case res of
        Inl e \<Rightarrow> \<not> (ends \<and> works) \<and> (\<forall>m \<in> set ms. not_final m)
      | Inr offset \<Rightarrow> ends \<and> assemble job_id path acc ms = Some full \<and> offset = of_nat (length full))"

lemma pushed_after:
  assumes "unat (of_nat (length acc) :: u64) = length acc"
  shows "pushed n job_id path ends works acc full res
      (NarPush job_id path chunk (of_nat (length acc)) False # ms) \<longleftrightarrow>
    length chunk \<le> n \<and> pushed n job_id path ends works (acc @ chunk) full res ms"
  using assms by (auto simp: pushed_def split: sum.splits)

lemma talks_flush_pending:
  assumes "\<And>e. \<not> sends_work ws \<Longrightarrow> P (Inl e) []"
    and "held = None \<Longrightarrow> P (Inr offset) []"
    and "\<And>chunk. held = Some chunk \<Longrightarrow>
      P (Inr (offset + of_nat (length chunk))) [NarPush job_id path chunk offset False]"
  shows "talks (flush_pending job_id path held offset) P ws"
  using assms talks_flush [of ws P]
  by (cases held) (auto simp: flush_pending_def talks_def succeed_def)

text \<open>What has been held back comes first, whatever is done after it.\<close>

lemma talks_pending_then:
  assumes "length acc + length h < 2 ^ 64" and "h = (case held of None \<Rightarrow> [] | Some c \<Rightarrow> c)" and "length h \<le> n"
    and "\<And>ws'. ws_fails ws' = ws_fails ws \<Longrightarrow>
      talks (f (of_nat (length (acc @ h)))) (pushed n job_id path ends (sends_work ws) (acc @ h) full) ws'"
  shows "talks (andThen (flush_pending job_id path held (of_nat (length acc))) f)
    (pushed n job_id path ends (sends_work ws) acc full) ws"
proof (rule talks_then [where Q = "\<lambda>res ms. case res of
      Inl e \<Rightarrow> \<not> sends_work ws \<and> ms = []
    | Inr v \<Rightarrow> v = of_nat (length (acc @ h)) \<and>
        ms = (case held of None \<Rightarrow> [] | Some c \<Rightarrow> [NarPush job_id path c (of_nat (length acc)) False])"])
  have "unat (of_nat (length acc) :: u64) = length acc" using assms(1) by (simp add: unat_of_nat)
  note after = pushed_after [OF this]
  fix v :: u64 and ms and ws' :: "'a websocket_scheme"
  assume v: "case Inr v of
      Inl e \<Rightarrow> \<not> sends_work ws \<and> ms = []
    | Inr v \<Rightarrow> v = of_nat (length (acc @ h)) \<and>
        ms = (case held of None \<Rightarrow> [] | Some c \<Rightarrow> [NarPush job_id path c (of_nat (length acc)) False])"
    and same: "ws_fails ws' = ws_fails ws"
  show "talks (f v) (\<lambda>res ms'. pushed n job_id path ends (sends_work ws) acc full res (ms @ ms')) ws'"
    using assms(4) [OF same] v assms(2,3)
    by (cases held) (auto simp: after)
qed (auto intro!: talks_flush_pending simp: assms(2) pushed_def)

lemma pushed_last:
  assumes "length (acc @ chunk) < 2 ^ 64" and "length chunk \<le> n" and "ws_fails ws' = ws_fails ws"
  shows "talks (flush_chunk job_id path chunk (of_nat (length acc)) True)
    (pushed n job_id path True (sends_work ws) acc (acc @ chunk)) ws'"
proof -
  have "unat (of_nat (length acc) :: u64) = length acc" using assms(1) by (simp add: unat_of_nat)
  then show ?thesis
    using assms by (intro talks_flush) (auto simp: pushed_def sends_work_def)
qed

lemma talks_push_chunks:
  assumes "0 < n" and "length (acc @ h @ data) < 2 ^ 64" and "h = (case held of None \<Rightarrow> [] | Some c \<Rightarrow> c)"
    and "length h \<le> n" and "ws_fails ws' = ws_fails ws"
  shows "talks (push_chunks n job_id path fin held (of_nat (length acc)) data)
    (pushed n job_id path (fin = None) (sends_work ws) acc (acc @ h @ data)) ws'"
  using assms(2-)
proof (induction "length data" arbitrary: data acc held h ws' rule: less_induct)
  case less
  have works: "sends_work ws' \<longleftrightarrow> sends_work ws" using less.prems(4) by (simp add: sends_work_def)
  consider "n \<le> length data" | e where "length data < n" "fin = Some e" | "length data < n" "fin = None"
    by (cases fin) (use not_le in blast)+
  then show ?case
  proof cases
    case 1
    have "talks (push_chunks n job_id path fin (Some (take n data)) (of_nat (length (acc @ h))) (drop n data))
        (pushed n job_id path (fin = None) (sends_work ws) (acc @ h) ((acc @ h) @ take n data @ drop n data)) ws''"
      if "ws_fails ws'' = ws_fails ws'" for ws'' :: "'a websocket_scheme"
      using 1 assms(1) less.prems that by (intro less.hyps) auto
    then have "talks (andThen (flush_pending job_id path held (of_nat (length acc)))
          (\<lambda>offset'. push_chunks n job_id path fin (Some (take n data)) offset' (drop n data)))
        (pushed n job_id path (fin = None) (sends_work ws) acc (acc @ h @ data)) ws'"
      using less.prems by (intro talks_pending_then [of acc h held n ws', unfolded works]) simp_all
    then show ?thesis using 1 assms(1) by (subst push_chunks.simps) simp
  next
    case 2
    then show ?thesis
      by (subst push_chunks.simps) (auto simp: talks_def throw_def pushed_def)
  next
    case 3
    show ?thesis
    proof (cases "data = []")
      case True
      have "talks (flush_chunk job_id path h (of_nat (length acc)) True)
          (pushed n job_id path True (sends_work ws) acc (acc @ h)) ws'"
        using less.prems True by (intro pushed_last) simp_all
      then show ?thesis using 3 assms(1) True less.prems(2) by (subst push_chunks.simps) simp
    next
      case False
      have "talks (flush_chunk job_id path data (of_nat (length (acc @ h))) True)
          (pushed n job_id path True (sends_work ws) (acc @ h) ((acc @ h) @ data)) ws''"
        if "ws_fails ws'' = ws_fails ws'" for ws'' :: "'a websocket_scheme"
        using less.prems 3 that by (intro pushed_last) simp_all
      then have "talks (andThen (flush_pending job_id path held (of_nat (length acc)))
            (\<lambda>offset'. flush_chunk job_id path data offset' True))
          (pushed n job_id path True (sends_work ws) acc (acc @ h @ data)) ws'"
        using less.prems by (intro talks_pending_then [of acc h held n ws', unfolded works]) simp_all
      then show ?thesis using 3 assms(1) False by (subst push_chunks.simps) simp
    qed
  qed
qed

lemma talks_push_over_websocket:
  assumes "length (fst r) < 2 ^ 64"
  shows "talks (push_over_websocket digest r job_id path) (\<lambda>res ms.
    (\<forall>m \<in> set ms. chunk_length m \<le> nar_push_chunk_size) \<and>
    (case res of
       Inr u \<Rightarrow> snd r = None \<and> assemble job_id path [] ms = Some (fst r) \<and>
         ur_file_hash u = ''sha256:'' @ hex (digest (fst r)) \<and> unat (ur_file_size u) = length (fst r)
     | Inl e \<Rightarrow> (snd r \<noteq> None \<or> \<not> sends_work ws) \<and> (\<forall>m \<in> set ms. not_final m))) ws"
proof -
  let ?P = "pushed nar_push_chunk_size job_id path (snd r = None) (sends_work ws) [] (fst r)"
  have "talks (push_chunks nar_push_chunk_size job_id path (snd r) None (of_nat (length [])) (fst r)) ?P ws"
    using talks_push_chunks [of nar_push_chunk_size "[]" "[]" "fst r" None ws ws] assms
    by (simp add: nar_push_chunk_size_def)
  then have "talks (push_over_websocket digest r job_id path) (\<lambda>res ms. case res of
      Inl e \<Rightarrow> ?P (Inl e) ms
    | Inr u \<Rightarrow> ?P (Inr (ur_file_size u)) ms \<and> ur_file_hash u = ''sha256:'' @ hex (digest (fst r))) ws"
    unfolding push_over_websocket_def
    by (auto intro!: talks_succeed elim!: talks_then)
  then show ?thesis
    by (rule talks_weaken) (use assms in \<open>auto simp: pushed_def unat_of_nat split: sum.splits\<close>)
qed



section \<open>An upload as a whole\<close>

text \<open>
  What \<open>uploadOutput\<close> may do, as messages: the query; then nothing if the server has the path, or the
  pushed archive unless there is a URL, and the registration of what was uploaded.
\<close>

definition archive_of :: "worker_world \<Rightarrow> execer \<Rightarrow> string \<Rightarrow> pipe" where
  "archive_of w ex path = compress_nar ex (ww_zstd w) path"

definition registers :: "string \<Rightarrow> string \<Rightarrow> upload_result \<Rightarrow> json_path_info \<Rightarrow> client_message" where
  "registers job_id path r info = NarUploaded job_id path (ur_file_hash r) (ur_file_size r)
     (jp_nar_size info) (jp_nar_hash info) (jp_references info) (jp_deriver info) (jp_ca info)"

fun is_upload :: "client_message \<Rightarrow> bool" where
  "is_upload (NarPush j p chunk offset final) = True"
| "is_upload (NarUploaded j p fh fs ns nh rs d c) = True"
| "is_upload (CacheQuery j q ps m) = True"
| "is_upload m = False"

fun is_registration :: "client_message \<Rightarrow> bool" where
  "is_registration (NarUploaded j p fh fs ns nh rs d c) = True"
| "is_registration m = False"

definition uploaded ::
  "worker_world \<Rightarrow> execer \<Rightarrow> string \<Rightarrow> string \<Rightarrow> io_error + json_path_info \<Rightarrow> client_message list \<Rightarrow> bool" where
  "uploaded w ex job_id path res ms \<longleftrightarrow> (\<forall>m \<in> set ms. is_upload m) \<and>
     (case res of
        Inl e \<Rightarrow> \<forall>m \<in> set ms. \<not> is_registration m
      | Inr info \<Rightarrow> query_path_info ex (ww_quote w) (ww_paths w) path = Inr info \<and>
          (\<exists>q. ms = [CacheQuery job_id q [path] query_mode_push] \<or>
            (\<exists>r pushes. ms = CacheQuery job_id q [path] query_mode_push # pushes @ [registers job_id path r info] \<and>
              (\<forall>m \<in> set pushes. \<not> is_registration m) \<and>
              (pushes = [] \<or> snd (archive_of w ex path) = None \<and>
                assemble job_id path [] pushes = Some (fst (archive_of w ex path)) \<and>
                ur_file_hash r = ''sha256:'' @ hex (ww_digest w (fst (archive_of w ex path))) \<and>
                unat (ur_file_size r) = length (fst (archive_of w ex path))))))"

lemma assemble_pushes:
  "assemble job_id path acc ms = Some data \<Longrightarrow> m \<in> set ms \<Longrightarrow> is_upload m \<and> \<not> is_registration m"
  by (induction job_id path acc ms rule: assemble.induct) (auto split: if_splits)

lemma not_final_pushes: "not_final m \<Longrightarrow> is_upload m \<and> \<not> is_registration m"
  by (cases m) auto

lemma talks_query:
  assumes "\<And>e. P (Inl e) []" and "\<And>res. P res [CacheQuery job_id q ps mode]"
  shows "talks (query_cache job_id q ps mode) P ws"
proof (cases "ws_fails ws (ws_tries ws)")
  case None
  then show ?thesis using assms(2) by (simp add: talks_def query_cache_def andThen_def send_message_def)
next
  case (Some e)
  then show ?thesis using assms(1) by (simp add: talks_def query_cache_def andThen_def send_message_def)
qed

lemma talks_archive:
  assumes "length (fst (archive_of w ex path)) < 2 ^ 64"
  shows "talks (upload_archive w ex job_id path status) (\<lambda>res ms.
      (\<forall>m \<in> set ms. is_upload m \<and> \<not> is_registration m) \<and>
      (\<forall>r. res = Inr r \<longrightarrow> ms = [] \<or> snd (archive_of w ex path) = None \<and>
         assemble job_id path [] ms = Some (fst (archive_of w ex path)) \<and>
         ur_file_hash r = ''sha256:'' @ hex (ww_digest w (fst (archive_of w ex path))) \<and>
         unat (ur_file_size r) = length (fst (archive_of w ex path)))) ws"
proof (cases "cp_url status")
  case None
  have "talks (push_over_websocket (ww_digest w) (archive_of w ex path) job_id path) (\<lambda>res ms. case res of
      Inr r \<Rightarrow> snd (archive_of w ex path) = None \<and> assemble job_id path [] ms = Some (fst (archive_of w ex path)) \<and>
        ur_file_hash r = ''sha256:'' @ hex (ww_digest w (fst (archive_of w ex path))) \<and>
        unat (ur_file_size r) = length (fst (archive_of w ex path))
    | Inl e \<Rightarrow> \<forall>m \<in> set ms. not_final m) ws"
    by (rule talks_weaken [OF talks_push_over_websocket [OF assms]]) (simp split: sum.splits)
  then show ?thesis
    unfolding upload_archive_def archive_of_def [symmetric] Let_def None option.case
    by (rule talks_weaken) (use assemble_pushes not_final_pushes in \<open>auto split: sum.splits\<close>)
next
  case (Some url)
  then show ?thesis by (simp add: upload_archive_def Let_def lift_result_def talks_def)
qed

lemma talks_lift: "P r [] \<Longrightarrow> talks (lift_result r) P ws"
  by (simp add: talks_def lift_result_def)

lemma uploaded_Inl:
  "\<forall>m \<in> set ms. is_upload m \<and> \<not> is_registration m \<Longrightarrow> uploaded w ex job_id path (Inl e) ms"
  by (simp add: uploaded_def)

lemma uploaded_cached:
  "query_path_info ex (ww_quote w) (ww_paths w) path = Inr info \<Longrightarrow>
     uploaded w ex job_id path (Inr info) [CacheQuery job_id q [path] query_mode_push]"
  by (simp add: uploaded_def)

text \<open>After the answer to the query.\<close>

lemma talks_registered:
  assumes "length (fst (archive_of w ex path)) < 2 ^ 64"
    and info: "query_path_info ex (ww_quote w) (ww_paths w) path = Inr info"
  shows "talks (andThen (upload_archive w ex job_id path status) (\<lambda>result.
      andThen (wrap msg (send_message (registers job_id path result info))) (\<lambda>_. succeed info)))
    (\<lambda>res ms. uploaded w ex job_id path res (CacheQuery job_id q [path] query_mode_push # ms)) ws"
proof (rule talks_then [OF talks_archive [OF assms(1)]])
  fix r :: upload_result and ms and ws' :: work
  assume archive: "(\<forall>m \<in> set ms. is_upload m \<and> \<not> is_registration m) \<and>
      (\<forall>r'. Inr r = Inr r' \<longrightarrow> ms = [] \<or> snd (archive_of w ex path) = None \<and>
         assemble job_id path [] ms = Some (fst (archive_of w ex path)) \<and>
         ur_file_hash r' = ''sha256:'' @ hex (ww_digest w (fst (archive_of w ex path))) \<and>
         unat (ur_file_size r') = length (fst (archive_of w ex path)))"
  let ?U = "\<lambda>res ms'. uploaded w ex job_id path res (CacheQuery job_id q [path] query_mode_push # ms @ ms')"
  have "talks (wrap msg (send_message (registers job_id path r info)))
      (\<lambda>res ms. ms = (case res of Inl e \<Rightarrow> [] | Inr v \<Rightarrow> [registers job_id path r info])) ws'"
    by (intro talks_wrap talks_send) simp_all
  then have "talks (andThen (wrap msg (send_message (registers job_id path r info))) (\<lambda>_. succeed info)) ?U ws'"
  proof (rule talks_then)
    fix v ms' and ws'' :: work
    assume "ms' = (case Inr v of Inl e \<Rightarrow> [] | Inr v \<Rightarrow> [registers job_id path r info])"
    then show "talks (succeed info) (\<lambda>res ms''. ?U res (ms' @ ms'')) ws''"
      using archive info by (intro talks_succeed) (auto simp: uploaded_def registers_def)
  qed (use archive in \<open>auto simp: uploaded_def\<close>)
  then show "talks (andThen (wrap msg (send_message (registers job_id path r info))) (\<lambda>_. succeed info))
      (\<lambda>res ms'. uploaded w ex job_id path res (CacheQuery job_id q [path] query_mode_push # (ms @ ms'))) ws'"
    by simp
qed (auto intro!: uploaded_Inl)

lemma talks_answered:
  assumes "length (fst (archive_of w ex path)) < 2 ^ 64"
    and "query_path_info ex (ww_quote w) (ww_paths w) path = Inr info"
  shows "talks (if sm_kind resp = MsgCacheError then throw e
     else if sm_kind resp \<noteq> MsgCacheStatus then throw e'
     else (case sm_cached resp of
         [status] \<Rightarrow>
           if cp_cached status then succeed info
           else andThen (upload_archive w ex job_id path status) (\<lambda>result.
             andThen (wrap msg (send_message (registers job_id path result info))) (\<lambda>_. succeed info))
       | cached \<Rightarrow> throw (e'' cached)))
    (\<lambda>res ms. uploaded w ex job_id path res (CacheQuery job_id q [path] query_mode_push # ms)) ws"
  using assms
  by (auto intro!: talks_throw talks_succeed talks_registered uploaded_Inl uploaded_cached split: list.splits)

lemma andThen_lift: "andThen (lift_result (Inr v)) f s = f v s"
  by (simp add: andThen_def lift_result_def)

lemma andThen_new_id: "andThen new_query_id f wk = f (hex (wk_random wk (wk_queries wk))) wk"
  by (simp add: andThen_def new_query_id_def asks_def)

lemma talks_upload_output:
  assumes "length (fst (archive_of w ex path)) < 2 ^ 64"
  shows "talks (upload_output w ex job_id path) (uploaded w ex job_id path) ws"
proof (cases "query_path_info ex (ww_quote w) (ww_paths w) path")
  case (Inl e)
  then show ?thesis
    by (simp add: upload_output_def talks_def lift_result_def andThen_def uploaded_def)
next
  case (Inr info)
  let ?q = "hex (wk_random ws (wk_queries ws))"
  let ?query = "wrap (''gradientproto: querying cache for '' @ path)
      (query_cache job_id ?q [path] query_mode_push)"
  have query: "talks ?query (\<lambda>res ms. (\<forall>m \<in> set ms. is_upload m \<and> \<not> is_registration m) \<and>
      (\<forall>v. res = Inr v \<longrightarrow> ms = [CacheQuery job_id ?q [path] query_mode_push])) ws"
    by (intro talks_wrap talks_query) (simp_all split: sum.splits)
  have "upload_output w ex job_id path ws = andThen ?query (\<lambda>resp.
      if sm_kind resp = MsgCacheError then
        throw (Failed (''gradientproto: server reported a cache-query error for '' @ path @ '': '' @ sm_message resp))
      else if sm_kind resp \<noteq> MsgCacheStatus then
        throw (Failed (''gradientproto: unexpected response to CacheQuery for '' @ path @ '': kind '' @
          decimal (kind_number (sm_kind resp))))
      else (case sm_cached resp of
          [status] \<Rightarrow>
            if cp_cached status then succeed info
            else andThen (upload_archive w ex job_id path status) (\<lambda>result.
              andThen (wrap (''gradientproto: sending NarUploaded for '' @ path)
                (send_message (registers job_id path result info))) (\<lambda>_. succeed info))
        | cached \<Rightarrow> throw (Failed (''gradientproto: CacheStatus for '' @ path @ '' returned '' @
            decimal (length cached) @ '' entries, want 1'')))) ws"
    by (simp only: upload_output_def Inr andThen_lift andThen_new_id registers_def)
  moreover have "talks (andThen ?query f) (uploaded w ex job_id path) ws" if "\<And>resp ws'. talks (f resp)
      (\<lambda>res ms. uploaded w ex job_id path res (CacheQuery job_id ?q [path] query_mode_push # ms)) ws'" for f
    by (rule talks_then [OF query]) (use that in \<open>auto intro: uploaded_Inl\<close>)
  note this [OF talks_answered [OF assms Inr]]
  ultimately show ?thesis by (simp add: talks_def)
qed

end
