(* ===== verification/Nix_Loops.thy ===== *)
theory Nix_Loops
  imports Nix_Proxy
begin

text \<open>
  Every loop of the proxy ends: each round that goes on has taken bytes from the client, so the
  loops over frames, over an upload and over the operations of a connection unroll, and their bounds
  are never reached.
\<close>

section \<open>Every loop of a session ends\<close>

abbreviation session_unread :: "session \<Rightarrow> nat" where
  "session_unread cd \<equiv> unread (fst cd)"

lemma shrinks_client [shrinking]: "shrinks unread m \<Longrightarrow> shrinks session_unread (client m)"
  unfolding shrinks_def client_def by (auto split: prod.splits) (metis snd_conv)

lemma consumes_client: "consumes unread m \<Longrightarrow> consumes session_unread (client m)"
  unfolding consumes_def by (auto intro: shrinking simp: client_def split: prod.splits)

lemma shrinks_did [shrinking]: "shrinks session_unread (did e)"
  by (simp add: shrinks_def did_def)

lemma shrinks_deferring [shrinking]: "shrinks sz fin \<Longrightarrow> shrinks sz m \<Longrightarrow> shrinks sz (deferring fin m)"
  unfolding shrinks_def deferring_def by (auto split: prod.splits) (metis le_trans snd_conv)

lemma shrinks_only_if [shrinking]: "shrinks sz m \<Longrightarrow> shrinks sz (only_if b m)"
  by (simp add: only_if_def shrinks_succeed)

lemma shrinks_drops [shrinking]: "shrinks unread drop_u64" "shrinks unread drop_bool"
  "shrinks unread drop_string" "shrinks unread drop_strings" "shrinks unread ask_minor"
  unfolding drop_u64_def drop_bool_def drop_string_def drop_strings_def ask_minor_def by (intro shrinking)+

lemma shrinks_stop_work [shrinking]: "shrinks unread stop_work"
  unfolding stop_work_def by (intro shrinking)

lemma shrinks_stop_work_with_error [shrinking]: "shrinks unread (stop_work_with_error msg st)"
  unfolding stop_work_with_error_def by (intro shrinking)

lemma shrinks_read_pair [shrinking]: "shrinks length r \<Longrightarrow> shrinks length r' \<Longrightarrow> shrinks length (read_pair_with r r')"
  unfolding read_pair_with_def by (intro shrinking)

lemma shrinks_read_into [shrinking]: "shrinks length r \<Longrightarrow> shrinks length (read_into n r m)"
  by (induction n arbitrary: m) (auto intro!: shrinking split: prod.splits)

lemma shrinks_read_derivation [shrinking]: "shrinks length read_basic_derivation"
  unfolding read_basic_derivation_def read_named_output_def read_derivation_output_def read_env_entry_def
  by (intro shrinking)

lemma shrinks_discard_raw [shrinking]: "shrinks length (discard_raw_bytes n)"
proof (induction n rule: discard_raw_bytes.induct)
  case (1 n)
  show ?case
  proof (cases "n = 0")
    case True
    then show ?thesis by (subst discard_raw_bytes.simps) (simp add: shrinking)
  next
    case False
    then show ?thesis by (subst discard_raw_bytes.simps) (auto intro!: shrinking 1)
  qed
qed

lemma consumes_discard_frame: "consumes unread discard_frame"
  unfolding discard_frame_def
  by (intro consumes_andThen consumes_wrap consumes_get consumes_read_uint64 shrinking)

interpretation frames: reading_loop unread discard_frame
  by unfold_locales
    (erule consumesD [OF consumes_discard_frame], rule shrinks_consumes [OF consumes_discard_frame])

lemma shrinks_discard_body [shrinking]: "shrinks unread discard_framed_source_body"
  unfolding discard_framed_source_body_def by (rule frames.shrinks_loop)

lemma shrinks_drains [shrinking]: "shrinks unread consume_and_discard_framed_source"
  "shrinks unread (fail_with_drain msg)"
  unfolding consume_and_discard_framed_source_def fail_with_drain_def by (intro shrinking)+

lemma shrinks_fail_mid_upload [shrinking]: "shrinks unread (fail_mid_upload n msg)"
proof -
  have a: "shrinks unread (if n > 0 then get (discard_raw_bytes n) else succeed ())"
    and b: "shrinks unread (stop_work_with_error msg 1)"
    and c: "shrinks unread (andThen (ignore discard_framed_source_body) (\<lambda>_. stop_work_with_error msg 1))"
    by (intro shrinking)+
  show ?thesis
    unfolding shrinks_def fail_mid_upload_def
  proof
    fix s
    obtain r s' where m: "(if n > 0 then get (discard_raw_bytes n) else succeed ()) s = (r, s')" by fastforce
    then have "unread s' \<le> unread s" by (rule shrinksD [OF a])
    moreover have "unread (snd (stop_work_with_error msg 1 s')) \<le> unread s'"
      "unread (snd (andThen (ignore discard_framed_source_body) (\<lambda>_. stop_work_with_error msg 1) s')) \<le> unread s'"
      using b c by (auto simp: shrinks_def)
    ultimately show "unread (snd (case (if n > 0 then get (discard_raw_bytes n) else succeed ()) s of
        (Inl e, c') \<Rightarrow> stop_work_with_error msg 1 c'
      | (Inr _, c') \<Rightarrow> andThen (ignore discard_framed_source_body) (\<lambda>_. stop_work_with_error msg 1) c')) \<le> unread s"
      unfolding m by (cases r) auto
  qed
qed

lemma returning_unread: "unread (up_client (returning (fail_mid_upload n msg) u)) \<le> unread (up_client u)"
  using shrinks_fail_mid_upload [of n msg] by (auto simp: returning_def shrinks_def split: prod.splits) (metis snd_conv)

lemma forward_frame_unread: "unread (up_client (snd (forward_frame n u))) \<le> unread (up_client u)"
proof (induction n u rule: forward_frame.induct)
  case (1 n u)
  show ?case
  proof (cases "n = 0")
    case True
    then show ?thesis by (subst forward_frame.simps) simp
  next
    case False
    obtain r c where g: "get (read_full (min n chunk_size)) (up_client u) = (r, c)" by fastforce
    have c: "unread c \<le> unread (up_client u)"
      by (rule shrinksD [OF shrinks_get [OF shrinks_read_full] g])
    show ?thesis
    proof (cases r)
      case (Inl e)
      then show ?thesis using False c g by (subst forward_frame.simps) (simp add: Let_def)
    next
      case (Inr buf)
      obtain p s where p: "put (write_raw buf) (up_store u) = (p, s)" by fastforce
      show ?thesis
      proof (cases p)
        case (Inl e)
        then show ?thesis
          using False g Inr p c returning_unread [of "n - min n chunk_size" _ "u\<lparr>up_client := c, up_store := s\<rparr>"]
          by (subst forward_frame.simps) (auto simp: Let_def intro: order_trans)
      next
        case p': (Inr v)
        have "unread (up_client (snd (forward_frame (n - min n chunk_size) (u\<lparr>up_client := c, up_store := s\<rparr>)))) \<le> unread c"
          using 1 [OF False refl g [symmetric] Inr p [symmetric] p'] by simp
        then show ?thesis
          using False g Inr p p' c by (subst forward_frame.simps) (simp add: Let_def)
      qed
    qed
  qed
qed

lemma upload_progress:
  assumes "upload_step ready answer u = (res, u')"
  shows "unread (up_client u') \<le> unread (up_client u)" and "res = Inr False \<longrightarrow> unread (up_client u') < unread (up_client u)"
proof -
  obtain r c where g: "get read_uint64 (up_client u) = (r, c)" by fastforce
  have le: "unread c \<le> unread (up_client u)"
    by (rule shrinksD [OF shrinks_get [OF shrinks_read_uint64] g])
  have less: "unread c < unread (up_client u)" if "r = Inr v" for v
    using consumesD [OF consumes_get [OF consumes_read_uint64]] g that by simp
  let ?u = "u\<lparr>up_client := c, up_frames := up_frames u + 1\<rparr>"
  have "unread (up_client u') \<le> unread (up_client u) \<and>
      (res = Inr False \<longrightarrow> unread (up_client u') < unread (up_client u))"
  proof (cases "ready (up_frames u)")
    case True
    then show ?thesis
      using assms returning_unread [of 0 _ "u\<lparr>up_received := True\<rparr>"]
      by (auto simp: upload_step_def split: sum.splits)
  next
    case False
    show ?thesis
    proof (cases r)
      case (Inl e)
      then show ?thesis using assms False g le by (auto simp: upload_step_def)
    next
      case (Inr len)
      obtain p s where p: "put (write_uint64 len) (up_store ?u) = (p, s)" by fastforce
      have l: "unread c < unread (up_client u)" using less Inr by blast
      show ?thesis
      proof (cases p)
        case (Inl e)
        then show ?thesis
          using assms False g Inr p l returning_unread [of "unat len" _ "?u\<lparr>up_store := s\<rparr>"]
          by (auto simp: upload_step_def Let_def intro: order_trans less_imp_le)
      next
        case p': (Inr v)
        obtain b u'' where f: "forward_frame (unat len) (?u\<lparr>up_store := s\<rparr>) = (b, u'')" by fastforce
        have "unread (up_client u'') \<le> unread c"
          using forward_frame_unread [of "unat len" "?u\<lparr>up_store := s\<rparr>"] f by simp
        then show ?thesis
          using assms False g Inr p p' l f by (auto simp: upload_step_def Let_def split: if_splits)
      qed
    qed
  qed
  then show "unread (up_client u') \<le> unread (up_client u)"
    and "res = Inr False \<longrightarrow> unread (up_client u') < unread (up_client u)" by auto
qed

interpretation uploads: reading_loop "\<lambda>u. unread (up_client u)" "upload_step ready answer"
  for ready answer
proof unfold_locales
  show "unread (up_client s') < unread (up_client s)" if "upload_step ready answer s = (Inr False, s')" for s s'
    using upload_progress(2) [OF that] by simp
  show "shrinks (\<lambda>u. unread (up_client u)) (upload_step ready answer)"
    unfolding shrinks_def using upload_progress(1) by (metis prod.collapse)
qed

lemma upload_loop_unread: "unread (up_client (upload_loop ready answer u)) \<le> unread (up_client u)"
  using uploads.shrinks_loop [of ready answer] by (simp add: shrinks_def upload_loop_def)

lemma shrinks_upload_to [shrinking]: "shrinks unread (upload_to w store)"
proof -
  have "shrinks unread (await_store a r b)" for a r b
    unfolding await_store_def by (cases r) (auto intro!: shrinking)
  then have await: "unread (snd (await_store a r b c)) \<le> unread c" for a r b c
    by (simp add: shrinks_def)
  show ?thesis
    unfolding shrinks_def
  proof
    fix c
    let ?a = "fst (read_stderr_stream nil_sink (store, ()))"
    let ?start = "\<lparr>up_store = store, up_client = c, up_frames = 0, up_received = False, up_returned = None\<rparr>"
    let ?u = "upload_loop (w_ready w) ?a ?start"
    have u: "unread (up_client ?u) \<le> unread c" using upload_loop_unread [of "w_ready w" ?a ?start] by simp
    obtain f s where f: "flush (up_store ?u) = (f, s)" by fastforce
    show "unread (snd (upload_to w store c)) \<le> unread c"
    proof (cases "up_returned ?u")
      case (Some res)
      then show ?thesis using u by (simp add: upload_to_def Let_def)
    next
      case None
      then show ?thesis
        using u f order_trans [OF await u] by (cases f) (simp_all add: upload_to_def Let_def)
    qed
  qed
qed

lemma shrinks_handlers [shrinking]:
  "shrinks unread handle_set_options" "shrinks unread handle_add_to_store"
  "shrinks unread handle_query_referrers" "shrinks unread handle_add_temp_root"
  "shrinks unread handle_query_missing"
proof -
  show "shrinks unread handle_set_options"
    unfolding handle_set_options_def by (intro shrinking) (auto intro!: shrinking)
  show "shrinks unread handle_add_to_store"
    unfolding handle_add_to_store_def by (intro shrinking) (auto intro!: shrinking)
  show "shrinks unread handle_query_referrers" "shrinks unread handle_add_temp_root"
    unfolding handle_query_referrers_def handle_add_temp_root_def by (intro shrinking)+
  show "shrinks unread handle_query_missing"
    unfolding handle_query_missing_def read_derived_path_def by (intro shrinking) (auto intro!: shrinking)
qed

text \<open>While another daemon is at work, only the sink touches the client's connection.\<close>

abbreviation sink_unread :: "conn link \<Rightarrow> nat" where
  "sink_unread ck \<equiv> unread (snd ck)"

lemma shrinks_sink_peer [shrinking]: "shrinks sink_unread (peer m)"
  by (auto simp: shrinks_def peer_def split: prod.splits)

lemma shrinks_client_log [shrinking]: "shrinks unread (client_log_sink e)"
  by (cases e)
    (auto intro: shrinking simp: write_stderr_log_def write_stderr_start_activity_def
      write_stderr_stop_activity_def write_stderr_result_def)

lemma shrinks_sink_notify [shrinking]: "shrinks sink_unread (notify client_log_sink e)"
  using shrinks_client_log [of e] by (simp add: shrinks_def notify_def)

lemma shrinks_sink_stream [shrinking]: "shrinks sink_unread (read_stderr_stream client_log_sink)"
proof -
  have "shrinks sink_unread (read_stderr_step client_log_sink)"
    unfolding read_stderr_step_def by (intro shrinking)
  then have "unread (snd (snd (read_stderr_step client_log_sink ck))) \<le> n" if "unread (snd ck) \<le> n" for ck n
    using that by (meson le_trans shrinks_def)
  then show ?thesis
    unfolding shrinks_def read_stderr_stream_def
    by (auto intro: stderr_stream.invariant [where P = "\<lambda>ck. unread (snd ck) \<le> n" for n])
qed

lemma shrinks_sink_options [shrinking]: "shrinks sink_unread (send_set_options client_log_sink)"
  unfolding send_set_options_def by (intro shrinking)

lemma shrinks_with_daemon [shrinking]: "shrinks sink_unread m \<Longrightarrow> shrinks unread (with_daemon io m)"
  unfolding shrinks_def with_daemon_def by (auto split: prod.splits) (metis snd_conv)

lemma shrinks_execute_build [shrinking]:
  "shrinks unread (execute_build b digest of_json client_log_sink path drv mode)"
proof -
  have "shrinks sink_unread (build_on digest of_json client_log_sink path drv mode)"
    unfolding build_on_def by (intro shrinking)
  then have "unread (snd (snd (build_on digest of_json client_log_sink path drv mode ck))) \<le> unread (snd ck)" for ck
    unfolding shrinks_def by blast
  then show ?thesis
    unfolding shrinks_def execute_build_def by (auto split: sum.splits prod.splits) (metis snd_conv)
qed

lemma shrinks_store_handlers [shrinking]:
  "shrinks unread (handle_is_valid_path cfg w)" "shrinks unread (handle_query_valid_paths cfg w)"
  "shrinks unread (handle_query_path_info cfg w)" "shrinks unread (handle_nar_from_path cfg w)"
  "shrinks unread (handle_add_multiple_to_store cfg w)"
proof -
  show "shrinks unread (handle_is_valid_path cfg w)"
    unfolding handle_is_valid_path_def Let_def by (intro shrinking)
  have answer: "shrinks unread (answer_paths ps)" for ps
    unfolding answer_paths_def by (intro shrinking)
  have ask: "shrinks sink_unread (ask_store_valid_paths paths sub)" for paths sub
    unfolding ask_store_valid_paths_def query_valid_paths_on_store_with_substitute_def by (intro shrinking)
  show "shrinks unread (handle_query_valid_paths cfg w)"
    unfolding handle_query_valid_paths_def
    by (auto intro!: shrinking answer ask split: sum.splits)
  have "shrinks unread (path_not_found minor)" for minor
    unfolding path_not_found_def by (intro shrinking)
  then show "shrinks unread (handle_query_path_info cfg w)"
    unfolding handle_query_path_info_def by (auto intro!: shrinking split: sum.splits option.splits)
  show "shrinks unread (handle_nar_from_path cfg w)"
    unfolding handle_nar_from_path_def by (auto intro!: shrinking split: sum.splits option.splits)
  show "shrinks unread (handle_add_multiple_to_store cfg w)"
    unfolding handle_add_multiple_to_store_def by (auto intro!: shrinking split: sum.splits prod.splits)
qed

lemma shrinks_build_with [shrinking]:
  "shrinks session_unread (build_with cfg w path drv mode ident builder mem)"
  unfolding shrinks_def
proof
  fix cd
  let ?run = "client (execute_build builder (w_digest w) (w_of_json w) client_log_sink path drv mode)"
  have fail: "shrinks session_unread (andThen (ignore (client (stop_work_with_error msg 1))) (\<lambda>_. throw e))" for msg e
    by (intro shrinking)
  have send: "shrinks session_unread (andThen (record_build cfg path drv ident r mem) (\<lambda>_. client (send_build_result w r)))" for r
    unfolding record_build_def send_build_result_def by (intro shrinking)
  obtain r s where r: "?run cd = (r, s)" by (rule prod.exhaust)
  then have le: "session_unread s \<le> session_unread cd" by (rule shrinksD [rotated]) (intro shrinking)
  have "session_unread (snd (andThen (ignore (client (stop_work_with_error msg 1))) (\<lambda>_. throw e) s))
      \<le> session_unread cd" for msg e
    by (rule order_trans [OF _ le]) (rule fail [unfolded shrinks_def, THEN spec])
  moreover have "session_unread (snd (andThen (record_build cfg path drv ident q mem)
      (\<lambda>_. client (send_build_result w q)) s)) \<le> session_unread cd" for q
    by (rule order_trans [OF _ le]) (rule send [unfolded shrinks_def, THEN spec])
  ultimately show "session_unread (snd (build_with cfg w path drv mode ident builder mem cd)) \<le> session_unread cd"
    unfolding build_with_def r by (cases r) (simp_all add: Let_def)
qed

lemma shrinks_handle_build [shrinking]: "shrinks session_unread (handle_build_derivation cfg w)"
  unfolding handle_build_derivation_def import_user_inputs_to_shared_store_def
  by (auto intro!: shrinking split: sum.splits prod.splits command_result.splits simp: Let_def)

lemma shrinks_handle_operation [shrinking]: "shrinks session_unread (handle_operation cfg w op)"
  unfolding handle_operation_def by (intro shrinking)

abbreviation serving_unread :: "serving \<Rightarrow> nat" where
  "serving_unread ns \<equiv> session_unread (snd ns)"

lemma shrinks_serving [shrinking]: "shrinks session_unread m \<Longrightarrow> shrinks serving_unread (serving m)"
  unfolding shrinks_def serving_def by (auto split: prod.splits) (metis fst_conv snd_conv)

lemma consumes_read_op: "consumes serving_unread (serving (client read_op))"
proof -
  have c: "consumes session_unread (client read_op)"
    unfolding read_op_def by (intro consumes_client consumes_get consumes_read_uint64)
  have "serving_unread s' < serving_unread s" if "serving (client read_op) s = (Inr v, s')" for s v s'
    using that consumesD [OF c, of "snd s" v "snd s'"] by (auto simp: serving_def split: prod.splits)
  then show ?thesis
    unfolding consumes_def using shrinks_serving [OF shrinks_consumes [OF c]] by blast
qed

lemma serve_step_progress:
  assumes "serve_step cfg ws ns = (res, ns')"
  shows "serving_unread ns' \<le> serving_unread ns" and "res = Inr False \<longrightarrow> serving_unread ns' < serving_unread ns"
proof -
  let ?n = "fst ns + 1"
  obtain r s where r: "serving (client read_op) (?n, snd ns) = (r, s)" by (rule prod.exhaust)
  have le: "serving_unread s \<le> serving_unread ns"
    using shrinksD [OF shrinks_consumes [OF consumes_read_op] r] by simp
  have less: "serving_unread s < serving_unread ns" if "r = Inr op" for op
    using consumesD [OF consumes_read_op, of "(?n, snd ns)" op s] r that by simp
  have rest: "shrinks serving_unread (andThen (ignore (serving (handle_operation cfg w op))) (\<lambda>_.
      andThen (wrap msg (serving (client flush))) (\<lambda>_. succeed b)))" for w op msg and b :: bool
    by (intro shrinking)
  have rest': "serving_unread (snd (andThen (ignore (serving (handle_operation cfg w op))) (\<lambda>_.
      andThen (wrap msg (serving (client flush))) (\<lambda>_. succeed b)) s)) \<le> serving_unread s"
    for w op msg and b :: bool
    by (rule rest [unfolded shrinks_def, THEN spec])
  have ns': "ns' = snd (serve_step cfg ws ns)" and res: "res = fst (serve_step cfg ws ns)" using assms by simp_all
  have s: "serving_unread ns' \<le> serving_unread s"
    unfolding ns' serve_step_def Let_def r by (cases r) (simp_all add: rest' split: io_error.splits)
  have stops: "res \<noteq> Inr False" if "r = Inl e" for e
    unfolding res serve_step_def Let_def r that by (cases e) simp_all
  show "serving_unread ns' \<le> serving_unread ns" using s le by (rule order_trans)
  show "res = Inr False \<longrightarrow> serving_unread ns' < serving_unread ns"
  proof (cases r)
    case (Inl e)
    then show ?thesis using stops by simp
  next
    case (Inr op)
    then show ?thesis using order.strict_trans1 [OF s less] by simp
  qed
qed

interpretation serve_loop: reading_loop serving_unread "serve_step cfg ws" for cfg ws
proof unfold_locales
  show "serving_unread s' < serving_unread s" if "serve_step cfg ws s = (Inr False, s')" for s s'
    using serve_step_progress(2) [OF that] by simp
  show "shrinks serving_unread (serve_step cfg ws)"
    unfolding shrinks_def using serve_step_progress(1) by (metis prod.collapse)
qed

section \<open>The loops without their bounds\<close>

text \<open>
  The loop as the source has it: \<open>loop_ends step n s r\<close> when \<open>step\<close>, repeated from \<open>s\<close> with no bound on
  its rounds, goes on \<open>n\<close> times and then stops with \<open>r\<close>.
\<close>

inductive loop_ends :: "('s, bool) io \<Rightarrow> nat \<Rightarrow> 's \<Rightarrow> (io_error + unit) \<times> 's \<Rightarrow> bool" for step where
  fails: "step s = (Inl e, s') \<Longrightarrow> loop_ends step 0 s (Inl e, s')"
| stops: "step s = (Inr True, s') \<Longrightarrow> loop_ends step 0 s (Inr (), s')"
| goes_on: "step s = (Inr False, s') \<Longrightarrow> loop_ends step n s' r \<Longrightarrow> loop_ends step (Suc n) s r"

context reading_loop
begin

lemma ends: "\<exists>n \<le> sz s. loop_ends step n s (loop_reading sz step s)"
proof (induction "sz s" arbitrary: s rule: less_induct)
  case less
  consider (fails) e s' where "step s = (Inl e, s')" | (stops) s' where "step s = (Inr True, s')"
    | (goes_on) s' where "step s = (Inr False, s')"
    by (metis (full_types) prod.exhaust sum.exhaust)
  then show ?case
  proof cases
    case goes_on
    then obtain n where "n \<le> sz s'" "loop_ends step n s' (loop_reading sz step s')"
      using less progress by blast
    then show ?thesis
      using goes_on progress [OF goes_on] by (intro exI [of _ "Suc n"]) (simp add: unroll_more loop_ends.goes_on)
  qed (auto simp: unroll_error unroll_done intro: loop_ends.intros)
qed

end


end
