(* ===== verification/Nix_Session.thy ===== *)
theory Nix_Session
  imports Nix_Loops
begin

text \<open>
  What keeps a session in step: a handler takes exactly the bytes of its request, whatever it
  answers, and never waits for the client with an answer held back; so does a session of any
  requests.
\<close>

section \<open>Handlers and the client's input\<close>

text \<open>
  \<open>works c\<close>: writes do not fail. \<open>ready ver c\<close>: the state in which the loop waits for a request:
  nothing is held back, nor ever was. All judgements look at the client's connection \<open>p s\<close> inside
  the state \<open>s\<close> of an operation.
\<close>

definition works :: "conn \<Rightarrow> bool" where
  "works c \<longleftrightarrow> sk_room (c_sink c) = None \<and> \<not> c_broken c"

definition ready :: "u64 \<Rightarrow> conn \<Rightarrow> bool" where
  "ready ver c \<longleftrightarrow> works c \<and> pending c = 0 \<and> c_held c = 0 \<and> c_version c = ver"

definition undisturbed :: "conn \<Rightarrow> conn \<Rightarrow> bool" where
  "undisturbed c c' \<longleftrightarrow>
     works c' \<and> c_in c' = c_in c \<and> c_held c' = c_held c \<and> c_version c' = c_version c"

text \<open>
  \<open>quiet p m\<close>: \<open>m\<close> reads nothing from the client. \<open>reads p ver m bs v\<close>: \<open>m\<close> reads exactly \<open>bs\<close>, does
  nothing else, and returns \<open>v\<close>. \<open>takes p ver m bs\<close>: \<open>m\<close> takes exactly \<open>bs\<close>, and whatever it answers
  it never waits with that answer held back.
\<close>

definition quiet :: "('s \<Rightarrow> conn) \<Rightarrow> ('s, 'a) io \<Rightarrow> bool" where
  "quiet p m \<longleftrightarrow> (\<forall>s. works (p s) \<longrightarrow> undisturbed (p s) (p (snd (m s))))"

definition reads :: "('s \<Rightarrow> conn) \<Rightarrow> u64 \<Rightarrow> ('s, 'a) io \<Rightarrow> byte list \<Rightarrow> 'a \<Rightarrow> bool" where
  "reads p ver m bs v \<longleftrightarrow> (\<forall>s rest. ready ver (p s) \<and> c_in (p s) = bs @ rest \<longrightarrow>
     (\<exists>s'. m s = (Inr v, s') \<and> p s' = (p s)\<lparr>c_in := rest\<rparr>))"

definition takes :: "('s \<Rightarrow> conn) \<Rightarrow> u64 \<Rightarrow> ('s, 'a) io \<Rightarrow> byte list \<Rightarrow> bool" where
  "takes p ver m bs \<longleftrightarrow> (\<forall>s rest. ready ver (p s) \<and> c_in (p s) = bs @ rest \<longrightarrow>
     works (p (snd (m s))) \<and> c_held (p (snd (m s))) = 0 \<and> c_version (p (snd (m s))) = ver \<and>
     c_in (p (snd (m s))) = rest)"

named_theorems quietness \<open>operations that read nothing from the client\<close>

lemma ready_input [simp]: "ready ver (c\<lparr>c_in := inp\<rparr>) = ready ver c"
  by (simp add: ready_def works_def pending_def)

lemma readsD: "reads p ver m bs v \<Longrightarrow> ready ver (p s) \<Longrightarrow> c_in (p s) = bs @ rest \<Longrightarrow>
    \<exists>s'. m s = (Inr v, s') \<and> p s' = (p s)\<lparr>c_in := rest\<rparr>"
  by (simp add: reads_def)

lemma reads_succeed: "reads p ver (succeed v) [] v"
  by (simp add: reads_def succeed_eq)

lemma reads_get: "decodes r bs v \<Longrightarrow> reads (\<lambda>c. c) ver (get r) bs v"
  by (auto simp: reads_def get_def ready_def decodesD)

lemma reads_wrap: "reads p ver m bs v \<Longrightarrow> reads p ver (wrap msg m) bs v"
  unfolding reads_def wrap_def by fastforce

lemma reads_andThen:
  assumes "reads p ver m bs v" and "reads p ver (f v) cs w"
  shows "reads p ver (andThen m f) (bs @ cs) w"
  unfolding reads_def
proof (intro allI impI)
  fix s rest assume s: "ready ver (p s) \<and> c_in (p s) = (bs @ cs) @ rest"
  then obtain s' where s': "m s = (Inr v, s')" "p s' = (p s)\<lparr>c_in := cs @ rest\<rparr>"
    using readsD [OF assms(1), of s "cs @ rest"] by auto
  then obtain s'' where "f v s' = (Inr w, s'')" "p s'' = (p s')\<lparr>c_in := rest\<rparr>"
    using readsD [OF assms(2), of s' rest] s by auto
  then show "\<exists>s'. andThen m f s = (Inr w, s') \<and> p s' = p s\<lparr>c_in := rest\<rparr>"
    using s' by (simp add: andThen_def)
qed

lemma reads_asks: "(\<And>s. ready ver (p s) \<Longrightarrow> f s = v) \<Longrightarrow> reads p ver (asks f) [] v"
  by (auto simp: reads_def asks_def)

lemma reads_minor: "reads (\<lambda>c. c) ver ask_minor [] (minor_of ver)"
  unfolding ask_minor_def by (rule reads_asks) (simp add: ready_def)

lemma reads_skip: "reads p ver m bs v \<Longrightarrow> reads p ver (skip m) bs ()"
  unfolding skip_def using reads_andThen [of p ver m bs v "\<lambda>_. succeed ()" "[]" "()"] by (simp add: reads_succeed)

lemma reads_run_all:
  "list_all2 (\<lambda>m bs. reads p ver m bs ()) ms bss \<Longrightarrow> reads p ver (run_all ms) (concat bss) ()"
  by (induction rule: list_all2_induct) (auto intro: reads_succeed reads_andThen)

lemma reads_only_if: "(b \<Longrightarrow> reads p ver m bs ()) \<Longrightarrow> reads p ver (only_if b m) (if b then bs else []) ()"
  by (simp add: only_if_def reads_succeed)

lemma takes_reads: "reads p ver m bs v \<Longrightarrow> takes p ver (f v) cs \<Longrightarrow> takes p ver (andThen m f) (bs @ cs)"
  unfolding takes_def
proof (intro allI impI)
  fix s rest
  assume m: "reads p ver m bs v"
    and f: "\<forall>s rest. ready ver (p s) \<and> c_in (p s) = cs @ rest \<longrightarrow> works (p (snd (f v s))) \<and>
        c_held (p (snd (f v s))) = 0 \<and> c_version (p (snd (f v s))) = ver \<and> c_in (p (snd (f v s))) = rest"
    and s: "ready ver (p s) \<and> c_in (p s) = (bs @ cs) @ rest"
  then obtain s' where "m s = (Inr v, s')" "p s' = (p s)\<lparr>c_in := cs @ rest\<rparr>"
    using readsD [OF m, of s "cs @ rest"] by auto
  then show "works (p (snd (andThen m f s))) \<and> c_held (p (snd (andThen m f s))) = 0 \<and>
      c_version (p (snd (andThen m f s))) = ver \<and> c_in (p (snd (andThen m f s))) = rest"
    using f s by (simp add: andThen_def)
qed

lemma takes_quiet: "quiet p m \<Longrightarrow> takes p ver m []"
  by (auto simp: takes_def quiet_def ready_def undisturbed_def)

lemma takes_last: "reads p ver m bs v \<Longrightarrow> quiet p (f v) \<Longrightarrow> takes p ver (andThen m f) bs"
  using takes_reads [of p ver m bs v f "[]", OF _ takes_quiet] by simp

text \<open>Operations that read nothing.\<close>

lemma undisturbed_refl: "works c \<Longrightarrow> undisturbed c c"
  by (simp add: undisturbed_def)

lemma undisturbed_trans: "undisturbed a b \<Longrightarrow> undisturbed b c \<Longrightarrow> undisturbed a c"
  by (simp add: undisturbed_def)

lemma quietD: "quiet p m \<Longrightarrow> m s = (r, s') \<Longrightarrow> works (p s) \<Longrightarrow> undisturbed (p s) (p s')"
  unfolding quiet_def by (metis snd_conv)

lemma quiet_succeed [quietness]: "quiet p (succeed v)"
  by (simp add: quiet_def succeed_def undisturbed_refl)

lemma quiet_throw [quietness]: "quiet p (throw e)"
  by (simp add: quiet_def throw_def undisturbed_refl)

lemma quiet_asks [quietness]: "quiet p (asks f)"
  by (simp add: quiet_def asks_def undisturbed_refl)

lemma quiet_andThen [quietness]:
  assumes "quiet p m" and "\<And>v. quiet p (f v)"
  shows "quiet p (andThen m f)"
  unfolding quiet_def
proof (intro allI impI)
  fix s assume s: "works (p s)"
  obtain r s' where m: "m s = (r, s')" by (rule prod.exhaust)
  have u: "undisturbed (p s) (p s')" using quietD [OF assms(1) m s] .
  have "undisturbed (p s') (p (snd (f v s')))" for v
    using assms(2) [of v] u by (simp add: quiet_def undisturbed_def)
  then show "undisturbed (p s) (p (snd (andThen m f s)))"
    using u m by (cases r) (auto simp: andThen_def intro: undisturbed_trans)
qed

lemma quiet_wrap [quietness]: "quiet p m \<Longrightarrow> quiet p (wrap msg m)"
  unfolding quiet_def wrap_def by (auto split: prod.splits sum.splits)

lemma quiet_ignore [quietness]: "quiet p m \<Longrightarrow> quiet p (ignore m)"
  by (simp add: quiet_def ignore_def)

lemma quiet_attempt [quietness]: "quiet p m \<Longrightarrow> quiet p (attempt d m)"
  unfolding quiet_def attempt_def by (auto split: prod.splits sum.splits)

lemma quiet_if [quietness]: "quiet p m \<Longrightarrow> quiet p m' \<Longrightarrow> quiet p (if b then m else m')"
  by simp

lemma quiet_run_all [quietness]: "(\<And>m. m \<in> set ms \<Longrightarrow> quiet p m) \<Longrightarrow> quiet p (run_all ms)"
  by (induction ms) (auto intro: quietness)

lemma quiet_flush [quietness]: "quiet (\<lambda>c. c) flush"
  by (simp add: quiet_def flush_def undisturbed_def works_def)

definition emitting :: "writer \<Rightarrow> bool" where
  "emitting w \<longleftrightarrow> (\<exists>bs. emits w bs)"

lemma quiet_put [quietness]: "emitting w \<Longrightarrow> quiet (\<lambda>c. c) (put w)"
  by (auto simp: emitting_def quiet_def undisturbed_def works_def put_def emits_def write_raw_def)

lemma emittingI: "emits w bs \<Longrightarrow> emitting w"
  by (auto simp: emitting_def)

lemma emitting_andThen: "emitting w \<Longrightarrow> emitting (f ()) \<Longrightarrow> emitting (andThen w f)"
  unfolding emitting_def using emits_andThen by blast

lemma emitting_run_all: "(\<And>w. w \<in> set ws \<Longrightarrow> emitting w) \<Longrightarrow> emitting (run_all ws)"
  by (induction ws) (auto intro: emitting_andThen emittingI [OF emits_succeed])

lemmas emitting_basic [quietness] =
  emits_succeed [THEN emittingI] emits_u64 [THEN emittingI] emits_string [THEN emittingI] emits_strings [THEN emittingI]
  emits_bool [THEN emittingI] emits_raw [THEN emittingI] emits_build_result [THEN emittingI]
  emits_error_body [THEN emittingI] emits_fields [THEN emittingI]

lemma quiet_stop_work [quietness]: "quiet (\<lambda>c. c) stop_work"
  unfolding stop_work_def by (intro quietness)

lemma quiet_stop_work_with_error [quietness]: "quiet (\<lambda>c. c) (stop_work_with_error msg st)"
  unfolding stop_work_with_error_def by (intro quietness)

lemma quiet_client_log [quietness]: "quiet (\<lambda>c. c) (client_log_sink e)"
  by (cases e)
    (auto intro!: quietness emitting_andThen emitting_run_all
      simp: write_stderr_log_def write_stderr_start_activity_def
        write_stderr_stop_activity_def write_stderr_result_def)

text \<open>While another daemon is at work, the client is the sink.\<close>

lemma quiet_peer [quietness]: "quiet snd (peer m)"
  by (auto simp: quiet_def peer_def undisturbed_refl split: prod.splits)

lemma quiet_notify [quietness]: "quiet snd (notify client_log_sink e)"
  using quiet_client_log [of e] by (simp add: quiet_def notify_def)

lemma quiet_stream [quietness]: "quiet snd (read_stderr_stream client_log_sink)"
proof -
  have q: "quiet snd (read_stderr_step client_log_sink)"
    unfolding read_stderr_step_def by (intro quietness)
  have step: "undisturbed c (snd (snd (read_stderr_step client_log_sink ck)))" if "undisturbed c (snd ck)" for c ck
  proof -
    have "works (snd ck)" using that by (simp add: undisturbed_def)
    then have "undisturbed (snd ck) (snd (snd (read_stderr_step client_log_sink ck)))"
      using q unfolding quiet_def by blast
    then show ?thesis by (rule undisturbed_trans [OF that])
  qed
  show ?thesis
    unfolding quiet_def read_stderr_stream_def
  proof (intro allI impI)
    fix ck :: "conn link" assume "works (snd ck)"
    then have "undisturbed (snd ck) (snd ck)" by (rule undisturbed_refl)
    then show "undisturbed (snd ck)
        (snd (snd (loop_reading (\<lambda>ck. unread (fst ck)) (read_stderr_step client_log_sink) ck)))"
      by (rule stderr_stream.invariant [where P = "\<lambda>ck'. undisturbed (snd ck) (snd ck')", rotated]) (rule step)
  qed
qed

lemma quiet_options [quietness]: "quiet snd (send_set_options client_log_sink)"
  unfolding send_set_options_def by (intro quietness)

lemma quiet_with_daemon [quietness]: "quiet snd m \<Longrightarrow> quiet (\<lambda>c. c) (with_daemon io m)"
  unfolding quiet_def with_daemon_def by (auto split: prod.splits) (metis snd_conv)

lemma quiet_execute_build [quietness]:
  "quiet (\<lambda>c. c) (execute_build b digest of_json client_log_sink path drv mode)"
proof -
  have q: "quiet snd (build_on digest of_json client_log_sink path drv mode)"
    unfolding build_on_def by (intro quietness)
  show ?thesis
    unfolding quiet_def
  proof (intro allI impI)
    fix c assume c: "works c"
    show "undisturbed c (snd (execute_build b digest of_json client_log_sink path drv mode c))"
      using quietD [OF q] c
      by (fastforce simp: execute_build_def undisturbed_refl split: sum.splits prod.splits)
  qed
qed

section \<open>Requests\<close>

text \<open>The options as the client sends them; the version decides which fields are sent.\<close>

record client_options =
  co_keep_failed :: bool
  co_keep_going :: bool
  co_try_fallback :: bool
  co_verbosity :: u64
  co_max_build_jobs :: u64
  co_max_silent_time :: u64
  co_use_build_hook :: bool
  co_verbose_build :: u64
  co_log_type :: u64
  co_print_build_trace :: u64
  co_build_cores :: u64
  co_use_substitutes :: bool
  co_overrides :: "(string \<times> string) list"

datatype request =
    SetOptions client_options
  | IsValidPath string
  | QueryValidPaths "string list" bool
  | QueryPathInfo string
  | BuildDerivation string basic_derivation u64
  | AddToStoreOld string bool u64 string
  | AddMultipleToStore bool bool "byte list list"
  | NarFromPath string
  | QueryReferrers string
  | AddTempRoot string
  | QueryMissing "(u64 \<times> string \<times> string list) list"

definition wire_client_options :: "u64 \<Rightarrow> client_options \<Rightarrow> byte list" where
  "wire_client_options minor co =
     concat [wire_bool (co_keep_failed co), wire_bool (co_keep_going co), wire_bool (co_try_fallback co),
       wire_u64 (co_verbosity co), wire_u64 (co_max_build_jobs co), wire_u64 (co_max_silent_time co)] @
     (if minor \<ge> 2 then wire_bool (co_use_build_hook co) else []) @
     (if minor \<ge> 4
      then concat [wire_u64 (co_verbose_build co), wire_u64 (co_log_type co), wire_u64 (co_print_build_trace co)]
      else []) @
     (if minor \<ge> 6 then wire_u64 (co_build_cores co) else []) @
     (if minor \<ge> 10 then wire_bool (co_use_substitutes co) else []) @
     (if minor \<ge> 12 then wire_string_map (co_overrides co) else [])"

text \<open>A framed source: non-empty frames behind their lengths, and an empty one at the end.\<close>

definition wire_frames :: "byte list list \<Rightarrow> byte list" where
  "wire_frames fs = concat (map (\<lambda>f. wire_u64 (of_nat (length f)) @ f) fs) @ wire_u64 0"

definition good_frames :: "byte list list \<Rightarrow> bool" where
  "good_frames fs \<longleftrightarrow> (\<forall>f \<in> set fs. f \<noteq> [] \<and> length f < 2 ^ 64)"

definition wire_derived_path :: "u64 \<times> string \<times> string list \<Rightarrow> byte list" where
  "wire_derived_path dp = wire_u64 (fst dp) @ wire_string (fst (snd dp)) @
     (if fst dp = 1 then wire_strings (snd (snd dp)) else [])"

fun request_op :: "request \<Rightarrow> u64" where
  "request_op (SetOptions _) = op_set_options"
| "request_op (IsValidPath _) = op_is_valid_path"
| "request_op (QueryValidPaths _ _) = op_query_valid_paths"
| "request_op (QueryPathInfo _) = op_query_path_info"
| "request_op (BuildDerivation _ _ _) = op_build_derivation"
| "request_op (AddToStoreOld _ _ _ _) = op_add_to_store"
| "request_op (AddMultipleToStore _ _ _) = op_add_multiple_to_store"
| "request_op (NarFromPath _) = op_nar_from_path"
| "request_op (QueryReferrers _) = op_query_referrers"
| "request_op (AddTempRoot _) = op_add_temp_root"
| "request_op (QueryMissing _) = op_query_missing"

fun request_body :: "u64 \<Rightarrow> request \<Rightarrow> byte list" where
  "request_body minor (SetOptions co) = wire_client_options minor co"
| "request_body minor (IsValidPath path) = wire_string path"
| "request_body minor (QueryValidPaths paths sub) =
     wire_strings paths @ (if minor \<ge> 27 then wire_bool sub else [])"
| "request_body minor (QueryPathInfo path) = wire_string path"
| "request_body minor (BuildDerivation path drv mode) = wire_string path @ wire_derivation drv @ wire_u64 mode"
| "request_body minor (AddToStoreOld name fixed recursive algo) =
     concat [wire_string name, wire_bool fixed, wire_u64 recursive, wire_string algo]"
| "request_body minor (AddMultipleToStore repair dont_check fs) =
     wire_bool repair @ wire_bool dont_check @ wire_frames fs"
| "request_body minor (NarFromPath path) = wire_string path"
| "request_body minor (QueryReferrers path) = wire_string path"
| "request_body minor (AddTempRoot path) = wire_string path"
| "request_body minor (QueryMissing dps) =
     wire_u64 (of_nat (length dps)) @ concat (map wire_derived_path dps)"

text \<open>Within the limits of the format, and \<open>AddToStore\<close> only in its old form.\<close>

fun good_request :: "u64 \<Rightarrow> request \<Rightarrow> bool" where
  "good_request minor (SetOptions co) = short_entries (co_overrides co)"
| "good_request minor (IsValidPath path) = short_string path"
| "good_request minor (QueryValidPaths paths sub) = short_strings paths"
| "good_request minor (QueryPathInfo path) = short_string path"
| "good_request minor (BuildDerivation path drv mode) = (short_string path \<and> short_derivation drv)"
| "good_request minor (AddToStoreOld name fixed recursive algo) =
     (minor < 25 \<and> short_string name \<and> short_string algo)"
| "good_request minor (AddMultipleToStore repair dont_check fs) = good_frames fs"
| "good_request minor (NarFromPath path) = short_string path"
| "good_request minor (QueryReferrers path) = short_string path"
| "good_request minor (AddTempRoot path) = short_string path"
| "good_request minor (QueryMissing dps) =
     (length dps < 2 ^ 64 \<and> (\<forall>(t, path, outs) \<in> set dps. short_string path \<and> short_strings outs))"

text \<open>The reads of a request.\<close>

lemma reads_u64: "reads (\<lambda>c. c) ver (get read_uint64) (wire_u64 v) v"
  by (rule reads_get [OF decodes_u64])

lemma reads_bool: "reads (\<lambda>c. c) ver (get read_bool) (wire_bool b) b"
  by (rule reads_get [OF decodes_wire_bool])

lemma reads_string: "short_string s \<Longrightarrow> reads (\<lambda>c. c) ver (get read_string) (wire_string s) s"
  by (rule reads_get [OF decodes_string])

lemma reads_strings: "short_strings ss \<Longrightarrow> reads (\<lambda>c. c) ver (get read_strings) (wire_strings ss) ss"
  by (rule reads_get [OF decodes_strings])

lemma reads_drops:
  "reads (\<lambda>c. c) ver drop_u64 (wire_u64 v) ()" "reads (\<lambda>c. c) ver drop_bool (wire_bool b) ()"
  "short_string s \<Longrightarrow> reads (\<lambda>c. c) ver drop_string (wire_string s) ()"
  "short_strings ss \<Longrightarrow> reads (\<lambda>c. c) ver drop_strings (wire_strings ss) ()"
  unfolding drop_u64_def drop_bool_def drop_string_def drop_strings_def
  by (auto intro: reads_skip [OF reads_u64] reads_skip [OF reads_bool] reads_skip [OF reads_string]
      reads_skip [OF reads_strings])

lemma reads_overrides:
  assumes "short_entries kvs"
  shows "reads (\<lambda>c. c) ver (andThen (get read_uint64) (\<lambda>count.
      skip (get (read_times (unat count) (read_pair_with read_string read_string))))) (wire_string_map kvs) ()"
proof -
  have n: "unat (of_nat (length kvs) :: u64) = length kvs"
    using assms by (simp add: short_entries_def unat_of_nat)
  have "decodes (read_times (length kvs) (read_pair_with read_string read_string))
      (concat (map wire_entry kvs)) kvs"
    using assms by (intro wf_entry.list_reads) (auto simp: short_entries_def)
  then show ?thesis
    unfolding wire_string_map_def
    by (intro reads_andThen [OF reads_u64] reads_skip reads_get) (simp add: n)
qed

lemma takes_set_options:
  assumes "short_entries (co_overrides co)"
  shows "takes (\<lambda>c. c) ver handle_set_options (wire_client_options (minor_of ver) co)"
proof -
  have a: "reads (\<lambda>c. c) ver (run_all [drop_bool, drop_bool, drop_bool, drop_u64, drop_u64, drop_u64])
    (concat [wire_bool (co_keep_failed co), wire_bool (co_keep_going co), wire_bool (co_try_fallback co),
       wire_u64 (co_verbosity co), wire_u64 (co_max_build_jobs co), wire_u64 (co_max_silent_time co)]) ()"
    and b: "reads (\<lambda>c. c) ver (run_all [drop_u64, drop_u64, drop_u64])
      (concat [wire_u64 (co_verbose_build co), wire_u64 (co_log_type co), wire_u64 (co_print_build_trace co)]) ()"
    by (rule reads_run_all; simp add: reads_drops)+
  have "takes (\<lambda>c. c) ver handle_set_options
    (concat [wire_bool (co_keep_failed co), wire_bool (co_keep_going co), wire_bool (co_try_fallback co),
       wire_u64 (co_verbosity co), wire_u64 (co_max_build_jobs co), wire_u64 (co_max_silent_time co)] @ [] @
     (if minor_of ver \<ge> 2 then wire_bool (co_use_build_hook co) else []) @
     (if minor_of ver \<ge> 4 then concat [wire_u64 (co_verbose_build co), wire_u64 (co_log_type co),
        wire_u64 (co_print_build_trace co)] else []) @
     (if minor_of ver \<ge> 6 then wire_u64 (co_build_cores co) else []) @
     (if minor_of ver \<ge> 10 then wire_bool (co_use_substitutes co) else []) @
     (if minor_of ver \<ge> 12 then wire_string_map (co_overrides co) else []))"
    unfolding handle_set_options_def
    by (intro takes_reads [OF a] takes_reads [OF reads_minor] takes_reads [OF reads_only_if]
        takes_last [OF reads_only_if] reads_drops b reads_overrides assms quietness)
  then show ?thesis by (simp only: wire_client_options_def append_Nil)
qed

lemma takes_is_valid_path:
  "short_string path \<Longrightarrow> takes (\<lambda>c. c) ver (handle_is_valid_path cfg w) (wire_string path)"
  unfolding handle_is_valid_path_def Let_def by (intro takes_last [OF reads_string] quietness)

lemma quiet_answer_paths [quietness]: "quiet (\<lambda>c. c) (answer_paths ps)"
  unfolding answer_paths_def by (intro quietness)

lemma quiet_ask_store [quietness]: "quiet snd (ask_store_valid_paths paths sub)"
  unfolding ask_store_valid_paths_def query_valid_paths_on_store_with_substitute_def by (intro quietness)

lemma takes_query_valid_paths:
  assumes "short_strings paths"
  shows "takes (\<lambda>c. c) ver (handle_query_valid_paths cfg w)
    (wire_strings paths @ (if minor_of ver \<ge> 27 then wire_bool sub else []))"
proof -
  have sub: "reads (\<lambda>c. c) ver (if minor_of ver \<ge> 27 then get read_bool else succeed False)
      (if minor_of ver \<ge> 27 then wire_bool sub else []) (if minor_of ver \<ge> 27 then sub else False)"
    by (simp add: reads_bool reads_succeed)
  have "takes (\<lambda>c. c) ver (handle_query_valid_paths cfg w)
    (wire_strings paths @ [] @ (if minor_of ver \<ge> 27 then wire_bool sub else []))"
    unfolding handle_query_valid_paths_def
    by (intro takes_reads [OF reads_strings [OF assms]] takes_reads [OF reads_minor] takes_last [OF sub])
      (auto intro!: quietness split: sum.splits)
  then show ?thesis by simp
qed

lemma emitting_path_info [quietness]: "emitting (write_path_info minor info)"
  unfolding write_path_info_def by (rule emitting_run_all) (auto split: if_splits intro: quietness)

lemma takes_query_path_info:
  assumes "short_string path"
  shows "takes (\<lambda>c. c) ver (handle_query_path_info cfg w) (wire_string path)"
proof -
  have nf: "quiet (\<lambda>c. c) (path_not_found minor)" for minor
    unfolding path_not_found_def by (intro quietness)
  have "takes (\<lambda>c. c) ver (handle_query_path_info cfg w) (wire_string path @ [])"
    unfolding handle_query_path_info_def
    by (intro takes_reads [OF reads_string [OF assms]] takes_last [OF reads_minor])
      (auto intro!: quietness nf split: sum.splits option.splits)
  then show ?thesis by simp
qed

lemma takes_add_to_store_old:
  assumes "minor_of ver < 25" and "short_string name" and "short_string algo"
  shows "takes (\<lambda>c. c) ver handle_add_to_store
    (concat [wire_string name, wire_bool fixed, wire_u64 recursive, wire_string algo])"
proof -
  have r: "reads (\<lambda>c. c) ver (run_all [drop_string, drop_bool, drop_u64, drop_string])
      (concat [wire_string name, wire_bool fixed, wire_u64 recursive, wire_string algo]) ()"
    by (rule reads_run_all) (simp add: reads_drops assms)
  have "takes (\<lambda>c. c) ver (andThen (run_all [drop_string, drop_bool, drop_u64, drop_string]) (\<lambda>_.
      stop_work_with_error ''AddToStore not implemented'' 1))
      (concat [wire_string name, wire_bool fixed, wire_u64 recursive, wire_string algo])"
    by (intro takes_last [OF r] quietness)
  then have "takes (\<lambda>c. c) ver handle_add_to_store
    ([] @ concat [wire_string name, wire_bool fixed, wire_u64 recursive, wire_string algo])"
    unfolding handle_add_to_store_def
    by (intro takes_reads [OF reads_minor])
      (simp only: linorder_not_le [THEN iffD2, OF assms(1)] if_False)
  then show ?thesis by simp
qed

lemma takes_nar_from_path:
  "short_string path \<Longrightarrow> takes (\<lambda>c. c) ver (handle_nar_from_path cfg w) (wire_string path)"
  unfolding handle_nar_from_path_def
  by (intro takes_last [OF reads_string]) (auto intro!: quietness split: sum.splits option.splits)

lemma takes_small:
  assumes "short_string path"
  shows "takes (\<lambda>c. c) ver handle_query_referrers (wire_string path)"
    and "takes (\<lambda>c. c) ver handle_add_temp_root (wire_string path)"
  unfolding handle_query_referrers_def handle_add_temp_root_def
  by (intro takes_last [OF reads_drops(3) [OF assms]] quietness)+

lemma decodes_derived_path:
  "short_string (fst (snd dp)) \<Longrightarrow> short_strings (snd (snd dp)) \<Longrightarrow>
     decodes read_derived_path (wire_derived_path dp) ()"
  unfolding read_derived_path_def wire_derived_path_def
  by (intro decodes_andThen [OF decodes_u64] decodes_andThen [OF decodes_string])
    (auto intro!: decodes_last [OF decodes_strings] decodes_succeed)

lemma takes_query_missing:
  assumes "length dps < 2 ^ 64" and "\<forall>(t, path, outs) \<in> set dps. short_string path \<and> short_strings outs"
  shows "takes (\<lambda>c. c) ver handle_query_missing
    (wire_u64 (of_nat (length dps)) @ concat (map wire_derived_path dps))"
proof -
  have n: "unat (of_nat (length dps) :: u64) = length dps" using assms(1) by (simp add: unat_of_nat)
  have "decodes (read_times (length dps) read_derived_path) (concat (map wire_derived_path dps))
      (map (\<lambda>_. ()) dps)"
    using assms(2) by (intro decodes_times_map decodes_derived_path) auto
  then have "reads (\<lambda>c. c) ver (skip (get (read_times (unat (of_nat (length dps) :: u64)) read_derived_path)))
      (concat (map wire_derived_path dps)) ()"
    by (intro reads_skip reads_get) (simp add: n)
  then show ?thesis
    unfolding handle_query_missing_def
    by (intro takes_reads [OF reads_u64] takes_last) (auto intro!: quietness)
qed

section \<open>Uploads\<close>

text \<open>An invariant of an operation.\<close>

definition keeps :: "('s \<Rightarrow> bool) \<Rightarrow> ('s, 'a) io \<Rightarrow> bool" where
  "keeps P m \<longleftrightarrow> (\<forall>s. P s \<longrightarrow> P (snd (m s)))"

named_theorems keeping \<open>invariants of operations\<close>

lemma keeps_basic [keeping]: "keeps P (succeed v)" "keeps P (throw e)" "keeps P (asks f)"
  by (simp_all add: keeps_def succeed_def throw_def asks_def)

lemma keeps_andThen [keeping]: "keeps P m \<Longrightarrow> (\<And>v. keeps P (f v)) \<Longrightarrow> keeps P (andThen m f)"
  unfolding keeps_def andThen_def by (auto split: prod.splits sum.splits)

lemma keeps_wrap [keeping]: "keeps P m \<Longrightarrow> keeps P (wrap msg m)"
  unfolding keeps_def wrap_def by (auto split: prod.splits sum.splits)

lemma keeps_ignore [keeping]: "keeps P m \<Longrightarrow> keeps P (ignore m)"
  by (simp add: keeps_def ignore_def)

lemma keeps_attempt [keeping]: "keeps P m \<Longrightarrow> keeps P (attempt d m)"
  unfolding keeps_def attempt_def by (auto split: prod.splits sum.splits)

lemma keeps_if [keeping]: "keeps P m \<Longrightarrow> keeps P m' \<Longrightarrow> keeps P (if b then m else m')"
  by simp

lemma keeps_run_all [keeping]: "(\<And>m. m \<in> set ms \<Longrightarrow> keeps P m) \<Longrightarrow> keeps P (run_all ms)"
  by (induction ms) (auto intro: keeping)

lemma keeps_modify [keeping]: "(\<And>s. P s \<Longrightarrow> P (f s)) \<Longrightarrow> keeps P (modify f)"
  by (simp add: keeps_def modify_def)

lemma keeps_skip [keeping]: "keeps P m \<Longrightarrow> keeps P (skip m)"
  unfolding skip_def by (intro keeping)

lemma works_get [keeping]: "keeps works (get r)"
  by (auto simp: keeps_def get_def works_def split: prod.splits)

lemma works_put [keeping]: "emitting w \<Longrightarrow> keeps works (put w)"
  by (auto simp: emitting_def keeps_def works_def put_def emits_def write_raw_def)

lemma works_flush [keeping]: "keeps works flush"
  by (simp add: keeps_def flush_def works_def)

lemma works_peer [keeping]: "keeps works m \<Longrightarrow> keeps (\<lambda>ck. works (fst ck)) (peer m)"
  unfolding keeps_def peer_def by (auto split: prod.splits)

lemma works_notify [keeping]: "keeps (\<lambda>ck. works (fst ck)) (notify sink e)"
  by (simp add: keeps_def notify_def)

lemma works_builder_error [keeping]: "keeps works read_builder_error"
proof -
  have p: "keeps works drop_position" unfolding drop_position_def by (rule keeps_run_all) (auto intro: keeping)
  have "keeps works (drop_traces n)" for n by (induction n) (auto intro!: keeping p)
  with p show ?thesis unfolding read_builder_error_def by (auto intro!: keeping)
qed

lemma works_stream [keeping]: "keeps (\<lambda>ck. works (fst ck)) (read_stderr_stream sink)"
proof -
  have "keeps (\<lambda>ck. works (fst ck)) (read_stderr_step sink)"
    unfolding read_stderr_step_def by (intro keeping)
  then have "works (fst ck) \<Longrightarrow> works (fst (snd (read_stderr_step sink ck)))" for ck
    unfolding keeps_def by blast
  then show ?thesis
    unfolding keeps_def read_stderr_stream_def
    using stderr_stream.invariant [where P = "\<lambda>ck. works (fst ck)"] by blast
qed

lemma works_handshake [keeping]: "keeps works handshake_with_builder"
  unfolding handshake_with_builder_def
  by (auto intro!: keeping quietness simp: works_def)

lemma works_options [keeping]: "keeps (\<lambda>ck. works (fst ck)) (send_set_options sink)"
proof -
  have "keeps works (write_options minor)" for minor
    unfolding write_options_def
    by (intro keeps_run_all) (auto split: if_splits intro!: keeping quietness)
  then show ?thesis
    unfolding send_set_options_def write_op_def by (intro keeping quietness)
qed

lemma works_open_upload:
  "works store \<Longrightarrow> open_upload repair dont_check (store, ()) = (Inr v, (store', u)) \<Longrightarrow> works store'"
proof -
  have "keeps (\<lambda>ck. works (fst ck)) (open_upload repair dont_check)"
    unfolding open_upload_def write_op_def by (rule keeps_run_all) (auto intro!: keeping quietness)
  then show "works store \<Longrightarrow> open_upload repair dont_check (store, ()) = (Inr v, (store', u)) \<Longrightarrow> works store'"
    unfolding keeps_def by (metis fst_conv snd_conv)
qed

text \<open>What a working connection has been sent.\<close>

definition sent :: "byte list \<Rightarrow> conn \<Rightarrow> conn" where
  "sent bs c = c\<lparr>c_sink := (c_sink c)\<lparr>sk_out := sk_out (c_sink c) @ bs\<rparr>\<rparr>"

lemma put_works: "works c \<Longrightarrow> emits w bs \<Longrightarrow> put w c = (Inr (), sent bs c)"
  by (simp add: put_def works_def emits_def write_raw_def sent_def)

lemma works_sent [simp]: "works (sent bs c) = works c"
  by (simp add: works_def sent_def)

lemma sent_sent [simp]: "sent cs (sent bs c) = sent (bs @ cs) c"
  by (simp add: sent_def)

lemma sent_Nil [simp]: "sent [] c = c"
  by (simp add: sent_def)

lemma get_ready: "decodes r bs v \<Longrightarrow> ready ver c \<Longrightarrow> c_in c = bs @ rest \<Longrightarrow> get r c = (Inr v, c\<lparr>c_in := rest\<rparr>)"
  using reads_get [of r bs v] by (auto simp: reads_def)

lemma decodes_discard: "decodes (discard_raw_bytes (length d)) d ()"
proof (induction "length d" arbitrary: d rule: less_induct)
  case less
  show ?case
  proof (cases "d = []")
    case True
    then show ?thesis by (subst discard_raw_bytes.simps) (simp add: decodes_succeed)
  next
    case False
    let ?k = "min (length d) chunk_size"
    have k: "0 < ?k" using False by (simp add: chunk_size_def)
    have "decodes (andThen (read_full (length (take ?k d))) (\<lambda>_. discard_raw_bytes (length (drop ?k d))))
        (take ?k d @ drop ?k d) ()"
      using k False by (intro decodes_andThen [OF decodes_read_full] less) simp
    then show ?thesis using False by (subst discard_raw_bytes.simps) simp
  qed
qed

lemma reads_discard_body:
  assumes "good_frames fs"
  shows "reads (\<lambda>c. c) ver discard_framed_source_body (wire_frames fs) ()"
  unfolding reads_def
proof (intro allI impI)
  fix c rest assume c: "ready ver c \<and> c_in c = wire_frames fs @ rest"
  have last: "discard_frame c = (Inr True, c\<lparr>c_in := rest\<rparr>)" if "ready ver c" "c_in c = wire_u64 0 @ rest" for c
    using get_ready [OF decodes_u64 that] by (simp add: discard_frame_def andThen_def wrap_def succeed_def)
  have more: "discard_frame c = (Inr False, c\<lparr>c_in := r\<rparr>)"
    if "ready ver c" "c_in c = (wire_u64 (of_nat (length f)) @ f) @ r" "f \<noteq> []" "length f < 2 ^ 64" for c f r
  proof -
    have n: "unat (of_nat (length f) :: u64) = length f" using that(4) by (simp add: unat_of_nat)
    then have z: "(of_nat (length f) :: u64) \<noteq> 0" using that(3) by (metis length_0_conv unat_0)
    have "get read_uint64 c = (Inr (of_nat (length f)), c\<lparr>c_in := f @ r\<rparr>)"
      using get_ready [OF decodes_u64 that(1)] that(2) by simp
    moreover have "get (discard_raw_bytes (length f)) (c\<lparr>c_in := f @ r\<rparr>) = (Inr (), c\<lparr>c_in := r\<rparr>)"
      using get_ready [OF decodes_discard [of f], of ver "c\<lparr>c_in := f @ r\<rparr>" r] that(1) by simp
    ultimately show ?thesis using z n by (simp add: discard_frame_def andThen_def wrap_def succeed_def)
  qed
  have "discard_framed_source_body c = (Inr (), c\<lparr>c_in := rest\<rparr>)"
    using assms c
  proof (induction fs arbitrary: c)
    case Nil
    then show ?case
      using last [of c] by (simp add: discard_framed_source_body_def wire_frames_def frames.unroll_done)
  next
    case (Cons f fs)
    then have f: "f \<noteq> []" "length f < 2 ^ 64" and fs: "good_frames fs"
      and c: "ready ver c" "c_in c = (wire_u64 (of_nat (length f)) @ f) @ (wire_frames fs @ rest)"
      by (auto simp: good_frames_def wire_frames_def)
    have "discard_framed_source_body c = discard_framed_source_body (c\<lparr>c_in := wire_frames fs @ rest\<rparr>)"
      unfolding discard_framed_source_body_def by (rule frames.unroll_more [OF more [OF c f]])
    then show ?case using Cons.IH [of "c\<lparr>c_in := wire_frames fs @ rest\<rparr>"] fs c(1) by simp
  qed
  then show "\<exists>s'. discard_framed_source_body c = (Inr (), s') \<and> s' = c\<lparr>c_in := rest\<rparr>" by simp
qed

lemma forward_frame_works:
  "ready ver (up_client u) \<Longrightarrow> c_in (up_client u) = d @ rest \<Longrightarrow> works (up_store u) \<Longrightarrow>
     forward_frame (length d) u =
       (True, u\<lparr>up_client := (up_client u)\<lparr>c_in := rest\<rparr>, up_store := sent d (up_store u)\<rparr>)"
proof (induction "length d" arbitrary: d u rule: less_induct)
  case less
  show ?case
  proof (cases "d = []")
    case True
    then show ?thesis using less.prems by (subst forward_frame.simps) simp
  next
    case False
    let ?k = "min (length d) chunk_size" let ?a = "take ?k d" and ?b = "drop ?k d"
    let ?u = "u\<lparr>up_client := (up_client u)\<lparr>c_in := ?b @ rest\<rparr>, up_store := sent ?a (up_store u)\<rparr>"
    have k: "0 < ?k" "length ?a = ?k" using False by (auto simp: chunk_size_def)
    have g: "get (read_full ?k) (up_client u) = (Inr ?a, (up_client u)\<lparr>c_in := ?b @ rest\<rparr>)"
      using get_ready [OF decodes_read_full [of ?a] less.prems(1)] less.prems(2) k(2)
      by (metis append_assoc append_take_drop_id)
    have p: "put (write_raw ?a) (up_store u) = (Inr (), sent ?a (up_store u))"
      by (rule put_works [OF less.prems(3) emits_raw])
    have "forward_frame (length ?b) ?u =
        (True, ?u\<lparr>up_client := (up_client ?u)\<lparr>c_in := rest\<rparr>, up_store := sent ?b (up_store ?u)\<rparr>)"
      using less.prems k False by (intro less.hyps) auto
    then have "forward_frame (length d - ?k) ?u =
        (True, u\<lparr>up_client := (up_client u)\<lparr>c_in := rest\<rparr>, up_store := sent d (up_store u)\<rparr>)"
      by simp
    then show ?thesis using False g p by (subst forward_frame.simps) (simp add: Let_def)
  qed
qed

text \<open>
  With a working store connection and no answer before the end, the upload passes the framed
  source on byte for byte.
\<close>

lemma upload_frame:
  assumes c: "ready ver (up_client u)" "c_in (up_client u) = (wire_u64 (of_nat (length f)) @ f) @ rest"
    and s: "works (up_store u)" and f: "length f < 2 ^ 64" and early: "\<forall>i. \<not> is_ready i"
  shows "upload_step is_ready answer u =
    (Inr (f = []), u\<lparr>up_client := (up_client u)\<lparr>c_in := rest\<rparr>, up_frames := up_frames u + 1,
       up_store := sent (wire_u64 (of_nat (length f)) @ f) (up_store u)\<rparr>)"
proof -
  let ?len = "of_nat (length f) :: u64"
  have n: "unat ?len = length f" using f by (simp add: unat_of_nat)
  then have z: "?len = 0 \<longleftrightarrow> f = []" by (simp only: word_unat_eq_iff unat_0 length_0_conv)
  have g: "get read_uint64 (up_client u) = (Inr ?len, (up_client u)\<lparr>c_in := f @ rest\<rparr>)"
    using get_ready [OF decodes_u64 c(1)] c(2) by simp
  have p: "put (write_uint64 ?len) (up_store u) = (Inr (), sent (wire_u64 ?len) (up_store u))"
    by (rule put_works [OF s emits_u64])
  let ?u = "u\<lparr>up_client := (up_client u)\<lparr>c_in := f @ rest\<rparr>, up_frames := up_frames u + 1,
       up_store := sent (wire_u64 ?len) (up_store u)\<rparr>"
  have ff: "forward_frame (length f) ?u =
      (True, ?u\<lparr>up_client := (up_client ?u)\<lparr>c_in := rest\<rparr>, up_store := sent f (up_store ?u)\<rparr>)"
    using c(1) s by (intro forward_frame_works [of ver]) auto
  have st: "upload_step is_ready answer u = (if ?len = 0 then (Inr True, ?u)
      else (case forward_frame (unat ?len) ?u of (going_on, u'') \<Rightarrow> (Inr (\<not> going_on), u'')))"
    using early by (simp add: upload_step_def g p Let_def)
  show ?thesis
  proof (cases "f = []")
    case True
    then show ?thesis unfolding st using z by simp
  next
    case False
    then show ?thesis unfolding st n ff using z by simp
  qed
qed

lemma upload_forwards:
  "good_frames fs \<Longrightarrow> ready ver (up_client u) \<Longrightarrow> c_in (up_client u) = wire_frames fs @ rest \<Longrightarrow>
     works (up_store u) \<Longrightarrow> \<forall>i. \<not> is_ready i \<Longrightarrow>
     upload_loop is_ready answer u =
       u\<lparr>up_client := (up_client u)\<lparr>c_in := rest\<rparr>, up_frames := up_frames u + length fs + 1,
         up_store := sent (wire_frames fs) (up_store u)\<rparr>"
proof (induction fs arbitrary: u)
  case Nil
  then have "upload_step is_ready answer u =
    (Inr True, u\<lparr>up_client := (up_client u)\<lparr>c_in := rest\<rparr>, up_frames := up_frames u + 1,
       up_store := sent (wire_u64 0) (up_store u)\<rparr>)"
    using upload_frame [of ver u "[]" rest is_ready answer] by (simp add: wire_frames_def)
  then show ?case by (simp add: upload_loop_def uploads.unroll_done wire_frames_def)
next
  case (Cons f fs)
  then have f: "f \<noteq> []" "length f < 2 ^ 64" and fs: "good_frames fs"
    and c: "c_in (up_client u) = (wire_u64 (of_nat (length f)) @ f) @ wire_frames fs @ rest"
    by (auto simp: good_frames_def wire_frames_def)
  let ?u = "u\<lparr>up_client := (up_client u)\<lparr>c_in := wire_frames fs @ rest\<rparr>, up_frames := up_frames u + 1,
       up_store := sent (wire_u64 (of_nat (length f)) @ f) (up_store u)\<rparr>"
  have "upload_step is_ready answer u = (Inr False, ?u)"
    using upload_frame [OF Cons.prems(2) c Cons.prems(4) f(2) Cons.prems(5)] f(1) by simp
  then have "upload_loop is_ready answer u = upload_loop is_ready answer ?u"
    by (simp add: upload_loop_def uploads.unroll_more)
  also have "\<dots> = ?u\<lparr>up_client := (up_client ?u)\<lparr>c_in := rest\<rparr>, up_frames := up_frames ?u + length fs + 1,
         up_store := sent (wire_frames fs) (up_store ?u)\<rparr>"
    using Cons.prems fs by (intro Cons.IH) auto
  also have "\<dots> = u\<lparr>up_client := (up_client u)\<lparr>c_in := rest\<rparr>, up_frames := up_frames u + length (f # fs) + 1,
         up_store := sent (wire_frames (f # fs)) (up_store u)\<rparr>"
    by (simp add: wire_frames_def)
  finally show ?case .
qed

lemma quiet_await_store [quietness]: "quiet (\<lambda>c. c) (await_store a r b)"
  unfolding await_store_def by (cases r) (auto intro!: quietness)

lemma flush_works: "works c \<Longrightarrow> \<exists>c'. flush c = (Inr (), c')"
  by (simp add: flush_def works_def)

lemma upload_to_works:
  assumes "good_frames fs" and "ready ver c" and "c_in c = wire_frames fs @ rest"
    and s: "works store" and early: "\<forall>i. \<not> w_ready w i"
  shows "upload_to w store c =
    await_store (w_answers w) (fst (read_stderr_stream nil_sink (store, ()))) False (c\<lparr>c_in := rest\<rparr>)"
proof -
  let ?a = "fst (read_stderr_stream nil_sink (store, ()))"
  have "upload_loop (w_ready w) ?a
      \<lparr>up_store = store, up_client = c, up_frames = 0, up_received = False, up_returned = None\<rparr> =
      \<lparr>up_store = sent (wire_frames fs) store, up_client = c\<lparr>c_in := rest\<rparr>, up_frames = length fs + 1,
       up_received = False, up_returned = None\<rparr>"
    using assms by (subst upload_forwards [where ver = ver and fs = fs and rest = rest]) auto
  then show ?thesis
    using flush_works [of "sent (wire_frames fs) store"] s by (auto simp: upload_to_def Let_def)
qed

text \<open>The worlds in which an upload is not interrupted.\<close>

definition steady :: "world \<Rightarrow> bool" where
  "steady w \<longleftrightarrow> (\<forall>i. \<not> w_ready w i) \<and> (\<forall>cmd inp out. w_daemon w cmd = Inr (inp, out) \<longrightarrow> sk_room out = None)"

lemma takes_upload:
  "good_frames fs \<Longrightarrow> works store \<Longrightarrow> \<forall>i. \<not> w_ready w i \<Longrightarrow> takes (\<lambda>c. c) ver (upload_to w store) (wire_frames fs)"
  unfolding takes_def
proof (intro allI impI)
  fix c rest
  assume "good_frames fs" "works store" "\<forall>i. \<not> w_ready w i" and c: "ready ver c \<and> c_in c = wire_frames fs @ rest"
  then have u: "upload_to w store c =
      await_store (w_answers w) (fst (read_stderr_stream nil_sink (store, ()))) False (c\<lparr>c_in := rest\<rparr>)"
    by (intro upload_to_works) auto
  have "works (c\<lparr>c_in := rest\<rparr>)" using c by (simp add: ready_def works_def)
  then have "undisturbed (c\<lparr>c_in := rest\<rparr>) (snd (upload_to w store c))"
    unfolding u using quiet_await_store by (auto simp: quiet_def)
  then show "works (snd (upload_to w store c)) \<and> c_held (snd (upload_to w store c)) = 0 \<and>
      c_version (snd (upload_to w store c)) = ver \<and> c_in (snd (upload_to w store c)) = rest"
    using c by (auto simp: undisturbed_def ready_def)
qed

lemma takes_ignore_then:
  "reads p ver m bs v \<Longrightarrow> quiet p k \<Longrightarrow> takes p ver (andThen (ignore m) (\<lambda>_. k)) bs"
proof -
  assume m: "reads p ver m bs v" and k: "quiet p k"
  have "reads p ver (ignore m) bs ()"
    using m unfolding reads_def ignore_def by fastforce
  then show ?thesis using k by (rule takes_last)
qed

lemma takes_add_multiple:
  assumes fs: "good_frames fs" and w: "steady w"
  shows "takes (\<lambda>c. c) ver (handle_add_multiple_to_store cfg w)
    (wire_bool repair @ wire_bool dont_check @ wire_frames fs)"
proof -
  have drain: "takes (\<lambda>c. c) ver (fail_with_drain msg) (wire_frames fs)" for msg
    unfolding fail_with_drain_def by (intro takes_ignore_then [OF reads_discard_body [OF fs]] quietness)
  have consume: "takes (\<lambda>c. c) ver consume_and_discard_framed_source (wire_frames fs)"
    unfolding consume_and_discard_framed_source_def
    by (intro takes_last [OF reads_discard_body [OF fs]] quietness)
  have main: "takes (\<lambda>c. c) ver (case open_upload repair dont_check (new_conn inp out, ()) of
        (Inl e, _) \<Rightarrow> fail_with_drain (err_text e) | (Inr _, (store, _)) \<Rightarrow> upload_to w store) (wire_frames fs)"
    if "w_daemon w (store_command cfg w) = Inr (inp, out)" for inp out
  proof -
    obtain r store u where o: "open_upload repair dont_check (new_conn inp out, ()) = (r, (store, u))"
      by (metis prod_cases3)
    have "works (new_conn inp out)" using w that by (auto simp: steady_def works_def new_conn_def)
    then have "works store" if "r = Inr v" for v using works_open_upload o that by blast
    then show ?thesis using o w fs drain takes_upload by (cases r) (auto simp: steady_def)
  qed
  show ?thesis
    unfolding handle_add_multiple_to_store_def
    by (intro takes_reads [OF reads_wrap [OF reads_bool]])
      (auto simp: consume drain main split: sum.splits)
qed

section \<open>Builds\<close>

lemma reads_client: "reads (\<lambda>c. c) ver m bs v \<Longrightarrow> reads fst ver (client m) bs v"
  unfolding reads_def client_def by fastforce

lemma client_fst: "fst (snd (client m cd)) = snd (m (fst cd))"
  by (simp add: client_def split: prod.splits)

lemma takes_client: "takes (\<lambda>c. c) ver m bs \<Longrightarrow> takes fst ver (client m) bs"
  by (simp add: takes_def client_fst)

lemma quiet_client [quietness]: "quiet (\<lambda>c. c) m \<Longrightarrow> quiet fst (client m)"
  by (simp add: quiet_def client_fst)

lemma quiet_did [quietness]: "quiet fst (did e)"
  by (simp add: quiet_def did_def undisturbed_refl)

lemma quiet_deferring [quietness]:
  assumes "quiet p fin" and "quiet p m"
  shows "quiet p (deferring fin m)"
  unfolding quiet_def
proof (intro allI impI)
  fix s assume s: "works (p s)"
  obtain r s' where m: "m s = (r, s')" by (rule prod.exhaust)
  have u: "undisturbed (p s) (p s')" using quietD [OF assms(2) m s] .
  moreover have "undisturbed (p s') (p (snd (fin s')))"
    using assms(1) u by (simp add: quiet_def undisturbed_def)
  ultimately show "undisturbed (p s) (p (snd (deferring fin m s)))"
    using m by (auto simp: deferring_def intro: undisturbed_trans)
qed

lemma quiet_build_with [quietness]: "quiet fst (build_with cfg w path drv mode ident builder mem)"
  unfolding quiet_def
proof (intro allI impI)
  fix cd :: session assume cd: "works (fst cd)"
  let ?run = "client (execute_build builder (w_digest w) (w_of_json w) client_log_sink path drv mode)"
  have run: "quiet fst ?run" by (intro quietness)
  have fail: "quiet fst (andThen (ignore (client (stop_work_with_error msg 1))) (\<lambda>_. throw e))" for msg e
    by (intro quietness)
  have send: "quiet fst (andThen (record_build cfg path drv ident q mem) (\<lambda>_. client (send_build_result w q)))" for q
    unfolding record_build_def send_build_result_def by (intro quietness)
  obtain r s where r: "?run cd = (r, s)" by (rule prod.exhaust)
  have u: "undisturbed (fst cd) (fst s)" using quietD [OF run r cd] .
  then have s: "works (fst s)" by (simp add: undisturbed_def)
  show "undisturbed (fst cd) (fst (snd (build_with cfg w path drv mode ident builder mem cd)))"
    unfolding build_with_def r
    using undisturbed_trans [OF u quietD [OF fail surjective_pairing s]]
      undisturbed_trans [OF u quietD [OF send surjective_pairing s]]
    by (cases r) (auto simp: Let_def)
qed

lemma takes_build:
  assumes "short_string path" and "short_derivation drv"
  shows "takes fst ver (handle_build_derivation cfg w) (wire_string path @ wire_derivation drv @ wire_u64 mode)"
  unfolding handle_build_derivation_def
proof (intro takes_reads [OF reads_client [OF reads_wrap [OF reads_string [OF assms(1)]]]]
    takes_reads [OF reads_client [OF reads_wrap [OF reads_get [OF decodes_derivation [OF assms(2)]]]]]
    takes_last [OF reads_client [OF reads_wrap [OF reads_u64]]])
  have "quiet fst (import_user_inputs_to_shared_store cfg w)"
    unfolding import_user_inputs_to_shared_store_def
    by (auto intro!: quietness split: command_result.splits simp: Let_def)
  then show "quiet fst (case w_builder w path (bd_platform drv) of
      Inl msg \<Rightarrow> andThen (ignore (client (stop_work_with_error (''failed to get builder: '' @ msg) 1))) (\<lambda>_. throw (Failed msg))
    | Inr (builder_id, builder, mem) \<Rightarrow>
        andThen (did (TookBuilder path (bd_platform drv) builder_id)) (\<lambda>_.
        deferring (did (ReturnedBuilder builder_id))
          (andThen (import_user_inputs_to_shared_store cfg w) (\<lambda>_.
           build_with cfg w path drv (ucast mode) builder_id builder mem))))"
    by (auto intro!: quietness split: sum.splits prod.splits)
qed

section \<open>A session stays in step\<close>

lemmas op_defs = op_set_options_def op_is_valid_path_def op_query_valid_paths_def op_query_path_info_def
  op_build_derivation_def op_add_to_store_def op_add_multiple_to_store_def op_nar_from_path_def
  op_query_referrers_def op_add_temp_root_def op_query_missing_def

lemma takes_request:
  assumes "good_request (minor_of ver) r" and "steady w"
  shows "takes fst ver (handle_operation cfg w (request_op r)) (request_body (minor_of ver) r)"
  using assms
  by (cases r)
    (simp_all add: handle_operation_def op_defs takes_client takes_set_options takes_is_valid_path
      takes_query_valid_paths takes_query_path_info takes_build takes_add_to_store_old [simplified]
      takes_add_multiple takes_nar_from_path takes_small takes_query_missing)

definition wire_request :: "u64 \<Rightarrow> request \<Rightarrow> byte list" where
  "wire_request minor r = wire_u64 (request_op r) @ request_body minor r"

lemma serve_request:
  assumes r: "good_request (minor_of ver) r" and w: "\<forall>i. steady (ws i)"
    and c: "ready ver c" "c_in c = wire_request (minor_of ver) r @ rest"
  shows "\<exists>c' d'. serve_step cfg ws (n, (c, d)) = (Inr False, (n + 1, (c', d'))) \<and> ready ver c' \<and> c_in c' = rest"
proof -
  let ?c = "c\<lparr>c_in := request_body (minor_of ver) r @ rest\<rparr>"
  have op: "serving (client read_op) (n + 1, (c, d)) = (Inr (request_op r), (n + 1, (?c, d)))"
    using get_ready [OF decodes_u64 c(1)] c(2)
    by (simp add: serving_def client_def read_op_def wire_request_def)
  have "takes fst ver (handle_operation cfg (ws (n + 1)) (request_op r)) (request_body (minor_of ver) r)"
    by (rule takes_request [OF r w [rule_format]])
  then have t: "ready ver (fst (?c, d)) \<and> c_in (fst (?c, d)) = request_body (minor_of ver) r @ rest \<longrightarrow>
     works (fst (snd (handle_operation cfg (ws (n + 1)) (request_op r) (?c, d)))) \<and>
     c_held (fst (snd (handle_operation cfg (ws (n + 1)) (request_op r) (?c, d)))) = 0 \<and>
     c_version (fst (snd (handle_operation cfg (ws (n + 1)) (request_op r) (?c, d)))) = ver \<and>
     c_in (fst (snd (handle_operation cfg (ws (n + 1)) (request_op r) (?c, d)))) = rest"
    unfolding takes_def by blast
  obtain x y c1 d1 where h: "handle_operation cfg (ws (n + 1)) (request_op r) (?c, d) = (x, (c1, d1))"
    by (metis prod_cases3)
  have c1: "works c1" "c_held c1 = 0" "c_version c1 = ver" "c_in c1 = rest"
    using t c(1) unfolding h by simp_all
  obtain c2 where c2: "flush c1 = (Inr (), c2)" "works c2" "pending c2 = 0" "c_held c2 = 0"
      "c_version c2 = ver" "c_in c2 = rest"
    using c1 by (auto simp: flush_def works_def pending_def)
  have "serve_step cfg ws (n, (c, d)) = (Inr False, (n + 1, (c2, d1)))"
    unfolding serve_step_def Let_def fst_conv snd_conv op
    by (simp add: andThen_def ignore_def wrap_def serving_def client_def h [simplified] c2(1) succeed_def)
  then show ?thesis using c2 by (auto simp: ready_def)
qed

lemma serve_requests:
  assumes w: "\<forall>i. steady (ws i)"
  shows "\<forall>r \<in> set rs. good_request (minor_of ver) r \<Longrightarrow> ready ver c \<Longrightarrow>
    c_in c = concat (map (wire_request (minor_of ver)) rs) @ rest \<Longrightarrow>
    \<exists>c' d'. serve cfg ws (n, (c, d)) = serve cfg ws (n + length rs, (c', d')) \<and> ready ver c' \<and> c_in c' = rest"
proof (induction rs arbitrary: n c d)
  case Nil
  then show ?case by auto
next
  case (Cons r rs)
  then obtain c1 d1 where s: "serve_step cfg ws (n, (c, d)) = (Inr False, (n + 1, (c1, d1)))"
      "ready ver c1" "c_in c1 = concat (map (wire_request (minor_of ver)) rs) @ rest"
    using serve_request [OF _ w, where ver = ver and r = r and c = c and cfg = cfg and n = n and d = d
        and rest = "concat (map (wire_request (minor_of ver)) rs) @ rest"] by auto
  have "serve cfg ws (n, (c, d)) = serve cfg ws (n + 1, (c1, d1))"
    unfolding serve_def by (rule serve_loop.unroll_more [OF s(1)])
  then show ?case using Cons.IH [of c1 "n + 1" d1] Cons.prems s by auto
qed

lemma serve_end:
  assumes "ready ver c" and "c_in c = []"
  shows "serve cfg ws (n, (c, d)) = (Inr (), (n + 1, (c, d)))"
proof -
  have "get read_uint64 c = (Inl EndOfFile, c)"
    using assms by (simp add: get_def read_uint64_def read_full_def andThen_def ready_def)
  then have "serve_step cfg ws (n, (c, d)) = (Inr True, (n + 1, (c, d)))"
    by (simp add: serve_step_def serving_def client_def read_op_def)
  then show ?thesis unfolding serve_def by (rule serve_loop.unroll_done)
qed

lemma ready_live: "length out \<le> fl \<Longrightarrow> ready ver (live inp out fl 0 ver tr)"
  by (simp add: ready_def works_def nix_simps)


definition no_world :: world where
  "no_world = \<lparr>w_daemon = (\<lambda>_. Inl (Dialing, EndOfFile)), w_run = (\<lambda>_. NotConnected EndOfFile),
     w_dump = (\<lambda>_. Inl (Dialing, EndOfFile)), w_builder = (\<lambda>_ _. Inl ''none''),
     w_lookup = \<lparr>pl_list = (\<lambda>_. None), pl_map = (\<lambda>_. None), pl_object = (\<lambda>_. None)\<rparr>,
     w_of_json = (\<lambda>_. None), w_to_json = (\<lambda>_. []), w_digest = (\<lambda>_. []), w_sign = (\<lambda>_. []),
     w_quote = (\<lambda>s. s), w_ready = (\<lambda>_. False), w_answers = True\<rparr>"

definition no_store :: proxy_config where
  "no_store = \<lparr>pc_store_host_addr = [], pc_store_host_key = False, pc_metrics = False, pc_signer = None,
     pc_user_store_enabled = False, pc_user_fingerprint = [], pc_user_store_root = []\<rparr>"


end
