(* ===== verification/Nix_Outcomes.thy ===== *)
theory Nix_Outcomes
  imports Nix_Session
begin

text \<open>
  What the operations achieve: a build through the proxy from the client's request to its result, the
  builders taken from the provider, what an upload passes on; and the operations after which
  the session is not in step, or a command runs that was not meant.
\<close>

section \<open>A build through the proxy\<close>

lemma client_Inr: "m c = (Inr v, c') \<Longrightarrow> client m (c, d) = (Inr v, (c', d))"
  by (simp add: client_def)

lemma client_eq: "client m (c, d) = (fst (m c), (snd (m c), d))"
  by (simp add: client_def split: prod.splits)

lemma did_eq: "did e (c, d) = (Inr (), (c, d @ [e]))"
  by (simp add: did_def)

lemma execute_build_idle:
  assumes "builder ''exec nix-daemon --stdio'' =
      Inr (build_reply to_json sv features name trusted evs0 evs r @ rest, unbounded [])"
    and "short_strings features" and "short_string name"
    and "\<forall>e \<in> set (evs0 @ evs). short_event e"
    and "short_result to_json r"
    and "\<And>i real. (i, real) \<in> set (br_built_outputs r) \<Longrightarrow> of_json (to_json real) = Some real"
  shows "execute_build builder digest of_json client_log_sink path drv mode (live inp out fl h ver tr) =
    (Inr (populate_outputs digest drv (carried (settled sv) r)),
     live inp (out @ concat (map client_bytes (evs0 @ evs))) fl h ver tr)"
proof -
  have evs: "\<forall>e \<in> set evs0. short_event e" "\<forall>e \<in> set evs. short_event e" using assms(4) by auto
  show ?thesis
    using build_on_idle [OF assms(2,3) evs assms(5,6), where digest = digest
        and sink = client_log_sink and drv_path = path and drv = drv and build_mode = mode
        and k = "live inp out fl h ver tr" and sv = sv and t = trusted and rest = rest and ?v0.0 = 0]
    by (simp add: execute_build_def assms(1) new_conn_live deliver_client client_bytes_messages
        del: map_append filter_append concat_append)
qed



section \<open>Builders are given back\<close>

text \<open>
  The account of builders along a list of effects: \<open>Some None\<close> when none is out, and while one is, the
  derivation and the platform it was taken for, its identifier, and whether its build was recorded; \<open>None\<close>
  once a second one was taken, the wrong one given back, or a build recorded that is not that of
  the builder that is out, or twice.
\<close>

type_synonym lease = "string \<times> string \<times> string \<times> bool"

fun accounting :: "lease option option \<Rightarrow> effect \<Rightarrow> lease option option" where
  "accounting a (TookBuilder path platform i) = (if a = Some None then Some (Some (path, platform, i, False)) else None)"
| "accounting a (ReturnedBuilder i) =
     (case a of Some (Some (path, platform, j, b)) \<Rightarrow> if i = j then Some None else None | _ \<Rightarrow> None)"
| "accounting a (RecordedBuild path env platform i result mem) =
     (if a = Some (Some (path, platform, i, False)) then Some (Some (path, platform, i, True)) else None)"
| "accounting a (RanOnStore cmd) = a"

definition account :: "effect list \<Rightarrow> lease option option" where
  "account es = foldl accounting (Some None) es"

lemma account_snoc [simp]: "account (es @ [e]) = accounting (account es) e"
  by (simp add: account_def)

abbreviation owing :: "lease option \<Rightarrow> session \<Rightarrow> bool" where
  "owing x cd \<equiv> account (snd cd) = Some x"

lemma keepsD: "keeps P m \<Longrightarrow> P s \<Longrightarrow> P (snd (m s))"
  by (simp add: keeps_def)

lemma keeps_client [keeping]: "keeps (owing x) (client m)"
  by (auto simp: keeps_def client_def split: prod.splits)

lemma keeps_did [keeping]: "(\<And>a. accounting a e = a) \<Longrightarrow> keeps (owing x) (did e)"
  by (auto simp: keeps_def did_def)

text \<open>A build with a builder in hand records at most that build, once.\<close>

lemma recorded:
  assumes "owing (Some (path, bd_platform drv, ident, False)) cd"
  shows "\<exists>b. owing (Some (path, bd_platform drv, ident, b)) (snd (record_build cfg path drv ident q mem cd))"
  using assms by (cases cd) (auto simp: record_build_def did_eq succeed_def)

lemma build_with_accounts:
  assumes cd: "owing (Some (path, bd_platform drv, ident, False)) cd"
  shows "\<exists>b. owing (Some (path, bd_platform drv, ident, b)) (snd (build_with cfg w path drv mode ident builder mem cd))"
proof -
  let ?x = "Some (path, bd_platform drv, ident, False)"
  let ?run = "client (execute_build builder (w_digest w) (w_of_json w) client_log_sink path drv mode)"
  have fail: "keeps (owing ?x) (andThen (ignore (client (stop_work_with_error msg 1))) (\<lambda>_. throw e))" for msg e
    by (intro keeping)
  obtain r s where r: "?run cd = (r, s)" by (rule prod.exhaust)
  have "keeps (owing ?x) ?run" by (intro keeping)
  then have s: "owing ?x s" using cd r unfolding keeps_def by (metis snd_conv)
  have send: "\<exists>b. owing (Some (path, bd_platform drv, ident, b))
      (snd (andThen (record_build cfg path drv ident q mem) (\<lambda>_. client (send_build_result w q)) s))" for q
  proof -
    obtain b r' s' where b: "record_build cfg path drv ident q mem s = (r', s')" "owing (Some (path, bd_platform drv, ident, b)) s'"
      using recorded [OF s, of cfg q mem] by (metis prod.collapse)
    have "keeps (owing (Some (path, bd_platform drv, ident, b))) (client (send_build_result w q))" by (intro keeping)
    from keepsD [OF this b(2)] show ?thesis using b by (cases r') (auto simp: andThen_def)
  qed
  show ?thesis
    unfolding build_with_def r prod.case
    by (cases r) (simp only: sum.case, rule exI, rule keepsD [OF fail s], simp only: sum.case Let_def send)
qed

lemma keeps_handle_build: "keeps (owing None) (handle_build_derivation cfg w)"
proof -
  have import: "keeps (owing x) (import_user_inputs_to_shared_store cfg w)" for x
    unfolding import_user_inputs_to_shared_store_def
    by (auto intro!: keeping split: command_result.splits simp: Let_def)
  have build: "\<exists>b. owing (Some (path, bd_platform drv, i, b)) (snd (andThen (import_user_inputs_to_shared_store cfg w) (\<lambda>_.
      build_with cfg w path drv mode i builder mem) s))"
    if "owing (Some (path, bd_platform drv, i, False)) s" for path drv mode i builder mem s
  proof -
    obtain r s' where r: "import_user_inputs_to_shared_store cfg w s = (r, s')" by (rule prod.exhaust)
    have "owing (Some (path, bd_platform drv, i, False)) s'" using keepsD [OF import that] r by simp
    then show ?thesis using build_with_accounts by (cases r) (auto simp: andThen_def r)
  qed
  have hold: "owing None (snd (andThen (did (TookBuilder path platform i)) (\<lambda>_.
      deferring (did (ReturnedBuilder i)) m) s))"
    if "owing None s" and m: "\<And>s. owing (Some (path, platform, i, False)) s \<Longrightarrow> \<exists>b. owing (Some (path, platform, i, b)) (snd (m s))"
    for path platform i and m :: "(session, unit) io" and s
  proof -
    obtain c d where s: "s = (c, d)" by (rule prod.exhaust)
    obtain r c' d' where q: "m (c, d @ [TookBuilder path platform i]) = (r, (c', d'))" by (metis prod_cases3)
    have "owing (Some (path, platform, i, False)) (c, d @ [TookBuilder path platform i])" using that(1) by (simp add: s)
    from m [OF this] obtain b where "account d' = Some (Some (path, platform, i, b))" by (auto simp: q)
    then show ?thesis by (simp add: s andThen_def did_eq deferring_def q)
  qed
  have "keeps (owing None) (case w_builder w path (bd_platform drv) of
      Inl msg \<Rightarrow> andThen (ignore (client (stop_work_with_error (''failed to get builder: '' @ msg) 1))) (\<lambda>_. throw (Failed msg))
    | Inr (builder_id, builder, mem) \<Rightarrow>
        andThen (did (TookBuilder path (bd_platform drv) builder_id)) (\<lambda>_.
        deferring (did (ReturnedBuilder builder_id))
          (andThen (import_user_inputs_to_shared_store cfg w) (\<lambda>_.
           build_with cfg w path drv mode builder_id builder mem))))" for path drv mode
  proof -
    have "keeps (owing None) (andThen (did (TookBuilder path (bd_platform drv) i)) (\<lambda>_.
        deferring (did (ReturnedBuilder i)) (andThen (import_user_inputs_to_shared_store cfg w) (\<lambda>_.
        build_with cfg w path drv mode i builder mem))))" for i builder mem
      unfolding keeps_def using hold build by blast
    then show ?thesis
      by (auto intro!: keeping split: sum.splits prod.splits)
  qed
  then show ?thesis unfolding handle_build_derivation_def by (intro keeping)
qed

lemma keeps_handle_operation: "keeps (owing None) (handle_operation cfg w op)"
  unfolding handle_operation_def by (intro keeping keeps_handle_build)

lemma keeps_serving: "keeps P m \<Longrightarrow> keeps (\<lambda>ns. P (snd ns)) (serving m)"
  unfolding keeps_def serving_def by (auto split: prod.splits) (metis snd_conv)

lemma keeps_serve_step: "keeps (\<lambda>ns. owing None (snd ns)) (serve_step cfg ws)"
  unfolding keeps_def
proof (intro allI impI)
  fix ns :: serving assume ns: "owing None (snd ns)"
  let ?n = "fst ns + 1"
  have rest: "keeps (\<lambda>ns. owing None (snd ns)) (andThen (ignore (serving (handle_operation cfg w op))) (\<lambda>_.
      andThen (wrap msg (serving (client flush))) (\<lambda>_. succeed b)))" for w op msg and b :: bool
    by (intro keeping keeps_serving keeps_handle_operation)
  have read: "keeps (\<lambda>ns. owing None (snd ns)) (serving (client read_op))" by (intro keeps_serving keeping)
  obtain r s where r: "serving (client read_op) (?n, snd ns) = (r, s)" by (rule prod.exhaust)
  have "owing None (snd (snd (serving (client read_op) (?n, snd ns))))"
    by (rule keepsD [OF read]) (simp add: ns)
  then have s: "owing None (snd s)" unfolding r by simp
  then have "owing None (snd (snd (andThen (ignore (serving (handle_operation cfg w op))) (\<lambda>_.
      andThen (wrap msg (serving (client flush))) (\<lambda>_. succeed b)) s)))" for w op msg and b :: bool
    using rest unfolding keeps_def by blast
  with s show "owing None (snd (snd (serve_step cfg ws ns)))"
    unfolding serve_step_def Let_def r by (cases r) (simp_all split: io_error.splits)
qed

lemma connection_accounts: "owing None (snd (snd (handle_connection cfg ws (0, (new_conn inp snk, [])))))"
proof -
  have serve: "keeps (\<lambda>ns. owing None (snd ns)) (serve cfg ws)"
    unfolding keeps_def serve_def
    using serve_loop.invariant [where P = "\<lambda>ns. owing None (snd ns)" and cfg = cfg and ws = ws]
      keeps_serve_step [of cfg ws, unfolded keeps_def] by blast
  have "keeps (\<lambda>ns. owing None (snd ns)) (handle_connection cfg ws)"
    unfolding handle_connection_def by (intro keeping keeps_serving serve)
  moreover have "owing None (snd (0 :: nat, (new_conn inp snk, [] :: effect list)))" by (simp add: account_def)
  ultimately show ?thesis unfolding keeps_def by blast
qed

text \<open>
  C2: every builder is given back. For any client stream whatsoever - any bytes, cut off anywhere,
  a connection that breaks at any write - and any worlds, when \<open>HandleConnection\<close> ends, with or without
  an error, each builder that was taken has been given back before the next was taken, exactly once;
  and a build is recorded only while its builder is out, with the derivation and the platform that
  the builder was taken for, at most once for each.
\<close>

theorem builders_given_back:
  assumes "handle_connection cfg ws (0, (new_conn inp snk, [])) = (res, (n, (c, effects)))"
  shows "account effects = Some None"
  using connection_accounts [of cfg ws inp snk] by (simp add: assms)

lemma builders_given_back_witness:
  "account (snd (snd (snd (handle_connection no_store (\<lambda>_. no_world) (0, (new_conn [1, 2] (unbounded []), [])))))) =
     Some None"
proof -
  obtain res n c effects where run: "handle_connection no_store (\<lambda>_. no_world) (0, (new_conn [1, 2] (unbounded []), [])) =
      (res, (n, (c, effects)))" by (metis prod_cases4)
  show ?thesis using builders_given_back [OF run] by (simp add: run)
qed

section \<open>Where a session falls out of step\<close>

definition implemented :: "u64 set" where
  "implemented = {op_set_options, op_is_valid_path, op_query_valid_paths, op_query_path_info,
     op_build_derivation, op_add_to_store, op_add_multiple_to_store, op_nar_from_path,
     op_query_referrers, op_add_temp_root, op_query_missing}"

lemma upload_early_end:
  assumes "w_ready w 0" and "fst (read_stderr_stream nil_sink (store, ())) = Inr ()" and "works store"
  shows "upload_to w store c = stop_work_with_error ''store host timeout'' 1 c"
proof -
  let ?u = "\<lparr>up_store = store, up_client = c, up_frames = 0, up_received = False, up_returned = None\<rparr>"
  have "upload_step (w_ready w) (Inr ()) ?u = (Inr True, ?u\<lparr>up_received := True\<rparr>)"
    using assms(1) by (simp add: upload_step_def)
  then have "upload_loop (w_ready w) (Inr ()) ?u = ?u\<lparr>up_received := True\<rparr>"
    unfolding upload_loop_def by (simp add: uploads.unroll_done)
  then show ?thesis
    using assms flush_works [OF assms(3)] by (auto simp: upload_to_def Let_def await_store_def)
qed

text \<open>
  C38: three ways to fall out of step. An operation that is not implemented is answered with an error
  while the whole of its request is left to be read as the next operation; \<open>AddToStore\<close> in its
  format since 1.25 takes its four fields and leaves the framed source that follows; and when the
  store host ends its log stream before the upload is over, the framed source is left where it was and the
  answer is a timeout, although the store host did answer.
\<close>

theorem session_out_of_step:
  assumes "op \<notin> implemented" and "minor_of ver \<ge> 25"
    and "short_string name" and "short_string cam" and "short_strings refs"
    and "w_ready w 0" and "fst (read_stderr_stream nil_sink (store, ())) = Inr ()" and "works store"
  shows "c_in (fst (snd (handle_operation cfg w op (idle payload out ver tr, d)))) = payload \<and>
    c_in (snd (handle_add_to_store
      (idle (wire_string name @ wire_string cam @ wire_strings refs @ wire_bool repair @ wire_frames fs) out ver tr)))
      = wire_frames fs \<and>
    c_in (snd (upload_to w store (idle (wire_frames fs) out ver tr))) = wire_frames fs \<and>
    sk_out (c_sink (snd (upload_to w store (idle (wire_frames fs) out ver tr)))) =
      out @ wire_u64 stderr_error @ wire_error ver ''store host timeout'' 1"
proof -
  have "handle_operation cfg w op = client (stop_work_with_error (''operation '' @ op_string op @ '' not implemented'') 1)"
    using assms(1) by (simp add: handle_operation_def implemented_def)
  then have a: "c_in (fst (snd (handle_operation cfg w op (idle payload out ver tr, d)))) = payload"
    by (simp add: client_eq stop_work_with_error_live Let_def nix_simps)
  have r: "reads (\<lambda>c. c) ver (run_all [drop_string, drop_string, drop_strings, drop_bool])
      (concat [wire_string name, wire_string cam, wire_strings refs, wire_bool repair]) ()"
    by (rule reads_run_all) (simp add: reads_drops assms)
  have "takes (\<lambda>c. c) ver (andThen (run_all [drop_string, drop_string, drop_strings, drop_bool]) (\<lambda>_.
      stop_work_with_error ''AddToStore not implemented'' 1))
      (concat [wire_string name, wire_string cam, wire_strings refs, wire_bool repair])"
    by (intro takes_last [OF r] quietness)
  then have "takes (\<lambda>c. c) ver handle_add_to_store
      ([] @ concat [wire_string name, wire_string cam, wire_strings refs, wire_bool repair])"
    unfolding handle_add_to_store_def
    by (intro takes_reads [OF reads_minor]) (simp only: assms(2) if_True)
  then have b: "c_in (snd (handle_add_to_store
      (idle (wire_string name @ wire_string cam @ wire_strings refs @ wire_bool repair @ wire_frames fs) out ver tr)))
      = wire_frames fs"
    unfolding takes_def
    by (drule_tac x = "idle (wire_string name @ wire_string cam @ wire_strings refs @ wire_bool repair @ wire_frames fs) out ver tr" in spec)
      (simp add: ready_live nix_simps)
  show ?thesis
    using a b by (simp add: upload_early_end [OF assms(6-8)] stop_work_with_error_live Let_def nix_simps)
qed

lemma session_out_of_step_witness:
  "c_in (fst (snd (handle_operation no_store (no_world\<lparr>w_ready := \<lambda>_. True\<rparr>) 10
     (idle (wire_string ''/nix/store/x'') [] 0x126 True, [])))) = wire_string ''/nix/store/x''"
proof -
  have "(10 :: u64) \<notin> implemented" by (simp add: implemented_def op_defs)
  moreover have "minor_of 0x126 \<ge> 25" by (simp add: minor_of_def)
  moreover have "short_string ''f''" "short_strings []" by (simp_all add: short_string_def short_strings_def)
  moreover have "w_ready (no_world\<lparr>w_ready := \<lambda>_. True\<rparr>) 0" by simp
  moreover have "fst (read_stderr_stream nil_sink (idle (wire_u64 stderr_last @ []) [] 0x126 True, ())) = Inr ()"
    by (simp only: read_last fst_conv)
  moreover have "works (idle (wire_u64 stderr_last @ []) [] 0x126 True)" by (simp add: works_def nix_simps)
  ultimately show ?thesis
    using session_out_of_step [of 10 "0x126" "''f''" "''f''" "[]"] by blast
qed

section \<open>Commands built from client strings\<close>

text \<open>
  What a shell does inside double quotes: a dollar sign or a backquote that no backslash precedes starts
  an expansion. \<open>expands s\<close> for the text behind an opening quote.
\<close>

fun expands :: "string \<Rightarrow> bool" where
  "expands [] = False"
| "expands [c] = (c = CHR ''$'' \<or> c = CHR 0x60)"
| "expands (c # d # s) =
     (if c = CHR 92 then expands s
      else if c = CHR 34 then False
      else c = CHR ''$'' \<or> c = CHR 0x60 \<or> expands (d # s))"

definition printable :: "string \<Rightarrow> bool" where
  "printable s \<longleftrightarrow> (\<forall>c \<in> set s. 32 \<le> (of_char c :: nat) \<and> (of_char c :: nat) < 127)"

lemma quote_printable: "printable s \<Longrightarrow> quote_from uni 0 s = concat (map quote_ascii s)"
  by (induction s) (auto simp: printable_def cont_def)

lemma expands_quoted:
  "printable s \<Longrightarrow> expands (concat (map quote_ascii s) @ CHR 34 # t) \<longleftrightarrow> CHR ''$'' \<in> set s \<or> CHR 0x60 \<in> set s"
proof (induction s)
  case Nil
  then show ?case by (cases t) auto
next
  case (Cons c s)
  obtain d r where dr: "concat (map quote_ascii s) @ CHR 34 # t = d # r"
    by (cases "concat (map quote_ascii s) @ CHR 34 # t") auto
  have q: "quote_ascii c = (if c = CHR 34 \<or> c = CHR 92 then [CHR 92, c] else [c])"
    using Cons.prems by (simp add: quote_ascii_def printable_def)
  have "printable s" using Cons.prems by (simp add: printable_def)
  then show ?case using Cons.IH dr by (auto simp: q)
qed



end
