(* ===== verification/Gradient_Worker.thy ===== *)
theory Gradient_Worker
  imports Gradient_Upload Nix_Outcomes
begin

text \<open>
  The worker's job handler (\<open>gradientproto/executor.go\<close>): the tasks of a job in order, each read from
  the store host, built on a builder of the pool by the proxy's \<open>ExecuteBuild\<close>, uploaded output by
  output and reported; and what a job looks like to the server.
\<close>

section \<open>The log of a build\<close>

text \<open>\<open>logChunkSink\<close>: of the builder's messages only the log lines go on, and a failed send is only logged.\<close>

fun log_chunk_sink :: "string \<Rightarrow> u32 \<Rightarrow> work stderr_sink" where
  "log_chunk_sink job_id task_index (LogLine msg) =
     ignore (send_message (LogChunk job_id task_index (bytes_of msg)))"
| "log_chunk_sink job_id task_index (StartActivity act level kind txt fs parent) = succeed ()"
| "log_chunk_sink job_id task_index (StopActivity act) = succeed ()"
| "log_chunk_sink job_id task_index (ActivityResult act kind fs) = succeed ()"
| "log_chunk_sink job_id task_index (SinkData d) = succeed ()"

section \<open>Results\<close>

definition build_result_transient_failure :: u64 where "build_result_transient_failure = 6"
definition build_result_cached_failure :: u64 where "build_result_cached_failure = 7"
definition build_result_timed_out :: u64 where "build_result_timed_out = 8"

definition build_mode_normal :: u8 where "build_mode_normal = 0"

definition is_build_success_status :: "u64 \<Rightarrow> bool" where
  "is_build_success_status st \<longleftrightarrow>
     st = build_result_built \<or> st = build_result_substituted \<or> st = build_result_already_valid"

definition classify_build_failure :: "u64 \<Rightarrow> u8" where
  "classify_build_failure st =
     (if st = build_result_transient_failure \<or> st = build_result_cached_failure then build_failure_transient
      else if st = build_result_timed_out then build_failure_timeout
      else build_failure_permanent)"

text \<open>The outputs of a result are enumerated in the order of their list.\<close>

definition resolve_output_path ::
  "(string \<Rightarrow> string) \<Rightarrow> string \<Rightarrow> nix_output \<Rightarrow> build_result \<Rightarrow> io_error + string" where
  "resolve_output_path uni name out result =
     (if no_path out \<noteq> '''' then Inr (no_path out)
      else (case find (\<lambda>(ident, real). suffix (CHR ''!'' # name) ident) (br_built_outputs result) of
          Some (ident, real) \<Rightarrow> Inr (rl_out_path real)
        | None \<Rightarrow> Inl (Failed (''could not resolve store path for content-addressed output '' @
            go_quote uni name @ '': not present in BuiltOutputs''))))"

definition store_path_hash :: "string \<Rightarrow> string" where
  "store_path_hash path = takeWhile (\<lambda>c. c \<noteq> CHR ''-'') (store_path_basename path)"

section \<open>One task\<close>

definition fail_task :: "string \<Rightarrow> string \<Rightarrow> string \<Rightarrow> u8 \<Rightarrow> string list \<Rightarrow> (work, unit) io" where
  "fail_task job_id build_id err_msg kind missing_paths =
     ignore (send_message (JobFailed job_id (''build '' @ build_id @ '': '' @ err_msg) kind missing_paths))"

text \<open>\<open>e.failTask(...); return false\<close>, and a send whose error makes the task return false.\<close>

definition failing :: "string \<Rightarrow> string \<Rightarrow> string \<Rightarrow> u8 \<Rightarrow> (work, bool) io" where
  "failing job_id build_id err_msg kind =
     andThen (fail_task job_id build_id err_msg kind []) (\<lambda>_. succeed False)"

definition sent_ok :: "client_message \<Rightarrow> (work, bool) io" where
  "sent_ok m = attempt False (andThen (send_message m) (\<lambda>_. succeed True))"

text \<open>The loop over the outputs of the derivation; its errors are reported by \<open>build_on_builder\<close>.\<close>

fun upload_outputs ::
  "worker_world \<Rightarrow> execer \<Rightarrow> string \<Rightarrow> build_result \<Rightarrow> (string \<times> nix_output) list \<Rightarrow> (work, build_output list) io" where
  "upload_outputs w ex job_id result [] = succeed []"
| "upload_outputs w ex job_id result ((name, out) # outs) =
     andThen (lift_result (resolve_output_path (ww_quote w) name out result)) (\<lambda>out_path.
     andThen (upload_output w ex job_id out_path) (\<lambda>info.
     andThen (upload_outputs w ex job_id result outs) (\<lambda>outputs.
     succeed (\<lparr>bo_name = name, bo_store_path = out_path, bo_hash = store_path_hash out_path,
       bo_nar_size = Some (jp_nar_size info), bo_nar_hash = Some (jp_nar_hash info), bo_products = []\<rparr> # outputs))))"

definition report_outputs ::
  "worker_world \<Rightarrow> execer \<Rightarrow> string \<Rightarrow> build_task \<Rightarrow> basic_derivation \<Rightarrow> build_result \<Rightarrow> (work, bool) io" where
  "report_outputs w ex job_id task drv result wk =
     (case upload_outputs w ex job_id result (bd_outputs drv) wk of
        (Inl e, wk') \<Rightarrow> failing job_id (bt_build_id task) (err_text e) build_failure_transient wk'
      | (Inr outputs, wk') \<Rightarrow> sent_ok (JobUpdate job_id
          (BuildOutput (bt_build_id task) outputs None (br_status result \<noteq> build_result_built))) wk')"

text \<open>With a builder in hand: \<open>builder\<close> are its sessions, \<open>ex\<close> the commands run on it.\<close>

definition build_on_builder ::
  "worker_world \<Rightarrow> string \<Rightarrow> u32 \<Rightarrow> build_task \<Rightarrow> basic_derivation \<Rightarrow> remote \<Rightarrow> execer \<Rightarrow> (work, bool) io" where
  "build_on_builder w job_id task_index task drv builder ex wk =
     (case execute_build builder (ww_digest w) (ww_of_json w) (log_chunk_sink job_id task_index)
         (bt_drv_path task) drv build_mode_normal wk of
        (Inl e, wk') \<Rightarrow> failing job_id (bt_build_id task) (err_text e) build_failure_transient wk'
      | (Inr result, wk') \<Rightarrow>
          if \<not> is_build_success_status (br_status result)
          then failing job_id (bt_build_id task) (br_error_msg result) (classify_build_failure (br_status result)) wk'
          else report_outputs w ex job_id task drv result wk')"

definition noted :: "effect \<Rightarrow> (work, unit) io" where
  "noted e = modify (\<lambda>wk. wk\<lparr>wk_effects := wk_effects wk @ [e]\<rparr>)"

definition run_task :: "worker_world \<Rightarrow> string \<Rightarrow> u32 \<Rightarrow> build_task \<Rightarrow> (work, bool) io" where
  "run_task w job_id task_index task =
     andThen (sent_ok (JobUpdate job_id (Building (bt_build_id task)))) (\<lambda>ok.
     if \<not> ok then succeed False
     else if bt_external_cached task then
       failing job_id (bt_build_id task) ''external_cached build tasks are not implemented by this worker''
         build_failure_transient
     else (case ww_store w of
         None \<Rightarrow> failing job_id (bt_build_id task) ''no store host connection available'' build_failure_transient
       | Some store \<Rightarrow> (case read_derivation store (ww_quote w) (ww_show w) (bt_drv_path task) of
           Inl e \<Rightarrow> failing job_id (bt_build_id task) (err_text e) build_failure_transient
         | Inr (drv, system) \<Rightarrow> (case ww_builder w (bt_drv_path task) system of
             Inl msg \<Rightarrow> failing job_id (bt_build_id task) (''provisioning a builder: '' @ msg) build_failure_transient
           | Inr (builder_id, builder, ex) \<Rightarrow>
               andThen (noted (TookBuilder (bt_drv_path task) system builder_id)) (\<lambda>_.
               deferring (noted (ReturnedBuilder builder_id))
                 (build_on_builder w job_id task_index task drv builder ex))))))"

section \<open>A job\<close>

text \<open>
  The loop over the tasks from number \<open>i\<close> on. \<open>cancelled i\<close> says whether the job's context is done
  when task \<open>i\<close> is about to start, \<open>ws i\<close> is the world of that task.
\<close>

fun run_tasks ::
  "(nat \<Rightarrow> worker_world) \<Rightarrow> (nat \<Rightarrow> bool) \<Rightarrow> string \<Rightarrow> nat \<Rightarrow> build_task list \<Rightarrow> (work, unit) io" where
  "run_tasks ws cancelled job_id i [] = ignore (send_message (JobCompleted job_id))"
| "run_tasks ws cancelled job_id i (task # tasks) =
     (if cancelled i then succeed ()
      else andThen (run_task (ws i) job_id (of_nat i) task) (\<lambda>ok.
        if ok then run_tasks ws cancelled job_id (Suc i) tasks else succeed ()))"

definition handle_job ::
  "(nat \<Rightarrow> worker_world) \<Rightarrow> (nat \<Rightarrow> bool) \<Rightarrow> string \<Rightarrow> build_job \<Rightarrow> (work, unit) io" where
  "handle_job ws cancelled job_id job = run_tasks ws cancelled job_id 0 job"

section \<open>What is left alone\<close>

text \<open>
  The state of a sink is only touched by the sink: what every event keeps, a session with another
  daemon keeps.
\<close>

lemma sink_keeps_peer [keeping]: "keeps (\<lambda>ck. P (snd ck)) (peer m)"
  by (auto simp: keeps_def peer_def split: prod.splits)

lemma sink_keeps_notify: "(\<And>e. keeps P (sink e)) \<Longrightarrow> keeps (\<lambda>ck. P (snd ck)) (notify sink e)"
  by (simp add: keeps_def notify_def)

lemma sink_keeps_stream:
  assumes "\<And>e. keeps P (sink e)"
  shows "keeps (\<lambda>ck. P (snd ck)) (read_stderr_stream sink)"
proof -
  have "keeps (\<lambda>ck. P (snd ck)) (read_stderr_step sink)"
    unfolding read_stderr_step_def by (intro keeping sink_keeps_notify assms)
  then have "P (snd ck) \<Longrightarrow> P (snd (snd (read_stderr_step sink ck)))" for ck
    unfolding keeps_def by blast
  then show ?thesis
    unfolding keeps_def read_stderr_stream_def
    using stderr_stream.invariant [where P = "\<lambda>ck. P (snd ck)"] by blast
qed

lemma sink_keeps_build:
  assumes "\<And>e. keeps P (sink e)"
  shows "keeps P (execute_build builder digest of_json sink drv_path drv mode)"
proof -
  have "keeps (\<lambda>ck. P (snd ck)) (build_on digest of_json sink drv_path drv mode)"
    unfolding build_on_def send_set_options_def
    by (intro keeping sink_keeps_stream assms)
  then show ?thesis
    unfolding keeps_def execute_build_def
    by (auto split: sum.split prod.split) (metis snd_conv)
qed

section \<open>Messages of a task\<close>

fun is_log :: "client_message \<Rightarrow> bool" where
  "is_log (LogChunk j i d) = True"
| "is_log m = False"

lemma talks_build:
  "talks (execute_build builder digest of_json (log_chunk_sink job_id i) drv_path drv mode)
     (\<lambda>res ms. \<forall>m \<in> set ms. is_log m) wk"
proof -
  let ?P = "\<lambda>wk'. ws_fails wk' = ws_fails wk \<and> (\<exists>ms. ws_sent wk' = ws_sent wk @ ms \<and> (\<forall>m \<in> set ms. is_log m))"
  have send: "keeps ?P (ignore (send_message (LogChunk j k d)))" for j k d
    unfolding keeps_def ignore_def send_message_def by (auto split: option.splits)
  have "keeps ?P (log_chunk_sink job_id i e)" for e
    by (cases e) (auto intro: keeping send)
  then have "keeps ?P (execute_build builder digest of_json (log_chunk_sink job_id i) drv_path drv mode)"
    by (rule sink_keeps_build)
  then show ?thesis unfolding keeps_def talks_def
    by (cases "execute_build builder digest of_json (log_chunk_sink job_id i) drv_path drv mode wk") fastforce
qed

lemma talks_ignore: "talks m (\<lambda>res ms. P (Inr ()) ms) wk \<Longrightarrow> talks (ignore m) P wk"
  by (auto simp: talks_def ignore_def split: prod.splits)

lemma talks_noted: "P (Inr ()) [] \<Longrightarrow> talks (noted e) P wk"
  by (simp add: talks_def noted_def modify_def)

lemma talks_deferring: "talks m P wk \<Longrightarrow> talks (deferring (noted e) m) P wk"
  by (auto simp: talks_def deferring_def noted_def modify_def split: prod.splits)

lemma talks_sent_ok:
  assumes "\<not> sends_work wk \<Longrightarrow> P (Inr False) []" and "P (Inr True) [m]"
  shows "talks (sent_ok m) P wk"
proof -
  have "talks (send_message m) (\<lambda>res ms. case res of Inl e \<Rightarrow> \<not> sends_work wk \<and> ms = [] | Inr v \<Rightarrow> ms = [m]) wk"
    by (rule talks_send) simp_all
  then show ?thesis
    using assms by (auto simp: talks_def sent_ok_def attempt_def andThen_def succeed_def split: prod.splits sum.splits)
qed

text \<open>A failed task: at most one more message, which is the job's failure.\<close>

lemma talks_failing:
  assumes "\<not> sends_work wk \<Longrightarrow> P (Inr False) []"
    and "P (Inr False) [JobFailed job_id (''build '' @ build_id @ '': '' @ msg) kind []]"
  shows "talks (failing job_id build_id msg kind) P wk"
proof -
  have "talks (send_message (JobFailed job_id (''build '' @ build_id @ '': '' @ msg) kind []))
      (\<lambda>res ms. P (Inr False) ms) wk"
    using assms by (rule talks_send)
  then show ?thesis
    by (auto simp: talks_def failing_def fail_task_def ignore_def andThen_def succeed_def split: prod.splits)
qed

lemma talks_asks: "P (Inr (f s)) [] \<Longrightarrow> talks (asks f) P s"
  by (simp add: talks_def asks_def)

text \<open>Uploads, whatever the length of the archive.\<close>

abbreviation only_uploads :: "io_error + 'a \<Rightarrow> client_message list \<Rightarrow> bool" where
  "only_uploads res ms \<equiv> \<forall>m \<in> set ms. is_upload m"

lemma uploads_chunk: "talks (flush_chunk job_id path chunk offset final) only_uploads wk"
  by (rule talks_flush) simp_all

lemma uploads_pending: "talks (flush_pending job_id path held offset) only_uploads wk"
  by (rule talks_flush_pending) simp_all

lemma uploads_then:
  assumes "talks m only_uploads wk" and "\<And>v wk'. talks (f v) only_uploads wk'"
  shows "talks (andThen m f) only_uploads wk"
  by (rule talks_then [OF assms(1)], assumption, rule talks_weaken [OF assms(2)]) auto

lemma uploads_chunks: "talks (push_chunks n job_id path fin held offset data) only_uploads wk"
proof (induction "length data" arbitrary: held offset data wk rule: less_induct)
  case (less data held offset wk)
  have "talks (andThen (flush_pending job_id path held offset)
      (\<lambda>offset'. push_chunks n job_id path fin (Some (take n data)) offset' (drop n data))) only_uploads wk"
    if "0 < n" "n \<le> length data"
    using that by (intro uploads_then uploads_pending less) simp
  moreover have "talks (andThen (flush_pending job_id path held offset)
      (\<lambda>offset'. flush_chunk job_id path data offset' True)) only_uploads wk"
    by (intro uploads_then uploads_pending uploads_chunk)
  ultimately show ?case
    by (subst push_chunks.simps) (simp add: uploads_chunk talks_throw split: option.split)
qed

lemma uploads_output: "talks (upload_output w ex job_id path) only_uploads wk"
proof -
  have "talks (push_over_websocket digest r job_id path) only_uploads wk" for digest r and wk :: work
    unfolding push_over_websocket_def by (intro uploads_then uploads_chunks talks_succeed) simp
  then have "talks (upload_archive w ex job_id path status) only_uploads wk" for status and wk :: work
    unfolding upload_archive_def Let_def by (simp add: talks_lift split: option.split)
  then show ?thesis
    unfolding upload_output_def new_query_id_def
    by (auto intro!: uploads_then talks_lift talks_wrap talks_query talks_send talks_throw talks_succeed
        talks_asks split: list.splits)
qed

section \<open>The outcome of a job\<close>

fun is_outcome :: "client_message \<Rightarrow> bool" where
  "is_outcome (JobCompleted j) = True"
| "is_outcome (JobFailed j e k ms) = True"
| "is_outcome m = False"

text \<open>The builds whose outputs were reported, in order.\<close>

fun reported_build :: "client_message \<Rightarrow> string option" where
  "reported_build (JobUpdate j (BuildOutput i os m sb)) = Some i"
| "reported_build m = None"

definition reported_builds :: "client_message list \<Rightarrow> string list" where
  "reported_builds ms = List.map_filter reported_build ms"

lemma reported_builds_simps [simp]:
  "reported_builds [] = []" "reported_builds (ms @ ms') = reported_builds ms @ reported_builds ms'"
  "reported_builds (m # ms) = (case reported_build m of None \<Rightarrow> reported_builds ms | Some i \<Rightarrow> i # reported_builds ms)"
  by (auto simp: reported_builds_def List.map_filter_def split: option.splits)

lemma quiet_messages: "is_log m \<or> is_upload m \<Longrightarrow> \<not> is_outcome m \<and> reported_build m = None"
  by (cases m) auto

lemma no_reports: "\<forall>m \<in> set ms. is_log m \<or> is_upload m \<Longrightarrow> reported_builds ms = [] \<and> (\<forall>m \<in> set ms. \<not> is_outcome m)"
  by (induction ms) (auto dest!: quiet_messages)

text \<open>
  What a task does: when it succeeds, its last message reports its outputs, and otherwise the last
  message is the failure of the job - unless a send failed.
\<close>

definition task_done :: "string \<Rightarrow> bool \<Rightarrow> build_task \<Rightarrow> io_error + bool \<Rightarrow> client_message list \<Rightarrow> bool" where
  "task_done job_id reliable task res ms \<longleftrightarrow>
     (\<exists>calm final. ms = calm @ final \<and> (\<forall>m \<in> set calm. \<not> is_outcome m) \<and> reported_builds calm = [] \<and>
       (res = Inr True \<and> (\<exists>os sb. final = [JobUpdate job_id (BuildOutput (bt_build_id task) os None sb)]) \<or>
        res = Inr False \<and> (final = [] \<and> \<not> reliable \<or> (\<exists>msg kind. final = [JobFailed job_id msg kind []]))))"

lemma task_doneI:
  assumes "ms = calm @ final" and "\<forall>m \<in> set calm. \<not> is_outcome m" and "reported_builds calm = []"
    and "(res = Inr True \<and> (\<exists>os sb. final = [JobUpdate job_id (BuildOutput (bt_build_id task) os None sb)])) \<or>
      (res = Inr False \<and> (final = [] \<and> \<not> reliable \<or> (\<exists>msg kind. final = [JobFailed job_id msg kind []])))"
  shows "task_done job_id reliable task res ms"
  unfolding task_done_def by (rule exI [of _ calm], rule exI [of _ final]) (use assms in simp)

lemma task_done_quiet:
  assumes "\<forall>m \<in> set ms'. is_log m \<or> is_upload m" and "task_done job_id reliable task res ms"
  shows "task_done job_id reliable task res (ms' @ ms)"
proof -
  obtain calm final where "ms = calm @ final" "\<forall>m \<in> set calm. \<not> is_outcome m" "reported_builds calm = []"
    "(res = Inr True \<and> (\<exists>os sb. final = [JobUpdate job_id (BuildOutput (bt_build_id task) os None sb)])) \<or>
      (res = Inr False \<and> (final = [] \<and> \<not> reliable \<or> (\<exists>msg kind. final = [JobFailed job_id msg kind []])))"
    using assms(2) unfolding task_done_def by blast
  then show ?thesis
    using no_reports [OF assms(1)] by (intro task_doneI [where calm = "ms' @ calm"]) auto
qed

lemma task_done_failed: "task_done job_id reliable task (Inr False) [JobFailed job_id msg kind []]"
  by (rule task_doneI [OF append_Nil [symmetric]]; simp)

lemma task_done_silent: "\<not> reliable \<Longrightarrow> task_done job_id reliable task (Inr False) []"
  by (rule task_doneI [OF append_Nil [symmetric]]; simp)

lemma task_done_reported:
  "task_done job_id reliable task (Inr True) [JobUpdate job_id (BuildOutput (bt_build_id task) os None sb)]"
  by (rule task_doneI [OF append_Nil [symmetric]]; simp)

lemma talks_failed:
  "ws_fails wk' = ws_fails wk \<Longrightarrow>
     talks (failing job_id build_id msg kind) (task_done job_id (sends_work wk) task) wk'"
  by (rule talks_failing) (auto intro: task_done_failed task_done_silent simp: sends_work_def)

lemma uploads_outputs: "talks (upload_outputs w ex job_id result outs) only_uploads wk"
  by (induction outs arbitrary: wk) (auto intro!: uploads_then talks_lift uploads_output talks_succeed)

text \<open>Running on after a step whose messages are calm.\<close>

lemma talks_quiet_then:
  assumes "talks m (\<lambda>res ms. \<forall>x \<in> set ms. is_log x \<or> is_upload x) wk"
    and "m wk = (res, wk')"
    and "\<And>wk''. ws_fails wk'' = ws_fails wk \<Longrightarrow> talks n (task_done job_id reliable task) wk''"
    and "k wk = n wk'"
  shows "talks k (task_done job_id reliable task) wk"
proof -
  obtain ms where ms: "ws_sent wk' = ws_sent wk @ ms" "ws_fails wk' = ws_fails wk"
      "\<forall>x \<in> set ms. is_log x \<or> is_upload x"
    using assms(1,2) by (auto simp: talks_def)
  show ?thesis
    using assms(3) [OF ms(2)] ms task_done_quiet [OF ms(3)] by (auto simp: talks_def assms(4))
qed

lemma talks_reported:
  assumes "ws_fails wk' = ws_fails wk"
  shows "talks (report_outputs w ex job_id task drv result) (task_done job_id (sends_work wk) task) wk'"
proof -
  let ?run = "upload_outputs w ex job_id result (bd_outputs drv)"
  have calm: "talks ?run (\<lambda>res ms. \<forall>x \<in> set ms. is_log x \<or> is_upload x) wk'"
    by (rule talks_weaken [OF uploads_outputs]) simp
  obtain res wk'' where run: "?run wk' = (res, wk'')" by fastforce
  show ?thesis
  proof (cases res)
    case (Inl e)
    show ?thesis
      by (rule talks_quiet_then [OF calm run, where n =
            "failing job_id (bt_build_id task) (err_text e) build_failure_transient"])
        (auto simp: report_outputs_def run Inl assms intro: talks_failed)
  next
    case (Inr outputs)
    show ?thesis
      by (rule talks_quiet_then [OF calm run, where n = "sent_ok (JobUpdate job_id
            (BuildOutput (bt_build_id task) outputs None (br_status result \<noteq> build_result_built)))"])
        (auto simp: report_outputs_def run Inr assms sends_work_def
          intro!: talks_sent_ok intro: task_done_reported task_done_silent)
  qed
qed

lemma talks_on_builder:
  assumes "ws_fails wk' = ws_fails wk"
  shows "talks (build_on_builder w job_id i task drv builder ex) (task_done job_id (sends_work wk) task) wk'"
proof -
  let ?run = "execute_build builder (ww_digest w) (ww_of_json w) (log_chunk_sink job_id i)
    (bt_drv_path task) drv build_mode_normal"
  have calm: "talks ?run (\<lambda>res ms. \<forall>x \<in> set ms. is_log x \<or> is_upload x) wk'"
    by (rule talks_weaken [OF talks_build]) simp
  obtain res wk'' where run: "?run wk' = (res, wk'')" by fastforce
  have cont: "talks (build_on_builder w job_id i task drv builder ex) (task_done job_id (sends_work wk) task) wk'"
    if "build_on_builder w job_id i task drv builder ex wk' = n wk''"
      and "\<And>wk''. ws_fails wk'' = ws_fails wk \<Longrightarrow> talks n (task_done job_id (sends_work wk) task) wk''" for n
    by (rule talks_quiet_then [OF calm run, where n = n]) (simp_all add: that assms)
  show ?thesis
  proof (cases res)
    case (Inl e)
    then show ?thesis
      by (intro cont [of "failing job_id (bt_build_id task) (err_text e) build_failure_transient"] talks_failed)
        (simp_all add: build_on_builder_def run)
  next
    case (Inr result)
    then show ?thesis
    proof (cases "is_build_success_status (br_status result)")
      case True
      with Inr show ?thesis
        by (intro cont [of "report_outputs w ex job_id task drv result"] talks_reported)
          (simp_all add: build_on_builder_def run)
    next
      case False
      with Inr show ?thesis
        by (intro cont [of "failing job_id (bt_build_id task) (br_error_msg result)
              (classify_build_failure (br_status result))"] talks_failed)
          (simp_all add: build_on_builder_def run)
    qed
  qed
qed

lemma reported_update [simp]: "reported_builds [JobUpdate job_id (Building i)] = []"
  by simp

lemma task_done_announced:
  "task_done job_id reliable task res ms \<Longrightarrow>
     task_done job_id reliable task res (JobUpdate job_id (Building i) # ms)"
proof -
  assume "task_done job_id reliable task res ms"
  then obtain calm final where "ms = calm @ final" "\<forall>m \<in> set calm. \<not> is_outcome m" "reported_builds calm = []"
    "(res = Inr True \<and> (\<exists>os sb. final = [JobUpdate job_id (BuildOutput (bt_build_id task) os None sb)])) \<or>
      (res = Inr False \<and> (final = [] \<and> \<not> reliable \<or> (\<exists>msg kind. final = [JobFailed job_id msg kind []])))"
    unfolding task_done_def by blast
  then show ?thesis by (intro task_doneI [where calm = "JobUpdate job_id (Building i) # calm"]) auto
qed

text \<open>Taking a builder does not change what was sent.\<close>

lemma talks_holding:
  assumes "\<And>wk''. ws_fails wk'' = ws_fails wk \<Longrightarrow> talks m P wk''"
  shows "talks (andThen (noted e) (\<lambda>_. deferring (noted e') m)) P wk"
proof -
  have "talks (deferring (noted e') m) P (wk\<lparr>wk_effects := wk_effects wk @ [e]\<rparr>)"
    by (intro talks_deferring assms) simp
  then show ?thesis by (auto simp: talks_def andThen_def noted_def modify_def)
qed

lemma talks_run_task: "talks (run_task w job_id i task) (task_done job_id (sends_work wk) task) wk"
proof -
  let ?B = "JobUpdate job_id (Building (bt_build_id task))"
  let ?D = "task_done job_id (sends_work wk) task"
  let ?go = "\<lambda>ok. if \<not> ok then succeed False
     else if bt_external_cached task then
       failing job_id (bt_build_id task) ''external_cached build tasks are not implemented by this worker''
         build_failure_transient
     else (case ww_store w of
         None \<Rightarrow> failing job_id (bt_build_id task) ''no store host connection available'' build_failure_transient
       | Some store \<Rightarrow> (case read_derivation store (ww_quote w) (ww_show w) (bt_drv_path task) of
           Inl e \<Rightarrow> failing job_id (bt_build_id task) (err_text e) build_failure_transient
         | Inr (drv, system) \<Rightarrow> (case ww_builder w (bt_drv_path task) system of
             Inl msg \<Rightarrow> failing job_id (bt_build_id task) (''provisioning a builder: '' @ msg) build_failure_transient
           | Inr (builder_id, builder, ex) \<Rightarrow>
               andThen (noted (TookBuilder (bt_drv_path task) system builder_id)) (\<lambda>_.
               deferring (noted (ReturnedBuilder builder_id))
                 (build_on_builder w job_id i task drv builder ex)))))"
  have start: "talks (sent_ok ?B) (\<lambda>res ms. (res = Inr True \<and> ms = [?B]) \<or> (res = Inr False \<and> ms = [] \<and> \<not> sends_work wk)) wk"
    by (rule talks_sent_ok) simp_all
  have go: "talks (?go True) ?D wk'" if "ws_fails wk' = ws_fails wk" for wk'
    using that by (auto intro: talks_failed intro!: talks_holding talks_on_builder split: option.split sum.split)
  show ?thesis
    unfolding run_task_def
  proof (rule talks_then [OF start])
    fix v ms and wk' :: work
    assume v: "(Inr v = Inr True \<and> ms = [?B]) \<or> (Inr v = Inr False \<and> ms = [] \<and> \<not> sends_work wk)"
      and same: "ws_fails wk' = ws_fails wk"
    show "talks (?go v) (\<lambda>res ms'. ?D res (ms @ ms')) wk'"
    proof (cases v)
      case True
      then show ?thesis
        using v talks_weaken [OF go [OF same], of "\<lambda>res ms'. ?D res (?B # ms')"] task_done_announced by simp
    next
      case False
      then show ?thesis using v by (auto intro!: talks_succeed task_done_silent)
    qed
  qed auto
qed

lemma run_task_Inr: "\<exists>b wk'. run_task w job_id i task wk = (Inr b, wk')"
  using talks_run_task [of w job_id i task wk] by (auto simp: talks_def task_done_def split: prod.splits)

definition job_done :: "string \<Rightarrow> bool \<Rightarrow> bool \<Rightarrow> build_task list \<Rightarrow> io_error + unit \<Rightarrow> client_message list \<Rightarrow> bool" where
  "job_done job_id reliable running tasks res ms \<longleftrightarrow>
     (\<exists>calm final. ms = calm @ final \<and> (\<forall>m \<in> set calm. \<not> is_outcome m) \<and> res = Inr () \<and>
       (final = [] \<and> \<not> (reliable \<and> running) \<or>
        final = [JobCompleted job_id] \<and> reported_builds calm = map bt_build_id tasks \<or>
        (\<exists>msg kind k. final = [JobFailed job_id msg kind []] \<and> k < length tasks \<and>
          reported_builds calm = map bt_build_id (take k tasks))))"

lemma job_doneI:
  assumes "ms = calm @ final" and "\<forall>m \<in> set calm. \<not> is_outcome m" and "res = Inr ()"
    and "final = [] \<and> \<not> (reliable \<and> running) \<or>
        final = [JobCompleted job_id] \<and> reported_builds calm = map bt_build_id tasks \<or>
        (\<exists>msg kind k. final = [JobFailed job_id msg kind []] \<and> k < length tasks \<and>
          reported_builds calm = map bt_build_id (take k tasks))"
  shows "job_done job_id reliable running tasks res ms"
  unfolding job_done_def by (rule exI [of _ calm], rule exI [of _ final]) (use assms in simp)

text \<open>One successful task in front of the rest of the job; one failed task ends it.\<close>

lemma job_done_after:
  assumes "task_done job_id reliable task (Inr True) ms" and "job_done job_id reliable running tasks res ms'"
  shows "job_done job_id reliable running (task # tasks) res (ms @ ms')"
proof -
  obtain calm os sb where ms: "ms = calm @ [JobUpdate job_id (BuildOutput (bt_build_id task) os None sb)]"
      "\<forall>m \<in> set calm. \<not> is_outcome m" "reported_builds calm = []"
    using assms(1) unfolding task_done_def by blast
  obtain calm' final where ms': "ms' = calm' @ final" "\<forall>m \<in> set calm'. \<not> is_outcome m" "res = Inr ()"
      "final = [] \<and> \<not> (reliable \<and> running) \<or>
        final = [JobCompleted job_id] \<and> reported_builds calm' = map bt_build_id tasks \<or>
        (\<exists>msg kind k. final = [JobFailed job_id msg kind []] \<and> k < length tasks \<and>
          reported_builds calm' = map bt_build_id (take k tasks))"
    using assms(2) unfolding job_done_def by blast
  have report: "reported_builds (ms @ calm') = bt_build_id task # reported_builds calm'"
    using ms by simp
  show ?thesis
  proof (rule job_doneI)
    show "ms @ ms' = (ms @ calm') @ final" by (simp add: ms'(1))
    show "\<forall>m \<in> set (ms @ calm'). \<not> is_outcome m" using ms ms'(2) by auto
    show "res = Inr ()" by (rule ms'(3))
    show "final = [] \<and> \<not> (reliable \<and> running) \<or>
        final = [JobCompleted job_id] \<and> reported_builds (ms @ calm') = map bt_build_id (task # tasks) \<or>
        (\<exists>msg kind k. final = [JobFailed job_id msg kind []] \<and> k < length (task # tasks) \<and>
          reported_builds (ms @ calm') = map bt_build_id (take k (task # tasks)))"
      using ms'(4)
    proof (elim disjE exE conjE)
      fix msg kind k
      assume "final = [JobFailed job_id msg kind []]" "k < length tasks"
        "reported_builds calm' = map bt_build_id (take k tasks)"
      then show ?thesis unfolding report by (intro disjI2 exI [of _ msg] exI [of _ kind] exI [of _ "Suc k"]) simp
    qed (simp_all only: report, simp_all)
  qed
qed

lemma job_done_failed:
  assumes "task_done job_id reliable task (Inr False) ms"
  shows "job_done job_id reliable running (task # tasks) (Inr ()) ms"
proof -
  obtain calm final where "ms = calm @ final" "\<forall>m \<in> set calm. \<not> is_outcome m" "reported_builds calm = []"
    "final = [] \<and> \<not> reliable \<or> (\<exists>msg kind. final = [JobFailed job_id msg kind []])"
    using assms unfolding task_done_def by blast
  then show ?thesis
    by (intro job_doneI [where calm = calm and final = final]) (auto intro: exI [of _ "0 :: nat"])
qed

lemma talks_run_tasks:
  "(\<forall>j. running \<longrightarrow> \<not> cancelled j) \<Longrightarrow> ws_fails wk = fails \<Longrightarrow> reliable = (fails = (\<lambda>_. None)) \<Longrightarrow>
     talks (run_tasks ws cancelled job_id i tasks) (job_done job_id reliable running tasks) wk"
proof (induction tasks arbitrary: i wk)
  case Nil
  then show ?case
    by (auto intro!: talks_ignore talks_send
        job_doneI [OF append_Nil [symmetric]] simp: sends_work_def)
next
  case (Cons task tasks)
  show ?case
  proof (cases "cancelled i")
    case True
    then show ?thesis
      using Cons.prems(1) by (auto intro!: talks_succeed job_doneI [OF append_Nil [symmetric]])
  next
    case False
    have reliable: "reliable = sends_work wk" using Cons.prems(2,3) by (simp add: sends_work_def)
    show ?thesis
      unfolding run_tasks.simps if_not_P [OF False]
    proof (rule talks_then [OF talks_run_task])
      fix v ms and wk' :: work
      assume v: "task_done job_id (sends_work wk) task (Inr v) ms" and same: "ws_fails wk' = ws_fails wk"
      show "talks (if v then run_tasks ws cancelled job_id (Suc i) tasks else succeed ())
          (\<lambda>res ms'. job_done job_id reliable running (task # tasks) res (ms @ ms')) wk'"
      proof (cases v)
        case True
        have rest: "talks (run_tasks ws cancelled job_id (Suc i) tasks) (job_done job_id reliable running tasks) wk'"
          using Cons.prems same by (intro Cons.IH) simp_all
        have ok: "task_done job_id reliable task (Inr True) ms" using v by (simp add: True reliable)
        have "talks (run_tasks ws cancelled job_id (Suc i) tasks)
            (\<lambda>res ms'. job_done job_id reliable running (task # tasks) res (ms @ ms')) wk'"
          by (rule talks_weaken [OF rest]) (rule job_done_after [OF ok])
        then show ?thesis by (simp add: True)
      next
        case False
        then show ?thesis
          using v job_done_failed [of job_id "sends_work wk" task ms running tasks] by (auto intro!: talks_succeed simp: reliable)
      qed
    qed (auto simp: task_done_def)
  qed
qed

text \<open>
  C20: what the server sees of a job. Whatever the store host, the pool, the builders and the uploads do,
  a job has at most one outcome and nothing comes after it: \<open>JobCompleted\<close> only when the outputs of every
  task were reported, in the order of the tasks, and otherwise \<open>JobFailed\<close> after the reports of the
  tasks before the one that failed. While the connection works and the job is not cancelled
  there is exactly one.
\<close>

theorem job_outcome:
  assumes "handle_job ws cancelled job_id job wk = (res, wk')"
  shows "res = Inr () \<and> (\<exists>reports final. ws_sent wk' = ws_sent wk @ reports @ final \<and>
    (\<forall>m \<in> set reports. \<not> is_outcome m) \<and>
    (final = [] \<and> \<not> (sends_work wk \<and> (\<forall>i. \<not> cancelled i)) \<or>
     final = [JobCompleted job_id] \<and> reported_builds reports = map bt_build_id job \<or>
     (\<exists>msg kind k. final = [JobFailed job_id msg kind []] \<and> k < length job \<and>
       reported_builds reports = map bt_build_id (take k job))))"
proof -
  have "talks (handle_job ws cancelled job_id job) (job_done job_id (sends_work wk) (\<forall>i. \<not> cancelled i) job) wk"
    unfolding handle_job_def by (rule talks_run_tasks) (auto simp: sends_work_def)
  then obtain ms where "ws_sent wk' = ws_sent wk @ ms" "job_done job_id (sends_work wk) (\<forall>i. \<not> cancelled i) job res ms"
    using assms by (auto simp: talks_def)
  moreover obtain calm final where "ms = calm @ final" "\<forall>m \<in> set calm. \<not> is_outcome m" "res = Inr ()"
      "final = [] \<and> \<not> (sends_work wk \<and> (\<forall>i. \<not> cancelled i)) \<or>
        final = [JobCompleted job_id] \<and> reported_builds calm = map bt_build_id job \<or>
        (\<exists>msg kind k. final = [JobFailed job_id msg kind []] \<and> k < length job \<and>
          reported_builds calm = map bt_build_id (take k job))"
    using calculation(2) unfolding job_done_def by blast
  ultimately show ?thesis by (intro conjI exI [of _ calm] exI [of _ final]) simp_all
qed

definition demo_task :: build_task where
  "demo_task = \<lparr>bt_build_id = ''b-1'', bt_drv_path = ''/nix/store/x.drv'', bt_external_cached = False,
     bt_is_fixed_output = False, bt_outputs = [], bt_timeout_secs = None, bt_max_silent_secs = None\<rparr>"

text \<open>A world in which the pool has a builder, whose connection ends at once.\<close>

definition demo_world :: worker_world where
  "demo_world = \<lparr>ww_store = Some store_host,
     ww_builder = (\<lambda>_ _. Inr (''vm-1'', (\<lambda>_. Inr ([], unbounded [])), store_host)),
     ww_show = (\<lambda>_. Inr [(''x.drv'', \<lparr>jd_args = [], jd_builder = ''sh'', jd_env = [], jd_drvs = [], jd_srcs = [],
       jd_outputs = [], jd_system = ''x86_64-linux''\<rparr>)]),
     ww_paths = (\<lambda>_. Inr []), ww_of_json = (\<lambda>_. None), ww_digest = (\<lambda>_. []), ww_zstd = Inr (\<lambda>d. (d, None)),
     ww_http = (\<lambda>_ _ _. PutFailed EndOfFile), ww_quote = (\<lambda>u. u)\<rparr>"

definition demo_work :: work where
  "demo_work = \<lparr>ws_in = [], ws_fails = (\<lambda>_. None), ws_tries = 0, ws_sent = [], ws_panicked = False,
     wk_replies = (\<lambda>_. Inl EndOfFile), wk_random = (\<lambda>_. []), wk_queries = 0, wk_effects = []\<rparr>"

lemma demo_work_simps [simp]: "ws_sent demo_work = []" "sends_work demo_work" "wk_effects demo_work = []"
  by (simp_all add: demo_work_def sends_work_def)

lemma job_outcome_witness:
  "\<exists>reports final. ws_sent (snd (handle_job (\<lambda>_. demo_world) (\<lambda>_. False) ''j-1'' [demo_task] demo_work)) =
     reports @ [final] \<and> is_outcome final"
proof -
  obtain res wk' where run: "handle_job (\<lambda>_. demo_world) (\<lambda>_. False) ''j-1'' [demo_task] demo_work = (res, wk')"
    by fastforce
  show ?thesis using job_outcome [OF run] by (auto simp: run)
qed

section \<open>The builders of a job\<close>

abbreviation holding :: "lease option \<Rightarrow> work \<Rightarrow> bool" where
  "holding x wk \<equiv> account (wk_effects wk) = Some x"

lemma holds_send [keeping]: "keeps (holding x) (send_message m)"
  by (auto simp: keeps_def send_message_def split: option.splits)

lemma holds_lift [keeping]: "keeps P (lift_result r)"
  by (simp add: keeps_def lift_result_def)

lemma holds_query [keeping]: "keeps (holding x) (query_cache job_id q ps mode)"
  unfolding query_cache_def by (intro keeping) (simp add: keeps_def)

lemma holds_flush [keeping]: "keeps (holding x) (flush_chunk job_id path chunk offset final)"
  "keeps (holding x) (flush_pending job_id path held offset)"
  unfolding flush_chunk_def flush_pending_def by (auto intro!: keeping split: option.split)

lemma holds_chunks [keeping]: "keeps (holding x) (push_chunks n job_id path fin held offset data)"
proof (induction "length data" arbitrary: held offset data rule: less_induct)
  case (less data held offset)
  have "keeps (holding x) (andThen (flush_pending job_id path held offset)
      (\<lambda>offset'. push_chunks n job_id path fin (Some (take n data)) offset' (drop n data)))" if "0 < n" "n \<le> length data"
    using that by (intro keeping less) simp
  moreover have "keeps (holding x) (andThen (flush_pending job_id path held offset)
      (\<lambda>offset'. flush_chunk job_id path data offset' True))"
    by (intro keeping)
  ultimately show ?case
    by (subst push_chunks.simps) (simp add: holds_flush keeps_basic split: option.split)
qed

lemma holds_upload [keeping]: "keeps (holding x) (upload_output w ex job_id path)"
proof -
  have "keeps (holding x) (upload_archive w ex job_id path status)" for status
    unfolding upload_archive_def push_over_websocket_def Let_def by (auto intro!: keeping split: option.split)
  then show ?thesis
    unfolding upload_output_def new_query_id_def
    by (auto intro!: keeping split: list.split)
qed

lemma holds_outputs [keeping]: "keeps (holding x) (upload_outputs w ex job_id result outs)"
  by (induction outs) (auto intro!: keeping)

lemma holds_failing [keeping]: "keeps (holding x) (failing job_id build_id msg kind)" "keeps (holding x) (sent_ok m)"
  unfolding failing_def fail_task_def sent_ok_def by (intro keeping)+

lemma holds_log: "keeps (holding x) (log_chunk_sink job_id i e)"
  by (cases e) (auto intro!: keeping)

lemma holds_report [keeping]: "keeps (holding x) (report_outputs w ex job_id task drv result)"
  unfolding keeps_def
proof (intro allI impI)
  fix wk :: work assume wk: "holding x wk"
  obtain r wk' where run: "upload_outputs w ex job_id result (bd_outputs drv) wk = (r, wk')" by (rule prod.exhaust)
  have "holding x wk'" using keepsD [OF holds_outputs wk] run by (metis snd_conv)
  then show "holding x (snd (report_outputs w ex job_id task drv result wk))"
    unfolding report_outputs_def run
    by (cases r) (simp_all add: keepsD [OF holds_failing(1)] keepsD [OF holds_failing(2)])
qed

lemma holds_on_builder: "keeps (holding x) (build_on_builder w job_id i task drv builder ex)"
  unfolding keeps_def
proof (intro allI impI)
  fix wk :: work assume wk: "holding x wk"
  let ?run = "execute_build builder (ww_digest w) (ww_of_json w) (log_chunk_sink job_id i)
      (bt_drv_path task) drv build_mode_normal"
  obtain r wk' where run: "?run wk = (r, wk')" by (rule prod.exhaust)
  have "keeps (holding x) ?run" by (rule sink_keeps_build) (rule holds_log)
  then have "holding x wk'" using wk run unfolding keeps_def by (metis snd_conv)
  then show "holding x (snd (build_on_builder w job_id i task drv builder ex wk))"
    unfolding build_on_builder_def run
    by (cases r) (simp_all add: keepsD [OF holds_failing(1)] keepsD [OF holds_report])
qed

lemma holds_task: "keeps (holding None) (run_task w job_id i task)"
proof -
  have hold: "keeps (holding None) (andThen (noted (TookBuilder path system b)) (\<lambda>_.
      deferring (noted (ReturnedBuilder b)) m))" if m: "keeps (holding (Some (path, system, b, False))) m" for path system b and m :: "(work, bool) io"
    unfolding keeps_def
  proof (intro allI impI)
    fix wk :: work assume "holding None wk"
    then have "holding (Some (path, system, b, False)) (wk\<lparr>wk_effects := wk_effects wk @ [TookBuilder path system b]\<rparr>)" by simp
    moreover obtain r wk' where run: "m (wk\<lparr>wk_effects := wk_effects wk @ [TookBuilder path system b]\<rparr>) = (r, wk')"
      by (rule prod.exhaust)
    ultimately have "holding (Some (path, system, b, False)) wk'" using m unfolding keeps_def by (metis snd_conv)
    then show "holding None (snd (andThen (noted (TookBuilder path system b)) (\<lambda>_.
        deferring (noted (ReturnedBuilder b)) m) wk))"
      by (simp add: andThen_def noted_def modify_def deferring_def run)
  qed
  show ?thesis
    unfolding run_task_def
    by (auto intro!: keeping hold holds_on_builder split: option.split sum.split)
qed

text \<open>
  C24: a job keeps no builder. However the build, its uploads and the connection go, when the handler of a
  job returns, each builder it took was given back before it took the next, exactly once.
\<close>

theorem worker_builders_given_back:
  assumes "handle_job ws cancelled job_id job wk = (res, wk')" and "wk_effects wk = []"
  shows "account (wk_effects wk') = Some None"
proof -
  have "keeps (holding None) (run_tasks ws cancelled job_id i job)" for i
    by (induction job arbitrary: i) (auto intro!: keeping holds_task)
  moreover have "holding None wk" by (simp add: assms(2) account_def)
  ultimately show ?thesis using assms(1) unfolding handle_job_def keeps_def by (metis snd_conv)
qed

lemma worker_builders_given_back_witness:
  "account (wk_effects (snd (handle_job (\<lambda>_. demo_world) (\<lambda>_. False) ''j-1'' [demo_task] demo_work))) = Some None"
proof -
  obtain res wk' where run: "handle_job (\<lambda>_. demo_world) (\<lambda>_. False) ''j-1'' [demo_task] demo_work = (res, wk')"
    by fastforce
  show ?thesis using worker_builders_given_back [OF run] by (simp add: run)
qed

end
