(* ===== verification/Gradient_Client.thy ===== *)
theory Gradient_Client
  imports Gradient_Worker
begin

text \<open>
  A worker's session (\<open>gradientproto/client.go\<close>): its start, the loop over the server's messages, the
  dispatch of jobs to handlers, their end, the heartbeat, and the cache queries whose answers the loop
  routes to the handler that waits for them. The goroutines of a session share the maps below under
  one mutex; a step is one of their critical sections with the message that goes with it, and a run
  is any sequence of steps.
\<close>

section \<open>The state of a session\<close>

record client_config =
  cc_peer_id :: string
  cc_credentials :: peer_credentials
  cc_architectures :: "string list"
  cc_system_features :: "string list"
  cc_max_concurrent_builds :: u32
  cc_cpu_count :: u32
  cc_ram_total_mb :: u64
  cc_cpu_core_score :: u32

text \<open>
  The fields of \<open>Client\<close>: \<open>cl_cancels\<close> maps a job to the context its cancel function belongs to,
  \<open>cl_waiters\<close> a query identifier to the channel its caller made. Contexts and channels are numbered.
  Beside them the goroutines of the session: the handlers that are running, by their context; the
  calls of \<open>QueryCache\<close> that wait, by their channel; the one message a channel holds; the contexts that
  were cancelled by themselves; and, once \<open>Run\<close> has returned, its error.
\<close>

record gradient_client = websocket +
  cl_max :: u32
  cl_cancels :: "(string \<times> nat) list"
  cl_running :: int
  cl_waiters :: "(string \<times> nat) list"
  cl_number :: nat
  cl_live :: "(nat \<times> string) list"
  cl_calls :: "(nat \<times> string) list"
  cl_inbox :: "(nat \<times> server_message) list"
  cl_cancelled :: "nat list"
  cl_over :: "io_error option"

text \<open>\<open>NewClient\<close> and a connection that was just dialed.\<close>

definition new_client ::
  "client_config \<Rightarrow> (io_error + frame) list \<Rightarrow> (nat \<Rightarrow> io_error option) \<Rightarrow> gradient_client" where
  "new_client cfg inp fails = \<lparr>ws_in = inp, ws_fails = fails, ws_tries = 0, ws_sent = [], ws_panicked = False,
     cl_max = cc_max_concurrent_builds cfg, cl_cancels = [], cl_running = 0, cl_waiters = [], cl_number = 0,
     cl_live = [], cl_calls = [], cl_inbox = [], cl_cancelled = [], cl_over = None\<rparr>"

text \<open>A job's context is done when it was cancelled, or with the session.\<close>

definition is_done :: "nat \<Rightarrow> gradient_client \<Rightarrow> bool" where
  "is_done n c \<longleftrightarrow> n \<in> set (cl_cancelled c) \<or> cl_over c \<noteq> None"

section \<open>The start\<close>

definition send_request :: "('w websocket_scheme, unit) io" where
  "send_request = send_message (RequestJob job_kind_build)"

definition start_session :: "client_config \<Rightarrow> (gradient_client, unit) io" where
  "start_session cfg =
     andThen (worker_handshake (cc_peer_id cfg) (no_capabilities\<lparr>cap_build := True\<rparr>) (cc_credentials cfg)) (\<lambda>result.
     if \<not> cap_build (hr_negotiated result) then
       throw (Failed ''gradientproto: server did not negotiate the build capability'')
     else
     andThen (send_message (WorkerCapabilities (cc_architectures cfg) (cc_system_features cfg)
       (cc_max_concurrent_builds cfg) (cc_cpu_count cfg) (cc_ram_total_mb cfg) (cc_cpu_core_score cfg))) (\<lambda>_.
     run_all (replicate (unat (cc_max_concurrent_builds cfg)) send_request)))"

text \<open>A message sent under the session's context, which is cancelled when \<open>Run\<close> returns.\<close>

definition session_send :: "client_message \<Rightarrow> (gradient_client, unit) io" where
  "session_send m c = (if cl_over c \<noteq> None then (Inl (Failed ''context canceled''), c) else send_message m c)"

section \<open>Jobs\<close>

definition spare_capacity :: "gradient_client \<Rightarrow> bool" where
  "spare_capacity c \<longleftrightarrow> (word_of_int (cl_running c) :: u32) < cl_max c"

definition dispatch :: "string \<Rightarrow> (gradient_client, unit) io" where
  "dispatch job_id =
     andThen (modify (\<lambda>c. c\<lparr>cl_cancels := AList.update job_id (cl_number c) (cl_cancels c),
       cl_running := cl_running c + 1, cl_live := cl_live c @ [(cl_number c, job_id)],
       cl_number := Suc (cl_number c)\<rparr>)) (\<lambda>_.
     ignore (session_send (AssignJobResponse job_id True None)))"

text \<open>The deferred function of the goroutine whose handler has returned.\<close>

definition finish_job :: "nat \<Rightarrow> (gradient_client, unit) io" where
  "finish_job n c = (case map_of (cl_live c) n of
       None \<Rightarrow> (Inr (), c)
     | Some job_id \<Rightarrow>
         andThen (modify (\<lambda>c. c\<lparr>cl_cancels := AList.delete job_id (cl_cancels c),
           cl_running := cl_running c - 1, cl_live := AList.delete n (cl_live c),
           cl_cancelled := n # cl_cancelled c\<rparr>)) (\<lambda>_.
         andThen (asks spare_capacity) (\<lambda>has_capacity.
         if has_capacity then ignore (session_send (RequestJob job_kind_build)) else succeed ())) c)"

definition abort :: "string \<Rightarrow> (gradient_client, unit) io" where
  "abort job_id = modify (\<lambda>c. case map_of (cl_cancels c) job_id of
       None \<Rightarrow> c
     | Some n \<Rightarrow> c\<lparr>cl_cancelled := n # cl_cancelled c\<rparr>)"

text \<open>One tick of the heartbeat. A failed send ends that goroutine; later ticks then do nothing.\<close>

definition heartbeat :: "(gradient_client, unit) io" where
  "heartbeat = andThen (asks spare_capacity) (\<lambda>spare. if spare then ignore (session_send (RequestJob job_kind_build)) else succeed ())"

section \<open>Cache queries\<close>

text \<open>\<open>QueryCache\<close> up to its \<open>select\<close>; a failed send ends the call, whose deferred function cleans up.\<close>

definition start_query :: "string \<Rightarrow> string \<Rightarrow> string list \<Rightarrow> u8 \<Rightarrow> (gradient_client, unit) io" where
  "start_query job_id query_id paths mode c =
     (let n = cl_number c;
          c' = c\<lparr>cl_waiters := AList.update query_id n (cl_waiters c), cl_number := Suc n\<rparr>
      in case session_send (CacheQuery job_id query_id paths mode) c' of
           (Inl e, c'') \<Rightarrow> (Inl e, c''\<lparr>cl_waiters := AList.delete query_id (cl_waiters c'')\<rparr>)
         | (Inr _, c'') \<Rightarrow> (Inr (), c''\<lparr>cl_calls := cl_calls c'' @ [(n, query_id)]\<rparr>))"

text \<open>The end of the call with channel \<open>n\<close>: by its message if there is one, and else because its context is done.\<close>

definition end_query :: "nat \<Rightarrow> gradient_client \<Rightarrow> server_message option \<times> gradient_client" where
  "end_query n c = (case map_of (cl_calls c) n of
       None \<Rightarrow> (None, c)
     | Some query_id \<Rightarrow> (map_of (cl_inbox c) n,
         c\<lparr>cl_waiters := AList.delete query_id (cl_waiters c), cl_calls := AList.delete n (cl_calls c),
           cl_inbox := AList.delete n (cl_inbox c)\<rparr>))"

definition route_cache_response :: "server_message \<Rightarrow> (gradient_client, unit) io" where
  "route_cache_response msg = modify (\<lambda>c. case map_of (cl_waiters c) (sm_query_id msg) of
       None \<Rightarrow> c
     | Some ch \<Rightarrow> if map_of (cl_inbox c) ch = None then c\<lparr>cl_inbox := (ch, msg) # cl_inbox c\<rparr> else c)"

section \<open>The loop over the server's messages\<close>

definition handle_message :: "server_message \<Rightarrow> (gradient_client, unit) io" where
  "handle_message msg = (case sm_kind msg of
       MsgAssignJob \<Rightarrow> dispatch (sm_job_id msg)
     | MsgAbortJob \<Rightarrow> abort (sm_job_id msg)
     | MsgReject \<Rightarrow> throw (Failed (''gradientproto: server rejected session (code '' @
         decimal (unat (sm_code msg)) @ ''): '' @ sm_reason msg))
     | MsgCacheStatus \<Rightarrow> route_cache_response msg
     | MsgCacheError \<Rightarrow> route_cache_response msg
     | _ \<Rightarrow> succeed ())"

text \<open>One round of the loop; an error ends \<open>Run\<close>, and with it the session's context.\<close>

definition receive :: "gradient_client \<Rightarrow> gradient_client" where
  "receive c = (if cl_over c \<noteq> None then c
     else (case andThen recv_server_message handle_message c of
         (Inl e, c') \<Rightarrow> c'\<lparr>cl_over := Some e\<rparr>
       | (Inr _, c') \<Rightarrow> c'))"

datatype client_event =
    Receive
  | Finish nat
  | Beat
  | StartQuery string string "string list" u8
  | EndQuery nat

text \<open>The session's goroutines, one step at a time. The heartbeat ends with the session.\<close>

fun client_step :: "client_event \<Rightarrow> gradient_client \<Rightarrow> gradient_client" where
  "client_step Receive c = receive c"
| "client_step (Finish n) c = snd (finish_job n c)"
| "client_step Beat c = (if cl_over c \<noteq> None then c else snd (heartbeat c))"
| "client_step (StartQuery job_id query_id paths mode) c = snd (start_query job_id query_id paths mode c)"
| "client_step (EndQuery n) c = snd (end_query n c)"

definition client_run :: "client_event list \<Rightarrow> gradient_client \<Rightarrow> gradient_client" where
  "client_run evs c = fold client_step evs c"

text \<open>\<open>Run\<close>: the session's start, and then whatever order its goroutines take.\<close>

definition run_client :: "client_config \<Rightarrow> client_event list \<Rightarrow> gradient_client \<Rightarrow> gradient_client" where
  "run_client cfg evs c = (case start_session cfg c of
       (Inl e, c') \<Rightarrow> c'\<lparr>cl_over := Some e\<rparr>
     | (Inr _, c') \<Rightarrow> client_run evs c')"

section \<open>The books of a session\<close>

text \<open>
  The invariant: the count is that of the running handlers; a cancel function is one of a handler
  that is running that very job; a waiting channel is one of a call with that very query, and the
  message it holds answers it.
\<close>

definition client_ok :: "gradient_client \<Rightarrow> bool" where
  "client_ok c \<longleftrightarrow> cl_running c = int (length (cl_live c)) \<and> distinct (map fst (cl_live c)) \<and>
     (\<forall>n \<in> fst ` set (cl_live c) \<union> fst ` set (cl_calls c). n < cl_number c) \<and>
     (\<forall>j n. map_of (cl_cancels c) j = Some n \<longrightarrow> map_of (cl_live c) n = Some j) \<and>
     (\<forall>q ch. map_of (cl_waiters c) q = Some ch \<longrightarrow> map_of (cl_calls c) ch = Some q) \<and>
     (\<forall>ch msg. map_of (cl_inbox c) ch = Some msg \<longrightarrow>
        map_of (cl_calls c) ch = Some (sm_query_id msg) \<and> sm_kind msg \<in> {MsgCacheStatus, MsgCacheError})"

lemma client_okD:
  assumes "client_ok c"
  shows "cl_running c = int (length (cl_live c))" and "distinct (map fst (cl_live c))"
    and "n \<in> fst ` set (cl_live c) \<Longrightarrow> n < cl_number c" and "n \<in> fst ` set (cl_calls c) \<Longrightarrow> n < cl_number c"
    and "map_of (cl_cancels c) j = Some n \<Longrightarrow> map_of (cl_live c) n = Some j"
    and "map_of (cl_waiters c) q = Some ch \<Longrightarrow> map_of (cl_calls c) ch = Some q"
    and "map_of (cl_inbox c) ch = Some msg \<Longrightarrow>
      map_of (cl_calls c) ch = Some (sm_query_id msg) \<and> sm_kind msg \<in> {MsgCacheStatus, MsgCacheError}"
  using assms by (auto simp: client_ok_def)

lemma client_okI:
  assumes "cl_running c = int (length (cl_live c))" and "distinct (map fst (cl_live c))"
    and "\<And>n. n \<in> fst ` set (cl_live c) \<Longrightarrow> n < cl_number c" and "\<And>n. n \<in> fst ` set (cl_calls c) \<Longrightarrow> n < cl_number c"
    and "\<And>j n. map_of (cl_cancels c) j = Some n \<Longrightarrow> map_of (cl_live c) n = Some j"
    and "\<And>q ch. map_of (cl_waiters c) q = Some ch \<Longrightarrow> map_of (cl_calls c) ch = Some q"
    and "\<And>ch msg. map_of (cl_inbox c) ch = Some msg \<Longrightarrow>
      map_of (cl_calls c) ch = Some (sm_query_id msg) \<and> sm_kind msg \<in> {MsgCacheStatus, MsgCacheError}"
  shows "client_ok c"
  using assms unfolding client_ok_def by blast

text \<open>The invariant does not look at the connection.\<close>

lemma client_ok_ws [simp]:
  "client_ok (ws_tries_update f c) = client_ok c" "client_ok (ws_sent_update g c) = client_ok c"
  "client_ok (ws_in_update h c) = client_ok c" "client_ok (ws_panicked_update p c) = client_ok c"
  "client_ok (cl_cancelled_update q c) = client_ok c" "client_ok (cl_over_update r c) = client_ok c"
  by (simp_all add: client_ok_def)

lemma ok_send [keeping]: "keeps client_ok (send_message m)"
  by (auto simp: keeps_def send_message_def split: option.splits)

lemma ok_session_send [keeping]: "keeps client_ok (session_send m)"
  by (auto simp: keeps_def session_send_def send_message_def split: option.splits)

lemma ok_recv [keeping]: "keeps client_ok recv_server_message"
proof -
  have "keeps client_ok read_frame"
    by (auto simp: keeps_def read_frame_def split: list.splits sum.splits)
  then show ?thesis
    unfolding recv_server_message_def
    by (auto intro!: keeping split: option.split sum.split prod.split)
qed

lemma map_of_snoc: "n \<notin> fst ` set xs \<Longrightarrow> map_of (xs @ [(n, v)]) k = (if k = n then Some v else map_of xs k)"
  by (induction xs) auto

lemma length_delete: "distinct (map fst xs) \<Longrightarrow> map_of xs n = Some v \<Longrightarrow> Suc (length (AList.delete n xs)) = length xs"
proof (induction xs)
  case (Cons x xs)
  then show ?case
    by (cases x) (auto simp: AList.delete_eq filter_id_conv filter_empty_conv intro!: arg_cong [of _ _ length] split: if_splits;
        force intro: rev_image_eqI)
qed simp

lemma ok_dispatch [keeping]: "keeps client_ok (dispatch job_id)"
  unfolding dispatch_def
proof (intro keeping)
  fix c assume c: "client_ok c"
  have new: "cl_number c \<notin> fst ` set (cl_live c)" using client_okD(3) [OF c, of "cl_number c"] by blast
  then have live: "map_of (cl_live c @ [(cl_number c, job_id)]) k =
      (if k = cl_number c then Some job_id else map_of (cl_live c) k)" for k
    by (rule map_of_snoc)
  show "client_ok (c\<lparr>cl_cancels := AList.update job_id (cl_number c) (cl_cancels c),
       cl_running := cl_running c + 1, cl_live := cl_live c @ [(cl_number c, job_id)],
       cl_number := Suc (cl_number c)\<rparr>)"
  proof (rule client_okI, goal_cases)
    case (5 j n)
    then show ?case
      using client_okD(5) [OF c, of j n] new live [of n]
      by (auto simp: update_conv' split: if_splits)
  qed (use client_okD [OF c] new in \<open>auto simp: less_Suc_eq\<close>)
qed

lemma ok_finish [keeping]: "keeps client_ok (finish_job n)"
  unfolding keeps_def
proof (intro allI impI)
  fix c assume c: "client_ok c"
  show "client_ok (snd (finish_job n c))"
  proof (cases "map_of (cl_live c) n")
    case None
    then show ?thesis using c by (simp add: finish_job_def)
  next
    case (Some job_id)
    let ?c = "c\<lparr>cl_cancels := AList.delete job_id (cl_cancels c), cl_running := cl_running c - 1,
      cl_live := AList.delete n (cl_live c), cl_cancelled := n # cl_cancelled c\<rparr>"
    have "client_ok ?c"
    proof (rule client_okI, goal_cases)
      case 1
      then show ?case using client_okD(1,2) [OF c] length_delete [OF _ Some] by simp
    next
      case 2
      then show ?case using client_okD(2) [OF c] by (simp add: distinct_delete)
    next
      case (3 k)
      then show ?case using client_okD(3) [OF c, of k] by (auto simp: AList.delete_eq)
    next
      case (5 j k)
      then show ?case using client_okD(5) [OF c, of j k] Some by (auto simp: delete_conv' split: if_splits)
    qed (use client_okD [OF c] in auto)
    moreover have "keeps client_ok (andThen (asks spare_capacity) (\<lambda>has_capacity.
        if has_capacity then ignore (session_send (RequestJob job_kind_build)) else succeed ()))"
      by (intro keeping)
    ultimately show ?thesis
      by (simp add: finish_job_def Some andThen_def [of "modify f" for f] modify_def keepsD)
  qed
qed

lemma ok_abort [keeping]: "keeps client_ok (abort job_id)"
  unfolding abort_def by (intro keeping) (simp split: option.split)

lemma ok_beat [keeping]: "keeps client_ok heartbeat"
  unfolding heartbeat_def by (intro keeping)

lemma ok_start_query [keeping]: "keeps client_ok (start_query job_id query_id paths mode)"
  unfolding keeps_def
proof (intro allI impI)
  fix c assume c: "client_ok c"
  let ?n = "cl_number c"
  let ?c = "c\<lparr>cl_waiters := AList.update query_id ?n (cl_waiters c), cl_number := Suc ?n\<rparr>"
  have new: "?n \<notin> fst ` set (cl_calls c)" using client_okD(4) [OF c, of ?n] by blast
  then have calls: "map_of (cl_calls c @ [(?n, query_id)]) k =
      (if k = ?n then Some query_id else map_of (cl_calls c) k)" for k
    by (rule map_of_snoc)
  have fresh: "map_of (cl_calls c) ch = Some q \<Longrightarrow> ch \<noteq> ?n" for ch q
    using new by (metis image_eqI fst_conv map_of_SomeD)
  have failed: "client_ok (?c\<lparr>cl_waiters := AList.delete query_id (cl_waiters ?c)\<rparr>)"
    by (rule client_okI; use client_okD [OF c] in \<open>auto simp: delete_conv' update_conv' less_Suc_eq split: if_splits\<close>)
  have sent: "client_ok (?c\<lparr>cl_calls := cl_calls c @ [(?n, query_id)]\<rparr>)"
  proof (rule client_okI, goal_cases)
    case (6 q ch)
    then show ?case using client_okD(6) [OF c, of q ch] calls [of ch] fresh [of ch]
      by (auto simp: update_conv' split: if_splits)
  next
    case (7 ch msg)
    then show ?case using client_okD(7) [OF c, of ch msg] calls [of ch] fresh [of ch] by auto
  qed (use client_okD [OF c] in \<open>auto simp: less_Suc_eq\<close>)
  show "client_ok (snd (start_query job_id query_id paths mode c))"
    using sent failed
    by (auto simp: start_query_def Let_def session_send_def send_message_def client_ok_def split: option.splits)
qed

lemma ok_end_query: "client_ok c \<Longrightarrow> client_ok (snd (end_query n c))"
proof (cases "map_of (cl_calls c) n")
  case (Some q)
  assume c: "client_ok c"
  show ?thesis
  proof (simp add: end_query_def Some, rule client_okI, goal_cases)
    case (4 k)
    then show ?case using client_okD(4) [OF c, of k] by (auto simp: AList.delete_eq)
  next
    case (6 q' ch)
    then show ?case using client_okD(6) [OF c, of q' ch] Some by (auto simp: delete_conv' split: if_splits)
  next
    case (7 ch msg)
    then show ?case using client_okD(7) [OF c, of ch msg] Some by (auto simp: delete_conv' split: if_splits)
  qed (use client_okD [OF c] in auto)
qed (simp add: end_query_def)

lemma ok_route:
  assumes "sm_kind msg \<in> {MsgCacheStatus, MsgCacheError}"
  shows "keeps client_ok (route_cache_response msg)"
  unfolding route_cache_response_def
proof (intro keeping)
  fix c assume c: "client_ok c"
  show "client_ok (case map_of (cl_waiters c) (sm_query_id msg) of None \<Rightarrow> c
     | Some ch \<Rightarrow> if map_of (cl_inbox c) ch = None then c\<lparr>cl_inbox := (ch, msg) # cl_inbox c\<rparr> else c)"
  proof (cases "map_of (cl_waiters c) (sm_query_id msg)")
    case None
    then show ?thesis using c by simp
  next
    case (Some ch)
    have "client_ok (c\<lparr>cl_inbox := (ch, msg) # cl_inbox c\<rparr>)"
    proof (rule client_okI, goal_cases)
      case (7 k m)
      then show ?case using client_okD(6,7) [OF c] Some assms by (auto split: if_splits)
    qed (use client_okD [OF c] in auto)
    then show ?thesis using c Some by simp
  qed
qed

lemma ok_handle_message [keeping]: "keeps client_ok (handle_message msg)"
  unfolding handle_message_def
  by (cases "sm_kind msg") (auto intro!: keeping ok_route)

lemma ok_step: "client_ok c \<Longrightarrow> client_ok (client_step e c)"
proof (cases e)
  case Receive
  assume c: "client_ok c"
  have "keeps client_ok (andThen recv_server_message handle_message)" by (intro keeping)
  then have "client_ok (snd (andThen recv_server_message handle_message c))" using c by (rule keepsD)
  then show ?thesis using c Receive by (auto simp: receive_def split: prod.splits sum.splits)
qed (auto intro: keepsD ok_finish ok_beat ok_start_query ok_end_query)

lemma ok_run: "client_ok c \<Longrightarrow> client_ok (client_run evs c)"
  unfolding client_run_def by (induction evs arbitrary: c) (simp_all add: ok_step)

lemma ok_start [keeping]: "keeps client_ok (start_session cfg)"
proof -
  have "keeps client_ok (worker_handshake p caps creds)" for p caps creds
    unfolding worker_handshake_def by (intro keeping)
  then show ?thesis unfolding start_session_def send_request_def by (auto intro!: keeping)
qed

lemma ok_new: "client_ok (new_client cfg inp fails)"
  by (simp add: client_ok_def new_client_def)

text \<open>
  C10: the books of a session, after any server and any schedule of its goroutines. The count that decides
  about requests is the number of running handlers; a cancel function is always one of a handler
  that is running the job it is filed under, so that \<open>AbortJob\<close> never cancels another job; nothing is
  left in the map when no handler runs; and the message that waits for a call of \<open>QueryCache\<close> is a
  cache response with the identifier of that very call.
\<close>

theorem client_books:
  assumes "c = run_client cfg evs (new_client cfg inp fails)"
  shows "cl_running c = int (length (cl_live c)) \<and>
    (\<forall>j n. map_of (cl_cancels c) j = Some n \<longrightarrow> map_of (cl_live c) n = Some j) \<and>
    (cl_live c = [] \<longrightarrow> cl_cancels c = []) \<and>
    (\<forall>n q msg. map_of (cl_calls c) n = Some q \<and> fst (end_query n c) = Some msg \<longrightarrow>
       sm_query_id msg = q \<and> sm_kind msg \<in> {MsgCacheStatus, MsgCacheError})"
proof -
  obtain res d where start: "start_session cfg (new_client cfg inp fails) = (res, d)" by fastforce
  have "client_ok d" using keepsD [OF ok_start ok_new] start by (metis snd_conv)
  then have ok: "client_ok c" using start by (auto simp: assms run_client_def ok_run split: sum.splits)
  have "cl_cancels c = []" if "cl_live c = []"
    using client_okD(5) [OF ok] that by (cases "cl_cancels c") (fastforce split: if_splits)+
  moreover have "sm_query_id msg = q \<and> sm_kind msg \<in> {MsgCacheStatus, MsgCacheError}"
    if "map_of (cl_calls c) n = Some q" "fst (end_query n c) = Some msg" for n q msg
    using client_okD(7) [OF ok, of n msg] that by (auto simp: end_query_def)
  ultimately show ?thesis using client_okD(1,5) [OF ok] by blast
qed

section \<open>Slots\<close>

fun is_request :: "client_message \<Rightarrow> bool" where
  "is_request (RequestJob k) = True"
| "is_request m = False"

fun is_accept :: "client_message \<Rightarrow> bool" where
  "is_accept (AssignJobResponse j a r) = True"
| "is_accept m = False"

definition requests :: "gradient_client \<Rightarrow> nat" where
  "requests c = length (filter is_request (ws_sent c))"

definition accepts :: "gradient_client \<Rightarrow> nat" where
  "accepts c = length (filter is_accept (ws_sent c))"

text \<open>The jobs that were asked for and are still to come, and those that run, fill the slots.\<close>

definition slots_filled :: "gradient_client \<Rightarrow> bool" where
  "slots_filled c \<longleftrightarrow> sends_work c \<and> cl_running c = int (length (cl_live c)) \<and>
     (cl_over c = None \<longrightarrow> unat (cl_max c) + accepts c \<le> requests c + length (cl_live c))"

lemma full_when_no_capacity:
  assumes "\<not> spare_capacity c" and "cl_running c = int k"
  shows "unat (cl_max c) \<le> k"
proof -
  have "unat (cl_max c) \<le> unat (word_of_nat k :: u32)"
    using assms by (simp add: spare_capacity_def word_le_nat_alt not_less)
  also have "\<dots> \<le> k" by (simp add: unat_of_nat)
  finally show ?thesis .
qed

lemma filled_send: "sends_work c \<Longrightarrow> send_message m c =
    (Inr (), c\<lparr>ws_tries := Suc (ws_tries c), ws_sent := ws_sent c @ [m]\<rparr>)"
  by (simp add: send_message_def sends_work_def)

lemma filled_beat: "slots_filled c \<Longrightarrow> slots_filled (snd (heartbeat c))"
  by (auto simp: heartbeat_def andThen_def asks_def ignore_def session_send_def filled_send succeed_def
      slots_filled_def sends_work_def requests_def accepts_def)

lemma filled_dispatch: "slots_filled c \<Longrightarrow> slots_filled (snd (dispatch job_id c))"
  by (auto simp: dispatch_def andThen_def modify_def ignore_def session_send_def send_message_def
      slots_filled_def sends_work_def requests_def accepts_def)

lemma filled_finish:
  assumes "slots_filled c" and "client_ok c" and "accepts c \<le> requests c"
  shows "slots_filled (snd (finish_job n c))"
proof (cases "map_of (cl_live c) n")
  case None
  then show ?thesis using assms(1) by (simp add: finish_job_def)
next
  case (Some job_id)
  let ?c = "c\<lparr>cl_cancels := AList.delete job_id (cl_cancels c), cl_running := cl_running c - 1,
      cl_live := AList.delete n (cl_live c), cl_cancelled := n # cl_cancelled c\<rparr>"
  have length: "Suc (length (cl_live ?c)) = length (cl_live c)"
    using length_delete [OF client_okD(2) [OF assms(2)] Some] by simp
  then have running: "cl_running ?c = int (length (cl_live ?c))"
    using assms(1) by (simp add: slots_filled_def)
  show ?thesis
  proof (cases "spare_capacity ?c")
    case True
    then show ?thesis
      using assms(1) running length [symmetric]
      by (cases "cl_over c") (simp_all add: finish_job_def Some andThen_def modify_def asks_def ignore_def session_send_def
          send_message_def slots_filled_def sends_work_def requests_def accepts_def)
  next
    case False
    then show ?thesis
      using assms(1,3) running full_when_no_capacity [OF False running]
      by (simp add: finish_job_def Some andThen_def modify_def asks_def succeed_def
          slots_filled_def sends_work_def requests_def accepts_def)
  qed
qed

lemma filled_query: "slots_filled c \<Longrightarrow> slots_filled (snd (start_query job_id query_id paths mode c))"
  by (auto simp: start_query_def Let_def session_send_def send_message_def
      slots_filled_def sends_work_def requests_def accepts_def)

lemma filled_end: "slots_filled c \<Longrightarrow> slots_filled (snd (end_query n c))"
  by (auto simp: end_query_def slots_filled_def sends_work_def requests_def accepts_def split: option.splits)

lemma keeps_recv:
  assumes "\<And>c f g. P c \<Longrightarrow> P (ws_in_update f c)" and "\<And>c f g. P c \<Longrightarrow> P (ws_panicked_update f c)"
  shows "keeps P (recv_server_message :: (gradient_client, server_message) io)"
proof -
  have "keeps P read_frame"
    using assms(1) by (auto simp: keeps_def read_frame_def split: list.splits sum.splits)
  then show ?thesis
    unfolding recv_server_message_def
    by (auto intro!: keeping assms(2) split: option.split sum.split prod.split)
qed

lemma filled_handle: "keeps slots_filled (handle_message msg)"
proof -
  have "slots_filled (cl_cancelled_update f c) = slots_filled c" "slots_filled (cl_inbox_update g c) = slots_filled c" for f g c
    by (simp_all add: slots_filled_def sends_work_def requests_def accepts_def)
  then have "keeps slots_filled (abort j)" "keeps slots_filled (route_cache_response m)" for j m
    unfolding abort_def route_cache_response_def by (auto intro!: keeping split: option.split)
  moreover have "keeps slots_filled (dispatch j)" for j using filled_dispatch by (simp add: keeps_def)
  ultimately show ?thesis
    unfolding handle_message_def by (cases "sm_kind msg") (auto intro!: keeping)
qed

lemma filled_receive:
  assumes "slots_filled c"
  shows "slots_filled (receive c)"
proof -
  have "keeps slots_filled (andThen recv_server_message handle_message)"
    by (intro keeping filled_handle keeps_recv)
      (simp_all add: slots_filled_def sends_work_def requests_def accepts_def)
  then have "slots_filled (snd (andThen recv_server_message handle_message c))" using assms by (rule keepsD)
  then show ?thesis
    using assms
    by (auto simp: receive_def slots_filled_def sends_work_def requests_def accepts_def split: prod.splits sum.splits)
qed

lemma filled_step:
  "slots_filled c \<Longrightarrow> client_ok c \<Longrightarrow> accepts c \<le> requests c \<Longrightarrow> slots_filled (client_step e c)"
  by (cases e) (simp_all add: filled_receive filled_finish filled_beat filled_query filled_end)

text \<open>The start fills the slots with its requests.\<close>

lemma talks_recv: "(\<And>res. P res []) \<Longrightarrow> talks recv_server_message P ws"
  unfolding recv_server_message_def
  by (auto simp: talks_def andThen_def read_frame_def throw_def succeed_def modify_def
      split: list.split sum.split option.split prod.split)

lemma talks_requests:
  "talks (run_all (replicate n send_request)) (\<lambda>res ms. res = Inr () \<longrightarrow> ms = replicate n (RequestJob job_kind_build)) c"
proof (induction n arbitrary: c)
  case 0
  then show ?case by (simp add: talks_succeed)
next
  case (Suc n)
  have "talks (send_message (RequestJob job_kind_build))
      (\<lambda>res ms. res = Inr () \<longrightarrow> ms = [RequestJob job_kind_build]) c"
    by (rule talks_send) simp_all
  then show ?case
    unfolding replicate_Suc run_all.simps send_request_def [symmetric]
    by (rule talks_then) (auto intro: talks_weaken [OF Suc.IH])
qed

text \<open>Messages that are neither requests nor answers to jobs.\<close>

abbreviation prelude_only :: "io_error + 'a \<Rightarrow> client_message list \<Rightarrow> bool" where
  "prelude_only res ms \<equiv> \<forall>m \<in> set ms. \<not> is_request m \<and> \<not> is_accept m"

lemma prelude_then:
  assumes "talks m prelude_only c" and "\<And>v c'. talks (f v) prelude_only c'"
  shows "talks (andThen m f) prelude_only c"
  by (rule talks_then [OF assms(1)], assumption, rule talks_weaken [OF assms(2)]) auto

lemma talks_start:
  "talks (start_session cfg) (\<lambda>res ms. res = Inr () \<longrightarrow>
     length (filter is_request ms) = unat (cc_max_concurrent_builds cfg) \<and> filter is_accept ms = []) c"
proof -
  let ?n = "unat (cc_max_concurrent_builds cfg)"
  have handshake: "talks (worker_handshake p caps creds) prelude_only c'" for p caps creds and c' :: gradient_client
    unfolding worker_handshake_def
    by (auto intro!: prelude_then talks_send talks_wrap talks_recv talks_throw talks_succeed)
  have capabilities: "talks (send_message (WorkerCapabilities as fs m n r k)) prelude_only c'"
    for as fs m n r k and c' :: gradient_client
    by (rule talks_send) simp_all
  have quiet: "filter is_request ms = [] \<and> filter is_accept ms = []" if "prelude_only (Inr ()) ms" for ms
    using that by (auto simp: filter_empty_conv)
  have requests: "talks (run_all (replicate ?n send_request)) (\<lambda>res ms'. res = Inr () \<longrightarrow>
      length (filter is_request (ms @ ms')) = ?n \<and> filter is_accept (ms @ ms') = []) c'"
    if "filter is_request ms = [] \<and> filter is_accept ms = []" for ms and c' :: gradient_client
    by (rule talks_weaken [OF talks_requests]) (use that in auto)
  show ?thesis
    unfolding start_session_def
  proof (rule talks_then [OF handshake], goal_cases)
    case (2 result ms c')
    show ?case
    proof (cases "cap_build (hr_negotiated result)")
      case False
      then show ?thesis by (auto intro: talks_throw)
    next
      case True
      then show ?thesis
        using 2(1)
        by (simp, intro talks_then [OF capabilities]) (auto intro!: requests [THEN talks_weaken] simp: filter_empty_conv)
    qed
  qed simp
qed

text \<open>The configured number of slots does not change.\<close>

lemma max_step: "cl_max (client_step e c) = cl_max c"
proof (cases e)
  case Receive
  let ?P = "\<lambda>d. cl_max d = cl_max c"
  have send: "keeps ?P (session_send m)" for m
    by (auto simp: keeps_def session_send_def send_message_def split: option.splits)
  have "keeps ?P (handle_message msg)" for msg
    unfolding handle_message_def dispatch_def abort_def route_cache_response_def
    by (cases "sm_kind msg") (auto intro!: keeping send split: option.splits)
  then have "keeps ?P (andThen recv_server_message handle_message)"
    by (intro keeping keeps_recv) simp_all
  then have "?P (snd (andThen recv_server_message handle_message c))" by (rule keepsD) simp
  then show ?thesis by (auto simp: Receive receive_def split: prod.splits sum.splits)
qed (auto simp: finish_job_def heartbeat_def start_query_def end_query_def Let_def andThen_def modify_def asks_def
    ignore_def session_send_def send_message_def succeed_def split: option.splits)

lemma filled_start:
  assumes "start_session cfg (new_client cfg inp (\<lambda>_. None)) = (Inr (), c)"
  shows "slots_filled c" and "cl_max c = cc_max_concurrent_builds cfg"
proof -
  let ?P = "\<lambda>c :: gradient_client. cl_max c = cc_max_concurrent_builds cfg \<and> cl_live c = [] \<and> cl_running c = 0 \<and> sends_work c"
  have send: "keeps ?P (send_message m)" for m
    by (auto simp: keeps_def send_message_def sends_work_def split: option.splits)
  have recv: "keeps ?P recv_server_message" by (rule keeps_recv) (simp_all add: sends_work_def)
  have hs: "keeps ?P (worker_handshake p caps creds)" for p caps creds
    unfolding worker_handshake_def by (intro keeping send recv)
  have "keeps ?P (start_session cfg)"
    unfolding start_session_def send_request_def by (auto intro!: keeping send hs)
  then have "?P (snd (start_session cfg (new_client cfg inp (\<lambda>_. None))))"
    by (rule keepsD) (simp add: new_client_def sends_work_def)
  then have P: "?P c" by (simp add: assms)
  then show "cl_max c = cc_max_concurrent_builds cfg" by simp
  have "length (filter is_request (ws_sent c)) = unat (cc_max_concurrent_builds cfg)" "filter is_accept (ws_sent c) = []"
    using talks_start [of cfg "new_client cfg inp (\<lambda>_. None)"] assms by (auto simp: talks_def new_client_def)
  then show "slots_filled c" using P by (simp add: slots_filled_def requests_def accepts_def)
qed

lemma run_client_snoc:
  "start_session cfg c = (Inr (), d) \<Longrightarrow> run_client cfg (evs @ [e]) c = client_step e (run_client cfg evs c)"
  by (simp add: run_client_def client_run_def)

text \<open>
  C11: no slot is lost. While the connection takes the worker's messages and the server does not assign
  more jobs than it was asked for, then at any point of any schedule of the session the jobs that run and the
  requests that are still unanswered are at least \<open>MaxConcurrentBuilds\<close>: a job that ends is always
  followed by a request as long as its slot is free, without waiting for the heartbeat.
\<close>

theorem slots_kept:
  assumes "start_session cfg (new_client cfg inp (\<lambda>_. None)) = (Inr (), d)"
    and "\<And>k. accepts (run_client cfg (take k evs) (new_client cfg inp (\<lambda>_. None))) \<le>
      requests (run_client cfg (take k evs) (new_client cfg inp (\<lambda>_. None)))"
    and "c = run_client cfg evs (new_client cfg inp (\<lambda>_. None))" and "cl_over c = None"
  shows "unat (cc_max_concurrent_builds cfg) \<le> (requests c - accepts c) + length (cl_live c)"
proof -
  let ?run = "\<lambda>evs. run_client cfg evs (new_client cfg inp (\<lambda>_. None))"
  have ok: "client_ok (?run evs)" for evs
  proof -
    have "client_ok d" using keepsD [OF ok_start ok_new] assms(1) by (metis snd_conv)
    then show ?thesis by (simp add: run_client_def assms(1) ok_run)
  qed
  have filled: "slots_filled (?run evs) \<and> cl_max (?run evs) = cc_max_concurrent_builds cfg" using assms(2)
  proof (induction evs rule: rev_induct)
    case Nil
    then show ?case using filled_start [OF assms(1)] by (simp add: run_client_def assms(1) client_run_def)
  next
    case (snoc e evs)
    have "accepts (?run (take k evs)) \<le> requests (?run (take k evs))" for k
      using snoc.prems [of "min k (length evs)"] by (cases "k \<le> length evs") simp_all
    from snoc.IH [OF this]
    have IH: "slots_filled (?run evs)" "cl_max (?run evs) = cc_max_concurrent_builds cfg" by simp_all
    have "accepts (?run evs) \<le> requests (?run evs)" using snoc.prems [of "length evs"] by simp
    then have "slots_filled (client_step e (?run evs))" by (intro filled_step IH ok)
    then show ?case using IH(2) by (simp add: run_client_snoc [OF assms(1)] max_step)
  qed
  have "accepts c \<le> requests c" using assms(2) [of "length evs"] by (simp add: assms(3))
  moreover have "unat (cc_max_concurrent_builds cfg) + accepts c \<le> requests c + length (cl_live c)"
    using filled [THEN conjunct1] filled [THEN conjunct2] using assms(4) by (simp add: slots_filled_def assms(3))
  ultimately show ?thesis by linarith
qed

text \<open>A session that starts with the server's two messages, and then takes a job.\<close>

lemma start_carried:
  assumes "carries f (AuthChallenge ps)" and "carries g (InitAck v negotiated authorized failed)" and "cap_build negotiated"
    and "cc_max_concurrent_builds cfg = 1"
  shows "\<exists>ms. start_session cfg (new_client cfg (f # g # rest) (\<lambda>_. None)) =
    (Inr (), (new_client cfg rest (\<lambda>_. None))\<lparr>ws_tries := 4, ws_sent := ms @ [RequestJob job_kind_build]\<rparr>) \<and>
    filter is_request ms = [] \<and> filter is_accept ms = []"
proof -
  let ?new = "\<lambda>inp k ms. (new_client cfg inp (\<lambda>_. None))\<lparr>ws_tries := k, ws_sent := ms\<rparr>"
  have recv: "wrap msg recv_server_message (?new (h # inp) k ms) = (Inr (as_message e), ?new inp k ms)"
    if "carries h e" for h e inp k ms msg
    using recv_carried [OF that, of "?new (h # inp) k ms" inp] by (simp add: wrap_step new_client_def)
  have send: "send_message m (?new inp k ms) = (Inr (), ?new inp (Suc k) (ms @ [m]))" for m inp k ms
    by (simp add: send_message_def new_client_def)
  have start: "new_client cfg (f # g # rest) (\<lambda>_. None) = ?new (f # g # rest) 0 []"
    by (simp add: new_client_def)
  have one: "replicate (unat (cc_max_concurrent_builds cfg)) m = [m]" for m :: "(gradient_client, unit) io"
    by (simp add: assms(4))
  show ?thesis
    by (subst start, rule exI [where x = "[InitConnection proto_version (no_capabilities\<lparr>cap_build := True\<rparr>) (cc_peer_id cfg),
        AuthResponse (tokens_for (cc_credentials cfg) ps),
        WorkerCapabilities (cc_architectures cfg) (cc_system_features cfg)
          (cc_max_concurrent_builds cfg) (cc_cpu_count cfg) (cc_ram_total_mb cfg) (cc_cpu_core_score cfg)]"])
      (simp add: start_session_def worker_handshake_def andThen_def send recv [OF assms(1)] recv [OF assms(2)]
        server_msg_def succeed_def one send_request_def assms(3))
qed

abbreviation demo_client_config :: client_config where
  "demo_client_config \<equiv> \<lparr>cc_peer_id = ''me'', cc_credentials = [], cc_architectures = [''x86_64-linux''], cc_system_features = [],
     cc_max_concurrent_builds = 1, cc_cpu_count = 4, cc_ram_total_mb = 8192, cc_cpu_core_score = 100\<rparr>"

lemma assign_length: "fake_server (AssignJob ''job'' []) = Some out \<Longrightarrow> length out = 112"
  by (auto simp: fake_build_job_def prepare_variant_def prepare_vec_def reserve_def pad_to_def new_arena_def
    layouts_eval sizes_eval encode_server_def encode_message_def encode_root_def server_message_align_def
    server_message_size_def prepare_tagged_union_def put_tag1_def write_byte_at_def put_i32_def put_u32_def
    copy_at_def splice_def prepare_string_def inline_capacity_def bind_eq_Some_conv Let_def zeros_def split: if_splits prod.splits)

lemma demo_carried: "\<exists>f g h. carries f (AuthChallenge [''org'']) \<and>
    carries g (InitAck 7 (no_capabilities\<lparr>cap_build := True\<rparr>) [''org''] []) \<and> carries h (AssignJob ''job'' [])"
proof -
  let ?e = "AuthChallenge [''org'']" and ?a = "InitAck 7 (no_capabilities\<lparr>cap_build := True\<rparr>) [''org''] []"
    and ?j = "AssignJob ''job'' []"
  have answers: "\<exists>f. carries f e" if "e \<in> {?e, ?a}" for e
  proof -
    have "safe_server e" using that by (auto simp: sso_safe_def)
    moreover have "map_option length (fake_server ?e) = Some 120" "map_option length (fake_server ?a) = Some 120"
      by code_simp+
    then have "\<exists>buf. fake_server e = Some buf \<and> length buf \<le> max_message_size"
      using that by (auto simp: max_message_size_def)
    ultimately show ?thesis by (auto simp: carries_def)
  qed
  have job: "\<exists>h. carries h ?j"
  proof -
    have safe: "safe_server ?j" by (simp add: sso_safe_def)
    then obtain out where "fake_server ?j = Some out" using fake_server_delivered [OF safe] by (auto simp: delivered_def)
    then show ?thesis using safe assign_length [of out] by (auto simp: carries_def max_message_size_def simp del: fake_server.simps)
  qed
  show ?thesis using answers [of ?e] answers [of ?a] job by simp
qed

lemma demo_run:
  assumes "carries f (AuthChallenge [''org''])" and "carries h (AssignJob ''job'' [])"
    and "carries g (InitAck 7 (no_capabilities\<lparr>cap_build := True\<rparr>) [''org''] [])"
  shows "\<exists>ms c. run_client demo_client_config [] (new_client demo_client_config [f, g, h] (\<lambda>_. None)) =
       (new_client demo_client_config [h] (\<lambda>_. None))\<lparr>ws_tries := 4, ws_sent := ms @ [RequestJob job_kind_build]\<rparr> \<and>
     run_client demo_client_config [Receive] (new_client demo_client_config [f, g, h] (\<lambda>_. None)) = c \<and>
     c = (new_client demo_client_config [] (\<lambda>_. None))\<lparr>ws_tries := 5, cl_cancels := [(''job'', 0)], cl_running := 1,
         cl_live := [(0, ''job'')], cl_number := 1,
         ws_sent := ms @ [RequestJob job_kind_build, AssignJobResponse ''job'' True None]\<rparr> \<and>
     run_client demo_client_config [Receive, Finish 0] (new_client demo_client_config [f, g, h] (\<lambda>_. None)) =
       c\<lparr>ws_tries := 6, cl_cancels := [], cl_running := 0, cl_live := [], cl_cancelled := [0],
         ws_sent := ws_sent c @ [RequestJob job_kind_build]\<rparr> \<and>
     filter is_request ms = [] \<and> filter is_accept ms = []"
proof -
  obtain ms where start: "start_session demo_client_config (new_client demo_client_config [f, g, h] (\<lambda>_. None)) =
      (Inr (), (new_client demo_client_config [h] (\<lambda>_. None))\<lparr>ws_tries := 4, ws_sent := ms @ [RequestJob job_kind_build]\<rparr>)"
    and ms: "filter is_request ms = []" "filter is_accept ms = []"
    using start_carried [OF assms(1,3), of demo_client_config "[h]"] by auto
  have recv: "recv_server_message (c :: gradient_client) = (Inr (as_message (AssignJob ''job'' [])), c\<lparr>ws_in := []\<rparr>)"
    if "ws_in c = [h]" for c
    using recv_carried [OF assms(2) that] .
  let ?started = "(new_client demo_client_config [h] (\<lambda>_. None))\<lparr>ws_tries := 4, ws_sent := ms @ [RequestJob job_kind_build]\<rparr>"
  have received: "receive ?started = (new_client demo_client_config [] (\<lambda>_. None))\<lparr>ws_tries := 5, cl_cancels := [(''job'', 0)],
      cl_running := 1, cl_live := [(0, ''job'')], cl_number := 1,
      ws_sent := ms @ [RequestJob job_kind_build, AssignJobResponse ''job'' True None]\<rparr>"
    by (simp add: receive_def andThen_def recv new_client_def server_msg_def handle_message_def dispatch_def modify_def
        ignore_def session_send_def send_message_def)
  show ?thesis
    by (intro exI [of _ ms] exI [of _ "receive ?started"])
      (simp add: run_client_def start client_run_def received ms, simp add: new_client_def finish_job_def andThen_def
        modify_def asks_def ignore_def session_send_def send_message_def spare_capacity_def)
qed

lemma client_books_witness:
  "\<exists>f g h c. c = run_client demo_client_config [Receive] (new_client demo_client_config [f, g, h] (\<lambda>_. None)) \<and>
     cl_live c = [(0, ''job'')] \<and> cl_running c = 1 \<and>
     (\<forall>j n. map_of (cl_cancels c) j = Some n \<longrightarrow> map_of (cl_live c) n = Some j)"
proof -
  obtain f g h where demo: "carries f (AuthChallenge [''org''])" "carries h (AssignJob ''job'' [])"
      "carries g (InitAck 7 (no_capabilities\<lparr>cap_build := True\<rparr>) [''org''] [])"
    using demo_carried by blast
  let ?c = "run_client demo_client_config [Receive] (new_client demo_client_config [f, g, h] (\<lambda>_. None))"
  have "cl_live ?c = [(0, ''job'')]" using demo_run [OF demo] by auto
  with client_books [OF refl, of demo_client_config "[Receive]" "[f, g, h]" "\<lambda>_. None"]
  show ?thesis by (intro exI [of _ f] exI [of _ g] exI [of _ h] exI [of _ ?c]) simp
qed

lemma slots_kept_witness:
  "\<exists>f g h c. c = run_client demo_client_config [Receive, Finish 0] (new_client demo_client_config [f, g, h] (\<lambda>_. None)) \<and>
     accepts c = 1 \<and> 1 \<le> (requests c - accepts c) + length (cl_live c)"
proof -
  obtain f g h where demo: "carries f (AuthChallenge [''org''])" "carries h (AssignJob ''job'' [])"
      "carries g (InitAck 7 (no_capabilities\<lparr>cap_build := True\<rparr>) [''org''] [])"
    using demo_carried by blast
  let ?new = "new_client demo_client_config [f, g, h] (\<lambda>_. None)"
  let ?run = "\<lambda>evs. run_client demo_client_config evs ?new"
  have runs: "requests (?run []) = 1" "accepts (?run []) = 0" "requests (?run [Receive]) = 1" "accepts (?run [Receive]) = 1"
      "requests (?run [Receive, Finish 0]) = 2" "accepts (?run [Receive, Finish 0]) = 1"
      "cl_over (?run [Receive, Finish 0]) = None"
    using demo_run [OF demo] by (auto simp: requests_def accepts_def new_client_def)
  have "accepts (?run (take k [Receive, Finish 0])) \<le> requests (?run (take k [Receive, Finish 0]))" for k
  proof -
    have "take k [Receive, Finish 0] \<in> {[], [Receive], [Receive, Finish 0]}"
      by (cases k; cases "k - 1") auto
    then show ?thesis using runs by (elim insertE emptyE; simp only:; simp)
  qed
  moreover obtain d where "start_session demo_client_config ?new = (Inr (), d)"
    using start_carried [OF demo(1,3), of demo_client_config "[h]"] by auto
  ultimately have "unat (cc_max_concurrent_builds demo_client_config)
      \<le> (requests (?run [Receive, Finish 0]) - accepts (?run [Receive, Finish 0])) + length (cl_live (?run [Receive, Finish 0]))"
    using slots_kept [of demo_client_config "[f, g, h]" d "[Receive, Finish 0]"] runs(7) by blast
  then show ?thesis using runs by (intro exI [of _ f] exI [of _ g] exI [of _ h] exI [of _ "?run [Receive, Finish 0]"]) simp
qed

end
