(* ===== verification/Proxy_Main.thy ===== *)
theory Proxy_Main
  imports Metrics Provisioners Gradient_Client
begin

text \<open>
  The program around the components (\<open>main.go\<close>): its configuration from the environment, the SSH
  server that lets clients in and starts the daemon protocol for them, the keys it accepts, and the
  worker's loop over its sessions with a Gradient server. The SSH library, the clock, random numbers
  and the parsers of keys and durations are parameters.
\<close>

section \<open>Configuration\<close>

text \<open>Durations are in nanoseconds.\<close>

definition one_second :: nat where "one_second = 1000000000"

type_synonym environment = "string \<Rightarrow> string"

definition get_env_int :: "environment \<Rightarrow> string \<Rightarrow> int \<Rightarrow> int" where
  "get_env_int env k d = (if env k \<noteq> '''' then (case atoi (env k) of Some i \<Rightarrow> i | None \<Rightarrow> d) else d)"

definition get_env_string :: "environment \<Rightarrow> string \<Rightarrow> string \<Rightarrow> string" where
  "get_env_string env k d = (if env k \<noteq> '''' then env k else d)"

definition get_env_duration :: "(string \<Rightarrow> int option) \<Rightarrow> environment \<Rightarrow> string \<Rightarrow> int \<Rightarrow> int" where
  "get_env_duration parse env k d = (if env k \<noteq> '''' then (case parse (env k) of Some t \<Rightarrow> t | None \<Rightarrow> d) else d)"

definition get_env_string_slice :: "environment \<Rightarrow> string \<Rightarrow> string list \<Rightarrow> string list" where
  "get_env_string_slice env k d = (let v = env k in if v = '''' then d
     else let out = filter (\<lambda>p. p \<noteq> '''') (map trim_line (split_on (CHR '','') v)) in if out = [] then d else out)"

record main_config =
  mc_hcloud_token :: string
  mc_authorized_keys_file :: string
  mc_store_host_ip :: string
  mc_store_host_ssh_port :: int
  mc_store_host_user :: string
  mc_store_host_key :: string
  mc_builder_reuse :: bool
  mc_builder_pool_size :: int
  mc_builder_destroy_delay :: int
  mc_provisioner :: string
  mc_kube :: kube_config
  mc_signing_key_name :: string
  mc_gradient_enabled :: bool
  mc_gradient_server_url :: string
  mc_gradient_peers_file :: string
  mc_gradient_architectures :: "string list"
  mc_gradient_max_concurrent_builds :: u32

definition load_config :: "(string \<Rightarrow> int option) \<Rightarrow> environment \<Rightarrow> main_config" where
  "load_config parse env = \<lparr>
     mc_hcloud_token = env ''HCLOUD_TOKEN'', mc_authorized_keys_file = env ''AUTHORIZED_KEYS_FILE'',
     mc_store_host_ip = env ''STORE_HOST'', mc_store_host_ssh_port = get_env_int env ''STORE_HOST_SSH_PORT'' 22,
     mc_store_host_user = get_env_string env ''STORE_HOST_USER'' ''nix-builder'', mc_store_host_key = env ''STORE_HOST_KEY'',
     mc_builder_reuse = (env ''BUILDER_REUSE'' = ''true''), mc_builder_pool_size = get_env_int env ''BUILDER_POOL_SIZE'' 5,
     mc_builder_destroy_delay = get_env_duration parse env ''BUILDER_DESTROY_DELAY'' (30 * int one_second),
     mc_provisioner = get_env_string env ''PROVISIONER'' ''hetzner-ubuntu'',
     mc_kube = \<lparr>kc_namespace = get_env_string env ''K8S_NAMESPACE'' ''nix-builders'', kc_builder_image = env ''K8S_BUILDER_IMAGE'',
       kc_cpu_request = get_env_string env ''K8S_CPU_REQUEST'' ''2'', kc_memory_request = get_env_string env ''K8S_MEMORY_REQUEST'' ''4Gi'',
       kc_cpu_limit = get_env_string env ''K8S_CPU_LIMIT'' ''4'', kc_memory_limit = get_env_string env ''K8S_MEMORY_LIMIT'' ''8Gi'',
       kc_image_pull_secret = env ''K8S_IMAGE_PULL_SECRET''\<rparr>,
     mc_signing_key_name = get_env_string env ''SIGNING_KEY_NAME'' ''nix-builder-proxy-1'',
     mc_gradient_enabled = (env ''GRADIENT_ENABLED'' = ''true''), mc_gradient_server_url = env ''GRADIENT_SERVER_URL'',
     mc_gradient_peers_file = env ''GRADIENT_PEERS_FILE'',
     mc_gradient_architectures = get_env_string_slice env ''GRADIENT_ARCHITECTURES'' [''x86_64-linux'', ''aarch64-linux''],
     mc_gradient_max_concurrent_builds = word_of_int (get_env_int env ''GRADIENT_MAX_CONCURRENT_BUILDS'' 5)\<rparr>"

text \<open>\<open>createProvisioner\<close>, up to the API client of the cluster; \<open>log.Fatalf\<close> is an error.\<close>

datatype provider = Hetzner hetzner_config | Kubernetes kube_config

definition create_provisioner :: "environment \<Rightarrow> main_config \<Rightarrow> io_error + provider" where
  "create_provisioner env config =
     (if mc_provisioner config = ''hetzner-ubuntu'' then
        Inr (Hetzner \<lparr>hc_server_types = [(''aarch64'', get_env_string env ''HCLOUD_SERVER_TYPE_ARM'' ''cax31''),
            (''x86_64'', get_env_string env ''HCLOUD_SERVER_TYPE_X86'' ''cx33'')],
          hc_location = env ''HCLOUD_LOCATION''\<rparr>)
      else if mc_provisioner config = ''kubernetes'' then
        (if kc_builder_image (mc_kube config) = '''' then
           Inl (Failed ''K8S_BUILDER_IMAGE is required for kubernetes provisioner'')
         else (case kube_defaults (mc_kube config) of
             Inl e \<Rightarrow> Inl (Wrapped ''Failed to create kubernetes provisioner'' e)
           | Inr cfg \<Rightarrow> Inr (Kubernetes cfg)))
      else Inl (Failed (''Unknown provisioner: '' @ mc_provisioner config)))"

text \<open>The checks of \<open>main\<close> before it starts, in their order.\<close>

definition check_config :: "environment \<Rightarrow> main_config \<Rightarrow> io_error + provider" where
  "check_config env config =
     (if mc_provisioner config \<noteq> ''kubernetes'' \<and> mc_hcloud_token config = '''' then
        Inl (Failed ''HCLOUD_TOKEN is required for hetzner provisioners'')
      else if mc_store_host_ip config = '''' then Inl (Failed ''STORE_HOST is required'')
      else (case create_provisioner env config of
          Inl e \<Rightarrow> Inl e
        | Inr p \<Rightarrow>
            if mc_gradient_enabled config \<and> mc_gradient_server_url config = '''' then
              Inl (Failed ''GRADIENT_SERVER_URL is required when GRADIENT_ENABLED=true'')
            else Inr p))"

text \<open>What the daemon protocol is configured with.\<close>

definition nix_daemon_config :: "main_config \<Rightarrow> store_signer option \<Rightarrow> proxy_config" where
  "nix_daemon_config config signer = \<lparr>
     pc_store_host_addr = mc_store_host_ip config @ '':'' @ signed_decimal (mc_store_host_ssh_port config),
     pc_store_host_key = True, pc_metrics = True, pc_signer = signer,
     pc_user_store_enabled = False, pc_user_fingerprint = '''', pc_user_store_root = ''''\<rparr>"

section \<open>SSH sessions\<close>

record ssh_request =
  rq_type :: string
  rq_payload :: "byte list"
  rq_want_reply :: bool

datatype ssh_event = Reply bool | DaemonSession | ExitStatus "byte list"

text \<open>The length of the command, big-endian, and the command.\<close>

definition exec_command :: "byte list \<Rightarrow> string option" where
  "exec_command payload = (if length payload < 4 then None
     else let n = unat (payload ! 0) * 2 ^ 24 + unat (payload ! 1) * 2 ^ 16 + unat (payload ! 2) * 2 ^ 8 + unat (payload ! 3) in
       if length payload < 4 + n then None else Some (string_of (take n (drop 4 payload))))"

definition runs_daemon :: "string \<Rightarrow> bool" where
  "runs_daemon cmd \<longleftrightarrow> contains ''nix-daemon'' cmd \<and> contains ''--stdio'' cmd"

fun handle_ssh_session :: "ssh_request list \<Rightarrow> ssh_event list" where
  "handle_ssh_session [] = []"
| "handle_ssh_session (req # reqs) =
     (if rq_type req = ''exec'' then
        (case exec_command (rq_payload req) of
           None \<Rightarrow> Reply False # handle_ssh_session reqs
         | Some cmd \<Rightarrow>
             if runs_daemon cmd then [Reply True, DaemonSession, ExitStatus [0, 0, 0, 0]]
             else Reply False # handle_ssh_session reqs)
      else if rq_type req = ''shell'' \<or> rq_type req = ''pty-req'' then Reply False # handle_ssh_session reqs
      else if rq_type req = ''env'' then Reply True # handle_ssh_session reqs
      else (if rq_want_reply req then [Reply False] else []) @ handle_ssh_session reqs)"

section \<open>Authorized keys\<close>

text \<open>The map from fingerprints to keys; \<open>parse\<close> is the parser for a line of the file.\<close>

fun load_keys :: "(string \<Rightarrow> 'k option) \<Rightarrow> ('k \<Rightarrow> string) \<Rightarrow> string list \<Rightarrow> (string \<times> 'k) list \<Rightarrow> (string \<times> 'k) list" where
  "load_keys parse fingerprint [] keys = keys"
| "load_keys parse fingerprint (l # ls) keys = load_keys parse fingerprint ls
     (case parse l of None \<Rightarrow> keys | Some key \<Rightarrow> AList.update (fingerprint key) key keys)"

text \<open>\<open>reloadKeys\<close>, with the content of the file if it could be opened.\<close>

definition reload_keys ::
  "(string \<Rightarrow> 'k option) \<Rightarrow> ('k \<Rightarrow> string) \<Rightarrow> string option \<Rightarrow> (string \<times> 'k) list \<Rightarrow> (string \<times> 'k) list" where
  "reload_keys parse fingerprint opened keys = (case opened of
       None \<Rightarrow> keys
     | Some content \<Rightarrow> load_keys parse fingerprint (fst (scan_lines content)) keys)"

definition is_authorized :: "('k \<Rightarrow> string) \<Rightarrow> (string \<times> 'k) list \<Rightarrow> 'k \<Rightarrow> bool" where
  "is_authorized fingerprint keys key \<longleftrightarrow> map_of keys (fingerprint key) \<noteq> None"

text \<open>The manager after reading the file at its start and every ten seconds.\<close>

definition authorized_keys :: "(string \<Rightarrow> 'k option) \<Rightarrow> ('k \<Rightarrow> string) \<Rightarrow> string option list \<Rightarrow> (string \<times> 'k) list" where
  "authorized_keys parse fingerprint files = fold (reload_keys parse fingerprint) files []"

section \<open>The worker's identity and its sessions\<close>

text \<open>
  \<open>generateOrLoadWorkerID\<close>: the content of the file if it can be read, sixteen random bytes if they can
  be had, and whether the file can be written; the identity, and the file afterwards.
\<close>

definition generate_or_load_worker_id ::
  "string option \<Rightarrow> byte list option \<Rightarrow> bool \<Rightarrow> io_error + (string \<times> string option)" where
  "generate_or_load_worker_id file random writable =
     (let fresh = (case random of
          None \<Rightarrow> Inl (Failed ''generating Gradient worker ID'')
        | Some b \<Rightarrow> if writable then Inr (hex b, Some (hex b @ [CHR 10]))
            else Inl (Failed ''persisting Gradient worker ID''))
      in case file of
          None \<Rightarrow> fresh
        | Some content \<Rightarrow> (let i = trim_line content in if i \<noteq> '''' then Inr (i, file) else fresh))"

text \<open>What the worker advertises; the processor and memory fields are not set.\<close>

definition worker_config :: "main_config \<Rightarrow> string \<Rightarrow> peer_credentials \<Rightarrow> client_config" where
  "worker_config config worker_id creds = \<lparr>cc_peer_id = worker_id, cc_credentials = creds,
     cc_architectures = mc_gradient_architectures config, cc_system_features = [],
     cc_max_concurrent_builds = mc_gradient_max_concurrent_builds config, cc_cpu_count = 0, cc_ram_total_mb = 0,
     cc_cpu_core_score = 0\<rparr>"

text \<open>
  One round of \<open>startGradientWorker\<close>: how long its session lasted, if the store host was reached; whether
  the context was done when it ended, and whether it became done in the wait after it.
\<close>

record session_attempt =
  at_session :: "nat option"
  at_done_after_session :: bool
  at_done_in_wait :: bool

definition min_backoff :: nat where "min_backoff = one_second"
definition max_backoff :: nat where "max_backoff = 60 * one_second"
definition healthy_session_min :: nat where "healthy_session_min = 30 * one_second"

definition healthy :: "session_attempt \<Rightarrow> bool" where
  "healthy a \<longleftrightarrow> (case at_session a of None \<Rightarrow> False | Some d \<Rightarrow> d \<ge> healthy_session_min)"

definition next_backoff :: "nat \<Rightarrow> nat" where
  "next_backoff b = (if b < max_backoff then (if b * 2 > max_backoff then max_backoff else b * 2) else b)"

text \<open>The waits of the loop that starts with the wait \<open>b\<close>.\<close>

fun reconnecting :: "nat \<Rightarrow> session_attempt list \<Rightarrow> nat list" where
  "reconnecting b [] = []"
| "reconnecting b (a # as) =
     (if at_session a \<noteq> None \<and> at_done_after_session a then []
      else let b' = (if healthy a then min_backoff else b)
        in b' # (if at_done_in_wait a then [] else reconnecting (next_backoff b') as))"

definition start_gradient_worker :: "session_attempt list \<Rightarrow> nat list" where
  "start_gradient_worker as = reconnecting min_backoff as"

section \<open>Who may connect\<close>

lemma load_keys_known:
  "map_of (load_keys parse fingerprint ls keys) fp \<noteq> None \<longleftrightarrow>
     map_of keys fp \<noteq> None \<or> (\<exists>l \<in> set ls. \<exists>key. parse l = Some key \<and> fingerprint key = fp)"
  by (induction ls arbitrary: keys) (auto simp: update_conv' split: option.split)

text \<open>Whether a version of the file has a key with this fingerprint.\<close>

definition offers :: "(string \<Rightarrow> 'k option) \<Rightarrow> ('k \<Rightarrow> string) \<Rightarrow> string \<Rightarrow> string option \<Rightarrow> bool" where
  "offers parse fingerprint fp opened \<longleftrightarrow> (case opened of None \<Rightarrow> False
     | Some content \<Rightarrow> \<exists>l \<in> set (fst (scan_lines content)). \<exists>key. parse l = Some key \<and> fingerprint key = fp)"

lemma reloads_known:
  "map_of (fold (reload_keys parse fingerprint) files keys) fp \<noteq> None \<longleftrightarrow>
     map_of keys fp \<noteq> None \<or> (\<exists>opened \<in> set files. offers parse fingerprint fp opened)"
proof (induction files arbitrary: keys)
  case (Cons opened files)
  have "map_of (reload_keys parse fingerprint opened keys) fp \<noteq> None \<longleftrightarrow>
      map_of keys fp \<noteq> None \<or> offers parse fingerprint fp opened"
    by (cases opened) (simp_all add: reload_keys_def load_keys_known offers_def del: not_None_eq)
  then show ?case unfolding fold_Cons comp_apply Cons.IH by (simp del: not_None_eq)
qed simp

text \<open>
  Who may connect. Whatever the file of authorized keys held at each time it was read, a
  client's key is accepted exactly when some line of some version of the file so far was a key with its
  fingerprint: a key is never accepted that was not in the file, and a key that was once in it is
  accepted until the program ends, also when it has been removed since.
\<close>

theorem accepted_keys:
  "is_authorized fingerprint (authorized_keys parse fingerprint files) key \<longleftrightarrow>
     (\<exists>content. Some content \<in> set files \<and>
        (\<exists>l \<in> set (fst (scan_lines content)). \<exists>k. parse l = Some k \<and> fingerprint k = fingerprint key))"
proof -
  have "(\<exists>content. Some content \<in> set files \<and>
      (\<exists>l \<in> set (fst (scan_lines content)). \<exists>k. parse l = Some k \<and> fingerprint k = fingerprint key)) \<longleftrightarrow>
    (\<exists>opened \<in> set files. offers parse fingerprint (fingerprint key) opened)"
    by (auto simp: offers_def split: option.splits)
  then show ?thesis
    using reloads_known [of parse fingerprint files "[]" "fingerprint key"]
    by (simp add: is_authorized_def authorized_keys_def)
qed

section \<open>The commands a client can run\<close>

lemma exec_command_read:
  assumes "length cmd < 2 ^ 24"
  shows "exec_command ([0, of_nat (length cmd div 2 ^ 16), of_nat (length cmd div 2 ^ 8), of_nat (length cmd)] @ bytes_of cmd @ rest) =
    Some cmd"
proof -
  have b: "unat (of_nat n :: byte) = n mod 256" for n by (simp add: unat_of_nat)
  define n a where "n = length cmd" and "a = length cmd div 256"
  have "n div 65536 = a div 256" by (simp add: n_def a_def div_mult2_eq [symmetric])
  moreover have split: "q * 65536 + r * 256 + t = (q * 256 + r) * 256 + t" for q r t :: nat by simp
  ultimately have "n div 65536 * 65536 + a mod 256 * 256 + n mod 256 = (a div 256 * 256 + a mod 256) * 256 + n mod 256"
    by (simp only: split)
  also have "\<dots> = n" by (simp only: div_mult_mod_eq, simp add: n_def a_def)
  finally have "n div 65536 * 65536 + a mod 256 * 256 + n mod 256 = n" .
  moreover have "length cmd div 65536 mod 256 = length cmd div 65536" using assms by (simp add: div_less_iff_less_mult)
  ultimately show ?thesis by (simp add: exec_command_def b Let_def n_def a_def)
qed

lemma session_starts_daemon:
  "DaemonSession \<in> set (handle_ssh_session reqs) \<longleftrightarrow>
     (\<exists>r \<in> set reqs. rq_type r = ''exec'' \<and> (\<exists>cmd. exec_command (rq_payload r) = Some cmd \<and> runs_daemon cmd))"
  by (induction reqs) (auto split: option.splits)

lemma session_one_daemon: "length (filter (\<lambda>e. e = DaemonSession) (handle_ssh_session reqs)) \<le> 1"
  by (induction reqs) (auto split: option.splits)

section \<open>The worker comes back\<close>

lemma next_backoff_min: "b \<le> max_backoff \<Longrightarrow> next_backoff b = min max_backoff (2 * b)"
  by (auto simp: next_backoff_def)

lemma reconnecting_step:
  assumes "b \<le> max_backoff" and "k < length (reconnecting b as)"
  shows "reconnecting b as ! k \<le> max_backoff \<and> (healthy (as ! k) \<longrightarrow> reconnecting b as ! k = min_backoff) \<and>
    (\<not> healthy (as ! k) \<longrightarrow> reconnecting b as ! k =
       (case k of 0 \<Rightarrow> b | Suc m \<Rightarrow> min max_backoff (2 * reconnecting b as ! m)))"
  using assms
proof (induction b as arbitrary: k rule: reconnecting.induct)
  case (2 b a as)
  let ?b = "if healthy a then min_backoff else b"
  have le: "?b \<le> max_backoff" using 2(2) by (simp add: min_backoff_def max_backoff_def)
  have going: "\<not> (at_session a \<noteq> None \<and> at_done_after_session a)" using 2(3) by (auto split: if_splits)
  have step: "reconnecting b (a # as) = ?b # (if at_done_in_wait a then [] else reconnecting (next_backoff ?b) as)"
    using going by (auto simp: Let_def)
  show ?case
  proof (cases k)
    case 0
    then show ?thesis using le by (simp add: step del: reconnecting.simps)
  next
    case (Suc m)
    then have more: "\<not> at_done_in_wait a" and m: "m < length (reconnecting (next_backoff ?b) as)"
      using 2(3) by (auto simp: step split: if_splits)
    have "next_backoff ?b \<le> max_backoff" by (simp add: next_backoff_min [OF le])
    from 2(1) [OF going refl more this m] show ?thesis
      using more le Suc by (cases m) (simp_all add: step next_backoff_min del: reconnecting.simps)
  qed
qed simp

text \<open>
  C34: how the worker comes back after a session. The wait before the next attempt is between a second and
  a minute; after a session of at least thirty seconds it is one second, and each attempt after that
  without such a session doubles it up to the minute, so that after \<open>j\<close> of them it is \<open>2 ^ j\<close> times
  the wait before them, or a minute.
\<close>

theorem reconnect_backoff:
  assumes "ws = start_gradient_worker as" and "k < length ws" and "j \<le> k"
    and "\<And>i. k - j < i \<Longrightarrow> i \<le> k \<Longrightarrow> \<not> healthy (as ! i)"
  shows "ws ! k = min max_backoff (2 ^ j * ws ! (k - j)) \<and> min_backoff \<le> ws ! k \<and> ws ! k \<le> max_backoff \<and>
    (k = 0 \<or> healthy (as ! k) \<longrightarrow> ws ! k = min_backoff)"
proof -
  have ws: "ws = reconnecting min_backoff as" by (simp add: assms(1) start_gradient_worker_def)
  have start: "min_backoff \<le> max_backoff" by (simp add: min_backoff_def max_backoff_def)
  have at: "ws ! k \<le> max_backoff \<and> (healthy (as ! k) \<longrightarrow> ws ! k = min_backoff) \<and>
      (\<not> healthy (as ! k) \<longrightarrow> ws ! k = (case k of 0 \<Rightarrow> min_backoff | Suc m \<Rightarrow> min max_backoff (2 * ws ! m)))"
    if "k < length ws" for k
    using reconnecting_step [OF start, of k as] that unfolding ws .
  have least: "min_backoff \<le> ws ! k" if "k < length ws" for k
    using that
  proof (induction k)
    case 0
    then show ?case using at [of 0] by (cases "healthy (as ! 0)") simp_all
  next
    case (Suc k)
    then show ?case using at [of "Suc k"] start by (cases "healthy (as ! Suc k)") simp_all
  qed
  have "ws ! k = min max_backoff (2 ^ j * ws ! (k - j))" using assms(2-4)
  proof (induction j arbitrary: k)
    case 0
    then show ?case using at [of k] by simp
  next
    case (Suc j)
    then obtain m where k: "k = Suc m" by (cases k) auto
    have "ws ! m = min max_backoff (2 ^ j * ws ! (m - j))"
      using Suc.prems k by (intro Suc.IH) auto
    moreover have "ws ! k = min max_backoff (2 * ws ! m)" using Suc.prems at [of k] k by simp
    moreover have "min c (2 * min c (x :: nat)) = min c (2 * x)" for c x by auto
    ultimately show ?case using k by (simp add: mult.assoc)
  qed
  then show ?thesis using at [OF assms(2)] least [OF assms(2)] by (cases k) auto
qed

lemma reconnect_backoff_witness:
  "\<exists>ws. ws = start_gradient_worker (replicate 8 \<lparr>at_session = None, at_done_after_session = False, at_done_in_wait = False\<rparr>) \<and>
     ws ! 5 = 32 * one_second \<and> ws ! 7 = 60 * one_second"
proof -
  define a where "a = \<lparr>at_session = None, at_done_after_session = False, at_done_in_wait = False\<rparr>"
  define ws where "ws = start_gradient_worker (replicate 8 a)"
  have len: "length (reconnecting b (replicate n a)) = n" for b n
    by (induction n arbitrary: b) (simp_all add: a_def Let_def)
  have len: "length ws = 8" unfolding ws_def start_gradient_worker_def by (rule len)
  have bad: "\<not> healthy (replicate 8 a ! i)" if "i < 8" for i using that by (simp add: healthy_def a_def)
  have at: "ws ! k = min max_backoff (2 ^ k * ws ! (k - k)) \<and> min_backoff \<le> ws ! k \<and> ws ! k \<le> max_backoff \<and>
      (k = 0 \<or> healthy (replicate 8 a ! k) \<longrightarrow> ws ! k = min_backoff)" if "k < 8" for k
  proof (rule reconnect_backoff [OF ws_def])
    show "k < length ws" "k \<le> k" using that by (simp_all add: len)
    show "\<not> healthy (replicate 8 a ! i)" if "i \<le> k" for i using that \<open>k < 8\<close> by (intro bad) simp
  qed
  have "ws ! 0 = min_backoff" using at [of 0] by simp
  then have "ws ! 5 = 32 * one_second \<and> ws ! 7 = 60 * one_second"
    using at [of 5] at [of 7] by (simp add: max_backoff_def min_backoff_def)
  then show ?thesis by (intro exI [of _ ws]) (simp add: ws_def a_def)
qed

section \<open>Identities that last\<close>

text \<open>
  \<open>GenerateOrLoadStoreSigner\<close> (\<open>nixproto/signer.go\<close>): the content of the key file if it can be read, a
  key pair if one can be made, and whether the file can be written; \<open>public_of\<close> is the public half of a
  private key. The signer, its private key, and the file afterwards.
\<close>

definition generate_or_load_store_signer ::
  "(byte list \<Rightarrow> byte list) \<Rightarrow> string \<Rightarrow> string option \<Rightarrow> io_error + (byte list \<times> byte list) \<Rightarrow> io_error option \<Rightarrow> string \<Rightarrow>
   io_error + (store_signer \<times> byte list \<times> string option)" where
  "generate_or_load_store_signer public_of key_file file generated written key_name = (case file of
       Some content \<Rightarrow>
         (case cut (CHR '':'') (trim_line content) of
            None \<Rightarrow> Inl (Failed (''invalid key format in '' @ key_file))
          | Some (name, key) \<Rightarrow>
              (case b64_decode key of
                 None \<Rightarrow> Inl (Failed (''invalid key format in '' @ key_file))
               | Some priv \<Rightarrow>
                   if length priv = 64
                   then Inr (\<lparr>sg_key_name = name, sg_public_key = public_of priv\<rparr>, priv, file)
                   else Inl (Failed (''invalid key format in '' @ key_file))))
     | None \<Rightarrow>
         (case generated of
            Inl e \<Rightarrow> Inl (Wrapped ''generating Ed25519 key'' e)
          | Inr (pub, priv) \<Rightarrow>
              (case written of
                 Some e \<Rightarrow> Inl (Wrapped (''saving signing key to '' @ key_file) e)
               | None \<Rightarrow> Inr (\<lparr>sg_key_name = key_name, sg_public_key = pub\<rparr>, priv,
                   Some (key_name @ '':'' @ b64_encode priv @ [CHR 10])))))"

text \<open>Characters that print, in ASCII; no white space begins or ends with one.\<close>

definition graphic :: "char \<Rightarrow> bool" where
  "graphic c \<longleftrightarrow> of_char c \<in> {33..126 :: nat}"

lemma spaces_not_graphic: "r \<in> set space_runes \<Longrightarrow> r \<noteq> [] \<and> \<not> graphic (hd r) \<and> \<not> graphic (last r)"
proof -
  have "list_all (\<lambda>r. r \<noteq> [] \<and> \<not> graphic (hd r) \<and> \<not> graphic (last r)) space_runes"
    unfolding graphic_def by code_simp
  then show "r \<in> set space_runes \<Longrightarrow> r \<noteq> [] \<and> \<not> graphic (hd r) \<and> \<not> graphic (last r)"
    by (simp add: list_all_iff)
qed

lemma trim_left_graphic:
  assumes "graphic c" and "\<And>r. r \<in> set spaces \<Longrightarrow> r \<noteq> [] \<and> \<not> graphic (hd r)"
  shows "trim_left spaces (c # s) = c # s"
proof -
  have "find (\<lambda>r. r \<noteq> [] \<and> prefix r (c # s)) spaces = None"
    unfolding find_None_iff
  proof (intro notI, elim exE conjE)
    fix r assume r: "r \<in> set spaces" "r \<noteq> []" "prefix r (c # s)"
    have "hd r = c" using r(2,3) by (cases r) simp_all
    then show False using assms r(1) by blast
  qed
  then show ?thesis by (subst trim_left.simps) simp
qed

lemma trim_left_newline:
  assumes "graphic c"
  shows "trim_left (map rev space_runes) (CHR 10 # c # s) = c # s"
proof -
  have stuck: "trim_left (map rev space_runes) (c # s) = c # s"
    by (rule trim_left_graphic [OF assms]) (use spaces_not_graphic in \<open>auto simp: hd_rev\<close>)
  have "find (\<lambda>r. r \<noteq> [] \<and> prefix r (CHR 10 # c # s)) (map rev space_runes) = Some [CHR 10]"
    by (simp add: space_runes_def)
  then show ?thesis by (subst trim_left.simps) (simp add: stuck)
qed

lemma trim_line_written:
  assumes "s \<noteq> []" and "graphic (hd s)" and "graphic (last s)"
  shows "trim_line (s @ [CHR 10]) = s"
proof -
  obtain c t where s: "s = c # t" using assms(1) by (cases s) auto
  obtain d u where r: "rev s = d # u" using assms(1) by (cases "rev s") auto
  have front: "trim_left space_runes (s @ [CHR 10]) = s @ [CHR 10]"
    unfolding s append_Cons using assms(2) spaces_not_graphic by (intro trim_left_graphic) (auto simp: s)
  have "graphic d" using assms(3) r by (metis hd_rev list.sel(1))
  then show ?thesis
    unfolding trim_line_def front by (simp add: r trim_left_newline) (metis r rev_rev_ident rev.simps(2))
qed

lemma b64_graphic: "c \<in> set (b64_encode bs) \<Longrightarrow> graphic c"
proof -
  have all: "list_all graphic b64_alphabet" unfolding graphic_def by code_simp
  have "length b64_alphabet = 64" by code_simp
  then have char: "graphic (b64_char v)" if "unat v < 64" for v
    unfolding b64_char_def using that all [unfolded list_all_length, rule_format, of "unat v"] by simp
  have pad: "graphic CHR ''=''" by (simp add: graphic_def)
  have "list_all graphic (b64_encode bs)"
    by (induction bs rule: b64_encode.induct) (simp_all add: char b64_digits_small pad)
  then show "c \<in> set (b64_encode bs) \<Longrightarrow> graphic c" by (simp add: list_all_iff)
qed

text \<open>
  C35: the signing key outlives the program. Once a key was made and saved, every later start, whatever
  name is configured then, whatever key could be made and whether or not files can be written, finds
  the same signer with the same private key and leaves the file as it is, provided that the name it was
  saved under begins with a printing character and holds no colon.
\<close>

theorem signer_persists:
  assumes "generate_or_load_store_signer public_of key_file None (Inr (pub, priv)) None name = Inr (signer, key, file)"
    and "public_of priv = pub" and "length priv = 64"
    and "name \<noteq> ''''" and "graphic (hd name)" and "CHR '':'' \<notin> set name"
  shows "signer = \<lparr>sg_key_name = name, sg_public_key = pub\<rparr> \<and> key = priv \<and>
    generate_or_load_store_signer public_of key_file file generated written other_name = Inr (signer, key, file)"
proof -
  let ?content = "name @ '':'' @ b64_encode priv"
  have first: "signer = \<lparr>sg_key_name = name, sg_public_key = pub\<rparr>" "key = priv" "file = Some (?content @ [CHR 10])"
    using assms(1) by (auto simp: generate_or_load_store_signer_def)
  have ne: "b64_encode priv \<noteq> []" using assms(3) by (cases priv rule: b64_encode.cases) auto
  have "trim_line (?content @ [CHR 10]) = ?content"
    by (rule trim_line_written) (use assms(4,5) ne b64_graphic [of "last (b64_encode priv)" priv] in auto)
  then have trimmed: "trim_line (name @ CHR '':'' # b64_encode priv @ [CHR 10]) = name @ CHR '':'' # b64_encode priv" by simp
  have "cut (CHR '':'') (name @ CHR '':'' # b64_encode priv) = Some (name, b64_encode priv)"
    using assms(6) by (simp add: cut_def takeWhile_line dropWhile_line)
  then show ?thesis
    using first assms(2,3) by (simp add: generate_or_load_store_signer_def trimmed b64_roundtrip)
qed

lemma signer_persists_witness:
  "\<exists>signer key saved. generate_or_load_store_signer (drop 32) ''store_signing_key'' None (Inr (replicate 32 7, replicate 64 7)) None
       ''nix-builder-proxy-1'' = Inr (signer, key, saved) \<and>
     generate_or_load_store_signer (drop 32) ''store_signing_key'' saved (Inl EndOfFile) (Some EndOfFile) ''other'' =
       Inr (\<lparr>sg_key_name = ''nix-builder-proxy-1'', sg_public_key = replicate 32 7\<rparr>, replicate 64 7, saved)"
proof -
  obtain signer key saved where made: "generate_or_load_store_signer (drop 32) ''store_signing_key'' None
      (Inr (replicate 32 7, replicate 64 7)) None ''nix-builder-proxy-1'' = Inr (signer, key, saved)"
    by (simp add: generate_or_load_store_signer_def)
  have "signer = \<lparr>sg_key_name = ''nix-builder-proxy-1'', sg_public_key = replicate 32 7\<rparr> \<and> key = replicate 64 7 \<and>
      generate_or_load_store_signer (drop 32) ''store_signing_key'' saved (Inl EndOfFile) (Some EndOfFile) ''other'' = Inr (signer, key, saved)"
    by (rule signer_persists [OF made]) (simp_all add: graphic_def drop_replicate)
  with made show ?thesis by blast
qed

lemma worker_id_stable:
  assumes "generate_or_load_worker_id file random writable = Inr (i, file')" and "\<And>b. random = Some b \<Longrightarrow> b \<noteq> []"
  shows "generate_or_load_worker_id file' random' writable' = Inr (i, file')"
proof (cases "\<exists>content. file = Some content \<and> trim_line content \<noteq> ''''")
  case True
  then show ?thesis using assms(1) by (auto simp: generate_or_load_worker_id_def Let_def)
next
  case False
  then obtain b where b: "random = Some b" "i = hex b" "file' = Some (hex b @ [CHR 10])"
    using assms(1) by (auto simp: generate_or_load_worker_id_def Let_def split: option.splits if_splits)
  have digit: "graphic (hex_digit n)" if "n < 16" for n
  proof -
    have "list_all (\<lambda>n. graphic (hex_digit n)) [0..<16]" unfolding graphic_def by code_simp
    then show ?thesis using that by (simp add: list_all_iff)
  qed
  have div: "unat (x :: byte) div 16 < 16" for x
    using unsigned_less [of x, where ?'a = nat] by (simp add: div_less_iff_less_mult)
  have "graphic c" if "c \<in> set (hex b)" for c using that by (auto simp: hex_def intro!: digit div)
  moreover have "hex b \<noteq> []" using assms(2) [OF b(1)] by (cases b) (simp_all add: hex_def)
  ultimately have "trim_line (hex b @ [CHR 10]) = hex b" by (intro trim_line_written) auto
  then show ?thesis using \<open>hex b \<noteq> []\<close> by (simp add: b generate_or_load_worker_id_def Let_def)
qed

end
