(* ===== verification/Proxy_Serve.thy ===== *)
theory Proxy_Serve
  imports Fleet Proxy_Main Nix_Outcomes
begin

text \<open>
  The server that lets clients in (\<open>main.go\<close>: \<open>handleConnection\<close>, \<open>handleNixDaemon\<close>, the loop of \<open>main\<close>), what
  \<open>main\<close> sets up before it and does when it is told to stop, and the helpers of \<open>proxy.go\<close> around SSH
  connections. The SSH library's handshake, \<open>ssh-keygen\<close>, the files and the clock are parameters.
\<close>

section \<open>A connection\<close>

text \<open>
  A channel that a client asks for: its type, the error of \<open>Accept\<close>, its requests, and, when one of them
  starts the daemon protocol, the bytes the client will send, the sink that takes the answers, and the
  worlds of the operations. The handshake of the library is given the callback that checks a key, and
  returns the key the client has proved to own.
\<close>

record channel =
  ch_type :: string
  ch_accept :: "io_error option"
  ch_requests :: "ssh_request list"
  ch_input :: "byte list"
  ch_output :: sink
  ch_worlds :: "nat \<Rightarrow> world"

record 'k connection =
  cn_handshake :: "('k \<Rightarrow> bool) \<Rightarrow> io_error + 'k"
  cn_channels :: "channel list"

text \<open>
  \<open>cancelOnCloseReader\<close>: a read, and the flag that its context is cancelled. \<open>handleNixDaemon\<close> serves the
  protocol on a new connection; its result is whether it logs an error.
\<close>

definition cancel_on_close_read :: "('s, 'a) io \<Rightarrow> ('s \<times> bool, 'a) io" where
  "cancel_on_close_read rd sc = (case rd (fst sc) of
       (Inl e, s) \<Rightarrow> (Inl e, (s, True))
     | (Inr v, s) \<Rightarrow> (Inr v, (s, snd sc)))"

definition handle_nix_daemon :: "main_config \<Rightarrow> store_signer option \<Rightarrow> bool \<Rightarrow> channel \<Rightarrow> serving \<times> bool" where
  "handle_nix_daemon config signer cancelled ch =
     (case handle_connection (nix_daemon_config config signer) (ch_worlds ch) (0, (new_conn (ch_input ch) (ch_output ch), [])) of
        (res, s) \<Rightarrow> (s, case res of Inl e \<Rightarrow> e \<noteq> EndOfFile \<and> \<not> cancelled | Inr _ \<Rightarrow> False))"

text \<open>One round of the loop over the channels; a session runs in its own goroutine.\<close>

datatype channel_outcome =
    RejectedChannel
  | NotAccepted io_error
  | Session "ssh_event list" "(serving \<times> bool) option"

definition serve_channel :: "main_config \<Rightarrow> store_signer option \<Rightarrow> bool \<Rightarrow> channel \<Rightarrow> channel_outcome" where
  "serve_channel config signer cancelled ch =
     (if ch_type ch \<noteq> ''session'' then RejectedChannel
      else case ch_accept ch of
          Some e \<Rightarrow> NotAccepted e
        | None \<Rightarrow>
            (let events = handle_ssh_session (ch_requests ch)
             in Session events
               (if DaemonSession \<in> set events then Some (handle_nix_daemon config signer cancelled ch) else None)))"

text \<open>
  \<open>handleConnection\<close>: an error of the handshake, which is logged unless it is the end of the stream, or the
  key of the client and what became of its channels.
\<close>

definition logs_handshake_error :: "io_error \<Rightarrow> bool" where
  "logs_handshake_error e \<longleftrightarrow> e \<noteq> EndOfFile \<and> \<not> contains ''EOF'' (err_text e)"

definition handle_client ::
  "('k \<Rightarrow> string) \<Rightarrow> main_config \<Rightarrow> store_signer option \<Rightarrow> bool \<Rightarrow> (string \<times> 'k) list \<Rightarrow> 'k connection \<Rightarrow>
     io_error + ('k \<times> channel_outcome list)" where
  "handle_client fingerprint config signer cancelled keys c =
     (case cn_handshake c (is_authorized fingerprint keys) of
        Inl e \<Rightarrow> Inl e
      | Inr key \<Rightarrow> Inr (key, map (serve_channel config signer cancelled) (cn_channels c)))"

text \<open>
  The program from its start: the file of keys is read, at once and every ten seconds; connections are
  accepted, each in its own goroutine; \<open>Accept\<close> fails. The outcomes are those of the connections, in order.
\<close>

datatype 'k server_step = KeysRead "string option" | Connected "'k connection" | AcceptFailed io_error

fun serve_clients ::
  "(string \<Rightarrow> 'k option) \<Rightarrow> ('k \<Rightarrow> string) \<Rightarrow> main_config \<Rightarrow> store_signer option \<Rightarrow> bool \<Rightarrow> (string \<times> 'k) list \<Rightarrow>
     'k server_step list \<Rightarrow> (io_error + ('k \<times> channel_outcome list)) list" where
  "serve_clients parse fingerprint config signer cancelled keys [] = []"
| "serve_clients parse fingerprint config signer cancelled keys (KeysRead opened # es) =
     serve_clients parse fingerprint config signer cancelled (reload_keys parse fingerprint opened keys) es"
| "serve_clients parse fingerprint config signer cancelled keys (Connected c # es) =
     handle_client fingerprint config signer cancelled keys c # serve_clients parse fingerprint config signer cancelled keys es"
| "serve_clients parse fingerprint config signer cancelled keys (AcceptFailed e # es) =
     serve_clients parse fingerprint config signer cancelled keys es"

text \<open>\<open>NewAuthorizedKeysManager\<close>: which file it reads; \<open>expand\<close> is \<open>os.ExpandEnv\<close>.\<close>

definition authorized_keys_file :: "(string \<Rightarrow> string) \<Rightarrow> environment \<Rightarrow> string" where
  "authorized_keys_file expand env = (if env ''AUTHORIZED_KEYS_FILE'' = '''' then expand ''$HOME/.ssh/authorized_keys''
     else env ''AUTHORIZED_KEYS_FILE'')"

section \<open>Starting and stopping\<close>

text \<open>
  \<open>generateOrLoadKeyPair\<close> over the files: \<open>keygen\<close> is what \<open>ssh-keygen\<close> leaves, \<open>parse_private\<close> the parser of a
  private key. Errors of the command, of reading and of the parser are ignored: a missing file is the
  empty text, an unusable key no signer. The two paths of \<open>SSHKeyPair\<close> are never set or read, and left out.
\<close>

record 'k key_pair =
  kp_private :: string
  kp_public :: string
  kp_signer :: "'k option"

type_synonym files = "string \<Rightarrow> string option"

definition read_file :: "files \<Rightarrow> string \<Rightarrow> string" where
  "read_file fs path = (case fs path of None \<Rightarrow> '''' | Some content \<Rightarrow> content)"

definition generate_or_load_key_pair ::
  "(string \<Rightarrow> string \<Rightarrow> files \<Rightarrow> files) \<Rightarrow> (string \<Rightarrow> 'k option) \<Rightarrow> string \<Rightarrow> string \<Rightarrow> files \<Rightarrow> 'k key_pair \<times> files" where
  "generate_or_load_key_pair keygen parse_private key_file comment fs =
     (let fs' = (if fs key_file = None then keygen key_file comment fs else fs);
          priv = read_file fs' key_file
      in (\<lparr>kp_private = priv, kp_public = read_file fs' (key_file @ ''.pub''), kp_signer = parse_private priv\<rparr>, fs'))"

text \<open>What \<open>main\<close> gives to the pool: the settings, and the configuration of the provider.\<close>

definition pool_config_of :: "main_config \<Rightarrow> pool_config" where
  "pool_config_of config = \<lparr>pl_reuse = mc_builder_reuse config, pl_max_pool_size = mc_builder_pool_size config,
     pl_destroy_delay = mc_builder_destroy_delay config, pl_idle_timeout = 15 * minute\<rparr>"

definition provider_config_of :: "main_config \<Rightarrow> 'k key_pair \<Rightarrow> 'k key_pair \<Rightarrow> provisioner_config" where
  "provider_config_of config proxy_key store_key = \<lparr>pv_store_host = mc_store_host_ip config,
     pv_store_port = mc_store_host_ssh_port config, pv_store_user = mc_store_host_user config,
     pv_store_host_key = mc_store_host_key config, pv_proxy_public_key = kp_public proxy_key,
     pv_store_private_key = kp_private store_key\<rparr>"

text \<open>The goroutine that waits for a signal: what it does, in order; \<open>os.Exit\<close> ends every other goroutine.\<close>

datatype stopping = CloseListener | CancelWorker | DestroyBuilders | ExitProgram

definition shut_down_actions :: "main_config \<Rightarrow> stopping list" where
  "shut_down_actions config = [CloseListener] @ (if mc_gradient_enabled config then [CancelWorker] else []) @
     [DestroyBuilders, ExitProgram]"

text \<open>
  What \<open>startGradientWorker\<close> does before its loop: the identity and the peers, errors of which end the
  program, and the address of the store host.
\<close>

definition worker_setup ::
  "(string \<Rightarrow> string) \<Rightarrow> main_config \<Rightarrow> io_error + (string \<times> string option) \<Rightarrow> io_error + string \<Rightarrow>
     io_error + (client_config \<times> string)" where
  "worker_setup uni config identity peers_file =
     (case identity of
        Inl e \<Rightarrow> Inl e
      | Inr (i, _) \<Rightarrow>
          (let creds = (if mc_gradient_peers_file config \<noteq> '''' then load_peers_file uni (mc_gradient_peers_file config) peers_file
                        else Inr [])
           in case creds of
               Inl e \<Rightarrow> Inl (Wrapped ''loading GRADIENT_PEERS_FILE'' e)
             | Inr cs \<Rightarrow> Inr (worker_config config i cs,
                 mc_store_host_ip config @ '':'' @ signed_decimal (mc_store_host_ssh_port config))))"

text \<open>
  \<open>main\<close> up to its loop: the checks, the two key pairs, the signer - without which it goes on -, the provider,
  the metrics, the worker's check, and the listener. \<open>signer\<close>, \<open>store_opened\<close> and \<open>listening\<close> are the results
  of \<open>GenerateOrLoadStoreSigner\<close>, \<open>NewStore\<close> and \<open>Listen\<close>.
\<close>

record 'k program =
  pg_provider :: provider
  pg_provider_config :: provisioner_config
  pg_pool_config :: pool_config
  pg_proxy_key :: "'k key_pair"
  pg_store_key :: "'k key_pair"
  pg_signer :: "store_signer option"

definition start_program ::
  "(string \<Rightarrow> string \<Rightarrow> files \<Rightarrow> files) \<Rightarrow> (string \<Rightarrow> 'k option) \<Rightarrow> io_error + store_signer \<Rightarrow> io_error + unit \<Rightarrow>
     io_error + unit \<Rightarrow> environment \<Rightarrow> main_config \<Rightarrow> files \<Rightarrow> (io_error + 'k program) \<times> files" where
  "start_program keygen parse_private signer store_opened listening env config fs =
     (if mc_provisioner config \<noteq> ''kubernetes'' \<and> mc_hcloud_token config = '''' then
        (Inl (Failed ''HCLOUD_TOKEN is required for hetzner provisioners''), fs)
      else if mc_store_host_ip config = '''' then (Inl (Failed ''STORE_HOST is required''), fs)
      else
        case generate_or_load_key_pair keygen parse_private ''proxy_ssh_key'' ''nix-proxy'' fs of (proxy_key, fs1) \<Rightarrow>
        case generate_or_load_key_pair keygen parse_private ''builder_store_key'' ''nix-store-access'' fs1 of (store_key, fs2) \<Rightarrow>
        (case create_provisioner env config of
           Inl e \<Rightarrow> (Inl e, fs2)
         | Inr prov \<Rightarrow>
             (case store_opened of
                Inl e \<Rightarrow> (Inl (Wrapped ''Failed to open metrics database'' e), fs2)
              | Inr _ \<Rightarrow>
                  if mc_gradient_enabled config \<and> mc_gradient_server_url config = ''''
                  then (Inl (Failed ''GRADIENT_SERVER_URL is required when GRADIENT_ENABLED=true''), fs2)
                  else (case listening of
                      Inl e \<Rightarrow> (Inl (Wrapped ''Failed to listen on :2222'' e), fs2)
                    | Inr _ \<Rightarrow> (Inr \<lparr>pg_provider = prov, pg_provider_config = provider_config_of config proxy_key store_key,
                        pg_pool_config = pool_config_of config, pg_proxy_key = proxy_key, pg_store_key = store_key,
                        pg_signer = (case signer of Inl e \<Rightarrow> None | Inr s \<Rightarrow> Some s)\<rparr>, fs2)))))"

text \<open>
  The program starts exactly when the configuration passes \<open>check_config\<close>, the database opens and the port is
  free; unusable keys do not stop it. Started again over the files it leaves, it finds the same keys.
\<close>

lemma program_starts:
  "(\<exists>pg. fst (start_program keygen parse_private signer store_opened listening env config fs) = Inr pg) \<longleftrightarrow>
     (\<exists>prov. check_config env config = Inr prov) \<and> store_opened = Inr () \<and> listening = Inr ()"
  by (auto simp: start_program_def check_config_def split: prod.splits sum.splits)

lemma key_pair_found:
  assumes "generate_or_load_key_pair keygen parse_private key_file comment fs = (kp, fs')" and "fs' key_file \<noteq> None"
  shows "generate_or_load_key_pair keygen' parse_private key_file comment' fs' = (kp, fs')"
  using assms by (auto simp: generate_or_load_key_pair_def Let_def)

section \<open>Dialing\<close>

text \<open>
  \<open>DialSSH\<close> from attempt \<open>i\<close> on, with the error of the attempt before: at most thirty attempts, a pause of two
  seconds between two of them. \<open>WaitForSSH\<close> tries until a deadline by the clock \<open>now\<close>; nothing but the
  clock ends it, so that it is a partial function. Neither is called by the rest of the program.
\<close>

definition dial_attempts :: nat where "dial_attempts = 30"

function dial_from :: "('c, 'a) io \<Rightarrow> ('c \<Rightarrow> 'c) \<Rightarrow> string \<Rightarrow> nat \<Rightarrow> io_error \<Rightarrow> ('c, 'a) io" where
  "dial_from dial pause addr i err c =
     (if i < dial_attempts then (case dial c of
          (Inr v, c') \<Rightarrow> (Inr v, c')
        | (Inl e, c') \<Rightarrow> dial_from dial pause addr (Suc i) e (if i < dial_attempts - 1 then pause c' else c'))
      else (Inl (Wrapped (''failed to connect to '' @ addr @ '' after 30 attempts'') err), c))"
  by pat_completeness auto

termination by (relation "measure (\<lambda>(dial, pause, addr, i, err, c). dial_attempts - i)") auto

declare dial_from.simps [simp del]

definition dial_ssh :: "('c, 'a) io \<Rightarrow> ('c \<Rightarrow> 'c) \<Rightarrow> string \<Rightarrow> ('c, 'a) io" where
  "dial_ssh dial pause addr = dial_from dial pause addr 0 EndOfFile"

partial_function (option) wait_until ::
  "('c \<Rightarrow> int) \<Rightarrow> ('c, unit) io \<Rightarrow> ('c \<Rightarrow> 'c) \<Rightarrow> int \<Rightarrow> string \<Rightarrow> 'c \<Rightarrow> ((io_error + unit) \<times> 'c) option" where
  "wait_until now dial pause deadline addr c =
     (if now c < deadline then (case dial c of (r, c') \<Rightarrow> (case r of
          Inr _ \<Rightarrow> Some (Inr (), c')
        | Inl e \<Rightarrow> wait_until now dial pause deadline addr (pause c')))
      else Some (Inl (Failed (''SSH not available on '' @ addr)), c))"

definition wait_for_ssh_port ::
  "('c \<Rightarrow> int) \<Rightarrow> ('c, unit) io \<Rightarrow> ('c \<Rightarrow> 'c) \<Rightarrow> string \<Rightarrow> int \<Rightarrow> 'c \<Rightarrow> ((io_error + unit) \<times> 'c) option" where
  "wait_for_ssh_port now dial pause addr timeout c = wait_until now dial pause (now c + timeout) addr c"

text \<open>\<open>queryDerivationHashFromStore\<close>, which is not called either: the path goes into the command with \<open>%q\<close>.\<close>

definition derivation_hash_command :: "(string \<Rightarrow> string) \<Rightarrow> string \<Rightarrow> string" where
  "derivation_hash_command uni path =
     ''set -o pipefail; sha256sum '' @ go_quote uni path @ '' | cut -d'' @ [CHR 39, CHR '' '', CHR 39] @ '' -f1''"

definition query_derivation_hash_from_store :: "proxy_config \<Rightarrow> world \<Rightarrow> string \<Rightarrow> io_error + string" where
  "query_derivation_hash_from_store cfg w path =
     (if \<not> store_configured cfg then Inl (Failed ''store host not configured'')
      else (case w_run w (derivation_hash_command (w_quote w) path) of
          NotConnected e \<Rightarrow> Inl (Wrapped ''connecting to store host'' e)
        | NoSession e \<Rightarrow> Inl (Wrapped ''creating SSH session'' e)
        | Exited ok out \<Rightarrow>
            if \<not> ok then Inl (Failed (''running sha256sum on store host. Output: '' @ out))
            else (let hash = trim_space out in
              if length hash \<noteq> 64
              then Inl (Failed (''unexpected hash length: got '' @ decimal (length hash) @ '' chars, expected 64. Full output: '' @ out))
              else Inr hash)))"

text \<open>
  What comes of the attempts of \<open>DialSSH\<close>, \<open>outcome\<close> being the outcomes of the dial by the number of the
  attempt: the first that succeeds counts, and nothing is waited for after the last one.
\<close>

lemma dial_round:
  assumes "\<And>c. dial c = (outcome (fst c), (Suc (fst c), snd c))" and "\<And>c. pause c = (fst c, Suc (snd c))" and "i < 30"
  shows "dial_from dial pause addr i err (i, p) = (case outcome i of
       Inr v \<Rightarrow> (Inr v, (Suc i, p))
     | Inl e \<Rightarrow> dial_from dial pause addr (Suc i) e (Suc i, if i < 29 then Suc p else p))"
  using assms by (subst dial_from.simps) (simp add: dial_attempts_def split: sum.split)

lemma dial_ssh_outcomes:
  assumes "\<And>c. dial c = (outcome (fst c), (Suc (fst c), snd c))" and "\<And>c. pause c = (fst c, Suc (snd c))"
  shows "k < 30 \<Longrightarrow> (\<And>j. j < k \<Longrightarrow> \<exists>e. outcome j = Inl e) \<Longrightarrow> outcome k = Inr v \<Longrightarrow>
      dial_ssh dial pause addr (0, 0) = (Inr v, (Suc k, k))"
    and "(\<And>j. j < 30 \<Longrightarrow> \<exists>e. outcome j = Inl e) \<Longrightarrow> outcome 29 = Inl e \<Longrightarrow>
      dial_ssh dial pause addr (0, 0) = (Inl (Wrapped (''failed to connect to '' @ addr @ '' after 30 attempts'') e), (30, 29))"
proof -
  note round = dial_round [OF assms]
  have failing: "dial_from dial pause addr 0 err (0, 0) = dial_from dial pause addr i err' (i, i)"
    if "i \<le> 29" and "\<And>j. j < i \<Longrightarrow> \<exists>e. outcome j = Inl e" and "err' = (case i of 0 \<Rightarrow> err | Suc j \<Rightarrow> projl (outcome j))" for i err err'
    using that
  proof (induction i arbitrary: err')
    case (Suc i)
    then obtain e where "outcome i = Inl e" by blast
    then show ?case using Suc.IH [OF _ _ refl] Suc.prems round [of i] by simp
  qed simp
  show "dial_ssh dial pause addr (0, 0) = (Inr v, (Suc k, k))"
    if "k < 30" "\<And>j. j < k \<Longrightarrow> \<exists>e. outcome j = Inl e" "outcome k = Inr v"
    using failing [of k _ EndOfFile] that round [of k] by (simp add: dial_ssh_def)
  show "dial_ssh dial pause addr (0, 0) = (Inl (Wrapped (''failed to connect to '' @ addr @ '' after 30 attempts'') e), (30, 29))"
    if "\<And>j. j < 30 \<Longrightarrow> \<exists>e. outcome j = Inl e" "outcome 29 = Inl e"
  proof -
    have "dial_ssh dial pause addr (0, 0) = dial_from dial pause addr 30 e (30, 29)"
      using failing [of 29 _ EndOfFile] that round [of 29] by (simp add: dial_ssh_def)
    then show ?thesis by (simp add: dial_from.simps [of _ _ _ 30] dial_attempts_def)
  qed
qed

text \<open>\<open>WaitForSSH\<close> returns whenever the clock does not stand still.\<close>

lemma wait_until_returns:
  assumes dial: "\<And>c. now (snd (dial c)) \<ge> now c" and pause: "\<And>c. now (pause c) > now c"
  shows "wait_until now dial pause deadline addr c \<noteq> None"
proof (induction "nat (deadline - now c)" arbitrary: c rule: less_induct)
  case less
  obtain r c' where d: "dial c = (r, c')" by fastforce
  show ?case
  proof (cases "now c < deadline")
    case True
    have "now (pause c') > now c" using dial [of c] pause [of c'] by (simp add: d)
    then have "wait_until now dial pause deadline addr (pause c') \<noteq> None" using True by (intro less) simp
    then show ?thesis by (subst wait_until.simps) (simp add: d split: sum.split)
  qed (subst wait_until.simps, simp)
qed
section \<open>Who is served\<close>

definition connections :: "'k server_step list \<Rightarrow> nat" where
  "connections es = length (filter (\<lambda>e. case e of Connected c \<Rightarrow> True | _ \<Rightarrow> False) es)"

definition versions_read :: "'k server_step list \<Rightarrow> string option list" where
  "versions_read es = List.map_filter (\<lambda>e. case e of KeysRead opened \<Rightarrow> Some opened | _ \<Rightarrow> None) es"

text \<open>Each connection is handled with the keys of the versions that were read before it.\<close>

lemma serve_clients_nth:
  "serve_clients parse fingerprint config signer cancelled keys (es @ Connected c # es') ! connections es =
     handle_client fingerprint config signer cancelled (fold (reload_keys parse fingerprint) (versions_read es) keys) c"
proof (induction es arbitrary: keys)
  case Nil
  show ?case by (simp add: connections_def versions_read_def map_filter_simps)
next
  case (Cons e es)
  then show ?case
    by (cases e) (simp_all add: connections_def versions_read_def map_filter_simps)
qed

lemma versions_readD: "Some content \<in> set (versions_read es) \<Longrightarrow> KeysRead (Some content) \<in> set es"
  by (induction es) (auto simp: versions_read_def map_filter_simps split: option.splits server_step.splits)

text \<open>The channels over which the daemon protocol was served.\<close>

lemma served_session:
  assumes "Session events (Some (s, logged)) \<in> set (map (serve_channel config signer cancelled) chs)"
  shows "DaemonSession \<in> set events \<and> account (snd (snd s)) = Some None \<and>
    (\<exists>ch \<in> set chs. ch_type ch = ''session'' \<and> (\<exists>r \<in> set (ch_requests ch). rq_type r = ''exec'' \<and>
       (\<exists>cmd. exec_command (rq_payload r) = Some cmd \<and> runs_daemon cmd)))"
proof -
  obtain ch where ch: "ch \<in> set chs" "serve_channel config signer cancelled ch = Session events (Some (s, logged))"
    using assms by auto
  have type: "ch_type ch = ''session''" and daemon: "DaemonSession \<in> set (handle_ssh_session (ch_requests ch))"
    and events: "events = handle_ssh_session (ch_requests ch)" and s: "handle_nix_daemon config signer cancelled ch = (s, logged)"
    using ch(2) by (auto simp: serve_channel_def Let_def split: if_splits option.splits)
  have "s = snd (handle_connection (nix_daemon_config config signer) (ch_worlds ch) (0, (new_conn (ch_input ch) (ch_output ch), [])))"
    using s by (auto simp: handle_nix_daemon_def split: prod.splits)
  then have "account (snd (snd s)) = Some None" using connection_accounts by simp
  then show ?thesis using ch(1) type daemon events by (auto simp: session_starts_daemon)
qed

text \<open>
  C6: who is served, and what it may leave behind. Whatever the program's file of keys held whenever it
  was read, whoever connects, and whatever the clients send: the daemon protocol is served over a
  connection only if its client proved to own a key that stood in a version of the file read before it
  connected, and only for a request to execute \<open>nix-daemon --stdio\<close>; and when the session is over, every
  builder that it took has been given back. A key that once stood in the file counts, also when it has been
  removed since. The SSH library is trusted to return only keys that the callback accepted.
\<close>

theorem served_clients:
  assumes "es = before @ Connected c # after"
    and "\<forall>accept k. cn_handshake c accept = Inr k \<longrightarrow> accept k"
    and "serve_clients parse fingerprint config signer cancelled [] es ! connections before = Inr (key, outcomes)"
    and "Session events (Some ((n, (conn, effects)), logged)) \<in> set outcomes"
  shows "(\<exists>content. KeysRead (Some content) \<in> set before \<and>
       (\<exists>l \<in> set (fst (scan_lines content)). \<exists>k. parse l = Some k \<and> fingerprint k = fingerprint key)) \<and>
    (\<exists>ch \<in> set (cn_channels c). ch_type ch = ''session'' \<and> (\<exists>r \<in> set (ch_requests ch). rq_type r = ''exec'' \<and>
       (\<exists>cmd. exec_command (rq_payload r) = Some cmd \<and> runs_daemon cmd))) \<and>
    account effects = Some None"
proof -
  let ?keys = "fold (reload_keys parse fingerprint) (versions_read before) []"
  have "handle_client fingerprint config signer cancelled ?keys c = Inr (key, outcomes)"
    using assms(3) serve_clients_nth [of parse fingerprint config signer cancelled "[]" before c "after"] assms(1) by simp
  then have shaken: "cn_handshake c (is_authorized fingerprint ?keys) = Inr key"
    and outcomes: "outcomes = map (serve_channel config signer cancelled) (cn_channels c)"
    by (auto simp: handle_client_def split: sum.splits)
  have "map_of ?keys (fingerprint key) \<noteq> None" using assms(2) [rule_format, OF shaken] by (simp add: is_authorized_def)
  then obtain opened where "opened \<in> set (versions_read before)" "offers parse fingerprint (fingerprint key) opened"
    using reloads_known [of parse fingerprint "versions_read before" "[]"] by auto
  then have "\<exists>content. KeysRead (Some content) \<in> set before \<and>
      (\<exists>l \<in> set (fst (scan_lines content)). \<exists>k. parse l = Some k \<and> fingerprint k = fingerprint key)"
    using versions_readD by (fastforce simp: offers_def split: option.splits)
  then show ?thesis using served_session [OF assms(4) [unfolded outcomes]] by auto
qed

text \<open>A client with the key \<open>k1\<close>, which is in the file at the start and not any more at its second reading.\<close>

definition demo_channel :: channel where
  "demo_channel = \<lparr>ch_type = ''session'', ch_accept = None,
     ch_requests = [\<lparr>rq_type = ''exec'', rq_payload = [0, 0, 0, 18] @ bytes_of ''nix-daemon --stdio'', rq_want_reply = True\<rparr>],
     ch_input = [1, 2], ch_output = unbounded [], ch_worlds = (\<lambda>_. no_world)\<rparr>"

definition demo_client :: "string connection" where
  "demo_client = \<lparr>cn_handshake = (\<lambda>accept. if accept ''k1'' then Inr ''k1'' else Inl EndOfFile), cn_channels = [demo_channel]\<rparr>"

definition demo_steps :: "string server_step list" where
  "demo_steps = [KeysRead (Some ''k1''), KeysRead (Some '''')]"

lemma demo_served:
  "serve_clients Some id (load_config (\<lambda>_. None) (\<lambda>_. '''')) None False [] (demo_steps @ [Connected demo_client]) ! connections demo_steps =
     Inr (''k1'', [Session [Reply True, DaemonSession, ExitStatus [0, 0, 0, 0]]
       (Some (handle_nix_daemon (load_config (\<lambda>_. None) (\<lambda>_. '''')) None False demo_channel))])"
proof -
  have exec: "exec_command ([0, 0, 0, 18] @ bytes_of ''nix-daemon --stdio'') = Some ''nix-daemon --stdio''"
    using exec_command_read [of "''nix-daemon --stdio''" "[]"] by simp
  have runs: "runs_daemon ''nix-daemon --stdio''" by code_simp
  have keys: "fold (reload_keys Some id) (versions_read demo_steps) [] = [(''k1'', ''k1'')]"
    by (simp add: demo_steps_def versions_read_def map_filter_simps reload_keys_def scan_lines.simps [of "''k1''"]
        scan_lines.simps [of "[]"] max_scan_token_def drop_cr_def)
  have auth: "is_authorized id [(''k1'', ''k1'')] ''k1''" by (simp add: is_authorized_def)
  have reqs: "handle_ssh_session (ch_requests demo_channel) = [Reply True, DaemonSession, ExitStatus [0, 0, 0, 0]]"
    using exec runs by (simp add: demo_channel_def)
  have "serve_channel config signer cancelled demo_channel = Session [Reply True, DaemonSession, ExitStatus [0, 0, 0, 0]]
      (Some (handle_nix_daemon config signer cancelled demo_channel))" for config signer cancelled
    unfolding serve_channel_def Let_def reqs by (simp add: demo_channel_def)
  then show ?thesis
    using serve_clients_nth [of Some id "load_config (\<lambda>_. None) (\<lambda>_. '''')" None False "[]" demo_steps demo_client "[]"]
    by (simp add: keys handle_client_def demo_client_def auth)
qed

lemma served_clients_witness:
  "\<exists>content. KeysRead (Some content) \<in> set demo_steps \<and> ''k1'' \<in> set (fst (scan_lines content))"
proof -
  obtain n conn effects logged where run:
    "handle_nix_daemon (load_config (\<lambda>_. None) (\<lambda>_. '''')) None False demo_channel = ((n, (conn, effects)), logged)"
    by (metis prod.collapse)
  have "\<forall>accept k. cn_handshake demo_client accept = Inr k \<longrightarrow> accept k"
    by (simp add: demo_client_def)
  from served_clients [where before = demo_steps and c = demo_client and after = "[]", OF refl this demo_served,
      of "[Reply True, DaemonSession, ExitStatus [0, 0, 0, 0]]" n conn effects logged]
  show ?thesis by (auto simp: run)
qed

end
