(* ===== verification/Pool_Progress.thy ===== *)
theory Pool_Progress
  imports Pool_Leases
begin

text \<open>
  What the pool gets done: a caller that waits can always be served, the clean-up destroys exactly the
  builders that are idle, and the status page says what the pool holds.
\<close>

section \<open>Serving the queue\<close>

text \<open>The pool's own steps: its worker goroutines and the tick of the maintenance goroutine.\<close>

fun own_step :: "event \<Rightarrow> bool" where
  "own_step ScaleOnTick \<longleftrightarrow> True" | "own_step Cleanup \<longleftrightarrow> True" | "own_step (Draw i x) \<longleftrightarrow> True"
| "own_step (Publish i ip) \<longleftrightarrow> True" | "own_step (Finish i) \<longleftrightarrow> True"
| "own_step _ \<longleftrightarrow> False"

definition idle_worker :: "pool \<Rightarrow> string \<Rightarrow> nat \<Rightarrow> bool" where
  "idle_worker p a i \<longleftrightarrow> i < length (p_workers p) \<and> (p_workers p ! i = Spawned a \<or> (\<exists>x. p_workers p ! i = Creating a x))"

lemma workers_for_0:
  assumes "\<And>i. i < length (p_workers p) \<Longrightarrow> \<not> (running (p_workers p ! i) \<and> worker_arch (p_workers p ! i) = a)"
  shows "workers_for p a = 0"
proof -
  have "\<not> (running w \<and> worker_arch w = a)" if "w \<in> set (p_workers p)" for w
    using that assms by (metis in_set_conv_nth)
  then show ?thesis by (simp add: workers_for_def filter_empty_conv)
qed

lemma scale_spawns:
  assumes "r \<in> set (p_waiters p)" "wants p a r" "p_provisioning p a = 0"
  shows "\<exists>i. idle_worker (check_and_scale p) a i"
proof -
  have "filter (wants p a) (p_waiters p) \<noteq> []" using assms(1,2) by (auto simp: filter_empty_conv)
  then have n: "needed p a > 0" using assms(3) by (simp add: needed_def live_waiters_def)
  have "a \<in> set (waiting_archs p)" using assms(1,2) by (force simp: waiting_archs_def wants_def)
  then have "Spawned a \<in> set (p_workers (check_and_scale p))" using n by (auto simp: check_and_scale_def)
  then show ?thesis by (auto simp: in_set_conv_nth idle_worker_def)
qed

text \<open>The queue as the provider's steps see it.\<close>

definition same_queue :: "pool \<Rightarrow> pool \<Rightarrow> bool" where
  "same_queue p q \<longleftrightarrow> p_waiters q = p_waiters p \<and> p_requests q = p_requests p"

lemma same_queue_refl: "same_queue p p" by (simp add: same_queue_def)

lemma same_queue_trans: "same_queue p q \<Longrightarrow> same_queue q r \<Longrightarrow> same_queue p r" by (simp add: same_queue_def)

lemma same_queue_wants: "same_queue p q \<Longrightarrow> wants q a r \<longleftrightarrow> wants p a r" by (simp add: same_queue_def wants_def)

lemma run_step: "pool_run cfg now es p \<Longrightarrow> step cfg e p = Some q \<Longrightarrow> drawn_anew e p \<Longrightarrow> pool_run cfg now (es @ [e]) q"
  by (rule pool_run.step)

text \<open>A worker for a waiting caller can always be had.\<close>

lemma worker_available:
  assumes "pool_run cfg now es p" "r \<in> set (p_waiters p)" "wants p a r"
  shows "\<exists>es' q i. pool_run cfg now (es @ es') q \<and> (\<forall>e \<in> set es'. own_step e) \<and> same_queue p q \<and> idle_worker q a i"
  using assms
proof (induction "workers_for p a" arbitrary: p es rule: less_induct)
  case less
  note run = less.prems(1)
  note ok = pool_ok_run [OF run]
  consider (ready) i where "idle_worker p a i"
    | (finishing) i where "i < length (p_workers p)" "p_workers p ! i = Finishing a"
    | (none) "workers_for p a = 0"
  proof -
    have "workers_for p a = 0" if "\<nexists>i. idle_worker p a i" "\<nexists>i. i < length (p_workers p) \<and> p_workers p ! i = Finishing a"
    proof (rule workers_for_0)
      fix i assume i: "i < length (p_workers p)"
      show "\<not> (running (p_workers p ! i) \<and> worker_arch (p_workers p ! i) = a)"
        using that i by (cases "p_workers p ! i") (auto simp: idle_worker_def running_def)
    qed
    then show thesis using ready finishing none by blast
  qed
  then show ?case
  proof cases
    case ready
    then show ?thesis using run same_queue_refl by (intro exI [of _ "[]"]) auto
  next
    case finishing
    let ?q = "set_worker i (Exited a) (end_provisioning a p)"
    have s: "step cfg (Finish i) p = Some ?q" using finishing by simp
    have run': "pool_run cfg now (es @ [Finish i]) ?q" by (rule run_step [OF run s]) simp
    have same: "same_queue p ?q" by (simp add: same_queue_def pool_simps end_provisioning_def)
    have "workers_for ?q a < workers_for p a"
      using workers_for_set [OF finishing(1), of "Exited a" a] finishing(2)
      by (simp add: running_def workers_for_def set_worker_def end_provisioning_def)
    moreover have "r \<in> set (p_waiters ?q)" "wants ?q a r" using same less.prems(2,3) by (simp_all add: same_queue_def wants_def)
    ultimately obtain es' q j where "pool_run cfg now ((es @ [Finish i]) @ es') q" "\<forall>e \<in> set es'. own_step e"
        "same_queue ?q q" "idle_worker q a j"
      using less.hyps [OF _ run'] by blast
    then show ?thesis using same_queue_trans [OF same] by (intro exI [of _ "Finish i # es'"]) auto
  next
    case none
    let ?tick = "\<lambda>q. check_and_scale (q\<lparr>p_ticking := True\<rparr>)"
    have tick: "\<exists>q' i. pool_run cfg now (es1 @ [ScaleOnTick]) q' \<and> same_queue q q' \<and> idle_worker q' a i"
      if q: "pool_run cfg now es1 q" "\<not> p_ticking q" "same_queue p q" "p_workers q = p_workers p" for es1 q
    proof -
      have s: "step cfg ScaleOnTick q = Some (?tick q)" using q(2) by simp
      have "p_provisioning q a = 0"
        using pool_okD(2) [OF pool_ok_run [OF q(1)]] none q(4) by (simp add: count_ok_def workers_for_def)
      then obtain i where "idle_worker (?tick q) a i"
        using scale_spawns [of r "q\<lparr>p_ticking := True\<rparr>" a] less.prems(2,3) q(3) by (auto simp: same_queue_def wants_def)
      moreover have "pool_run cfg now (es1 @ [ScaleOnTick]) (?tick q)" by (rule run_step [OF q(1) s]) simp
      ultimately show ?thesis by (auto simp: same_queue_def scale_same)
    qed
    show ?thesis
    proof (cases "p_ticking p")
      case False
      from tick [OF run False same_queue_refl refl] show ?thesis by (intro exI [of _ "[ScaleOnTick]"]) auto
    next
      case True
      let ?q = "cleanup_old_builders cfg (p\<lparr>p_ticking := False\<rparr>)"
      have s: "step cfg Cleanup p = Some ?q" using True by simp
      have run': "pool_run cfg now (es @ [Cleanup]) ?q" by (rule run_step [OF run s]) simp
      have same: "same_queue p ?q" "p_workers ?q = p_workers p" by (simp_all add: same_queue_def cleanup_same)
      have "p_ticking (fold retire_builder ks q) = p_ticking q" for ks q
        by (induction ks arbitrary: q) (simp_all add: retire_builder_def Let_def pool_simps)
      then have "p_ticking (fold (cleanup_arch cfg) als q) = p_ticking q" for als q
        by (induction als arbitrary: q) (simp_all add: cleanup_arch_def pool_simps)
      then have "\<not> p_ticking ?q" by (simp add: cleanup_old_builders_def)
      from tick [OF run' this same] obtain q' i where "pool_run cfg now ((es @ [Cleanup]) @ [ScaleOnTick]) q'"
          "same_queue ?q q'" "idle_worker q' a i" by auto
      then show ?thesis using same_queue_trans [OF same(1)] by (intro exI [of _ "[Cleanup, ScaleOnTick]"]) auto
    qed
  qed
qed

text \<open>A worker that is asked for a builder hands it to the first in the queue.\<close>

definition ahead :: "pool \<Rightarrow> string \<Rightarrow> nat \<Rightarrow> nat" where
  "ahead p a r = length (takeWhile (\<lambda>r'. r' \<noteq> r) (filter (wants p a) (p_waiters p)))"

lemma fresh_id: "\<exists>x. x \<notin> ids_in_use p"
proof -
  have "finite (ids_in_use p)" unfolding set_ids [symmetric] by simp
  then show ?thesis by (rule ex_new_if_finite [OF infinite_UNIV_listI])
qed

lemma worker_creating:
  assumes run: "pool_run cfg now es p" and i: "idle_worker p a i"
  shows "\<exists>es' q x. pool_run cfg now (es @ es') q \<and> (\<forall>e \<in> set es'. own_step e) \<and> same_queue p q \<and>
    i < length (p_workers q) \<and> p_workers q ! i = Creating a x"
proof (cases "p_workers p ! i = Spawned a")
  case False
  then show ?thesis using run i same_queue_refl by (intro exI [of _ "[]"]) (auto simp: idle_worker_def)
next
  case True
  obtain x where x: "x \<notin> ids_in_use p" using fresh_id by blast
  let ?q = "set_worker i (Creating a x) p"
  have s: "step cfg (Draw i x) p = Some ?q" using True i by (simp add: idle_worker_def)
  have "pool_run cfg now (es @ [Draw i x]) ?q" by (rule run_step [OF run s]) (simp add: x)
  then show ?thesis
    using i by (intro exI [of _ "[Draw i x]"] exI [of _ ?q]) (auto simp: same_queue_def idle_worker_def pool_simps)
qed

lemma find_filter: "find P xs = Some y \<Longrightarrow> filter P xs = y # filter P (remove1 y xs)"
proof (induction xs)
  case (Cons x xs)
  from Cons.prems have "P y" unfolding find_Some_iff by blast
  with Cons show ?case by (auto split: if_splits)
qed simp

text \<open>One more builder: the caller is served, or has one fewer in front of it.\<close>

lemma publish_progress:
  assumes p: "pool_ok p" and i: "i < length (p_workers p)" "p_workers p ! i = Creating a x"
    and r: "r \<in> set (p_waiters p)" "wants p a r"
    and p': "step cfg (Publish i ip) p = Some p'"
  shows "(r < length (p_requests p') \<and> rq_chan (p_requests p' ! r) = Some (length (p_heap p)) \<and>
       rq_phase (p_requests p' ! r) = rq_phase (p_requests p ! r)) \<or>
    (r \<in> set (p_waiters p') \<and> wants p' a r \<and> ahead p' a r < ahead p a r \<and>
       rq_phase (p_requests p' ! r) = rq_phase (p_requests p ! r))"
proof -
  let ?k = "length (p_heap p)"
  let ?p1 = "p\<lparr>p_heap := p_heap p @ [new_builder x ip a (p_clock p)], p_builders := AList.update x ?k (p_builders p)\<rparr>"
  have q: "distinct (p_waiters p)" "\<And>r. r \<in> set (p_waiters p) \<Longrightarrow> r < length (p_requests p)"
    using custodyD(5) [OF pool_okD(1) [OF p]] by (auto simp: queue_ok_def)
  have w1: "wants ?p1 a = wants p a" by (simp add: wants_def fun_eq_iff)
  obtain r0 where r0: "find (wants p a) (p_waiters p) = Some r0"
    using r by (metis find_None_iff not_Some_eq)
  have in0: "r0 \<in> set (p_waiters p)" "wants p a r0" using r0 by (auto simp: find_Some_iff)
  let ?p2 = "on_request r0 (\<lambda>q. q\<lparr>rq_chan := Some ?k\<rparr>) (?p1\<lparr>p_waiters := remove1 r0 (p_waiters p)\<rparr>)"
  have "publish_builder x ip a p = ?p2"
    using r0 by (simp add: publish_builder_def Let_def hand_off_def w1)
  then have p'': "p' = set_worker i (Finishing a) ?p2" using p' i by simp
  have requests: "p_requests p' = (p_requests p)[r0 := (p_requests p ! r0)\<lparr>rq_chan := Some ?k\<rparr>]"
    and waiters: "p_waiters p' = remove1 r0 (p_waiters p)" by (simp_all add: p'' pool_simps)
  show ?thesis
  proof (cases "r0 = r")
    case True
    then show ?thesis using q(2) [OF r(1)] by (simp add: requests)
  next
    case False
    have other: "wants p' a r' \<longleftrightarrow> wants p a r'" if "r' \<noteq> r0" for r' using that by (simp add: wants_def requests)
    have "filter (wants p' a) (remove1 r0 (p_waiters p)) = filter (wants p a) (remove1 r0 (p_waiters p))"
      using q(1) other by (intro filter_cong refl) auto
    then have "ahead p a r = Suc (ahead p' a r)"
      using False by (simp add: ahead_def waiters find_filter [OF r0])
    then show ?thesis using False r other by (simp add: waiters in_set_remove1 requests)
  qed
qed

lemma queue_served:
  assumes "pool_run cfg now es p" "r \<in> set (p_waiters p)" "wants p a r"
  shows "\<exists>es' q k. pool_run cfg now (es @ es') q \<and> (\<forall>e \<in> set es'. own_step e) \<and>
    r < length (p_requests q) \<and> rq_chan (p_requests q ! r) = Some k \<and>
    rq_phase (p_requests q ! r) = rq_phase (p_requests p ! r)"
  using assms
proof (induction "ahead p a r" arbitrary: p es rule: less_induct)
  case less
  obtain es1 q i where q: "pool_run cfg now (es @ es1) q" "\<forall>e \<in> set es1. own_step e" "same_queue p q" "idle_worker q a i"
    using worker_available [OF less.prems] by blast
  obtain es2 q' x where q': "pool_run cfg now ((es @ es1) @ es2) q'" "\<forall>e \<in> set es2. own_step e" "same_queue q q'"
      "i < length (p_workers q')" "p_workers q' ! i = Creating a x"
    using worker_creating [OF q(1,4)] by blast
  have same: "same_queue p q'" by (rule same_queue_trans [OF q(3) q'(3)])
  have r: "r \<in> set (p_waiters q')" "wants q' a r" using same less.prems(2,3) by (simp_all add: same_queue_def wants_def)
  have ahead: "ahead q' a r = ahead p a r" using same by (simp add: ahead_def same_queue_def wants_def [abs_def])
  obtain p' where s: "step cfg (Publish i []) q' = Some p'" using q'(4,5) by simp
  have run': "pool_run cfg now (((es @ es1) @ es2) @ [Publish i []]) p'" by (rule run_step [OF q'(1) s]) simp
  from publish_progress [OF pool_ok_run [OF q'(1)] q'(4,5) r s] show ?case
  proof (elim disjE conjE)
    assume "r < length (p_requests p')" "rq_chan (p_requests p' ! r) = Some (length (p_heap q'))"
      "rq_phase (p_requests p' ! r) = rq_phase (p_requests q' ! r)"
    then show ?thesis
      using run' q(2) q'(2) same by (intro exI [of _ "es1 @ es2 @ [Publish i []]"]) (auto simp: same_queue_def)
  next
    assume later: "r \<in> set (p_waiters p')" "wants p' a r" "ahead p' a r < ahead q' a r"
      "rq_phase (p_requests p' ! r) = rq_phase (p_requests q' ! r)"
    have phase: "rq_phase (p_requests p' ! r) = rq_phase (p_requests p ! r)"
      using later(4) same by (simp add: same_queue_def)
    obtain es3 q3 k where "pool_run cfg now ((((es @ es1) @ es2) @ [Publish i []]) @ es3) q3" "\<forall>e \<in> set es3. own_step e"
        "r < length (p_requests q3)" "rq_chan (p_requests q3 ! r) = Some k"
        "rq_phase (p_requests q3 ! r) = rq_phase (p_requests p' ! r)"
      using less.hyps [OF _ run' later(1,2)] later(3) ahead by auto
    then show ?thesis
      using q(2) q'(2) phase by (intro exI [of _ "es1 @ es2 @ [Publish i []] @ es3"]) auto
  qed
qed

text \<open>
  C9: nobody waits in vain. Whatever has happened - workers that failed or are about to end, callers that
  gave up, signals that were dropped - a caller whose request is in the queue and whose time is not
  over gets a builder of its architecture if the pool's own goroutines run (a tick and its clean-up,
  workers that draw an identifier and whose machine comes up) and then the caller does: it ends with the
  builder in its hands.
\<close>
theorem queue_progress:
  assumes "pool_run cfg now es p" "r \<in> set (p_waiters p)" "\<not> rq_cancelled (p_requests p ! r)"
  shows "\<exists>es' q k. pool_run cfg now (es @ es') q \<and>
    (\<forall>e \<in> set es'. own_step e \<or> e \<in> {Signal r, Receive r, Take r}) \<and>
    rq_phase (p_requests q ! r) = Got k \<and> k \<in> set (p_users q) \<and>
    bl_arch (p_heap q ! k) = rq_arch (p_requests q ! r)"
proof -
  have queue: "r < length (p_requests p)" "queued (p_requests p ! r)"
    using custodyD(5) [OF pool_okD(1) [OF pool_ok_run [OF assms(1)]]] assms(2) by (auto simp: queue_ok_def)
  have phase: "rq_phase (p_requests p ! r) \<in> {Signalling, Waiting}"
    using request_at [OF pool_okD(1) [OF pool_ok_run [OF assms(1)]] queue(1)] queue(2) assms(3)
    by (auto simp: queued_def request_ok_def)
  have want: "wants p (rq_arch (p_requests p ! r)) r" using assms(3) by (simp add: wants_def)
  obtain es1 q1 k where q1: "pool_run cfg now (es @ es1) q1" "\<forall>e \<in> set es1. own_step e" "r < length (p_requests q1)"
      "rq_chan (p_requests q1 ! r) = Some k" "rq_phase (p_requests q1 ! r) = rq_phase (p_requests p ! r)"
    using queue_served [OF assms(1,2) want] by blast
  obtain es2 q2 where q2: "pool_run cfg now (es @ es1 @ es2) q2" "set es2 \<subseteq> {Signal r}" "in_phase q2 r Waiting"
      "rq_chan (p_requests q2 ! r) = Some k"
  proof (cases "rq_phase (p_requests q1 ! r) = Signalling")
    case True
    let ?q = "signal_provisioning r q1"
    have "step cfg (Signal r) q1 = Some ?q" using True q1(3) by (simp add: in_phase_def)
    then have "pool_run cfg now ((es @ es1) @ [Signal r]) ?q" by (rule run_step [OF q1(1)]) simp
    then show thesis
      using q1(3,4) by (intro that [of "[Signal r]" ?q]) (simp_all add: signal_provisioning_def in_phase_def pool_simps)
  next
    case False
    then show thesis using q1 phase by (intro that [of "[]" q1]) (simp_all add: in_phase_def)
  qed
  let ?q3 = "receive_builder r k q2" let ?q4 = "take_builder r k ?q3"
  have len: "r < length (p_requests q2)" using q2(3) by (simp add: in_phase_def)
  have "step cfg (Receive r) q2 = Some ?q3" using q2(3,4) by simp
  then have run3: "pool_run cfg now ((es @ es1 @ es2) @ [Receive r]) ?q3" by (rule run_step [OF q2(1)]) simp
  have taking: "r < length (p_requests ?q3)" "rq_phase (p_requests ?q3 ! r) = Taking k"
    using len by (simp_all add: receive_builder_def pool_simps)
  then have "step cfg (Take r) ?q3 = Some ?q4" by simp
  then have run4: "pool_run cfg now (((es @ es1 @ es2) @ [Receive r]) @ [Take r]) ?q4" by (rule run_step [OF run3]) simp
  have "holds ?q3 r k" using taking by (simp add: holds_def)
  note held = heldD [OF pool_okD(1) [OF pool_ok_run [OF run3]] this]
  have "rq_phase (p_requests ?q4 ! r) = Got k" "k \<in> set (p_users ?q4)"
    "bl_arch (p_heap ?q4 ! k) = rq_arch (p_requests ?q4 ! r)"
    using taking held(1,3) by (simp_all add: take_builder_def assign_builder_def Let_def pool_simps)
  then show ?thesis
    using run4 q1(2) q2(2) by (intro exI [of _ "es1 @ es2 @ [Receive r, Take r]"] exI [of _ ?q4] exI [of _ k]) auto
qed

definition waiting_caller :: pool where
  "waiting_caller = the (exec demo_config [Ask ''/nix/store/a.drv'' ''aarch64-linux''] (new_pool 0))"

lemma waiting_run:
  "exec demo_config [Ask ''/nix/store/a.drv'' ''aarch64-linux''] (new_pool 0) = Some waiting_caller"
  "p_waiters waiting_caller = [0]" "\<not> rq_cancelled (p_requests waiting_caller ! 0)"
  by (simp_all add: waiting_caller_def demo_config_def exec_simps)

lemma queue_progress_witness:
  "\<exists>es' q k. pool_run demo_config 0 ([Ask ''/nix/store/a.drv'' ''aarch64-linux''] @ es') q \<and> k \<in> set (p_users q)"
  using queue_progress [OF exec_run [OF waiting_run(1)], of 0] waiting_run(2,3) by auto

section \<open>The clean-up\<close>

lemma idle_retire: "is_idle cfg (retire_builder k p) j \<longleftrightarrow> is_idle cfg p j"
proof -
  have "bl_last_used ((p_heap p)[k := (p_heap p ! k)\<lparr>bl_status := Destroying\<rparr>] ! j) = bl_last_used (p_heap p ! j)"
    by (cases "k < length (p_heap p)") (auto simp: nth_list_update list_update_beyond)
  then show ?thesis by (simp add: is_idle_def retire_simps)
qed

lemma retires_effect:
  "pooled_for (fold retire_builder ks p) a = pooled_for p a"
  "is_idle cfg (fold retire_builder ks p) j \<longleftrightarrow> is_idle cfg p j"
  "p_users (fold retire_builder ks p) = p_users p" "p_requests (fold retire_builder ks p) = p_requests p"
  "bl_id (p_heap (fold retire_builder ks p) ! j) = bl_id (p_heap p ! j)"
  "p_destroyed (fold retire_builder ks p) = p_destroyed p @ map (\<lambda>k. bl_id (p_heap p ! k)) ks"
proof -
  have ids: "bl_id (p_heap (retire_builder k p) ! j) = bl_id (p_heap p ! j)" for k j p
    by (cases "k < length (p_heap p)") (auto simp: nth_list_update list_update_beyond retire_simps)
  show "pooled_for (fold retire_builder ks p) a = pooled_for p a"
    by (induction ks arbitrary: p) (simp_all add: pooled_for_def pool_simps)
  show "is_idle cfg (fold retire_builder ks p) j \<longleftrightarrow> is_idle cfg p j"
    by (induction ks arbitrary: p) (simp_all add: idle_retire)
  show "p_users (fold retire_builder ks p) = p_users p" "p_requests (fold retire_builder ks p) = p_requests p"
    by (induction ks arbitrary: p) (simp_all add: pool_simps)
  show "bl_id (p_heap (fold retire_builder ks p) ! j) = bl_id (p_heap p ! j)" by (induction ks arbitrary: p) (simp_all add: ids)
  show "p_destroyed (fold retire_builder ks p) = p_destroyed p @ map (\<lambda>k. bl_id (p_heap p ! k)) ks"
    by (induction ks arbitrary: p) (simp_all add: retire_simps(13) ids)
qed

lemma cleanup_arch_effect:
  "pooled_for (cleanup_arch cfg (a, l) p) a' = (if a' = a then filter (\<lambda>k. \<not> is_idle cfg p k) l else pooled_for p a')"
  "is_idle cfg (cleanup_arch cfg (a, l) p) j \<longleftrightarrow> is_idle cfg p j"
  "bl_id (p_heap (cleanup_arch cfg (a, l) p) ! j) = bl_id (p_heap p ! j)"
  "p_destroyed (cleanup_arch cfg (a, l) p) = p_destroyed p @ map (\<lambda>k. bl_id (p_heap p ! k)) (filter (is_idle cfg p) l)"
proof -
  have idle: "is_idle cfg (set_pooled a l q) j \<longleftrightarrow> is_idle cfg q j" for a l q j by (simp add: is_idle_def pool_simps)
  show "pooled_for (cleanup_arch cfg (a, l) p) a' = (if a' = a then filter (\<lambda>k. \<not> is_idle cfg p k) l else pooled_for p a')"
    "is_idle cfg (cleanup_arch cfg (a, l) p) j \<longleftrightarrow> is_idle cfg p j"
    "bl_id (p_heap (cleanup_arch cfg (a, l) p) ! j) = bl_id (p_heap p ! j)"
    "p_destroyed (cleanup_arch cfg (a, l) p) = p_destroyed p @ map (\<lambda>k. bl_id (p_heap p ! k)) (filter (is_idle cfg p) l)"
    by (simp_all add: cleanup_arch_def idle retires_effect pool_simps)
qed

lemma cleanup_fold:
  "distinct (map fst als) \<Longrightarrow> (\<forall>(a, l) \<in> set als. l = pooled_for p a) \<Longrightarrow>
     pooled_for (fold (cleanup_arch cfg) als p) a =
       (if a \<in> fst ` set als then filter (\<lambda>k. \<not> is_idle cfg p k) (pooled_for p a) else pooled_for p a) \<and>
     set (p_destroyed (fold (cleanup_arch cfg) als p)) =
       set (p_destroyed p) \<union> {bl_id (p_heap p ! k) | k a. a \<in> fst ` set als \<and> k \<in> set (pooled_for p a) \<and> is_idle cfg p k}"
proof (induction als arbitrary: p)
  case (Cons al als)
  obtain b l where al: "al = (b, l)" by (cases al)
  let ?q = "cleanup_arch cfg (b, l) p"
  have l: "l = pooled_for p b" and d: "b \<notin> fst ` set als" "distinct (map fst als)" using Cons.prems al by auto
  have rest: "\<forall>(a, l) \<in> set als. l = pooled_for ?q a"
  proof clarify
    fix a l' assume in_als: "(a, l') \<in> set als"
    then have "a \<noteq> b" using d(1) by force
    moreover have "l' = pooled_for p a" using Cons.prems(2) in_als al by auto
    ultimately show "l' = pooled_for ?q a" by (simp add: cleanup_arch_effect(1))
  qed
  have "pooled_for ?q a = pooled_for p a" if "a \<in> fst ` set als" for a
    using that d(1) by (auto simp: cleanup_arch_effect)
  then have later: "{bl_id (p_heap ?q ! k) | k a. a \<in> fst ` set als \<and> k \<in> set (pooled_for ?q a) \<and> is_idle cfg ?q k} =
      {bl_id (p_heap p ! k) | k a. a \<in> fst ` set als \<and> k \<in> set (pooled_for p a) \<and> is_idle cfg p k}"
    unfolding cleanup_arch_effect(2,3) by metis
  have now: "set (p_destroyed ?q) = set (p_destroyed p) \<union> {bl_id (p_heap p ! k) | k. k \<in> set (pooled_for p b) \<and> is_idle cfg p k}"
    by (auto simp: cleanup_arch_effect(4) l)
  have split: "{bl_id (p_heap p ! k) | k a. a \<in> fst ` set (al # als) \<and> k \<in> set (pooled_for p a) \<and> is_idle cfg p k} =
      {bl_id (p_heap p ! k) | k. k \<in> set (pooled_for p b) \<and> is_idle cfg p k} \<union>
      {bl_id (p_heap p ! k) | k a. a \<in> fst ` set als \<and> k \<in> set (pooled_for p a) \<and> is_idle cfg p k}"
    unfolding al by simp blast
  have fold: "fold (cleanup_arch cfg) (al # als) p = fold (cleanup_arch cfg) als ?q" by (simp add: al)
  note IH = Cons.IH [OF d(2) rest]
  have "pooled_for (fold (cleanup_arch cfg) (al # als) p) a =
      (if a \<in> fst ` set (al # als) then filter (\<lambda>k. \<not> is_idle cfg p k) (pooled_for p a) else pooled_for p a)"
    using conjunct1 [OF IH] d(1) l unfolding fold by (simp add: cleanup_arch_effect(1,2) al)
  moreover have "set (p_destroyed (fold (cleanup_arch cfg) (al # als) p)) = set (p_destroyed p) \<union>
      {bl_id (p_heap p ! k) | k a. a \<in> fst ` set (al # als) \<and> k \<in> set (pooled_for p a) \<and> is_idle cfg p k}"
    using conjunct2 [OF IH] unfolding fold later now split Un_assoc .
  ultimately show ?case by blast
qed auto

text \<open>
  C31: the clean-up destroys exactly the idle builders of the pool. After the second half of a tick, the
  shelf of every architecture has lost its idle builders and kept the others in their order; \<open>Destroy\<close>
  was asked for just the idle ones; callers and requests are as before. A builder that was used is idle
  when it was given back longer ago than the timeout. But one that was never used has no time of last
  use: it is idle from the start, whatever the timeout - so a builder that comes up when its caller has
  gone is destroyed at the next tick.
\<close>
theorem cleanup_exact:
  assumes "pool_run cfg now es p" "step cfg Cleanup p = Some p'"
  shows "(\<forall>a. pooled_for p' a = filter (\<lambda>k. \<not> is_idle cfg p k) (pooled_for p a)) \<and>
    set (p_destroyed p') = set (p_destroyed p) \<union> {bl_id (p_heap p ! k) | k a. k \<in> set (pooled_for p a) \<and> is_idle cfg p k} \<and>
    p_users p' = p_users p \<and> p_requests p' = p_requests p \<and>
    (\<forall>k. \<bar>p_clock p - bl_last_used (p_heap p ! k)\<bar> < 2 ^ 63 \<longrightarrow>
       is_idle cfg p k = (p_clock p - bl_last_used (p_heap p ! k) > pl_idle_timeout cfg)) \<and>
    (\<forall>k. bl_last_used (p_heap p ! k) = 0 \<longrightarrow> 2 ^ 63 \<le> p_clock p \<longrightarrow> pl_idle_timeout cfg < 2 ^ 63 - 1 \<longrightarrow> is_idle cfg p k)"
proof -
  let ?p = "p\<lparr>p_ticking := False\<rparr>"
  have p': "p' = cleanup_old_builders cfg ?p" using assms(2) by (auto split: if_splits)
  have d: "distinct (map fst (p_available p))"
    using custodyD(3) [OF pool_okD(1) [OF pool_ok_run [OF assms(1)]]] by (simp add: pooled_ok_def)
  have l: "\<forall>(a, l) \<in> set (p_available ?p). l = pooled_for ?p a" using d by (auto simp: pooled_for_def)
  have same: "pooled_for ?p a = pooled_for p a" "is_idle cfg ?p k = is_idle cfg p k" for a k
    by (simp_all add: pooled_for_def is_idle_def)
  have empty: "pooled_for p a = []" if "a \<notin> fst ` set (p_available p)" for a
    using that by (simp add: pooled_for_def map_of_eq_None_iff [THEN iffD2])
  have keys: "a \<in> fst ` set (p_available p)" if "k \<in> set (pooled_for p a)" for a k
    using that empty [of a] by fastforce
  have "pooled_for p' a = filter (\<lambda>k. \<not> is_idle cfg p k) (pooled_for p a)" for a
    using cleanup_fold [of "p_available ?p" ?p cfg a] d l empty [of a]
    by (simp add: p' cleanup_old_builders_def same)
  moreover have "set (p_destroyed p') = set (p_destroyed p) \<union> {bl_id (p_heap p ! k) | k a. k \<in> set (pooled_for p a) \<and> is_idle cfg p k}"
  proof -
    have "{bl_id (p_heap p ! k) | k a. a \<in> fst ` set (p_available p) \<and> k \<in> set (pooled_for p a) \<and> is_idle cfg p k} =
        {bl_id (p_heap p ! k) | k a. k \<in> set (pooled_for p a) \<and> is_idle cfg p k}"
      using keys by blast
    then show ?thesis using cleanup_fold [of "p_available ?p" ?p cfg] d l by (simp add: p' cleanup_old_builders_def same)
  qed
  ultimately show ?thesis
    using cleanup_same [of cfg ?p] by (auto simp: p' is_idle_def time_sub_def)
qed

text \<open>
  The witness: reuse is off, the pool may hold no builder, builders may be idle for an hour - and a
  builder made for a caller who left is pooled, and destroyed at the next tick.
\<close>

definition no_reuse :: pool_config where
  "no_reuse = \<lparr>pl_reuse = False, pl_max_pool_size = 0, pl_destroy_delay = 0, pl_idle_timeout = 60 * minute\<rparr>"

definition late_builder :: pool where
  "late_builder = the (exec no_reuse [Ask ''/nix/store/a.drv'' ''x86_64-linux'', Signal 0, ScaleOnSignal, Draw 0 ''b1'',
     Pass (10 * minute), Expire 0, GiveUp 0, Withdraw 0, Publish 0 ''10.0.0.1'', Finish 0, ScaleOnTick] (new_pool (2 ^ 63)))"

definition after_tick :: pool where
  "after_tick = the (step no_reuse Cleanup late_builder)"

lemma late_run:
  "exec no_reuse [Ask ''/nix/store/a.drv'' ''x86_64-linux'', Signal 0, ScaleOnSignal, Draw 0 ''b1'',
     Pass (10 * minute), Expire 0, GiveUp 0, Withdraw 0, Publish 0 ''10.0.0.1'', Finish 0, ScaleOnTick] (new_pool (2 ^ 63)) =
     Some late_builder"
  "step no_reuse Cleanup late_builder = Some after_tick"
  "pooled_for late_builder ''x86_64'' = [0]" "bl_last_used (p_heap late_builder ! 0) = 0"
  "bl_created (p_heap late_builder ! 0) = p_clock late_builder"
  "bl_id (p_heap late_builder ! 0) = ''b1''" "p_clock late_builder = 2 ^ 63 + 10 * minute"
  by (simp_all add: late_builder_def after_tick_def no_reuse_def exec_simps)

lemma cleanup_exact_witness:
  "pooled_for late_builder ''x86_64'' = [0] \<and> bl_created (p_heap late_builder ! 0) = p_clock late_builder \<and>
   pooled_for after_tick ''x86_64'' = [] \<and> ''b1'' \<in> set (p_destroyed after_tick)"
proof -
  note clean = cleanup_exact [OF exec_run [OF late_run(1)] late_run(2)]
  have "is_idle no_reuse late_builder 0"
    using clean late_run(4,7) by (simp add: no_reuse_def minute_def second_def)
  moreover from this have "''b1'' \<in> {bl_id (p_heap late_builder ! k) | k a. k \<in> set (pooled_for late_builder a) \<and> is_idle no_reuse late_builder k}"
    using late_run(3,6) by (intro CollectI exI [of _ 0] exI [of _ "''x86_64''"]) simp
  ultimately show ?thesis using clean late_run(3,5) by simp
qed

section \<open>The status page\<close>

text \<open>
  The status page is a faithful snapshot. It lists each builder of the map once, newest first, with
  the fields it has; the builders in use it shows are those the callers hold; it counts the
  requests in the queue that have not timed out; and it shows, for the architectures that have any,
  the number of provisioning goroutines that run.
\<close>
theorem status_faithful:
  assumes "pool_run cfg now es p" "DestroyAll \<notin> set es"
  shows "sorted_wrt (\<lambda>i j. bs_created i \<ge> bs_created j) (ps_builders (pool_status seconds p)) \<and>
    distinct (map bs_id (ps_builders (pool_status seconds p))) \<and>
    set (ps_builders (pool_status seconds p)) =
      {status_info seconds (p_clock p) (p_heap p ! k) | k. map_of (p_builders p) (bl_id (p_heap p ! k)) = Some k} \<and>
    (\<forall>k \<in> set (p_users p). status_info seconds (p_clock p) (p_heap p ! k) \<in> set (ps_builders (pool_status seconds p)) \<and>
       bs_status (status_info seconds (p_clock p) (p_heap p ! k)) = ''in_use'') \<and>
    ps_pending_requests (pool_status seconds p) = card {r. r < length (p_requests p) \<and> queued (p_requests p ! r) \<and> \<not> rq_cancelled (p_requests p ! r)} \<and>
    (\<forall>a. ps_provisioning_count (pool_status seconds p) a =
       (if workers_for p a = 0 then None else Some (int (workers_for p a))))"
proof -
  note ok = pool_okD [OF pool_ok_run [OF assms(1)]]
  let ?f = "\<lambda>k. status_info seconds (p_clock p) (p_heap p ! k)"
  let ?l = "map (\<lambda>(_, k). ?f k) (p_builders p)"
  have builders: "ps_builders (pool_status seconds p) = sort_key (\<lambda>i. - bs_created i) ?l" by (simp add: pool_status_def)
  have sorted: "sorted_wrt (\<lambda>i j. bs_created i \<ge> bs_created j) (ps_builders (pool_status seconds p))"
    using sorted_sort_key [of "\<lambda>i. - bs_created i" ?l] by (simp add: builders sorted_map)
  have d: "distinct (map fst (p_builders p))"
    and entry: "\<And>x k. (x, k) \<in> set (p_builders p) \<longleftrightarrow> map_of (p_builders p) x = Some k"
    and ids: "\<And>x k. map_of (p_builders p) x = Some k \<Longrightarrow> k < length (p_heap p) \<and> bl_id (p_heap p ! k) = x"
    using ok(4) by (auto simp: tracked_ok_def)
  have names: "map bs_id ?l = map fst (p_builders p)"
    using entry ids by (auto simp: status_info_def)
  have distinct: "distinct (map bs_id (ps_builders (pool_status seconds p)))"
  proof -
    have "mset (map bs_id (sort_key (\<lambda>i. - bs_created i) ?l)) = mset (map bs_id ?l)" by (simp only: mset_map mset_sort)
    from mset_eq_imp_distinct_iff [OF this] show ?thesis unfolding builders names using d by blast
  qed
  have set: "set (ps_builders (pool_status seconds p)) = {?f k | k. map_of (p_builders p) (bl_id (p_heap p ! k)) = Some k}"
    (is "_ = ?R")
  proof -
    have "set (ps_builders (pool_status seconds p)) = (\<lambda>(_, k). ?f k) ` set (p_builders p)" by (simp add: builders)
    also have "\<dots> = ?R" using entry ids by (force simp: image_iff)
    finally show ?thesis .
  qed
  have li: "listed p" using kept_run [OF assms] by (simp add: kept_def)
  have users: "?f k \<in> ?R \<and> bs_status (?f k) = ''in_use''" if "k \<in> set (p_users p)" for k
  proof -
    have "k < length (p_heap p)" "status_of p k = InUse" using custodyD(1) [OF ok(1)] that by (auto simp: users_ok_def)
    then show ?thesis using listedD(1) [OF li, of k] by (auto simp: status_info_def)
  qed
  have pending: "ps_pending_requests (pool_status seconds p) =
      card {r. r < length (p_requests p) \<and> queued (p_requests p ! r) \<and> \<not> rq_cancelled (p_requests p ! r)}"
  proof -
    have q: "distinct (p_waiters p)" "r \<in> set (p_waiters p) \<longleftrightarrow> r < length (p_requests p) \<and> queued (p_requests p ! r)" for r
      using custodyD(5) [OF ok(1)] by (auto simp: queue_ok_def)
    have "ps_pending_requests (pool_status seconds p) = card (set (filter (\<lambda>r. \<not> rq_cancelled (p_requests p ! r)) (p_waiters p)))"
      by (simp add: pool_status_def distinct_card [OF distinct_filter [OF q(1)], symmetric] del: set_filter)
    also have "set (filter (\<lambda>r. \<not> rq_cancelled (p_requests p ! r)) (p_waiters p)) =
        {r. r < length (p_requests p) \<and> queued (p_requests p ! r) \<and> \<not> rq_cancelled (p_requests p ! r)}"
      using q(2) by auto
    finally show ?thesis .
  qed
  have "ps_provisioning_count (pool_status seconds p) a = (if workers_for p a = 0 then None else Some (int (workers_for p a)))" for a
    using ok(2) by (simp add: pool_status_def count_ok_def)
  then show ?thesis using sorted distinct set users pending by simp
qed

lemma status_faithful_witness:
  "ps_provisioning_count (pool_status id after_crossing) ''x86_64'' = (if workers_for after_crossing ''x86_64'' = 0 then None else Some (int (workers_for after_crossing ''x86_64'')))"
proof -
  have "DestroyAll \<notin> set crossing" by (simp add: crossing_def)
  from status_faithful [OF exec_run [OF crossing_run(1)] this, of id] show ?thesis by blast
qed

end
