(* ===== verification/Web_Interface.thy ===== *)
theory Web_Interface
  imports Metrics Pool_Progress
begin

text \<open>
  The web interface (\<open>webui.go\<close>): which handler of the multiplexer answers a request, and what it answers.
  The encoding as JSON, the headers and the embedded files are the library's.
\<close>

section \<open>Requests and answers\<close>

text \<open>
  A request: its method, its path, and the values of its query. A pattern \<open>GET /path\<close> of the multiplexer
  takes the requests \<open>GET\<close> and \<open>HEAD\<close> for exactly that path; the pattern \<open>/\<close> takes all others. \<open>failing\<close> is the
  error of the database, when there is one.
\<close>

record web_request =
  wr_method :: string
  wr_path :: string
  wr_query :: "string \<Rightarrow> string"

datatype web_answer =
    StatusAnswer pool_status_info
  | BuildsAnswer build_list
  | StatsAnswer store_summary
  | ServerError string
  | AssetAnswer string

definition answered :: "io_error option \<Rightarrow> web_answer \<Rightarrow> web_answer" where
  "answered failing a = (case failing of Some e \<Rightarrow> ServerError (err_text e) | None \<Rightarrow> a)"

definition routed :: "web_request \<Rightarrow> string \<Rightarrow> bool" where
  "routed r path \<longleftrightarrow> wr_method r \<in> {''GET'', ''HEAD''} \<and> wr_path r = path"

definition serve_web :: "(int \<Rightarrow> int) \<Rightarrow> io_error option \<Rightarrow> pool \<Rightarrow> metrics_store \<Rightarrow> web_request \<Rightarrow> web_answer" where
  "serve_web seconds failing p s r =
     (if routed r ''/api/status'' then StatusAnswer (pool_status seconds p)
      else if routed r ''/api/builds'' then answered failing (BuildsAnswer (api_builds (wr_query r) s))
      else if routed r ''/api/stats'' then answered failing (StatsAnswer (api_stats s))
      else AssetAnswer (wr_path r))"

section \<open>What a request can get\<close>

text \<open>
  No query gets more than 500 builds or one that was not recorded, and every recorded build can be asked
  for: the parameters of a request that are no numbers, or out of range, count as the first fifty.
\<close>

lemma builds_answer:
  assumes "serve_web seconds failing p s r = BuildsAnswer l"
  shows "length (bl_builds l) \<le> 500" and "set (bl_builds l) \<subseteq> row_of_entry ` set (ms_rows s)"
    and "bl_total l = length (ms_rows s)"
proof -
  have l: "l = api_builds (wr_query r) s"
    using assms by (auto simp: serve_web_def answered_def split: if_splits option.splits)
  show "length (bl_builds l) \<le> 500"
    using page_bounds(1) [of "wr_query r ''limit''"] by (auto simp: l api_builds_def list_builds_def limited_def Let_def min_def)
  show "set (bl_builds l) \<subseteq> row_of_entry ` set (ms_rows s)"
    by (auto simp: l api_builds_def list_builds_def limited_def Let_def dest!: in_set_takeD in_set_dropD)
  show "bl_total l = length (ms_rows s)"
    by (simp add: l api_builds_def list_builds_def)
qed

lemma digits_value_decimal: "digits_value (decimal n) = n"
proof -
  have snoc: "digits_value (xs @ [c]) = 10 * digits_value xs + (of_char c - 48)" for xs c
    by (simp add: digits_value_def)
  have char: "of_char (char_of (48 + i) :: char) = 48 + i" if "i < 10" for i :: nat
    using that by simp
  have "digits_value (rev (decimal_rev n)) = n"
  proof (induction n rule: decimal_rev.induct)
    case (1 n)
    show ?case
    proof (cases "n < 10")
      case True
      then show ?thesis using snoc [of "[]"] char [of n] by (subst decimal_rev.simps) (simp add: digits_value_def)
    next
      case False
      then show ?thesis using 1 snoc char [of "n mod 10"] by (subst decimal_rev.simps) simp
    qed
  qed
  then show ?thesis by (simp add: decimal_def)
qed

lemma atoi_decimal: "k < 2 ^ 63 \<Longrightarrow> atoi (decimal k) = Some (int k)"
proof -
  assume "k < 2 ^ 63"
  have digits: "list_all is_digit (decimal k)"
    using decimal_digits [of _ k] by (auto simp: list_all_iff is_digit_def less_eq_char_def)
  moreover have "decimal k \<noteq> []" by (simp add: decimal_def decimal_rev_nonempty)
  moreover have "\<not> prefix ''-'' (decimal k)" "\<not> prefix ''+'' (decimal k)"
    using digits by (cases "decimal k"; auto simp: is_digit_def less_eq_char_def)+
  moreover have "int k < 2 ^ 63" using \<open>k < 2 ^ 63\<close> by simp
  ultimately show ?thesis by (simp add: atoi_def digits_value_decimal)
qed

lemma builds_answer_page:
  assumes "metrics_ok s" and "routed r ''/api/builds''" and "0 < n" and "n \<le> 500" and "k < 2 ^ 63"
    and "wr_query r ''limit'' = decimal n" and "wr_query r ''offset'' = decimal k"
  shows "serve_web seconds None p s r = BuildsAnswer
    \<lparr>bl_total = length (ms_rows s), bl_builds = take n (drop k (rev (map row_of_entry (ms_rows s))))\<rparr>"
  using assms list_builds_page [OF assms(1), of n k]
  by (simp add: serve_web_def answered_def api_builds_def page_limit_def page_offset_def atoi_decimal routed_def list_builds_def)

end
